(* ===== verification/Prelude.thy ===== *)
theory Prelude
  imports Main "HOL-Library.Word"
begin

text \<open>
  Shared vocabulary of the development: the fact collections the component theories feed
  and use, the interface locales for operations that several components implement (a guard
  that lets an action run once, an event-driven component with an invariant, a registry
  keyed by a tag), and generic facts on lists, options and maps.
\<close>

named_theorems leg_simps \<open>equations of the operations of a SIP call leg\<close>
named_theorems call_simps \<open>equations of the operations of a call\<close>
named_theorems frame \<open>fields an operation leaves alone\<close>

text \<open>
  What running a piece of code may come to: it returns a value, it panics (a nil map or
  pointer is used), or it still waits in a \<open>select\<close> with no event left to take.
\<close>

datatype 'a outcome = Returns 'a | Panics | Blocked

fun bind_outcome :: "'a outcome \<Rightarrow> ('a \<Rightarrow> 'b outcome) \<Rightarrow> 'b outcome" where
  "bind_outcome (Returns x) f = f x"
| "bind_outcome Panics f = Panics"
| "bind_outcome Blocked f = Blocked"

lemma bind_outcome_Returns:
  "bind_outcome m f = Returns y \<longleftrightarrow> (\<exists>x. m = Returns x \<and> f x = Returns y)"
  by (cases m) auto

section \<open>An operation guarded to take effect once\<close>

text \<open>
  The code guards its teardown with \<open>atomic.Bool.CompareAndSwap(false, true)\<close> or with
  \<open>core.Fuse.Once\<close>: the first call acts and marks the object, every later call returns
  at once. The interface is the mark and the operation; what a client relies on is that
  calling again changes nothing, whatever the arguments of the later calls.
\<close>

locale once_op =
  fixes is_done :: "'s \<Rightarrow> bool"
    and fire :: "'a \<Rightarrow> 's \<Rightarrow> 's"
  assumes fire_marks: "is_done (fire a s)"
    and fire_skips: "is_done s \<Longrightarrow> fire a s = s"
begin

lemma fire_again: "fire b (fire a s) = fire a s"
  by (rule fire_skips) (rule fire_marks)

lemma fire_all: "fold fire as (fire a s) = fire a s"
  by (induction as) (simp_all add: fire_again)

lemma first_fire_wins: "as \<noteq> [] \<Longrightarrow> fold fire as s = fire (hd as) s"
  by (cases as) (simp_all add: fire_all)

lemma fire_all_done: "is_done s \<Longrightarrow> fold fire as s = s"
  by (induction as) (simp_all add: fire_skips)

end

section \<open>An event-driven component with an invariant\<close>

locale event_system =
  fixes handle :: "'e \<Rightarrow> 's \<Rightarrow> 's"
    and inv :: "'s \<Rightarrow> bool"
  assumes handle_inv: "inv s \<Longrightarrow> inv (handle e s)"
begin

lemma run_inv: "inv s \<Longrightarrow> inv (fold handle es s)"
  by (induction es arbitrary: s) (simp_all add: handle_inv)

lemma run_prefix_inv: "inv s \<Longrightarrow> inv (fold handle (take n es) s)"
  by (rule run_inv)

end

text \<open>A component whose observable trace only grows.\<close>

locale traced_system =
  fixes handle :: "'e \<Rightarrow> 's \<Rightarrow> 's"
    and trace :: "'s \<Rightarrow> 'o list"
  assumes handle_extends: "\<exists>out. trace (handle e s) = trace s @ out"
begin

lemma run_extends: "\<exists>out. trace (fold handle es s) = trace s @ out"
proof (induction es arbitrary: s)
  case Nil
  show ?case by simp
next
  case (Cons e es)
  obtain o1 where o1: "trace (handle e s) = trace s @ o1"
    using handle_extends by blast
  obtain o2 where "trace (fold handle es (handle e s)) = trace (handle e s) @ o2"
    using Cons.IH by blast
  with o1 show ?case by simp
qed

lemma run_keeps: "x \<in> set (trace s) \<Longrightarrow> x \<in> set (trace (fold handle es s))"
  using run_extends [of es s] by auto

end

section \<open>Runs of a component whose steps may fail\<close>

text \<open>
  A step may panic or block, so a run is a list of steps that all returned. A locale each for
  an invariant of such runs (\<open>allowed\<close> says under which events it is kept) and for a
  component that is silent from some point on.
\<close>

inductive runs :: "('e \<Rightarrow> 's \<Rightarrow> 's outcome) \<Rightarrow> 's \<Rightarrow> 'e list \<Rightarrow> 's \<Rightarrow> bool"
  for step :: "'e \<Rightarrow> 's \<Rightarrow> 's outcome" where
  runs_Nil: "runs step s [] s"
| runs_snoc: "runs step s es s' \<Longrightarrow> step e s' = Returns s'' \<Longrightarrow> runs step s (es @ [e]) s''"

inductive_cases runs_NilE: "runs step s [] s'"

lemma runs_Nil_iff [simp]: "runs step s [] s' \<longleftrightarrow> s' = s"
  by (auto intro: runs_Nil elim: runs_NilE)

lemma runs_one: "step e s = Returns s' \<Longrightarrow> runs step s [e] s'"
  using runs_snoc [OF runs_Nil] by fastforce

lemma runs_append: "runs step s es s' \<Longrightarrow> runs step s' fs s'' \<Longrightarrow> runs step s (es @ fs) s''"
proof (induction fs arbitrary: s'' rule: rev_induct)
  case Nil
  then show ?case by simp
next
  case (snoc e fs)
  from snoc.prems(2) obtain t where t: "runs step s' fs t" "step e t = Returns s''"
    by (cases rule: runs.cases) auto
  from runs_snoc [OF snoc.IH [OF snoc.prems(1) t(1)] t(2)] show ?case by simp
qed

lemma runs_split:
  assumes "runs step s (es @ fs) s'"
  obtains t where "runs step s es t" and "runs step t fs s'"
  using assms
proof (induction fs arbitrary: s' thesis rule: rev_induct)
  case Nil
  then show ?case by simp
next
  case (snoc e fs)
  from snoc.prems(2) obtain u where u: "runs step s (es @ fs) u" "step e u = Returns s'"
    by (cases rule: runs.cases) auto
  from snoc.IH [OF _ u(1)] obtain t where "runs step s es t" "runs step t fs u" by blast
  with u(2) show ?case by (auto intro: snoc.prems(1) runs_snoc)
qed

lemma runs_Cons: "step e s = Returns s' \<Longrightarrow> runs step s' es s'' \<Longrightarrow> runs step s (e # es) s''"
  using runs_append [OF runs_one] by fastforce

lemma runs_single: "runs step s [e] s' \<longleftrightarrow> step e s = Returns s'"
  by (auto intro: runs_one elim: runs.cases)

locale outcome_system =
  fixes step :: "'e \<Rightarrow> 's \<Rightarrow> 's outcome"
    and inv :: "'s \<Rightarrow> bool"
    and allowed :: "'e \<Rightarrow> bool"
  assumes step_inv: "inv s \<Longrightarrow> allowed e \<Longrightarrow> step e s = Returns s' \<Longrightarrow> inv s'"
begin

lemma runs_inv: "runs step s es s' \<Longrightarrow> inv s \<Longrightarrow> (\<And>e. e \<in> set es \<Longrightarrow> allowed e) \<Longrightarrow> inv s'"
  by (induction rule: runs.induct) (auto intro: step_inv)

end

locale closing_system = outcome_system step closed "\<lambda>_. True"
  for step :: "'e \<Rightarrow> 's \<Rightarrow> 's outcome" and closed :: "'s \<Rightarrow> bool" +
  fixes said :: "'s \<Rightarrow> 'o list"
  assumes closed_silent: "closed s \<Longrightarrow> step e s = Returns s' \<Longrightarrow> said s' = said s"
begin

lemma runs_closed: "runs step s es s' \<Longrightarrow> closed s \<Longrightarrow> closed s'"
  by (rule runs_inv) simp_all

lemma runs_silent: "runs step s es s' \<Longrightarrow> closed s \<Longrightarrow> said s' = said s"
proof (induction rule: runs.induct)
  case (runs_snoc s es s' e s'')
  then show ?case using closed_silent runs_closed by metis
qed simp

end

section \<open>Counting observations in a trace\<close>

definition count_if :: "('a \<Rightarrow> bool) \<Rightarrow> 'a list \<Rightarrow> nat" where
  "count_if P xs = length (filter P xs)"

lemma count_if_Nil [simp]: "count_if P [] = 0"
  by (simp add: count_if_def)

lemma count_if_Cons [simp]: "count_if P (x # xs) = (if P x then Suc (count_if P xs) else count_if P xs)"
  by (simp add: count_if_def)

lemma count_if_append [simp]: "count_if P (xs @ ys) = count_if P xs + count_if P ys"
  by (simp add: count_if_def)

lemma count_if_replicate [simp]: "count_if P (replicate n x) = (if P x then n else 0)"
  by (simp add: count_if_def)

lemma count_if_zero: "count_if P xs = 0 \<longleftrightarrow> (\<forall>x\<in>set xs. \<not> P x)"
  by (induction xs) auto

lemma count_if_update:
  assumes "i < length xs"
  shows "int (count_if P (xs[i := x])) =
           int (count_if P xs) + (if P x then 1 else 0) - (if P (xs ! i) then 1 else 0)"
  using assms
proof (induction xs arbitrary: i)
  case Nil
  then show ?case by simp
next
  case (Cons y ys)
  show ?case
  proof (cases i)
    case 0
    then show ?thesis by simp
  next
    case (Suc j)
    with Cons.prems have "j < length ys" by simp
    from Cons.IH [OF this] Suc show ?thesis by (simp split: if_splits)
  qed
qed

section \<open>Maps\<close>

lemma map_upd_all: "(m(k := v)) k' = (if k' = k then v else m k')"
  by simp

text \<open>A Go map literal or parameter iterated in the order of the list: the last write wins.\<close>

definition put_all :: "('k \<times> 'v) list \<Rightarrow> ('k \<rightharpoonup> 'v) \<Rightarrow> ('k \<rightharpoonup> 'v)" where
  "put_all kvs m = fold (\<lambda>(k, v) acc. acc(k \<mapsto> v)) kvs m"

lemma put_all_Nil [simp]: "put_all [] m = m"
  by (simp add: put_all_def)

lemma put_all_Cons [simp]: "put_all ((k, v) # kvs) m = put_all kvs (m(k \<mapsto> v))"
  by (simp add: put_all_def)

lemma put_all_append: "put_all (xs @ ys) m = put_all ys (put_all xs m)"
  by (simp add: put_all_def)

lemma put_all_other: "k \<notin> fst ` set kvs \<Longrightarrow> put_all kvs m k = m k"
  by (induction kvs arbitrary: m) auto

lemma put_all_in:
  assumes "(k, v) \<in> set kvs" and "distinct (map fst kvs)"
  shows "put_all kvs m k = Some v"
  using assms
proof (induction kvs arbitrary: m)
  case Nil
  then show ?case by simp
next
  case (Cons kv kvs)
  show ?case
  proof (cases "kv = (k, v)")
    case True
    with Cons.prems have "k \<notin> fst ` set kvs" by auto
    with True show ?thesis by (simp add: put_all_other)
  next
    case False
    with Cons.prems have "(k, v) \<in> set kvs" and "distinct (map fst kvs)" by auto
    with Cons.IH show ?thesis by (cases kv) simp
  qed
qed

lemma put_all_cases: "put_all kvs m k = Some v \<Longrightarrow> (k, v) \<in> set kvs \<or> m k = Some v"
  by (induction kvs arbitrary: m) (fastforce split: if_splits)+

lemma put_all_distinct: "distinct (map fst kvs) \<Longrightarrow> put_all kvs m = m ++ map_of kvs"
proof (rule ext)
  fix k
  assume d: "distinct (map fst kvs)"
  show "put_all kvs m k = (m ++ map_of kvs) k"
  proof (cases "k \<in> fst ` set kvs")
    case True
    then obtain v where v: "(k, v) \<in> set kvs" by auto
    with d have "map_of kvs k = Some v" by simp
    with put_all_in [OF v d, of m] show ?thesis by (simp add: map_add_def)
  next
    case False
    then have "map_of kvs k = None" by (simp add: map_of_eq_None_iff)
    with False show ?thesis by (simp add: put_all_other map_add_def)
  qed
qed

lemma dom_put_all: "dom (put_all kvs m) = dom m \<union> fst ` set kvs"
proof (induction kvs arbitrary: m)
  case Nil
  show ?case by simp
next
  case (Cons kv kvs)
  obtain k v where kv: "kv = (k, v)" by (cases kv)
  have "dom (put_all (kv # kvs) m) = dom (put_all kvs (m(k \<mapsto> v)))" by (simp only: kv put_all_Cons)
  also have "\<dots> = dom (m(k \<mapsto> v)) \<union> fst ` set kvs" by (rule Cons.IH)
  also have "\<dots> = dom m \<union> fst ` set (kv # kvs)" by (simp add: kv)
  finally show ?case .
qed

section \<open>Lists\<close>

lemma length_filter_distinct_le_1:
  assumes "distinct (map f xs)"
  shows "length (filter (\<lambda>x. f x = k) xs) \<le> 1"
  using assms
proof (induction xs)
  case Nil
  then show ?case by simp
next
  case (Cons x xs)
  have none: "filter (\<lambda>y. f y = k) xs = []" if "f x = k"
    using that Cons.prems by (auto simp: filter_empty_conv rev_image_eqI)
  show ?case
  proof (cases "f x = k")
    case True
    with none show ?thesis by simp
  next
    case False
    with Cons show ?thesis by simp
  qed
qed

lemma find_key_distinct:
  assumes "distinct (map f xs)" and "x \<in> set xs"
  shows "find (\<lambda>y. f y = f x) xs = Some x"
  using assms
proof (induction xs)
  case Nil
  then show ?case by simp
next
  case (Cons z zs)
  show ?case
  proof (cases "z = x")
    case True
    then show ?thesis by simp
  next
    case False
    with Cons.prems have xin: "x \<in> set zs" by simp
    with Cons.prems have "f z \<noteq> f x" by force
    with Cons xin show ?thesis by simp
  qed
qed

end
