(* ===== verification/Go_Std.thy ===== *)
theory Go_Std
  imports Prelude "HOL-Library.Sublist"
begin

text \<open>
  What the code uses of Go's standard library: \<open>strings\<close> (Index, Split, SplitN, TrimSpace,
  TrimSuffix, ToLower, ToUpper, Contains, ContainsAny, HasPrefix), \<open>strconv\<close> (Itoa,
  ParseUint, ParseInt, Atoi, Unquote), \<open>net.SplitHostPort\<close>, and errors as values with
  \<open>errors.As\<close>. A string is the list of its bytes. Case conversion and trimming act on ASCII
  bytes and leave every other byte alone.
\<close>

section \<open>Package strings\<close>

fun index_of :: "string \<Rightarrow> string \<Rightarrow> nat option" where
  "index_of sub [] = (if sub = [] then Some 0 else None)"
| "index_of sub (c # cs) =
     (if prefix sub (c # cs) then Some 0 else map_option Suc (index_of sub cs))"

definition str_contains :: "string \<Rightarrow> string \<Rightarrow> bool" where
  "str_contains s sub = (index_of sub s \<noteq> None)"

definition contains_any :: "string \<Rightarrow> string \<Rightarrow> bool" where
  "contains_any s chars = list_ex (\<lambda>c. List.member chars c) s"

fun break_at :: "char \<Rightarrow> string \<Rightarrow> (string \<times> string) option" where
  "break_at sep [] = None"
| "break_at sep (c # cs) =
     (if c = sep then Some ([], cs)
      else map_option (\<lambda>(a, b). (c # a, b)) (break_at sep cs))"

text \<open>\<open>strings.SplitN(s, sep, n)\<close> for a one-byte separator and \<open>n > 0\<close>.\<close>

fun split_n :: "nat \<Rightarrow> char \<Rightarrow> string \<Rightarrow> string list" where
  "split_n 0 sep s = []"
| "split_n (Suc 0) sep s = [s]"
| "split_n (Suc (Suc n)) sep s =
     (case break_at sep s of
        None \<Rightarrow> [s]
      | Some (a, b) \<Rightarrow> a # split_n (Suc n) sep b)"

text \<open>\<open>strings.Split(s, sep)\<close> for a one-byte separator.\<close>

fun split_all :: "char \<Rightarrow> string \<Rightarrow> string list" where
  "split_all sep [] = [[]]"
| "split_all sep (c # cs) =
     (if c = sep then [] # split_all sep cs
      else (case split_all sep cs of
              [] \<Rightarrow> [[c]]
            | p # ps \<Rightarrow> (c # p) # ps))"

fun join_with :: "char \<Rightarrow> string list \<Rightarrow> string" where
  "join_with sep [] = []"
| "join_with sep [p] = p"
| "join_with sep (p # q # ps) = p @ sep # join_with sep (q # ps)"

definition is_space :: "char \<Rightarrow> bool" where
  "is_space c = (of_char c \<in> {9, 10, 11, 12, 13, 32::nat})"

definition trim_space :: "string \<Rightarrow> string" where
  "trim_space s = rev (dropWhile is_space (rev (dropWhile is_space s)))"

definition trim_suffix :: "string \<Rightarrow> string \<Rightarrow> string" where
  "trim_suffix s suf = (if suffix suf s then take (length s - length suf) s else s)"

definition lower_char :: "char \<Rightarrow> char" where
  "lower_char c = (let n = of_char c :: nat in if 65 \<le> n \<and> n \<le> 90 then char_of (n + 32) else c)"

definition upper_char :: "char \<Rightarrow> char" where
  "upper_char c = (let n = of_char c :: nat in if 97 \<le> n \<and> n \<le> 122 then char_of (n - 32) else c)"

definition to_lower :: "string \<Rightarrow> string" where
  "to_lower s = map lower_char s"

definition to_upper :: "string \<Rightarrow> string" where
  "to_upper s = map upper_char s"

lemma split_all_nonempty [simp]: "split_all sep s \<noteq> []"
  by (cases s) (auto split: list.splits)

lemma split_all_no_sep: "sep \<notin> set s \<Longrightarrow> split_all sep s = [s]"
  by (induction s) auto

lemma join_split_all: "join_with sep (split_all sep s) = s"
proof (induction s)
  case Nil
  show ?case by simp
next
  case (Cons c s)
  obtain p ps where pps: "split_all sep s = p # ps"
    by (cases "split_all sep s") auto
  show ?case
  proof (cases ps)
    case Nil
    with Cons pps show ?thesis by simp
  next
    case (Cons q qs)
    with Cons.IH pps show ?thesis by simp
  qed
qed

lemma split_all_append_sep: "sep \<notin> set a \<Longrightarrow> split_all sep (a @ sep # b) = a # split_all sep b"
  by (induction a) auto

lemma break_at_Some:
  "break_at sep s = Some (a, b) \<longleftrightarrow> s = a @ sep # b \<and> sep \<notin> set a"
proof (induction s arbitrary: a)
  case Nil
  show ?case by simp
next
  case (Cons c s)
  show ?case
  proof (cases "c = sep")
    case True
    then show ?thesis by (cases a) auto
  next
    case False
    with Cons.IH show ?thesis by (cases a) auto
  qed
qed

lemma break_at_None: "break_at sep s = None \<longleftrightarrow> sep \<notin> set s"
  by (induction s) auto

lemma break_at_append [simp]: "sep \<notin> set a \<Longrightarrow> break_at sep (a @ sep # b) = Some (a, b)"
  by (simp add: break_at_Some)

lemma length_split_n: "0 < n \<Longrightarrow> 0 < length (split_n n sep s) \<and> length (split_n n sep s) \<le> n"
proof (induction n sep s rule: split_n.induct)
  case (3 n sep s)
  show ?case
  proof (cases "break_at sep s")
    case None
    then show ?thesis by simp
  next
    case (Some ab)
    obtain a b where "ab = (a, b)" by (cases ab)
    with Some "3.IH" [of "(a, b)" a b] show ?thesis by simp
  qed
qed simp_all

lemma index_of_Some_take:
  "index_of sub s = Some i \<Longrightarrow> prefix sub (drop i s) \<and> i \<le> length s"
  by (induction s arbitrary: i) (auto split: if_splits)

lemma index_of_single: "index_of [c] s = Some i \<Longrightarrow> c \<notin> set (take i s) \<and> i < length s \<and> s ! i = c"
  by (induction s arbitrary: i) (auto split: if_splits)

lemma index_of_single_None: "index_of [c] s = None \<longleftrightarrow> c \<notin> set s"
  by (induction s) auto

lemma index_of_single_append [simp]: "c \<notin> set a \<Longrightarrow> index_of [c] (a @ c # b) = Some (length a)"
  by (induction a) auto

lemma lower_char_idem: "lower_char (lower_char c) = lower_char c"
  by (auto simp: lower_char_def Let_def)

lemma to_lower_idem: "to_lower (to_lower s) = to_lower s"
  by (simp add: to_lower_def lower_char_idem)

lemma trim_space_Nil [simp]: "trim_space [] = []"
  by (simp add: trim_space_def)

lemma trim_space_id:
  assumes "s \<noteq> []" and "\<not> is_space (hd s)" and "\<not> is_space (last s)"
  shows "trim_space s = s"
proof -
  have "dropWhile is_space s = s" using assms by (cases s) auto
  moreover have "dropWhile is_space (rev s) = rev s"
    using assms by (cases s rule: rev_cases) auto
  ultimately show ?thesis by (simp add: trim_space_def)
qed

section \<open>Package strconv\<close>

datatype num_error = ErrSyntax | ErrRange

definition is_digit :: "char \<Rightarrow> bool" where
  "is_digit c = (48 \<le> (of_char c :: nat) \<and> (of_char c :: nat) \<le> 57)"

definition digit_val :: "char \<Rightarrow> nat" where
  "digit_val c = of_char c - 48"

definition digit_char :: "nat \<Rightarrow> char" where
  "digit_char d = char_of (48 + d)"

fun show_nat :: "nat \<Rightarrow> string" where
  "show_nat n = (if n < 10 then [digit_char n] else show_nat (n div 10) @ [digit_char (n mod 10)])"

declare show_nat.simps [simp del]

definition itoa :: "int \<Rightarrow> string" where
  "itoa n = (if n < 0 then CHR ''-'' # show_nat (nat (- n)) else show_nat (nat n))"

text \<open>
  The loop of \<open>strconv.ParseUint(s, 10, bits)\<close>: \<open>maxv\<close> is \<open>2^bits - 1\<close>. Overflow is
  reported at the digit where it happens, so a later byte that is no digit is not seen.
\<close>

definition uint_cutoff :: nat where
  "uint_cutoff = (2 ^ 64 - 1) div 10 + 1"

fun parse_uint_loop :: "nat \<Rightarrow> nat \<Rightarrow> string \<Rightarrow> nat \<times> num_error option" where
  "parse_uint_loop maxv n [] = (n, None)"
| "parse_uint_loop maxv n (c # cs) =
     (if \<not> is_digit c then (0, Some ErrSyntax)
      else if uint_cutoff \<le> n then (maxv, Some ErrRange)
      else let n1 = (n * 10 + digit_val c) mod 2 ^ 64 in
        if n1 < n * 10 \<or> maxv < n1 then (maxv, Some ErrRange)
        else parse_uint_loop maxv n1 cs)"

definition parse_uint :: "nat \<Rightarrow> string \<Rightarrow> nat \<times> num_error option" where
  "parse_uint bits s = (if s = [] then (0, Some ErrSyntax) else parse_uint_loop (2 ^ bits - 1) 0 s)"

definition parse_int :: "string \<Rightarrow> int \<times> num_error option" where
  "parse_int s =
     (if s = [] then (0, Some ErrSyntax)
      else
        let neg = (hd s = CHR ''-'');
            body = (if neg \<or> hd s = CHR ''+'' then tl s else s);
            (un, err) = parse_uint 64 body
        in
          if err = Some ErrSyntax then (0, Some ErrSyntax)
          else if \<not> neg \<and> 2 ^ 63 \<le> un then (2 ^ 63 - 1, Some ErrRange)
          else if neg \<and> 2 ^ 63 < un then (- (2 ^ 63), Some ErrRange)
          else (if neg then - int un else int un, None))"

text \<open>\<open>strconv.Atoi\<close>: the short-string path of the library gives the same results.\<close>

definition atoi :: "string \<Rightarrow> int \<times> num_error option" where
  "atoi s = parse_int s"

lemma of_char_digit_char: "d < 10 \<Longrightarrow> of_char (digit_char d) = (48 + d :: nat)"
  by (simp add: digit_char_def)

lemma is_digit_digit_char: "d < 10 \<Longrightarrow> is_digit (digit_char d)"
  by (simp add: is_digit_def of_char_digit_char)

lemma digit_val_digit_char: "d < 10 \<Longrightarrow> digit_val (digit_char d) = d"
  by (simp add: digit_val_def of_char_digit_char)

lemma show_nat_nonempty: "show_nat n \<noteq> []"
  by (subst show_nat.simps) simp

lemma show_nat_digits: "\<forall>c\<in>set (show_nat n). is_digit c"
proof (induction n rule: show_nat.induct)
  case (1 n)
  then show ?case
    by (subst show_nat.simps) (auto simp: is_digit_digit_char)
qed

lemma parse_uint_loop_append:
  assumes "parse_uint_loop maxv n xs = (m, None)"
  shows "parse_uint_loop maxv n (xs @ ys) = parse_uint_loop maxv m ys"
  using assms
  by (induction maxv n xs rule: parse_uint_loop.induct) (auto simp: Let_def split: if_splits)

lemma parse_uint_loop_show:
  assumes "n < 2 ^ 64" and "n \<le> maxv"
  shows "parse_uint_loop maxv 0 (show_nat n) = (n, None)"
  using assms
proof (induction n rule: show_nat.induct)
  case (1 n)
  show ?case
  proof (cases "n < 10")
    case True
    with "1.prems" show ?thesis
      by (subst show_nat.simps)
        (simp add: is_digit_digit_char digit_val_digit_char uint_cutoff_def)
  next
    case False
    let ?q = "n div 10" and ?r = "n mod 10"
    from "1.prems" have q: "?q < 2 ^ 64" "?q \<le> maxv" by linarith+
    with False "1.IH" have IH: "parse_uint_loop maxv 0 (show_nat ?q) = (?q, None)" by simp
    have n: "?q * 10 + ?r = n" by simp
    have cut: "\<not> uint_cutoff \<le> ?q"
      using "1.prems"(1) by (simp add: uint_cutoff_def)
    have "parse_uint_loop maxv ?q [digit_char ?r] = (n, None)"
      using cut n "1.prems"
      by (simp add: is_digit_digit_char digit_val_digit_char Let_def)
    then show ?thesis
      using False parse_uint_loop_append [OF IH, of "[digit_char ?r]"]
      by (subst show_nat.simps) simp
  qed
qed

lemma parse_uint_show:
  "n < 2 ^ bits \<Longrightarrow> bits \<le> 64 \<Longrightarrow> parse_uint bits (show_nat n) = (n, None)"
proof -
  assume n: "n < 2 ^ bits" and b: "bits \<le> 64"
  have "(2::nat) ^ bits \<le> 2 ^ 64" by (rule power_increasing) (use b in simp_all)
  with n have "n < 2 ^ 64" by linarith
  with n show ?thesis
    by (simp add: parse_uint_def show_nat_nonempty parse_uint_loop_show)
qed

lemma hd_show_nat: "is_digit (hd (show_nat n))"
  using show_nat_nonempty [of n] show_nat_digits [of n] by simp

lemma digit_no_sign: "is_digit c \<Longrightarrow> c \<noteq> CHR ''-'' \<and> c \<noteq> CHR ''+'' \<and> c \<noteq> CHR '':'' \<and> c \<noteq> CHR '' ''"
  by (auto simp: is_digit_def)

text \<open>Printing and reading back an \<open>int\<close> of 64 bits.\<close>

lemma atoi_itoa:
  assumes "- (2 ^ 63) \<le> n" and "n < 2 ^ 63"
  shows "atoi (itoa n) = (n, None)"
proof (cases "n < 0")
  case True
  define k where "k = nat (- n)"
  from True assms have k: "k < 2 ^ 64" "\<not> 2 ^ 63 < k" "n = - int k" by (simp_all add: k_def)
  have p: "parse_uint 64 (show_nat k) = (k, None)"
    using k(1) by (intro parse_uint_show) simp_all
  have "itoa n = CHR ''-'' # show_nat k" using True by (simp add: itoa_def k_def)
  then show ?thesis using k(2,3) by (simp add: atoi_def parse_int_def p)
next
  case False
  define k where "k = nat n"
  from False assms have k: "k < 2 ^ 64" "\<not> 2 ^ 63 \<le> k" "n = int k" by (simp_all add: k_def)
  have p: "parse_uint 64 (show_nat k) = (k, None)"
    using k(1) by (intro parse_uint_show) simp_all
  have "hd (show_nat k) \<noteq> CHR ''-''" "hd (show_nat k) \<noteq> CHR ''+''"
    using digit_no_sign [OF hd_show_nat] by simp_all
  moreover have "itoa n = show_nat k" using False by (simp add: itoa_def k_def)
  ultimately show ?thesis
    using k(2,3) by (simp add: atoi_def parse_int_def show_nat_nonempty p)
qed

lemma parse_uint_loop_bound: "n \<le> maxv \<Longrightarrow> fst (parse_uint_loop maxv n s) \<le> maxv"
  by (induction maxv n s rule: parse_uint_loop.induct) (auto simp: Let_def)

lemma parse_uint_bound: "fst (parse_uint bits s) < 2 ^ bits"
proof -
  have "fst (parse_uint_loop (2 ^ bits - 1) 0 s) \<le> 2 ^ bits - 1"
    by (rule parse_uint_loop_bound) simp
  moreover have "(0::nat) < 2 ^ bits" by simp
  ultimately have "fst (parse_uint_loop (2 ^ bits - 1) 0 s) < 2 ^ bits" by linarith
  then show ?thesis by (simp add: parse_uint_def)
qed

text \<open>
  \<open>strconv.Unquote\<close>. The text of a quoted string is read byte by byte; a multi-byte escape
  (\<open>\u\<close>, \<open>\U\<close>) is written out in UTF-8; bytes that are not escaped are copied, which is what
  the library does for valid UTF-8.
\<close>

definition hex_val :: "char \<Rightarrow> nat option" where
  "hex_val c = (let n = of_char c :: nat in
     if 48 \<le> n \<and> n \<le> 57 then Some (n - 48)
     else if 97 \<le> n \<and> n \<le> 102 then Some (n - 87)
     else if 65 \<le> n \<and> n \<le> 70 then Some (n - 55)
     else None)"

fun hex_run :: "nat \<Rightarrow> nat \<Rightarrow> string \<Rightarrow> (nat \<times> string) option" where
  "hex_run 0 v s = Some (v, s)"
| "hex_run (Suc k) v [] = None"
| "hex_run (Suc k) v (c # cs) =
     (case hex_val c of None \<Rightarrow> None | Some d \<Rightarrow> hex_run k (16 * v + d) cs)"

definition utf8_encode :: "nat \<Rightarrow> string" where
  "utf8_encode v =
     (if v < 128 then [char_of v]
      else if v < 2048 then [char_of (192 + v div 64), char_of (128 + v mod 64)]
      else if v < 65536 then
        [char_of (224 + v div 4096), char_of (128 + (v div 64) mod 64), char_of (128 + v mod 64)]
      else
        [char_of (240 + v div 262144), char_of (128 + (v div 4096) mod 64),
         char_of (128 + (v div 64) mod 64), char_of (128 + v mod 64)])"

definition valid_rune :: "nat \<Rightarrow> bool" where
  "valid_rune v = (v < 55296 \<or> (57344 \<le> v \<and> v < 1114112))"

definition octal_val :: "char \<Rightarrow> nat option" where
  "octal_val c = (if is_digit c \<and> digit_val c < 8 then Some (digit_val c) else None)"

text \<open>\<open>strconv.UnquoteChar\<close> after the backslash: the bytes written and the rest.\<close>

definition simple_escape :: "char \<Rightarrow> nat option" where
  "simple_escape c =
     map_of [(CHR ''a'', 7), (CHR ''b'', 8), (CHR ''f'', 12), (CHR ''n'', 10),
             (CHR ''r'', 13), (CHR ''t'', 9), (CHR ''v'', 11), (CHR 0x5C, 92)] c"

definition unquote_escape :: "char \<Rightarrow> char \<Rightarrow> string \<Rightarrow> (string \<times> string) option" where
  "unquote_escape quote c s =
     (case simple_escape c of
        Some v \<Rightarrow> Some ([char_of v], s)
      | None \<Rightarrow>
        if c = CHR ''x'' then map_option (\<lambda>(v, r). ([char_of v], r)) (hex_run 2 0 s)
        else if c = CHR ''u'' \<or> c = CHR ''U'' then
          (case hex_run (if c = CHR ''u'' then 4 else 8) 0 s of
             None \<Rightarrow> None
           | Some (v, r) \<Rightarrow> if valid_rune v then Some (utf8_encode v, r) else None)
        else if octal_val c \<noteq> None then
          (case s of
             d # e # r \<Rightarrow>
               (case (octal_val d, octal_val e) of
                  (Some y, Some z) \<Rightarrow>
                    let v = 64 * digit_val c + 8 * y + z in
                      if 255 < v then None else Some ([char_of v], r)
                | _ \<Rightarrow> None)
           | _ \<Rightarrow> None)
        else if (c = CHR 0x27 \<or> c = CHR 0x22) \<and> c = quote then Some ([c], s)
        else None)"

text \<open>
  One character of a quoted string: \<open>Some\<close> of the bytes it stands for and the rest.
\<close>

definition unquote_char :: "char \<Rightarrow> string \<Rightarrow> (string \<times> string) option" where
  "unquote_char quote s =
     (case s of
        [] \<Rightarrow> None
      | c # cs \<Rightarrow>
          if c = CHR 0x0A then None
          else if c \<noteq> CHR 0x5C then Some ([c], cs)
          else (case cs of [] \<Rightarrow> None | e # r \<Rightarrow> unquote_escape quote e r))"

lemma hex_run_shorter: "hex_run k v s = Some (w, r) \<Longrightarrow> length r \<le> length s"
  by (induction k v s rule: hex_run.induct) (auto split: option.splits)

lemma unquote_escape_shorter: "unquote_escape q c s = Some (out, r) \<Longrightarrow> length r \<le> length s"
  by (auto simp: unquote_escape_def Let_def split: option.splits if_splits list.splits
      dest: hex_run_shorter)

lemma unquote_char_shorter: "unquote_char q s = Some (out, r) \<Longrightarrow> length r < length s"
  by (auto simp: unquote_char_def split: list.splits if_splits dest: unquote_escape_shorter)

function unquote_loop :: "char \<Rightarrow> string \<Rightarrow> string \<Rightarrow> (string \<times> string) option" where
  "unquote_loop quote buf s =
     (case s of
        [] \<Rightarrow> None
      | c # cs \<Rightarrow>
          if c = quote then Some (buf, cs)
          else (case unquote_char quote s of
                  None \<Rightarrow> None
                | Some (out, r) \<Rightarrow>
                    if quote = CHR 0x27
                    then (case r of q # rest \<Rightarrow> if q = quote then Some (buf @ out, rest) else None
                          | [] \<Rightarrow> None)
                    else unquote_loop quote (buf @ out) r))"
  by pat_completeness auto
termination
  by (relation "measure (\<lambda>(q, b, s). length s)") (auto dest: unquote_char_shorter)

declare unquote_loop.simps [simp del]

definition unquote :: "string \<Rightarrow> string option" where
  "unquote s =
     (case s of
        q # body \<Rightarrow>
          if q = CHR 0x60 then
            (case break_at q body of
               Some (raw, []) \<Rightarrow> Some (filter (\<lambda>c. c \<noteq> CHR 0x0D) raw)
             | _ \<Rightarrow> None)
          else if q = CHR 0x22 \<or> q = CHR 0x27 then
            (if \<not> List.member body q then None
             else case unquote_loop q [] body of
                    Some (out, []) \<Rightarrow> Some out
                  | _ \<Rightarrow> None)
          else None
      | [] \<Rightarrow> None)"

text \<open>A text with no quote, backslash or newline in double quotes is read back as itself.\<close>

lemma unquote_loop_plain:
  assumes "\<forall>c\<in>set t. c \<noteq> CHR 0x22 \<and> c \<noteq> CHR 0x5C \<and> c \<noteq> CHR 0x0A"
  shows "unquote_loop (CHR 0x22) buf (t @ CHR 0x22 # rest) = Some (buf @ t, rest)"
  using assms
proof (induction t arbitrary: buf)
  case Nil
  show ?case by (subst unquote_loop.simps) simp
next
  case (Cons c t)
  then show ?case
    by (subst unquote_loop.simps) (simp add: unquote_char_def)
qed

lemma unquote_plain:
  assumes "\<forall>c\<in>set t. c \<noteq> CHR 0x22 \<and> c \<noteq> CHR 0x5C \<and> c \<noteq> CHR 0x0A"
  shows "unquote (CHR 0x22 # t @ [CHR 0x22]) = Some t"
  using unquote_loop_plain [OF assms, of "[]" "[]"] by (simp add: unquote_def)

section \<open>Package net: SplitHostPort\<close>

text \<open>\<open>None\<close> stands for each of the address errors, which the code does not tell apart.\<close>

definition last_index :: "char \<Rightarrow> string \<Rightarrow> nat option" where
  "last_index c s = map_option (\<lambda>i. length s - Suc i) (index_of [c] (rev s))"

definition split_host_port :: "string \<Rightarrow> (string \<times> string) option" where
  "split_host_port s =
     (case last_index (CHR '':'') s of
        None \<Rightarrow> None
      | Some i \<Rightarrow>
          let checked = (\<lambda>host j k.
                if List.member (drop j s) (CHR ''['') \<or> List.member (drop k s) (CHR '']'')
                then None else Some (host, drop (Suc i) s))
          in
            if hd s = CHR ''[''
            then (case index_of '']'' s of
                    None \<Rightarrow> None
                  | Some e \<Rightarrow>
                      if Suc e = length s then None
                      else if Suc e = i then checked (take (e - 1) (drop 1 s)) 1 (Suc e)
                      else None)
            else (let host = take i s in
                    if List.member host (CHR '':'') then None else checked host 0 0))"

lemma last_index_append: "c \<notin> set p \<Longrightarrow> last_index c (h @ c # p) = Some (length h)"
  by (simp add: last_index_def)

lemma last_index_None: "last_index c s = None \<longleftrightarrow> c \<notin> set s"
  by (simp add: last_index_def index_of_single_None)

definition plain_host :: "string \<Rightarrow> bool" where
  "plain_host h = (CHR '':'' \<notin> set h \<and> CHR ''['' \<notin> set h \<and> CHR '']'' \<notin> set h)"

lemma split_host_port_plain:
  assumes "plain_host h" and "plain_host p"
  shows "split_host_port (h @ CHR '':'' # p) = Some (h, p)"
proof -
  have "hd (h @ CHR '':'' # p) \<noteq> CHR ''[''"
    using assms by (cases h) (auto simp: plain_host_def)
  with assms show ?thesis
    by (simp add: split_host_port_def last_index_append plain_host_def Let_def)
qed

lemma split_host_port_no_colon: "CHR '':'' \<notin> set s \<Longrightarrow> split_host_port s = None"
  by (simp add: split_host_port_def last_index_None [THEN iffD2])

lemma split_host_port_bracket:
  assumes "CHR ''['' \<notin> set h" "CHR '']'' \<notin> set h" and "plain_host p"
  shows "split_host_port (CHR ''['' # h @ CHR '']'' # CHR '':'' # p) = Some (h, p)"
proof -
  let ?s = "CHR ''['' # h @ CHR '']'' # CHR '':'' # p"
  have eq: "?s = (CHR ''['' # h @ '']'') @ CHR '':'' # p" by simp
  have li: "last_index (CHR '':'') ?s = Some (Suc (Suc (length h)))"
    unfolding eq using assms by (subst last_index_append) (simp_all add: plain_host_def)
  have e: "index_of '']'' ?s = Some (Suc (length h))"
    using assms by simp
  show ?thesis
    unfolding split_host_port_def li
    using assms e by (simp add: Let_def plain_host_def)
qed

end
