(* ===== verification/Sip_Types.thy ===== *)
theory Sip_Types
  imports Go_Std
begin

text \<open>
  The data of \<open>pkg/sip/types.go\<close>: transports, the service's \<open>URI\<close> and its conversions to
  and from SIP URIs, header lookup, the mapping between SIP headers and participant
  attributes, and the encryption setting; with the errors as values that every other part
  returns. An IP address is \<open>None\<close> for the zero \<open>netip.Addr\<close> and otherwise its printed
  form. A SIP request or response is the record of what its accessors return.
\<close>

section \<open>Errors as values\<close>

text \<open>
  The codes are the ones \<open>sipStatusForErrorCode\<close> names, and any other. \<open>Sentinel\<close> is an
  error that is compared by identity (\<open>errors.Is\<close>), named by its variable. \<open>PsrpcErr\<close> is
  the result of \<open>psrpc.NewError\<close>/\<open>NewErrorf\<close>, with the error it wraps, if any, and
  \<open>WrapErr\<close> the result of \<open>errors.Wrap\<close> or of \<open>fmt.Errorf\<close> with \<open>%w\<close>.
\<close>

datatype error_code =
    OK | Canceled | DeadlineExceeded | Unknown | MalformedResponse | Internal | DataLoss
  | InvalidArgument | MalformedRequest | NotFound | NotAcceptable | AlreadyExists | Aborted
  | PermissionDenied | ResourceExhausted | FailedPrecondition | OutOfRange | Unimplemented
  | Unavailable | Unauthenticated | OtherCode string

datatype go_error =
    PlainErr string
  | Sentinel string
  | SIPStatusErr int string
  | PsrpcErr error_code string "go_error option"
  | WrapErr string go_error

fun err_as_psrpc :: "go_error \<Rightarrow> error_code option" where
  "err_as_psrpc (PsrpcErr c m e) = Some c"
| "err_as_psrpc (WrapErr m e) = err_as_psrpc e"
| "err_as_psrpc (PlainErr m) = None"
| "err_as_psrpc (Sentinel m) = None"
| "err_as_psrpc (SIPStatusErr c s) = None"

fun err_as_sip_status :: "go_error \<Rightarrow> (int \<times> string) option" where
  "err_as_sip_status (SIPStatusErr c s) = Some (c, s)"
| "err_as_sip_status (WrapErr m e) = err_as_sip_status e"
| "err_as_sip_status (PsrpcErr c m None) = None"
| "err_as_sip_status (PsrpcErr c m (Some e)) = err_as_sip_status e"
| "err_as_sip_status (PlainErr m) = None"
| "err_as_sip_status (Sentinel m) = None"

fun err_is :: "go_error \<Rightarrow> string \<Rightarrow> bool" where
  "err_is (Sentinel n) name = (n = name)"
| "err_is (WrapErr m e) name = err_is e name"
| "err_is (PsrpcErr c m None) name = False"
| "err_is (PsrpcErr c m (Some e)) name = err_is e name"
| "err_is (PlainErr m) name = False"
| "err_is (SIPStatusErr c s) name = False"

section \<open>Transports and encryption\<close>

type_synonym transport = string

definition TransportUDP :: transport where "TransportUDP = ''udp''"
definition TransportTCP :: transport where "TransportTCP = ''tcp''"
definition TransportTLS :: transport where "TransportTLS = ''tls''"

lemmas transport_defs = TransportUDP_def TransportTCP_def TransportTLS_def

text \<open>\<open>livekit.SIPTransport\<close>, an open enumeration.\<close>

datatype sip_transport =
    SIP_TRANSPORT_AUTO | SIP_TRANSPORT_UDP | SIP_TRANSPORT_TCP | SIP_TRANSPORT_TLS
  | SIP_TRANSPORT_OTHER int

fun TransportFrom :: "sip_transport \<Rightarrow> transport" where
  "TransportFrom SIP_TRANSPORT_UDP = TransportUDP"
| "TransportFrom SIP_TRANSPORT_TCP = TransportTCP"
| "TransportFrom SIP_TRANSPORT_TLS = TransportTLS"
| "TransportFrom _ = ''''"

definition SIPTransportFrom :: "transport \<Rightarrow> sip_transport" where
  "SIPTransportFrom t =
     (if t = TransportUDP then SIP_TRANSPORT_UDP
      else if t = TransportTCP then SIP_TRANSPORT_TCP
      else if t = TransportTLS then SIP_TRANSPORT_TLS
      else SIP_TRANSPORT_AUTO)"

datatype sip_media_encryption =
    SIP_MEDIA_ENCRYPT_DISABLE | SIP_MEDIA_ENCRYPT_ALLOW | SIP_MEDIA_ENCRYPT_REQUIRE
  | SIP_MEDIA_ENCRYPT_OTHER int

datatype sdp_encryption = EncryptionNone | EncryptionAllow | EncryptionRequire

fun sdpEncryption :: "sip_media_encryption \<Rightarrow> sdp_encryption \<times> go_error option" where
  "sdpEncryption SIP_MEDIA_ENCRYPT_DISABLE = (EncryptionNone, None)"
| "sdpEncryption SIP_MEDIA_ENCRYPT_ALLOW = (EncryptionAllow, None)"
| "sdpEncryption SIP_MEDIA_ENCRYPT_REQUIRE = (EncryptionRequire, None)"
| "sdpEncryption (SIP_MEDIA_ENCRYPT_OTHER n) =
     (EncryptionAllow, Some (PlainErr ''invalid SIP media encryption type''))"

lemma TransportFrom_SIPTransportFrom:
  "TransportFrom (SIPTransportFrom t) = (if t \<in> {TransportUDP, TransportTCP, TransportTLS} then t else '''')"
  by (auto simp: SIPTransportFrom_def transport_defs)

lemma SIPTransportFrom_TransportFrom:
  "(\<forall>n. t \<noteq> SIP_TRANSPORT_OTHER n) \<Longrightarrow> SIPTransportFrom (TransportFrom t) = t"
  by (cases t) (auto simp: SIPTransportFrom_def transport_defs)

section \<open>SIP URIs, headers, requests\<close>

type_synonym ip_addr = "string option"

definition addr_is_valid :: "ip_addr \<Rightarrow> bool" where
  "addr_is_valid a = (a \<noteq> None)"

definition addr_string :: "ip_addr \<Rightarrow> string" where
  "addr_string a = (case a of None \<Rightarrow> ''invalid IP'' | Some s \<Rightarrow> s)"

type_synonym header_params = "string \<rightharpoonup> string"

text \<open>\<open>sip.Uri\<close>: the fields the code reads or sets; nil parameters are \<open>None\<close>.\<close>

record sip_uri =
  uri_user :: string
  uri_host :: string
  uri_port :: int
  uri_params :: "header_params option"

definition empty_uri :: sip_uri where
  "empty_uri = \<lparr>uri_user = '''', uri_host = '''', uri_port = 0, uri_params = None\<rparr>"

definition params_get :: "header_params option \<Rightarrow> string \<Rightarrow> string" where
  "params_get ps k = (case ps of None \<Rightarrow> '''' | Some m \<Rightarrow> (case m k of None \<Rightarrow> '''' | Some v \<Rightarrow> v))"

text \<open>A From, To, Contact, Route or Record-Route header: an address with parameters.\<close>

record addr_header =
  ah_address :: sip_uri
  ah_params :: "header_params option"

record via_header =
  via_transport :: string
  via_host :: string
  via_port :: int

text \<open>A header as the code reads it: \<open>Name()\<close> and \<open>Value()\<close>.\<close>

record sip_header =
  hdr_name :: string
  hdr_value :: string

record sip_request =
  req_method :: string
  req_source :: string
  req_destination :: string
  req_transport :: string
  req_recipient :: sip_uri
  req_from :: "addr_header option"
  req_to :: "addr_header option"
  req_via :: "via_header option"
  req_contact :: "addr_header option"
  req_record_route :: "addr_header option"
  req_routes :: "addr_header list"
  req_call_id :: "string option"
  req_cseq :: "32 word option"
  req_headers :: "sip_header list"
  req_body :: string

text \<open>A request with no headers and no body, to start examples from.\<close>

definition bare_request :: "string \<Rightarrow> sip_request" where
  "bare_request method =
     \<lparr>req_method = method, req_source = '''', req_destination = '''', req_transport = '''',
      req_recipient = empty_uri, req_from = None, req_to = None, req_via = None, req_contact = None,
      req_record_route = None, req_routes = [], req_call_id = None, req_cseq = None,
      req_headers = [], req_body = ''''\<rparr>"

text \<open>
  A Record-Route header of a response is \<open>None\<close> where it is not a \<open>*sip.RecordRouteHeader\<close>.
\<close>

record sip_response =
  resp_status :: int
  resp_reason :: string
  resp_source :: string
  resp_destination :: string
  resp_to :: "addr_header option"
  resp_contact :: "addr_header option"
  resp_record_routes :: "addr_header option list"
  resp_headers :: "sip_header list"
  resp_body :: string

text \<open>
  \<open>GetHeader\<close> compares names case-insensitively (\<open>sip.HeaderToLower\<close>); a nil header in
  the list is not represented.
\<close>

definition GetHeader :: "sip_header list \<Rightarrow> string \<Rightarrow> string option" where
  "GetHeader h name =
     map_option hdr_value (find (\<lambda>kv. to_lower (hdr_name kv) = to_lower name) h)"

definition transportFromURI :: "sip_uri \<Rightarrow> transport" where
  "transportFromURI u = (let tr = params_get (uri_params u) ''transport'' in
     if tr \<noteq> '''' then to_lower tr else '''')"

definition getTagFrom :: "header_params option \<Rightarrow> string option" where
  "getTagFrom params = (case params of None \<Rightarrow> None | Some m \<Rightarrow> m ''tag'')"

definition getFromTag :: "sip_request \<Rightarrow> go_error + string" where
  "getFromTag r =
     (case req_from r of
        None \<Rightarrow> Inl (PlainErr ''no From on Request'')
      | Some from \<Rightarrow>
          (case getTagFrom (ah_params from) of
             None \<Rightarrow> Inl (PlainErr ''no tag in From on Request'')
           | Some tag \<Rightarrow> Inr tag))"

section \<open>The service's URI\<close>

record URI =
  User :: string
  Host :: string
  Addr :: ip_addr
  Port :: "16 word"
  Transport :: transport

text \<open>\<open>uint16(port)\<close> truncates.\<close>

definition Normalize :: "URI \<Rightarrow> URI" where
  "Normalize u =
     (case split_host_port (Host u) of
        None \<Rightarrow> u
      | Some (addr, sport) \<Rightarrow>
          (case atoi sport of
             (port, None) \<Rightarrow> u\<lparr>Host := addr, Port := word_of_int port\<rparr>
           | (_, Some e) \<Rightarrow> u))"

definition ConvertURI :: "sip_uri \<Rightarrow> URI" where
  "ConvertURI u =
     (let uri = \<lparr>User = uri_user u, Host = uri_host u, Addr = None,
                 Port = word_of_int (uri_port u), Transport = TransportUDP\<rparr>;
          tr = transportFromURI u;
          uri = (if tr \<noteq> '''' then uri\<lparr>Transport := tr\<rparr> else uri)
      in Normalize uri)"

definition CreateURIFromUserAndAddress :: "string \<Rightarrow> string \<Rightarrow> transport \<Rightarrow> URI" where
  "CreateURIFromUserAndAddress user address tr =
     Normalize \<lparr>User = user, Host = address, Addr = None, Port = 0, Transport = tr\<rparr>"

definition GetHost :: "URI \<Rightarrow> string" where
  "GetHost u = (if Host u = '''' then addr_string (Addr u) else Host u)"

definition GetPort :: "URI \<Rightarrow> int" where
  "GetPort u =
     (let port = uint (Port u) in
      if port = 0 then (if Transport u = TransportTLS then 5061 else 5060) else port)"

definition GetPortOrNone :: "URI \<Rightarrow> int" where
  "GetPortOrNone u = (let port = GetPort u in if port = 5060 then 0 else port)"

definition GetHostPort :: "URI \<Rightarrow> string" where
  "GetHostPort u = GetHost u @ '':'' @ itoa (GetPort u)"

definition GetDest :: "URI \<Rightarrow> string" where
  "GetDest u =
     (let host = (if addr_is_valid (Addr u) then addr_string (Addr u) else Host u)
      in host @ '':'' @ itoa (GetPort u))"

definition GetURI :: "URI \<Rightarrow> sip_uri" where
  "GetURI u =
     (let su = \<lparr>uri_user = User u, uri_host = GetHost u, uri_port = 0, uri_params = None\<rparr>;
          su = (if Port u \<noteq> 0 then su\<lparr>uri_port := uint (Port u)\<rparr> else su)
      in if Transport u \<noteq> ''''
         then su\<lparr>uri_params := Some (Map.empty(''transport'' \<mapsto> Transport u))\<rparr>
         else su)"

definition GetContactURI :: "URI \<Rightarrow> sip_uri" where
  "GetContactURI u =
     (let su = GetURI u in
      if Transport u = TransportUDP \<or> Transport u = TransportTCP
      then (if addr_is_valid (Addr u) then su\<lparr>uri_host := addr_string (Addr u)\<rparr> else su)
      else su)"

text \<open>\<open>livekit.SIPUri\<close>.\<close>

record livekit_uri =
  lk_user :: string
  lk_host :: string
  lk_ip :: string
  lk_port :: "32 word"
  lk_transport :: sip_transport

definition URI_ToSIPUri :: "URI \<Rightarrow> livekit_uri" where
  "URI_ToSIPUri u =
     \<lparr>lk_user = User u, lk_host = GetHost u,
      lk_ip = (if addr_is_valid (Addr u) then addr_string (Addr u) else ''''),
      lk_port = word_of_int (GetPort u), lk_transport = SIPTransportFrom (Transport u)\<rparr>"

definition ToSIPUri :: "string \<Rightarrow> sip_uri \<Rightarrow> livekit_uri" where
  "ToSIPUri ip u =
     \<lparr>lk_user = uri_user u, lk_host = uri_host u, lk_ip = ip,
      lk_port = word_of_int (uri_port u),
      lk_transport = SIPTransportFrom (params_get (uri_params u) ''transport'')\<rparr>"

section \<open>SIP headers and participant attributes\<close>

text \<open>\<open>livekit.SIPHeaderOptions\<close>.\<close>

datatype header_options = SIP_NO_HEADERS | SIP_X_HEADERS | SIP_ALL_HEADERS | SIP_HEADERS_OTHER int

text \<open>
  The fixed table of \<open>participant.go\<close>; \<open>pre\<close> is \<open>livekit.AttrSIPPrefix\<close>. Go visits a map
  in any order: the tables are lists in the order of the visit.
\<close>

definition headerToAttr :: "string \<Rightarrow> (string \<times> string) list" where
  "headerToAttr pre =
     [(''X-Twilio-AccountSid'', pre @ ''twilio.accountSid''),
      (''X-Twilio-CallSid'', pre @ ''twilio.callSid''),
      (''X-call_leg_id'', pre @ ''telnyx.callLegID''),
      (''X-call_session_id'', pre @ ''telnyx.callSessionID''),
      (''X-Lk-Test-Id'', ''lktest.id'')]"

definition AttrSIPCallIDFull :: "string \<Rightarrow> string" where
  "AttrSIPCallIDFull pre = pre @ ''callIDFull''"

definition AttrSIPCallTag :: "string \<Rightarrow> string" where
  "AttrSIPCallTag pre = pre @ ''callTag''"

text \<open>The headers a table maps to attributes, in the order of the table.\<close>

definition mapped_headers :: "sip_header list \<Rightarrow> (string \<times> string) list \<Rightarrow> (string \<times> string) list" where
  "mapped_headers headers tab =
     concat (map (\<lambda>(hdr, name). case GetHeader headers hdr of None \<Rightarrow> [] | Some v \<Rightarrow> [(name, v)]) tab)"

definition included_headers :: "string \<Rightarrow> header_options \<Rightarrow> sip_header list \<Rightarrow> (string \<times> string) list" where
  "included_headers hpre opts headers =
     (if opts = SIP_NO_HEADERS then []
      else concat (map (\<lambda>h.
             let name = to_lower (hdr_name h) in
             if name = '''' then []
             else if opts = SIP_X_HEADERS \<and> \<not> prefix ''x-'' name then []
             else [(hpre @ name, hdr_value h)]) headers))"

text \<open>
  What \<open>HeadersToAttrs\<close> reads of a \<open>Signaling\<close>: remote headers, tag and Call-ID.
\<close>

record signaling_view =
  sv_remote_headers :: "sip_header list"
  sv_tag :: string
  sv_call_id :: string

definition HeadersToAttrs ::
  "string \<Rightarrow> string \<Rightarrow> (string \<rightharpoonup> string) option \<Rightarrow> (string \<times> string) list \<Rightarrow> header_options
    \<Rightarrow> signaling_view option \<Rightarrow> sip_header list \<Rightarrow> (string \<rightharpoonup> string)" where
  "HeadersToAttrs pre hpre attrs hdrToAttr opts c headers =
     (let attrs = (case attrs of None \<Rightarrow> Map.empty | Some m \<Rightarrow> m);
          headers = (case c of None \<Rightarrow> headers | Some s \<Rightarrow> sv_remote_headers s);
          attrs = put_all (included_headers hpre opts headers) attrs;
          attrs = put_all (mapped_headers headers (headerToAttr pre)) attrs;
          attrs = put_all (mapped_headers headers hdrToAttr) attrs
      in case c of
           None \<Rightarrow> attrs
         | Some s \<Rightarrow>
             (let attrs = (if sv_tag s \<noteq> '''' then attrs(AttrSIPCallTag pre \<mapsto> sv_tag s) else attrs)
              in if sv_call_id s \<noteq> '''' then attrs(AttrSIPCallIDFull pre \<mapsto> sv_call_id s) else attrs))"

text \<open>\<open>attrToHdr\<close> in the order of the visit; nil headers are \<open>None\<close>.\<close>

definition AttrsToHeaders ::
  "(string \<rightharpoonup> string) \<Rightarrow> (string \<times> string) list \<Rightarrow> (string \<rightharpoonup> string) option \<Rightarrow> (string \<rightharpoonup> string) option" where
  "AttrsToHeaders attrs attrToHdr headers =
     (if attrToHdr = [] then headers
      else
        let headers = (case headers of None \<Rightarrow> Map.empty | Some m \<Rightarrow> m) in
        Some (put_all
               (concat (map (\<lambda>(attr, hdr). case attrs attr of None \<Rightarrow> [] | Some v \<Rightarrow> [(hdr, v)]) attrToHdr))
               headers))"

text \<open>
  \<open>SelectValue\<close>: \<open>draw\<close> is the number \<open>rand.Float64\<close> returns.
\<close>

definition SelectValue :: "'a \<Rightarrow> 'a \<Rightarrow> ('p::linordered_idom) \<Rightarrow> 'p \<Rightarrow> 'a" where
  "SelectValue then_v els prob_else draw =
     (if prob_else \<le> 0 then then_v else if draw < prob_else then then_v else els)"

definition SelectValueBool :: "bool \<Rightarrow> ('p::linordered_idom) \<Rightarrow> 'p \<Rightarrow> bool" where
  "SelectValueBool then_v prob_else draw = SelectValue then_v (\<not> then_v) prob_else draw"

section \<open>Facts about URIs\<close>

lemma plain_host_digits: "\<forall>c\<in>set s. is_digit c \<Longrightarrow> plain_host s"
  by (auto simp: plain_host_def is_digit_def)

lemma plain_host_itoa: "0 \<le> n \<Longrightarrow> plain_host (itoa n)"
  using show_nat_digits by (simp add: itoa_def plain_host_digits)

lemma Normalize_no_colon: "CHR '':'' \<notin> set (Host u) \<Longrightarrow> Normalize u = u"
  by (simp add: Normalize_def split_host_port_no_colon)

lemma Normalize_host_port:
  assumes "plain_host h" and "0 \<le> n" and "n < 2 ^ 63" and "Host u = h @ '':'' @ itoa n"
  shows "Normalize u = u\<lparr>Host := h, Port := word_of_int n\<rparr>"
proof -
  have "split_host_port (Host u) = Some (h, itoa n)"
    using assms split_host_port_plain [OF assms(1) plain_host_itoa [OF assms(2)]] by simp
  moreover have "atoi (itoa n) = (n, None)" using assms by (intro atoi_itoa) auto
  ultimately show ?thesis by (simp add: Normalize_def)
qed

lemma Normalize_keeps [simp]:
  "User (Normalize u) = User u" "Addr (Normalize u) = Addr u" "Transport (Normalize u) = Transport u"
  by (auto simp: Normalize_def split: option.splits prod.splits)

lemma uint_word_of_int_mod: "uint (word_of_int n :: 16 word) = n mod 65536"
  by (simp add: unsigned_of_int take_bit_eq_mod)

lemma uint_word_of_int_port: "0 \<le> n \<Longrightarrow> n < 65536 \<Longrightarrow> uint (word_of_int n :: 16 word) = n"
  by (simp add: uint_word_of_int_mod)

lemma GetPort_range: "0 < GetPort u \<and> GetPort u < 65536"
proof -
  have "uint (Port u) < 65536" using uint_lt2p [of "Port u"] by simp
  moreover obtain p where p: "p = uint (Port u)" "0 \<le> p" by simp
  ultimately have "p < 65536" by simp
  with p show ?thesis by (simp add: GetPort_def Let_def flip: p(1))
qed

lemma GetPort_of_int:
  "0 < n \<Longrightarrow> n < 65536 \<Longrightarrow> Port u = word_of_int n \<Longrightarrow> GetPort u = n"
  by (simp add: GetPort_def Let_def uint_word_of_int_port)

section \<open>Facts about headers and attributes\<close>

lemma GetHeader_lower: "GetHeader h (to_lower n) = GetHeader h n"
  by (simp add: GetHeader_def to_lower_idem)

lemma GetHeader_Nil [simp]: "GetHeader [] n = None"
  by (simp add: GetHeader_def)

lemma GetHeader_in: "GetHeader h n = Some v \<Longrightarrow> \<exists>x\<in>set h. hdr_value x = v \<and> to_lower (hdr_name x) = to_lower n"
  by (auto simp: GetHeader_def find_Some_iff)

lemma mapped_headers_Nil [simp]: "mapped_headers h [] = []"
  by (simp add: mapped_headers_def)

lemma set_mapped_headers:
  "(name, v) \<in> set (mapped_headers h tab) \<longleftrightarrow> (\<exists>hdr. (hdr, name) \<in> set tab \<and> GetHeader h hdr = Some v)"
  by (force simp: mapped_headers_def split: option.splits prod.splits)

lemma distinct_mapped_headers:
  assumes "distinct (map snd tab)"
  shows "distinct (map fst (mapped_headers h tab))"
  using assms
proof (induction tab)
  case Nil
  show ?case by simp
next
  case (Cons hn tab)
  obtain hdr name where hn: "hn = (hdr, name)" by (cases hn)
  show ?case
  proof (cases "GetHeader h hdr")
    case None
    with Cons hn show ?thesis by (simp add: mapped_headers_def)
  next
    case (Some v)
    have "mapped_headers h (hn # tab) = (name, v) # mapped_headers h tab"
      by (simp add: mapped_headers_def hn Some)
    moreover have "name \<notin> fst ` set (mapped_headers h tab)"
      using Cons.prems hn by (force simp: set_mapped_headers)
    ultimately show ?thesis using Cons by simp
  qed
qed

lemma included_names:
  "(k, v) \<in> set (included_headers hpre opts hs) \<Longrightarrow>
     opts \<noteq> SIP_NO_HEADERS \<and>
     (\<exists>h\<in>set hs. k = hpre @ to_lower (hdr_name h) \<and> v = hdr_value h \<and> to_lower (hdr_name h) \<noteq> '''' \<and>
        (opts = SIP_X_HEADERS \<longrightarrow> prefix ''x-'' (to_lower (hdr_name h))))"
  by (auto simp: included_headers_def Let_def split: if_splits)

section \<open>Properties\<close>

text \<open>
  A URI made from a user and a host:port text has that host and, modulo 65536 (the
  port is kept in 16 bits), that port, where port 0 stands for the default of the transport;
  a port that fits prints back as the text the URI was made from.
\<close>

theorem create_uri_host_port:
  assumes "plain_host h" and "h \<noteq> ''''" and "0 \<le> n" and "n < 2 ^ 63"
  shows "let u = CreateURIFromUserAndAddress user (h @ '':'' @ itoa n) tr in
           User u = user \<and> GetHost u = h \<and> Transport u = tr \<and>
           GetPort u = (if n mod 65536 = 0 then (if tr = TransportTLS then 5061 else 5060) else n mod 65536) \<and>
           (0 < n \<and> n < 65536 \<longrightarrow> GetHostPort u = h @ '':'' @ itoa n)"
proof -
  define u where "u = CreateURIFromUserAndAddress user (h @ '':'' @ itoa n) tr"
  have u: "u = \<lparr>User = user, Host = h, Addr = None, Port = word_of_int n, Transport = tr\<rparr>"
    using assms by (simp add: u_def CreateURIFromUserAndAddress_def Normalize_host_port)
  have port: "GetPort u = (if n mod 65536 = 0 then (if tr = TransportTLS then 5061 else 5060) else n mod 65536)"
    by (simp add: u GetPort_def Let_def uint_word_of_int_mod)
  have "0 < n \<and> n < 65536 \<Longrightarrow> GetPort u = n"
    by (rule GetPort_of_int) (simp_all add: u)
  with assms(2) port show ?thesis
    unfolding u_def [symmetric] by (simp add: u GetHost_def GetHostPort_def)
qed

theorem create_uri_host_port_witness:
  "let u = CreateURIFromUserAndAddress ''bob'' (''sip.example.com'' @ '':'' @ itoa 5080) TransportTCP in
     User u = ''bob'' \<and> GetHost u = ''sip.example.com'' \<and> Transport u = TransportTCP \<and>
     GetPort u = (if 5080 mod 65536 = (0::int) then (if TransportTCP = TransportTLS then 5061 else 5060) else 5080 mod 65536) \<and>
     (0 < (5080::int) \<and> (5080::int) < 65536 \<longrightarrow> GetHostPort u = ''sip.example.com'' @ '':'' @ itoa 5080)"
  by (rule create_uri_host_port) (simp_all add: plain_host_def)

text \<open>
  C36. A URI whose host has no colon, with a host, no separate address and a known lower-case
  transport, survives being turned into a SIP URI and back.
\<close>

theorem convert_uri_roundtrip:
  assumes "CHR '':'' \<notin> set (Host u)" and "Host u \<noteq> ''''" and "Addr u = None"
    and "Transport u \<noteq> ''''" and "to_lower (Transport u) = Transport u"
  shows "ConvertURI (GetURI u) = u"
proof -
  have "Normalize u = u" using assms(1) by (rule Normalize_no_colon)
  moreover have "ConvertURI (GetURI u) = Normalize u"
    using assms
    by (cases u) (simp add: ConvertURI_def GetURI_def GetHost_def Let_def transportFromURI_def params_get_def)
  ultimately show ?thesis by simp
qed

theorem convert_uri_roundtrip_witness:
  "let u = \<lparr>User = ''alice'', Host = ''sip.example.com'', Addr = None, Port = 5070, Transport = TransportTLS\<rparr>
   in ConvertURI (GetURI u) = u"
  unfolding Let_def
  by (rule convert_uri_roundtrip) (simp_all add: transport_defs to_lower_def lower_char_def)

text \<open>
  Where an attribute of a participant comes from: given to begin with, a header the
  option lets through (with \<open>SIP_X_HEADERS\<close> only those named \<open>x-\<close>...), a header one of the two
  tables maps to it, or the tag and Call-ID of the call; and an entry of the caller's table
  prevails over all but the last two.
\<close>

theorem headers_to_attrs:
  assumes "distinct (map snd tab)"
    and hs': "hs' = (case c of None \<Rightarrow> hs | Some s \<Rightarrow> sv_remote_headers s)"
    and attrs: "attrs = HeadersToAttrs pre hpre (Some a) tab opts c hs"
  shows "(\<forall>k v. attrs k = Some v \<longrightarrow>
            a k = Some v
            \<or> (opts \<noteq> SIP_NO_HEADERS \<and> (\<exists>h\<in>set hs'. k = hpre @ to_lower (hdr_name h) \<and> v = hdr_value h
                 \<and> (opts = SIP_X_HEADERS \<longrightarrow> prefix ''x-'' (to_lower (hdr_name h)))))
            \<or> (\<exists>hdr. (hdr, k) \<in> set (headerToAttr pre) \<union> set tab \<and> GetHeader hs' hdr = Some v)
            \<or> (\<exists>s. c = Some s \<and> (k = AttrSIPCallTag pre \<and> v = sv_tag s \<or> k = AttrSIPCallIDFull pre \<and> v = sv_call_id s)))
       \<and> (\<forall>hdr k v. (hdr, k) \<in> set tab \<longrightarrow> GetHeader hs' hdr = Some v \<longrightarrow>
            k \<noteq> AttrSIPCallTag pre \<longrightarrow> k \<noteq> AttrSIPCallIDFull pre \<longrightarrow> attrs k = Some v)"
proof -
  define m where "m = put_all (mapped_headers hs' tab)
    (put_all (mapped_headers hs' (headerToAttr pre)) (put_all (included_headers hpre opts hs') a))"
  have res: "attrs k =
      (case c of None \<Rightarrow> m k
       | Some s \<Rightarrow> if k = AttrSIPCallIDFull pre \<and> sv_call_id s \<noteq> '''' then Some (sv_call_id s)
                   else if k = AttrSIPCallTag pre \<and> sv_tag s \<noteq> '''' then Some (sv_tag s) else m k)" for k
    by (simp add: attrs HeadersToAttrs_def Let_def m_def hs' split: option.split)
  have tabv: "m k = Some v" if "(hdr, k) \<in> set tab" "GetHeader hs' hdr = Some v" for hdr k v
    unfolding m_def
    by (rule put_all_in) (use that in \<open>auto simp: set_mapped_headers assms intro: distinct_mapped_headers\<close>)
  have src: "a k = Some v
      \<or> (opts \<noteq> SIP_NO_HEADERS \<and> (\<exists>h\<in>set hs'. k = hpre @ to_lower (hdr_name h) \<and> v = hdr_value h
           \<and> (opts = SIP_X_HEADERS \<longrightarrow> prefix ''x-'' (to_lower (hdr_name h)))))
      \<or> (\<exists>hdr. (hdr, k) \<in> set (headerToAttr pre) \<union> set tab \<and> GetHeader hs' hdr = Some v)"
    if "m k = Some v" for k v
    using that unfolding m_def
    by (auto dest!: put_all_cases included_names simp: set_mapped_headers)
  have "a k = Some v
      \<or> (opts \<noteq> SIP_NO_HEADERS \<and> (\<exists>h\<in>set hs'. k = hpre @ to_lower (hdr_name h) \<and> v = hdr_value h
           \<and> (opts = SIP_X_HEADERS \<longrightarrow> prefix ''x-'' (to_lower (hdr_name h)))))
      \<or> (\<exists>hdr. (hdr, k) \<in> set (headerToAttr pre) \<union> set tab \<and> GetHeader hs' hdr = Some v)
      \<or> (\<exists>s. c = Some s \<and> (k = AttrSIPCallTag pre \<and> v = sv_tag s \<or> k = AttrSIPCallIDFull pre \<and> v = sv_call_id s))"
    if "attrs k = Some v" for k v
  proof (cases "m k = Some v")
    case True
    from src [OF this] show ?thesis by blast
  next
    case False
    with that show ?thesis unfolding res by (auto split: option.splits if_splits)
  qed
  moreover have "attrs k = Some v"
    if "(hdr, k) \<in> set tab" "GetHeader hs' hdr = Some v"
      "k \<noteq> AttrSIPCallTag pre" "k \<noteq> AttrSIPCallIDFull pre" for hdr k v
    using that tabv unfolding res by (simp split: option.split)
  ultimately show ?thesis by blast
qed

theorem headers_to_attrs_witness:
  "HeadersToAttrs ''sip.'' ''sip.h.'' (Some Map.empty) [(''X-A'', ''a'')] SIP_NO_HEADERS None
     [\<lparr>hdr_name = ''x-a'', hdr_value = ''1''\<rparr>] ''a'' = Some ''1''"
proof -
  have "GetHeader [\<lparr>hdr_name = ''x-a'', hdr_value = ''1''\<rparr>] ''X-A'' = Some ''1''" by code_simp
  moreover have "''a'' \<noteq> AttrSIPCallTag ''sip.'' \<and> ''a'' \<noteq> AttrSIPCallIDFull ''sip.''" by code_simp
  ultimately show ?thesis
    using headers_to_attrs [where tab = "[(''X-A'', ''a'')]" and c = None and a = Map.empty
        and pre = "''sip.''" and hpre = "''sip.h.''" and opts = SIP_NO_HEADERS, OF _ refl refl]
    by simp
qed

end
