(* ===== verification/Service_Config.thy ===== *)
theory Service_Config
  imports Complex_Main Sip_Types
begin

text \<open>
  The configuration: \<open>pkg/config/config.go\<close> (\<open>NewConfig\<close>, \<open>Init\<close>, \<open>GetLocalIP\<close>) and
  \<open>pkg/sip/config.go\<close> (\<open>GetServiceConfig\<close> and its helpers). Durations are nanoseconds,
  floating-point settings are reals. Reading the environment, YAML, STUN, the network
  interfaces, address parsing and the logger are arguments.
\<close>

section \<open>The configuration record\<close>

type_synonym duration = int

definition Second :: duration where "Second = 1000000000"
definition Millisecond :: duration where "Millisecond = 1000000"

record tls_config =
  tls_port :: int
  tls_listen_port :: int
  tls_certs :: "(string \<times> string) list"
  tls_key_log :: string

record config =
  cf_redis :: bool
  cf_api_key :: string
  cf_api_secret :: string
  cf_ws_url :: string
  cf_health_port :: int
  cf_prometheus_port :: int
  cf_pprof_port :: int
  cf_sip_port :: int
  cf_sip_port_listen :: int
  cf_sip_hostname :: string
  cf_sip_ringing_interval :: duration
  cf_tls :: "tls_config option"
  cf_rtp_start :: int
  cf_rtp_end :: int
  cf_cluster_id :: string
  cf_max_cpu :: real
  cf_use_external_ip :: bool
  cf_local_net :: string
  cf_nat_1_to_1_ip :: string
  cf_listen_ip :: string
  cf_media_use_external_ip :: bool
  cf_media_nat_1_to_1_ip :: string
  cf_media_timeout :: duration
  cf_media_timeout_initial :: duration
  cf_codecs :: "(string \<times> bool) list"
  cf_hide_inbound_port :: bool
  cf_add_record_route :: bool
  cf_audio_dtmf :: bool
  cf_enable_jitter_buffer :: bool
  cf_enable_jitter_buffer_prob :: real
  cf_service_name :: string
  cf_node_id :: string
  cf_inbound_wait_ack :: bool

definition zero_config :: config where
  "zero_config =
     \<lparr>cf_redis = False, cf_api_key = '''', cf_api_secret = '''', cf_ws_url = '''',
      cf_health_port = 0, cf_prometheus_port = 0, cf_pprof_port = 0,
      cf_sip_port = 0, cf_sip_port_listen = 0, cf_sip_hostname = '''',
      cf_sip_ringing_interval = 0, cf_tls = None, cf_rtp_start = 0, cf_rtp_end = 0,
      cf_cluster_id = '''', cf_max_cpu = 0, cf_use_external_ip = False, cf_local_net = '''',
      cf_nat_1_to_1_ip = '''', cf_listen_ip = '''', cf_media_use_external_ip = False,
      cf_media_nat_1_to_1_ip = '''', cf_media_timeout = 0, cf_media_timeout_initial = 0,
      cf_codecs = [], cf_hide_inbound_port = False, cf_add_record_route = False,
      cf_audio_dtmf = False, cf_enable_jitter_buffer = False,
      cf_enable_jitter_buffer_prob = 0, cf_service_name = '''', cf_node_id = '''',
      cf_inbound_wait_ack = False\<rparr>"

definition DefaultSIPPort :: int where "DefaultSIPPort = 5060"
definition DefaultSIPPortTLS :: int where "DefaultSIPPortTLS = 5061"
definition DefaultRTPPortRange :: "int \<times> int" where "DefaultRTPPortRange = (10000, 20000)"

lemmas config_defaults = DefaultSIPPort_def DefaultSIPPortTLS_def DefaultRTPPortRange_def

section \<open>NewConfig and Init\<close>

text \<open>\<open>unmarshal\<close> is \<open>yaml.Unmarshal\<close> into the given record; \<open>getenv\<close> is \<open>os.Getenv\<close>.\<close>

definition NewConfig ::
  "(string \<Rightarrow> string) \<Rightarrow> (string \<Rightarrow> config \<Rightarrow> go_error + config) \<Rightarrow> string \<Rightarrow> go_error + config" where
  "NewConfig getenv unmarshal confString =
     (let conf = zero_config\<lparr>cf_api_key := getenv ''LIVEKIT_API_KEY'',
                             cf_api_secret := getenv ''LIVEKIT_API_SECRET'',
                             cf_ws_url := getenv ''LIVEKIT_WS_URL'',
                             cf_service_name := ''sip''\<rparr>;
          parsed = (if confString \<noteq> '''' then unmarshal confString conf else Inr conf)
      in case parsed of
           Inl e \<Rightarrow> Inl (PsrpcErr InvalidArgument ''could not parse config'' (Some e))
         | Inr conf \<Rightarrow>
             if \<not> cf_redis conf
             then Inl (PsrpcErr InvalidArgument ''redis configuration is required'' None)
             else Inr conf)"

definition tls_defaults :: "tls_config \<Rightarrow> tls_config" where
  "tls_defaults tc =
     (let tc = (if tls_port tc = 0 then tc\<lparr>tls_port := DefaultSIPPortTLS\<rparr> else tc)
      in if tls_listen_port tc = 0 then tc\<lparr>tls_listen_port := tls_port tc\<rparr> else tc)"

text \<open>
  \<open>Init\<close> fills in defaults in place and then validates, so the configuration is changed
  even when an error is returned. \<open>init_logger\<close> is the outcome of \<open>InitLogger\<close>.
\<close>

definition set_default :: "'a::zero \<Rightarrow> 'a \<Rightarrow> 'a" where
  "set_default def v = (if v = 0 then def else v)"

definition init_defaults :: "string \<Rightarrow> config \<Rightarrow> config" where
  "init_defaults node_id c =
     (let c = c\<lparr>cf_node_id := node_id\<rparr>;
          c = c\<lparr>cf_sip_port := set_default DefaultSIPPort (cf_sip_port c)\<rparr>;
          c = c\<lparr>cf_sip_port_listen := set_default (cf_sip_port c) (cf_sip_port_listen c)\<rparr>;
          c = c\<lparr>cf_tls := map_option tls_defaults (cf_tls c)\<rparr>;
          c = c\<lparr>cf_rtp_start := set_default (fst DefaultRTPPortRange) (cf_rtp_start c)\<rparr>;
          c = c\<lparr>cf_rtp_end := set_default (snd DefaultRTPPortRange) (cf_rtp_end c)\<rparr>
      in c\<lparr>cf_max_cpu := (if cf_max_cpu c \<le> 0 \<or> 1 < cf_max_cpu c then 9 / 10 else cf_max_cpu c)\<rparr>)"

definition Init :: "string \<Rightarrow> go_error option \<Rightarrow> config \<Rightarrow> config \<times> go_error option" where
  "Init node_id init_logger c =
     (let c = init_defaults node_id c
      in case init_logger of
           Some e \<Rightarrow> (c, Some e)
         | None \<Rightarrow>
             if cf_use_external_ip c \<and> cf_nat_1_to_1_ip c \<noteq> ''''
             then (c, Some (PlainErr ''use_external_ip and nat_1_to_1_ip can not both be set''))
             else if cf_media_use_external_ip c \<and> cf_media_nat_1_to_1_ip c \<noteq> ''''
             then (c, Some (PlainErr ''media_use_external_ip and media_nat_1_to_1_ip can not both be set''))
             else (c, None))"

definition GetLoggerValues :: "config \<Rightarrow> (string \<times> string) list" where
  "GetLoggerValues c = (if cf_node_id c = '''' then [] else [(''nodeID'', cf_node_id c)])"

section \<open>Local and public addresses\<close>

text \<open>
  An interface address as \<open>Addrs()\<close> lists it: an \<open>*net.IPAddr\<close>, an \<open>*net.IPNet\<close> or
  another type; the payload is \<open>IP.To4()\<close>.
\<close>

datatype if_addr = IPAddr "32 word option" | IPNet "32 word option" | OtherAddr

text \<open>A parsed network: IPv4 with its length, or IPv6, which contains no IPv4 address.\<close>

datatype net_prefix = V4Prefix "32 word" nat | V6Prefix

definition octet :: "32 word \<Rightarrow> nat \<Rightarrow> nat" where
  "octet w i = unat (drop_bit (8 * i) w) mod 256"

definition ipv4_string :: "32 word \<Rightarrow> string" where
  "ipv4_string w = show_nat (octet w 3) @ ''.'' @ show_nat (octet w 2) @ ''.'' @
     show_nat (octet w 1) @ ''.'' @ show_nat (octet w 0)"

definition is_loopback :: "32 word \<Rightarrow> bool" where
  "is_loopback w = (octet w 3 = 127)"

fun prefix_contains :: "net_prefix \<Rightarrow> 32 word \<Rightarrow> bool" where
  "prefix_contains (V4Prefix net len) ip = (drop_bit (32 - len) net = drop_bit (32 - len) ip)"
| "prefix_contains V6Prefix ip = False"

definition usable_local :: "net_prefix option \<Rightarrow> if_addr \<Rightarrow> 32 word option" where
  "usable_local netw a =
     (let check = (\<lambda>v4. case v4 of
           None \<Rightarrow> None
         | Some ip \<Rightarrow>
             if is_loopback ip then None
             else (case netw of
                     None \<Rightarrow> Some ip
                   | Some p \<Rightarrow> if prefix_contains p ip then Some ip else None))
      in case a of IPAddr v4 \<Rightarrow> check v4 | IPNet v4 \<Rightarrow> check v4 | OtherAddr \<Rightarrow> None)"

text \<open>
  \<open>getLocalIP\<close>: the result of \<open>net.Interfaces()\<close>, each interface with its addresses or
  \<open>None\<close> where \<open>Addrs()\<close> failed.
\<close>

fun first_usable :: "net_prefix option \<Rightarrow> if_addr list \<Rightarrow> 32 word option" where
  "first_usable netw [] = None"
| "first_usable netw (a # as) =
     (case usable_local netw a of Some ip \<Rightarrow> Some ip | None \<Rightarrow> first_usable netw as)"

fun scan_ifaces :: "net_prefix option \<Rightarrow> if_addr list option list \<Rightarrow> 32 word option" where
  "scan_ifaces netw [] = None"
| "scan_ifaces netw (None # is) = scan_ifaces netw is"
| "scan_ifaces netw (Some as # is) =
     (case first_usable netw as of Some ip \<Rightarrow> Some ip | None \<Rightarrow> scan_ifaces netw is)"

definition getLocalIP ::
  "go_error + if_addr list option list \<Rightarrow> (string \<Rightarrow> go_error + net_prefix) \<Rightarrow> string \<Rightarrow> go_error + ip_addr" where
  "getLocalIP ifaces parse_prefix localNet =
     (case ifaces of
        Inl e \<Rightarrow> Inl e
      | Inr is \<Rightarrow>
          let scan = (\<lambda>netw. case scan_ifaces netw is of
                        Some ip \<Rightarrow> Inr (Some (ipv4_string ip))
                      | None \<Rightarrow> Inl (PlainErr ''No local interface found''))
          in if localNet \<noteq> ''''
             then (case parse_prefix localNet of Inl e \<Rightarrow> Inl e | Inr nw \<Rightarrow> scan (Some nw))
             else scan None)"

text \<open>\<open>getPublicIP\<close>: \<open>stun i\<close> is the outcome of the \<open>i\<close>-th call of \<open>GetExternalIP\<close>.\<close>

fun public_ip_loop ::
  "nat \<Rightarrow> nat \<Rightarrow> (nat \<Rightarrow> go_error + string) \<Rightarrow> (string \<Rightarrow> go_error + ip_addr) \<Rightarrow> go_error option \<Rightarrow> go_error + ip_addr" where
  "public_ip_loop 0 i stun parse_addr err = Inl (PlainErr ''could not resolve external IP'')"
| "public_ip_loop (Suc left) i stun parse_addr err =
     (case stun i of
        Inr ip \<Rightarrow> parse_addr ip
      | Inl e \<Rightarrow> public_ip_loop left (Suc i) stun parse_addr (Some e))"

definition getPublicIP :: "(nat \<Rightarrow> go_error + string) \<Rightarrow> (string \<Rightarrow> go_error + ip_addr) \<Rightarrow> go_error + ip_addr" where
  "getPublicIP stun parse_addr = public_ip_loop 3 0 stun parse_addr None"

record service_config =
  sc_signaling_ip :: ip_addr
  sc_signaling_ip_local :: ip_addr
  sc_media_ip :: ip_addr

text \<open>
  \<open>GetServiceConfig\<close>: \<open>stun_sig\<close> and \<open>stun_media\<close> answer the two series of STUN calls.
\<close>

definition GetServiceConfig ::
  "(nat \<Rightarrow> go_error + string) \<Rightarrow> (nat \<Rightarrow> go_error + string) \<Rightarrow> go_error + if_addr list option list
    \<Rightarrow> (string \<Rightarrow> go_error + net_prefix) \<Rightarrow> (string \<Rightarrow> go_error + ip_addr)
    \<Rightarrow> config \<Rightarrow> go_error + service_config" where
  "GetServiceConfig stun_sig stun_media ifaces parse_prefix parse_addr conf =
     (let local = getLocalIP ifaces parse_prefix (cf_local_net conf);
          signaling =
            (if cf_use_external_ip conf then
               (case getPublicIP stun_sig parse_addr of Inl e \<Rightarrow> Inl e
                | Inr pub \<Rightarrow> (case local of Inl e \<Rightarrow> Inl e | Inr l \<Rightarrow> Inr (pub, l)))
             else if cf_nat_1_to_1_ip conf \<noteq> '''' then
               (case parse_addr (cf_nat_1_to_1_ip conf) of Inl e \<Rightarrow> Inl e | Inr ip \<Rightarrow> Inr (ip, ip))
             else (case local of Inl e \<Rightarrow> Inl e | Inr l \<Rightarrow> Inr (l, l)))
      in case signaling of
           Inl e \<Rightarrow> Inl e
         | Inr (sig, sig_local) \<Rightarrow>
             let media =
               (if cf_media_use_external_ip conf \<and> \<not> cf_use_external_ip conf
                then getPublicIP stun_media parse_addr
                else if cf_media_nat_1_to_1_ip conf \<noteq> ''''
                      \<and> cf_media_nat_1_to_1_ip conf \<noteq> cf_nat_1_to_1_ip conf
                then parse_addr (cf_media_nat_1_to_1_ip conf)
                else Inr sig)
             in case media of
                  Inl e \<Rightarrow> Inl e
                | Inr m \<Rightarrow> Inr \<lparr>sc_signaling_ip = sig, sc_signaling_ip_local = sig_local, sc_media_ip = m\<rparr>)"

section \<open>Transport ports and the contact URI\<close>

definition transportPort :: "config \<Rightarrow> transport \<Rightarrow> int" where
  "transportPort c t =
     (if t = TransportTLS then (case cf_tls c of Some tc \<Rightarrow> tls_port tc | None \<Rightarrow> cf_sip_port c)
      else cf_sip_port c)"

definition getContactURI :: "config \<Rightarrow> ip_addr \<Rightarrow> transport \<Rightarrow> URI" where
  "getContactURI c ip t =
     \<lparr>User = '''', Host = (if t = TransportTLS then cf_sip_hostname c else ''''),
      Addr = ip, Port = word_of_int (transportPort c t), Transport = t\<rparr>"

section \<open>Facts\<close>

lemma usable_local_props:
  "usable_local netw a = Some ip \<Longrightarrow>
     (a = IPAddr (Some ip) \<or> a = IPNet (Some ip)) \<and> \<not> is_loopback ip \<and> (\<forall>p. netw = Some p \<longrightarrow> prefix_contains p ip)"
  by (auto simp: usable_local_def Let_def split: if_addr.splits option.splits if_splits)

lemma first_usable_props:
  "first_usable netw as = Some ip \<Longrightarrow> \<exists>a\<in>set as. usable_local netw a = Some ip"
  by (induction netw as rule: first_usable.induct) (auto split: option.splits)

lemma first_usable_None: "first_usable netw as = None \<longleftrightarrow> (\<forall>a\<in>set as. usable_local netw a = None)"
  by (induction netw as rule: first_usable.induct) (auto split: option.splits)

lemma scan_ifaces_props:
  "scan_ifaces netw is = Some ip \<Longrightarrow> \<exists>as a. Some as \<in> set is \<and> a \<in> set as \<and> usable_local netw a = Some ip"
  by (induction netw "is" rule: scan_ifaces.induct)
    (fastforce split: option.splits dest: first_usable_props)+

lemma scan_ifaces_None:
  "scan_ifaces netw is = None \<longleftrightarrow> (\<forall>as. Some as \<in> set is \<longrightarrow> (\<forall>a\<in>set as. usable_local netw a = None))"
proof (induction netw "is" rule: scan_ifaces.induct)
  case (3 netw as "is")
  show ?case
  proof (cases "first_usable netw as")
    case None
    then have n: "\<forall>a\<in>set as. usable_local netw a = None" by (simp add: first_usable_None)
    have "scan_ifaces netw (Some as # is) = scan_ifaces netw is" using None by simp
    with n "3.IH" [OF None] show ?thesis by auto
  next
    case (Some ip)
    then obtain a where "a \<in> set as" "usable_local netw a = Some ip"
      using first_usable_props by blast
    with Some show ?thesis by fastforce
  qed
qed simp_all

section \<open>Properties\<close>

text \<open>
  After \<open>Init\<close> every port of the configuration is set, a value that was set is kept, the
  CPU limit lies in (0, 1], a second \<open>Init\<close> changes nothing, and an error is returned exactly
  when the logger cannot be made or an external IP is asked for beside a fixed one.
\<close>

theorem config_init:
  "case Init nid lg c of (c', e) \<Rightarrow>
     cf_node_id c' = nid \<and>
     cf_sip_port c' = (if cf_sip_port c = 0 then 5060 else cf_sip_port c) \<and>
     cf_sip_port_listen c' = (if cf_sip_port_listen c = 0 then cf_sip_port c' else cf_sip_port_listen c) \<and>
     cf_sip_port_listen c' \<noteq> 0 \<and> cf_rtp_start c' \<noteq> 0 \<and> cf_rtp_end c' \<noteq> 0 \<and>
     (\<forall>tc. cf_tls c' = Some tc \<longrightarrow> tls_port tc \<noteq> 0 \<and> tls_listen_port tc \<noteq> 0) \<and>
     0 < cf_max_cpu c' \<and> cf_max_cpu c' \<le> 1 \<and>
     Init nid lg c' = (c', e) \<and>
     (e = None \<longleftrightarrow> lg = None \<and> \<not> (cf_use_external_ip c \<and> cf_nat_1_to_1_ip c \<noteq> '''')
                \<and> \<not> (cf_media_use_external_ip c \<and> cf_media_nat_1_to_1_ip c \<noteq> ''''))"
proof -
  define d where "d = init_defaults nid c"
  define e where "e = snd (Init nid lg c)"
  have init: "Init nid lg c = (d, e)"
    by (simp add: d_def e_def Init_def Let_def split: option.split)
  have tls: "tls_defaults (tls_defaults tc) = tls_defaults tc" for tc
    by (simp add: tls_defaults_def Let_def config_defaults)
  have tls0: "tls_port (tls_defaults tc) \<noteq> 0 \<and> tls_listen_port (tls_defaults tc) \<noteq> 0" for tc
    by (simp add: tls_defaults_def Let_def config_defaults)
  have sd: "set_default a (set_default a v) = set_default a v" for a v :: int
    by (simp add: set_default_def)
  have f: "cf_node_id d = nid" "cf_sip_port d = set_default DefaultSIPPort (cf_sip_port c)"
    "cf_sip_port_listen d = set_default (cf_sip_port d) (cf_sip_port_listen c)"
    "cf_tls d = map_option tls_defaults (cf_tls c)"
    "cf_rtp_start d \<noteq> 0" "cf_rtp_end d \<noteq> 0" "0 < cf_max_cpu d" "cf_max_cpu d \<le> 1"
    "cf_use_external_ip d = cf_use_external_ip c" "cf_nat_1_to_1_ip d = cf_nat_1_to_1_ip c"
    "cf_media_use_external_ip d = cf_media_use_external_ip c"
    "cf_media_nat_1_to_1_ip d = cf_media_nat_1_to_1_ip c"
    by (simp_all add: d_def init_defaults_def Let_def config_defaults set_default_def)
  have ports: "cf_sip_port d \<noteq> 0" "cf_sip_port_listen d \<noteq> 0"
    using f(2,3) by (auto simp: set_default_def config_defaults)
  have "init_defaults nid d = d"
    by (simp add: d_def init_defaults_def Let_def sd tls option.map_comp comp_def
        cong: option.map_cong_simp)
  then have "Init nid lg d = (d, e)"
    using init by (simp add: Init_def d_def [symmetric])
  moreover have "e = None \<longleftrightarrow> lg = None \<and> \<not> (cf_use_external_ip c \<and> cf_nat_1_to_1_ip c \<noteq> '''')
                \<and> \<not> (cf_media_use_external_ip c \<and> cf_media_nat_1_to_1_ip c \<noteq> '''')"
    using f(9-12) by (auto simp: e_def Init_def d_def [symmetric] Let_def split: option.split)
  moreover have "\<forall>tc. cf_tls d = Some tc \<longrightarrow> tls_port tc \<noteq> 0 \<and> tls_listen_port tc \<noteq> 0"
    using f(4) tls0 by auto
  ultimately show ?thesis
    using f ports by (simp add: init) (simp add: set_default_def config_defaults)
qed

theorem config_init_witness:
  "case Init ''n'' None (zero_config\<lparr>cf_tls := Some \<lparr>tls_port = 0, tls_listen_port = 0, tls_certs = [], tls_key_log = ''''\<rparr>\<rparr>) of
     (c', e) \<Rightarrow> e = None \<and> (\<forall>tc. cf_tls c' = Some tc \<longrightarrow> tls_port tc \<noteq> 0)"
  using config_init [where nid = "''n''" and lg = None and c = "zero_config\<lparr>cf_tls := Some \<lparr>tls_port = 0, tls_listen_port = 0, tls_certs = [], tls_key_log = ''''\<rparr>\<rparr>"]
  by (simp add: case_prod_beta zero_config_def)

text \<open>
  The local address that is announced belongs to an interface of the machine, is not a
  loopback address, and lies in the configured network if there is one; an error is returned
  only when no interface has such an address (or the network cannot be parsed).
\<close>

theorem local_ip_usable:
  "(\<forall>r. getLocalIP (Inr is) parse_prefix net = Inr r \<longrightarrow>
      (\<exists>ip as a. r = Some (ipv4_string ip) \<and> Some as \<in> set is \<and> a \<in> set as
         \<and> (a = IPAddr (Some ip) \<or> a = IPNet (Some ip)) \<and> \<not> is_loopback ip
         \<and> (net \<noteq> '''' \<longrightarrow> (\<exists>p. parse_prefix net = Inr p \<and> prefix_contains p ip))))
   \<and> (\<forall>e. getLocalIP (Inr is) parse_prefix net = Inl e \<longrightarrow>
        (net \<noteq> '''' \<and> parse_prefix net = Inl e) \<or>
        (\<forall>as a ip. Some as \<in> set is \<longrightarrow> a \<in> set as \<longrightarrow> (a = IPAddr (Some ip) \<or> a = IPNet (Some ip)) \<longrightarrow>
           is_loopback ip \<or> (net \<noteq> '''' \<and> (\<exists>p. parse_prefix net = Inr p \<and> \<not> prefix_contains p ip))))"
proof -
  define netw where "netw = (if net = '''' then None else case parse_prefix net of Inl e \<Rightarrow> None | Inr p \<Rightarrow> Some p)"
  have res: "getLocalIP (Inr is) parse_prefix net =
      (if net \<noteq> '''' \<and> (\<exists>e. parse_prefix net = Inl e) then Inl (projl (parse_prefix net))
       else case scan_ifaces netw is of Some ip \<Rightarrow> Inr (Some (ipv4_string ip))
            | None \<Rightarrow> Inl (PlainErr ''No local interface found''))"
    by (auto simp: getLocalIP_def Let_def netw_def split: sum.splits)
  have used: "usable_local netw a = Some ip" if
    "a = IPAddr (Some ip) \<or> a = IPNet (Some ip)" "\<not> is_loopback ip" "\<forall>p. netw = Some p \<longrightarrow> prefix_contains p ip" for a ip
    using that by (auto simp: usable_local_def Let_def split: option.splits)
  have "\<exists>ip as a. r = Some (ipv4_string ip) \<and> Some as \<in> set is \<and> a \<in> set as
         \<and> (a = IPAddr (Some ip) \<or> a = IPNet (Some ip)) \<and> \<not> is_loopback ip
         \<and> (net \<noteq> '''' \<longrightarrow> (\<exists>p. parse_prefix net = Inr p \<and> prefix_contains p ip))"
    if r: "getLocalIP (Inr is) parse_prefix net = Inr r" for r
  proof -
    from r obtain ip where ip: "scan_ifaces netw is = Some ip" "r = Some (ipv4_string ip)"
      and ok: "net \<noteq> '''' \<Longrightarrow> \<exists>p. parse_prefix net = Inr p"
      unfolding res by (auto split: if_splits option.splits) (metis sumE)+
    from scan_ifaces_props [OF ip(1)] obtain as a where
      "Some as \<in> set is" "a \<in> set as" "usable_local netw a = Some ip" by blast
    moreover have "net \<noteq> '''' \<longrightarrow> (\<exists>p. parse_prefix net = Inr p \<and> prefix_contains p ip)"
      using usable_local_props [OF calculation(3)] ok by (auto simp: netw_def)
    ultimately show ?thesis using usable_local_props [of netw a ip] ip(2) by blast
  qed
  moreover have "net \<noteq> '''' \<and> parse_prefix net = Inl e \<or>
        (\<forall>as a ip. Some as \<in> set is \<longrightarrow> a \<in> set as \<longrightarrow> (a = IPAddr (Some ip) \<or> a = IPNet (Some ip)) \<longrightarrow>
           is_loopback ip \<or> (net \<noteq> '''' \<and> (\<exists>p. parse_prefix net = Inr p \<and> \<not> prefix_contains p ip)))"
    if e: "getLocalIP (Inr is) parse_prefix net = Inl e" for e
  proof (cases "net \<noteq> '''' \<and> (\<exists>e. parse_prefix net = Inl e)")
    case True
    with e show ?thesis unfolding res by auto
  next
    case False
    with e have "scan_ifaces netw is = None" unfolding res by (auto split: option.splits)
    then have none: "\<And>as a. Some as \<in> set is \<Longrightarrow> a \<in> set as \<Longrightarrow> usable_local netw a = None"
      by (auto simp: scan_ifaces_None)
    have "is_loopback ip \<or> (\<exists>p. netw = Some p \<and> \<not> prefix_contains p ip)"
      if "Some as \<in> set is" "a \<in> set as" "a = IPAddr (Some ip) \<or> a = IPNet (Some ip)" for as a ip
    proof (rule ccontr)
      assume "\<not> ?thesis"
      then have "usable_local netw a = Some ip" using used [OF that(3)] by blast
      with none [OF that(1,2)] show False by simp
    qed
    moreover have "netw = Some p \<Longrightarrow> net \<noteq> '''' \<and> parse_prefix net = Inr p" for p
      by (auto simp: netw_def split: if_splits sum.splits)
    ultimately show ?thesis by metis
  qed
  ultimately show ?thesis by (intro conjI allI impI)
qed

theorem local_ip_usable_witness:
  "getLocalIP (Inr [None, Some [IPNet (Some 0x7F000001), IPNet (Some 0x0A000005)]]) (\<lambda>s. Inl (PlainErr s)) '''' \<noteq> Inl (PlainErr ''No local interface found'')"
  using local_ip_usable [of "[None, Some [IPNet (Some 0x7F000001), IPNet (Some 0x0A000005)]]" "\<lambda>s. Inl (PlainErr s)" "''''"]
  by (auto simp: is_loopback_def octet_def dest!: spec [of _ "[IPNet (Some 0x7F000001), IPNet (Some 0x0A000005)]"]
      spec [of _ "IPNet (Some 0x0A000005)"])

end
