(* ===== verification/Call_Status.thy ===== *)
theory Call_Status
  imports Sip_Types
begin

text \<open>
  \<open>pkg/sip/participant.go\<close>: the statuses of a call and what each one is reported as, to the
  room (an attribute and a disconnect reason) and to the SIP peer (a final response).
\<close>

datatype call_status =
    callDropped | callFlood | CallDialing | CallRinging | CallAutomation | CallActive
  | CallHangup | callUnavailable | callRejected | callMediaFailed | callAcceptFailed | callNoACK

text \<open>The constants are declared with \<open>iota\<close>, so they are numbered in this order.\<close>

fun call_status_code :: "call_status \<Rightarrow> nat" where
  "call_status_code callDropped = 0"
| "call_status_code callFlood = 1"
| "call_status_code CallDialing = 2"
| "call_status_code CallRinging = 3"
| "call_status_code CallAutomation = 4"
| "call_status_code CallActive = 5"
| "call_status_code CallHangup = 6"
| "call_status_code callUnavailable = 7"
| "call_status_code callRejected = 8"
| "call_status_code callMediaFailed = 9"
| "call_status_code callAcceptFailed = 10"
| "call_status_code callNoACK = 11"

lemma call_status_code_inject: "call_status_code a = call_status_code b \<longleftrightarrow> a = b"
  by (cases a; cases b) simp_all

instantiation call_status :: linorder
begin

definition less_eq_call_status :: "call_status \<Rightarrow> call_status \<Rightarrow> bool" where
  "a \<le> b \<longleftrightarrow> call_status_code a \<le> call_status_code b"

definition less_call_status :: "call_status \<Rightarrow> call_status \<Rightarrow> bool" where
  "a < b \<longleftrightarrow> call_status_code a < call_status_code b"

instance
  by standard
    (auto simp: less_eq_call_status_def less_call_status_def simp flip: call_status_code_inject)

end

datatype disconnect_reason =
    UNKNOWN_REASON | CLIENT_INITIATED | USER_UNAVAILABLE | USER_REJECTED | SERVER_SHUTDOWN

fun Attribute :: "call_status \<Rightarrow> string" where
  "Attribute CallDialing = ''dialing''"
| "Attribute CallRinging = ''ringing''"
| "Attribute CallAutomation = ''automation''"
| "Attribute CallActive = ''active''"
| "Attribute CallHangup = ''hangup''"
| "Attribute _ = ''''"

fun DisconnectReason :: "call_status \<Rightarrow> disconnect_reason" where
  "DisconnectReason CallHangup = CLIENT_INITIATED"
| "DisconnectReason callUnavailable = USER_UNAVAILABLE"
| "DisconnectReason callRejected = USER_REJECTED"
| "DisconnectReason _ = UNKNOWN_REASON"

fun SIPStatus :: "call_status \<Rightarrow> int \<times> string" where
  "SIPStatus callMediaFailed = (488, ''MediaFailed'')"
| "SIPStatus _ = (486, ''Rejected'')"

definition maxCallDuration :: int where
  "maxCallDuration = 24 * 3600 * 1000000000"

definition defaultRingingTimeout :: int where
  "defaultRingingTimeout = 3 * 60 * 1000000000"

lemma SIPStatus_final: "400 \<le> fst (SIPStatus v) \<and> fst (SIPStatus v) < 500"
  by (cases v) auto

lemma Attribute_inject:
  "Attribute a = Attribute b \<Longrightarrow> Attribute a \<noteq> '''' \<Longrightarrow> a = b"
  by (cases a; cases b) auto

end
