(* ===== verification/Sip_Protocol.thy ===== *)
theory Sip_Protocol
  imports Service_Config Call_Status
begin

text \<open>
  \<open>pkg/sip/protocol.go\<close>: status names, the transports of a request, building a REFER,
  waiting for a response, NOTIFY bodies and what they report to a pending transfer, the
  SIP status of a service error, and Reason headers.
\<close>

section \<open>Status names\<close>

definition statusNamesMap :: "(int \<times> string) list" where
  "statusNamesMap =
     [(100, ''Trying''), (180, ''Ringing''), (181, ''CallIsForwarded''), (182, ''Queued''),
      (183, ''SessionInProgress''),
      (200, ''OK''), (202, ''Accepted''),
      (301, ''MovedPermanently''), (302, ''MovedTemporarily''), (305, ''UseProxy''),
      (400, ''BadRequest''), (401, ''Unauthorized''), (402, ''PaymentRequired''),
      (403, ''Forbidden''), (404, ''NotFound''), (405, ''MethodNotAllowed''),
      (406, ''NotAcceptable''), (407, ''ProxyAuthRequired''), (408, ''RequestTimeout''),
      (409, ''Conflict''), (410, ''Gone''), (413, ''RequestEntityTooLarge''),
      (414, ''RequestURITooLong''), (415, ''UnsupportedMediaType''),
      (416, ''RequestedRangeNotSatisfiable''), (420, ''BadExtension''),
      (421, ''ExtensionRequired''), (423, ''IntervalToBrief''),
      (480, ''TemporarilyUnavailable''), (481, ''CallTransactionDoesNotExists''),
      (482, ''LoopDetected''), (483, ''TooManyHops''), (484, ''AddressIncomplete''),
      (485, ''Ambiguous''), (486, ''BusyHere''), (487, ''RequestTerminated''),
      (488, ''NotAcceptableHere''),
      (500, ''InternalServerError''), (501, ''NotImplemented''), (502, ''BadGateway''),
      (503, ''ServiceUnavailable''), (504, ''GatewayTimeout''), (505, ''VersionNotSupported''),
      (513, ''MessageTooLarge''),
      (600, ''GlobalBusyEverywhere''), (603, ''GlobalDecline''),
      (604, ''GlobalDoesNotExistAnywhere''), (606, ''GlobalNotAcceptable'')]"

definition sipStatus :: "int \<Rightarrow> string" where
  "sipStatus code =
     (case map_of statusNamesMap code of
        Some name \<Rightarrow> name
      | None \<Rightarrow> ''Status'' @ itoa code)"

definition statusName :: "int \<Rightarrow> string" where
  "statusName status =
     (case map_of statusNamesMap status of
        Some name \<Rightarrow> itoa status @ ''-'' @ name
      | None \<Rightarrow> ''status-'' @ itoa status)"

section \<open>The transports of a request\<close>

definition to_transport :: "addr_header \<Rightarrow> transport" where
  "to_transport to =
     (let tr = transportFromURI (ah_address to) in
      if tr \<noteq> '''' then tr else to_lower (params_get (ah_params to) ''transport''))"

definition callTransportFromReq :: "sip_request \<Rightarrow> transport" where
  "callTransportFromReq req =
     (let by_to = (case req_to req of None \<Rightarrow> '''' | Some to \<Rightarrow> to_transport to)
      in if by_to \<noteq> '''' then by_to
         else (case req_via req of Some via \<Rightarrow> to_lower (via_transport via) | None \<Rightarrow> ''''))"

definition legTransportFromReq :: "sip_request \<Rightarrow> transport" where
  "legTransportFromReq req =
     (case req_via req of
        Some via \<Rightarrow> to_lower (via_transport via)
      | None \<Rightarrow>
          (let tr = transportFromURI (req_recipient req) in
           if tr \<noteq> '''' then tr
           else (case req_to req of None \<Rightarrow> '''' | Some to \<Rightarrow> to_transport to)))"

section \<open>Waiting for a response\<close>

text \<open>
  What the \<open>select\<close> of \<open>sipResponse\<close> (in \<open>outbound.go\<close>) can take, in the order it takes
  them. The record says what the wait did: the responses it passed to \<open>setState\<close> and
  whether it cancelled the transaction.
\<close>

datatype resp_event = CtxDone | StopRequested | TxDone | GotResponse sip_response

record resp_wait =
  rw_result :: "(go_error + sip_response) outcome"
  rw_cancelled :: bool
  rw_seen :: "sip_response list"

definition is_provisional :: "int \<Rightarrow> bool" where
  "is_provisional status = (status div 100 = 1)"

fun sipResponse :: "sip_response list \<Rightarrow> resp_event list \<Rightarrow> resp_wait" where
  "sipResponse seen [] = \<lparr>rw_result = Blocked, rw_cancelled = False, rw_seen = seen\<rparr>"
| "sipResponse seen (CtxDone # es) =
     \<lparr>rw_result = Returns (Inl (PsrpcErr Canceled ''canceled'' None)), rw_cancelled = True, rw_seen = seen\<rparr>"
| "sipResponse seen (StopRequested # es) =
     \<lparr>rw_result = Returns (Inl (PsrpcErr Canceled ''canceled'' None)), rw_cancelled = True, rw_seen = seen\<rparr>"
| "sipResponse seen (TxDone # es) =
     \<lparr>rw_result = Returns (Inl (PsrpcErr Canceled ''transaction failed to complete'' None)),
      rw_cancelled = False, rw_seen = seen\<rparr>"
| "sipResponse seen (GotResponse r # es) =
     (if \<not> is_provisional (resp_status r)
      then \<lparr>rw_result = Returns (Inr r), rw_cancelled = False, rw_seen = seen @ [r]\<rparr>
      else sipResponse (seen @ [r]) es)"

text \<open>
  \<open>sendAndACK\<close>: the outcome of opening the transaction, then the wait; \<open>True\<close> where an ACK
  is written.
\<close>

definition sendAndACK :: "go_error option \<Rightarrow> resp_event list \<Rightarrow> bool outcome" where
  "sendAndACK tx_err events =
     (case tx_err of
        Some e \<Rightarrow> Returns False
      | None \<Rightarrow>
          (case rw_result (sipResponse [] events) of
             Returns (Inr r) \<Rightarrow> Returns (resp_status r = 200)
           | Returns (Inl e) \<Rightarrow> Returns False
           | Panics \<Rightarrow> Panics
           | Blocked \<Rightarrow> Blocked))"

text \<open>\<open>sendRefer\<close> waits with a context that is never cancelled.\<close>

definition sendRefer :: "go_error option \<Rightarrow> resp_event list \<Rightarrow> (sip_response option \<times> go_error option) outcome" where
  "sendRefer tx_err events =
     (case tx_err of
        Some e \<Rightarrow> Returns (None, Some e)
      | None \<Rightarrow>
          (case rw_result (sipResponse [] (filter (\<lambda>e. e \<noteq> CtxDone) events)) of
             Returns (Inl e) \<Rightarrow> Returns (None, Some e)
           | Returns (Inr r) \<Rightarrow>
               if resp_status r = 200 \<or> resp_status r = 202 then Returns (Some r, None)
               else Returns (Some r, Some (SIPStatusErr (resp_status r) (resp_reason r)))
           | Panics \<Rightarrow> Panics
           | Blocked \<Rightarrow> Blocked))"

section \<open>Building a REFER\<close>

text \<open>
  The request is described by the header operations that build it, in order; what each
  does to a message is up to the SIP library.
\<close>

datatype hdr_op =
    CopyFromInvite string
  | CopyFromResponse string
  | NewViaBranch
  | AppendRecordRoute addr_header
  | AppendMaxForwards nat
  | AppendContact sip_uri
  | ChangeCSeq "32 word" string
  | ReplaceCSeq "32 word" string
  | AppendHeader string string
  | AppendFrom "addr_header option"
  | AppendTo "addr_header option"
  | RemoveHeader string
  | RemoveAll string
  | PrependVia string string int
  | RoutesFromRecordRoutes
  | PrependRecordRoute sip_uri

record out_request =
  or_method :: string
  or_recipient :: sip_uri
  or_ops :: "hdr_op list"
  or_cseq :: "32 word option"
  or_source :: string
  or_destination :: string
  or_transport :: string

definition allow_value :: string where
  "allow_value = ''INVITE, ACK, CANCEL, BYE, NOTIFY, REFER, MESSAGE, OPTIONS, INFO, SUBSCRIBE''"

text \<open>
  \<open>NewReferRequest\<close>: the INVITE's Via and CSeq headers are used without a check, so their
  absence is a panic. \<open>headers\<close> is the map in the order it is visited.
\<close>

definition NewReferRequest ::
  "sip_request \<Rightarrow> sip_response \<Rightarrow> sip_uri \<Rightarrow> string \<Rightarrow> (string \<times> string) list \<Rightarrow> out_request outcome" where
  "NewReferRequest invite resp contact referTo headers =
     (case (req_via invite, req_cseq invite) of
        (Some via, Some cseq) \<Rightarrow>
          Returns
            \<lparr>or_method = ''REFER'',
             or_recipient = req_recipient invite,
             or_ops =
               [CopyFromInvite ''Via'', NewViaBranch] @
               (if req_routes invite \<noteq> [] then [CopyFromInvite ''Route'']
                else concat (map (\<lambda>h. case h of None \<Rightarrow> [] | Some rr \<Rightarrow> [AppendRecordRoute rr])
                       (rev (resp_record_routes resp)))) @
               [AppendMaxForwards 70] @
               (if req_from invite \<noteq> None then [CopyFromInvite ''From''] else []) @
               (if resp_to resp \<noteq> None then [CopyFromResponse ''To''] else []) @
               (if req_call_id invite \<noteq> None then [CopyFromInvite ''Call-ID''] else []) @
               [CopyFromInvite ''CSeq'', AppendContact contact,
                ChangeCSeq (cseq + 1) ''REFER'',
                AppendHeader ''Refer-To'' referTo,
                AppendHeader ''Allow'' allow_value] @
               map (\<lambda>(k, v). AppendHeader k v) headers,
             or_cseq = Some (cseq + 1),
             or_source = req_source invite,
             or_destination = req_destination invite,
             or_transport = req_transport invite\<rparr>
      | _ \<Rightarrow> Panics)"

text \<open>\<open>setCSeq\<close> replaces the header; the request then carries the given number.\<close>

definition setCSeq :: "out_request \<Rightarrow> 32 word \<Rightarrow> out_request" where
  "setCSeq req cseq =
     req\<lparr>or_ops := or_ops req @ [ReplaceCSeq cseq (or_method req)], or_cseq := Some cseq\<rparr>"

section \<open>NOTIFY\<close>

definition parseNotifyBody :: "string \<Rightarrow> go_error + (int \<times> string)" where
  "parseNotifyBody body =
     (let v = split_n 3 (CHR '' '') body in
      if length v < 2
      then Inl (PsrpcErr InvalidArgument ''invalid notify body: not enough tokens'' None)
      else if to_upper (v ! 0) \<noteq> ''SIP/2.0''
      then Inl (PsrpcErr InvalidArgument ''invalid notify body: wrong prefix or SIP version'' None)
      else
        (case atoi (v ! 1) of
           (c, Some e) \<Rightarrow> Inl (PsrpcErr InvalidArgument ''strconv.Atoi'' None)
         | (c, None) \<Rightarrow>
             if length v < 3 then Inr (c, '''')
             else
               (let reason = v ! 2 in
                case index_of [CHR 0x0A] reason of
                  Some i \<Rightarrow> Inr (c, trim_suffix (take i reason) [CHR 0x0D])
                | None \<Rightarrow> Inr (c, reason))))"

text \<open>
  \<open>referIdRegexp\<close>, \<open>^refer(;id=(\d+))?$\<close>: \<open>Some\<close> of the digits (empty without an id) where
  the text matches.
\<close>

definition refer_id_match :: "string \<Rightarrow> string option" where
  "refer_id_match s =
     (if s = ''refer'' then Some ''''
      else if prefix ''refer;id='' s \<and> length s > length ''refer;id=''
              \<and> list_all is_digit (drop (length ''refer;id='') s)
      then Some (drop (length ''refer;id='') s)
      else None)"

record notify_info =
  ni_method :: string
  ni_cseq :: "32 word"
  ni_status :: int
  ni_reason :: string

definition handleNotify :: "sip_request \<Rightarrow> go_error + notify_info" where
  "handleNotify req =
     (let event = (case GetHeader (req_headers req) ''Event'' of
                     Some v \<Rightarrow> Some v | None \<Rightarrow> GetHeader (req_headers req) ''o'')
      in case event of
           None \<Rightarrow> Inl (PsrpcErr MalformedRequest ''no event in NOTIFY request'' None)
         | Some ev \<Rightarrow>
             (case refer_id_match (to_lower ev) of
                Some digits \<Rightarrow>
                  (let cseq64 = fst (parse_uint 32 digits) in
                   case parseNotifyBody (req_body req) of
                     Inl e \<Rightarrow> Inl e
                   | Inr (status, reason) \<Rightarrow>
                       Inr \<lparr>ni_method = ''REFER'', ni_cseq = of_nat cseq64,
                            ni_status = status, ni_reason = reason\<rparr>)
              | None \<Rightarrow> Inl (PsrpcErr Unimplemented ''unknown event'' None)))"

text \<open>
  \<open>handleReferNotify\<close>: \<open>None\<close> where the NOTIFY is skipped, else the value offered on the
  channel of the pending transfer (for at most \<open>notifyAckTimeout\<close>).
\<close>

definition handleReferNotify :: "32 word \<Rightarrow> int \<Rightarrow> string \<Rightarrow> 32 word \<Rightarrow> go_error option option" where
  "handleReferNotify cseq status reason referCseq =
     (if cseq \<noteq> 0 \<and> cseq \<noteq> referCseq then None
      else if 100 \<le> status \<and> status < 200 then None
      else if status = 200 then Some None
      else Some (Some (PsrpcErr Canceled ''call transfer failed'' (Some (SIPStatusErr status reason)))))"

section \<open>SIP status of a service error\<close>

fun sipStatusForErrorCode :: "error_code \<Rightarrow> int" where
  "sipStatusForErrorCode OK = 200"
| "sipStatusForErrorCode Canceled = 408"
| "sipStatusForErrorCode DeadlineExceeded = 408"
| "sipStatusForErrorCode Unknown = 500"
| "sipStatusForErrorCode MalformedResponse = 500"
| "sipStatusForErrorCode Internal = 500"
| "sipStatusForErrorCode DataLoss = 500"
| "sipStatusForErrorCode InvalidArgument = 400"
| "sipStatusForErrorCode MalformedRequest = 400"
| "sipStatusForErrorCode NotFound = 404"
| "sipStatusForErrorCode NotAcceptable = 406"
| "sipStatusForErrorCode AlreadyExists = 409"
| "sipStatusForErrorCode Aborted = 409"
| "sipStatusForErrorCode PermissionDenied = 403"
| "sipStatusForErrorCode ResourceExhausted = 480"
| "sipStatusForErrorCode FailedPrecondition = 481"
| "sipStatusForErrorCode OutOfRange = 416"
| "sipStatusForErrorCode Unimplemented = 501"
| "sipStatusForErrorCode Unavailable = 503"
| "sipStatusForErrorCode Unauthenticated = 401"
| "sipStatusForErrorCode (OtherCode _) = 500"

text \<open>The message is \<open>"success"\<close> or the text of the error, kept as the error itself.\<close>

datatype response_text = TextSuccess | TextOf go_error | Text string

definition sipCodeAndMessageFromError :: "go_error option \<Rightarrow> int \<times> response_text" where
  "sipCodeAndMessageFromError err =
     (case err of
        None \<Rightarrow> (200, TextSuccess)
      | Some e \<Rightarrow>
          ((case err_as_psrpc e of Some c \<Rightarrow> sipStatusForErrorCode c | None \<Rightarrow> 500), TextOf e))"

section \<open>Reason headers\<close>

record ReasonHeader =
  rh_type :: string
  rh_cause :: int
  rh_text :: string

definition zero_reason :: ReasonHeader where
  "zero_reason = \<lparr>rh_type = '''', rh_cause = 0, rh_text = ''''\<rparr>"

definition IsZero :: "ReasonHeader \<Rightarrow> bool" where
  "IsZero r = (r = zero_reason)"

definition IsNormal :: "ReasonHeader \<Rightarrow> bool" where
  "IsNormal r = (if IsZero r then True else if rh_type r = ''Q.850'' then rh_cause r = 16 else False)"

definition reason_string :: "ReasonHeader \<Rightarrow> string" where
  "reason_string r =
     (if IsZero r then ''<none>''
      else rh_type r @ ''-'' @ itoa (rh_cause r) @ '': '' @ rh_text r)"

definition reason_field :: "string \<Rightarrow> ReasonHeader \<Rightarrow> ReasonHeader" where
  "reason_field line r =
     (let line = trim_space line in
      case index_of ''='' line of
        None \<Rightarrow> r
      | Some i \<Rightarrow>
          (let key = trim_space (take i line); val = trim_space (drop (Suc i) line) in
           if key = ''cause'' then r\<lparr>rh_cause := fst (atoi val)\<rparr>
           else if key = ''text''
           then r\<lparr>rh_text := (case unquote val of Some t \<Rightarrow> t | None \<Rightarrow> '''')\<rparr>
           else r))"

definition ParseReasonHeader :: "string \<Rightarrow> ReasonHeader \<times> go_error option" where
  "ParseReasonHeader header =
     (let list = split_all (CHR '';'') header in
      if length list < 2 then (zero_reason, Some (PlainErr ''no fields in the reason''))
      else (fold reason_field (tl list) (zero_reason\<lparr>rh_type := trim_space (hd list)\<rparr>), None))"

section \<open>Facts: waiting for a response\<close>

lemma sipResponse_provisionals:
  "\<forall>r\<in>set rs. is_provisional (resp_status r) \<Longrightarrow>
     sipResponse seen (map GotResponse rs @ es) = sipResponse (seen @ rs) es"
  by (induction rs arbitrary: seen) auto

lemma sipResponse_final:
  assumes "rw_result (sipResponse seen es) = Returns (Inr r)"
  shows "\<exists>rs rest. es = map GotResponse rs @ GotResponse r # rest
           \<and> (\<forall>x\<in>set rs. is_provisional (resp_status x)) \<and> \<not> is_provisional (resp_status r)"
  using assms
proof (induction seen es rule: sipResponse.induct)
  case (5 seen r' es)
  show ?case
  proof (cases "is_provisional (resp_status r')")
    case True
    with "5.IH" "5.prems" obtain rs rest where
      "es = map GotResponse rs @ GotResponse r # rest"
      "\<forall>x\<in>set rs. is_provisional (resp_status x)" "\<not> is_provisional (resp_status r)"
      by auto
    with True show ?thesis by (intro exI [of _ "r' # rs"]) auto
  next
    case False
    with "5.prems" show ?thesis by (intro exI [of _ "[]"] exI [of _ es]) simp
  qed
qed simp_all

lemma sipResponse_no_panic: "rw_result (sipResponse seen es) \<noteq> Panics"
  by (induction seen es rule: sipResponse.induct) auto

lemma sipResponse_blocked:
  "rw_result (sipResponse seen es) = Blocked \<longleftrightarrow>
     (\<forall>e\<in>set es. \<exists>r. e = GotResponse r \<and> is_provisional (resp_status r))"
  by (induction seen es rule: sipResponse.induct) auto

section \<open>Facts: NOTIFY and Reason\<close>

lemma itoa_no_char: "\<not> is_digit c \<Longrightarrow> c \<noteq> CHR ''-'' \<Longrightarrow> c \<notin> set (itoa n)"
  using show_nat_digits by (auto simp: itoa_def)

lemma itoa_nonempty: "itoa n \<noteq> []"
  by (simp add: itoa_def show_nat_nonempty)

lemma itoa_no_space: "CHR '' '' \<notin> set (itoa n)"
  by (rule itoa_no_char) (simp_all add: is_digit_def)

lemma itoa_no_semicolon: "CHR '';'' \<notin> set (itoa n)"
  by (rule itoa_no_char) (simp_all add: is_digit_def)

lemma digit_not_space: "is_digit c \<Longrightarrow> \<not> is_space c"
  by (auto simp: is_space_def is_digit_def)

lemma is_space_itoa: "c \<in> set (itoa n) \<Longrightarrow> \<not> is_space c"
  using show_nat_digits digit_not_space by (auto simp: itoa_def is_space_def split: if_splits)

lemma trim_space_no_space: "\<forall>c\<in>set s. \<not> is_space c \<Longrightarrow> trim_space s = s"
  by (cases "s = []") (simp_all add: trim_space_id)

lemma trim_itoa [simp]: "trim_space (itoa n) = itoa n"
  by (rule trim_space_no_space) (simp add: is_space_itoa)

lemma trim_suffix_absent: "s = [] \<or> last s \<noteq> c \<Longrightarrow> trim_suffix s [c] = s"
  by (auto simp: trim_suffix_def suffix_def)

lemma trim_suffix_present [simp]: "trim_suffix (s @ [c]) [c] = s"
  by (simp add: trim_suffix_def suffix_def)

lemma handleReferNotify_cases:
  "handleReferNotify cseq status reason referCseq = Some None \<longleftrightarrow>
     (cseq = 0 \<or> cseq = referCseq) \<and> status = 200"
  "handleReferNotify cseq status reason referCseq = None \<longleftrightarrow>
     (cseq \<noteq> 0 \<and> cseq \<noteq> referCseq) \<or> (100 \<le> status \<and> status < 200)"
  by (auto simp: handleReferNotify_def)

lemma sipStatusForErrorCode_200: "sipStatusForErrorCode c = 200 \<longleftrightarrow> c = OK"
  by (cases c) auto

lemma sipStatusForErrorCode_final: "c \<noteq> OK \<Longrightarrow> 400 \<le> sipStatusForErrorCode c \<and> sipStatusForErrorCode c < 600"
  by (cases c) auto

lemma reason_field_cause:
  assumes "- (2 ^ 63) \<le> n" "n < 2 ^ 63"
  shows "reason_field (''cause='' @ itoa n) r = r\<lparr>rh_cause := n\<rparr>"
proof -
  have last: "\<not> is_space (last (''cause='' @ itoa n))"
    using is_space_itoa [of "last (itoa n)" n] itoa_nonempty [of n] by simp
  have "trim_space (''cause='' @ itoa n) = ''cause='' @ itoa n"
    by (rule trim_space_id) (use last in \<open>simp_all add: is_space_def\<close>)
  moreover have "index_of ''='' (''cause='' @ itoa n) = Some 5" by simp
  moreover have "trim_space ''cause'' = ''cause''" by (simp add: trim_space_def is_space_def)
  ultimately show ?thesis using atoi_itoa [OF assms] by (simp add: reason_field_def Let_def)
qed

lemma reason_field_text:
  assumes "\<forall>c\<in>set t. c \<noteq> CHR 0x22 \<and> c \<noteq> CHR 0x5C \<and> c \<noteq> CHR 0x0A"
  shows "reason_field (''text='' @ CHR 0x22 # t @ [CHR 0x22]) r = r\<lparr>rh_text := t\<rparr>"
proof -
  have a: "trim_space (''text='' @ CHR 0x22 # t @ [CHR 0x22]) = ''text='' @ CHR 0x22 # t @ [CHR 0x22]"
    by (rule trim_space_id) (simp_all add: is_space_def)
  have b: "trim_space (CHR 0x22 # t @ [CHR 0x22]) = CHR 0x22 # t @ [CHR 0x22]"
    by (rule trim_space_id) (simp_all add: is_space_def)
  have "index_of ''='' (''text='' @ CHR 0x22 # t @ [CHR 0x22]) = Some 4" by simp
  moreover have "trim_space ''text'' = ''text''" by (simp add: trim_space_def is_space_def)
  ultimately show ?thesis
    using a b unquote_plain [OF assms] by (simp add: reason_field_def Let_def)
qed

section \<open>Properties\<close>

text \<open>
  Waiting for a response returns a response only when it is the first one that is not
  provisional, and every response up to it has been passed on; it waits forever exactly when
  the context, the stop channel and the transaction never end and only provisional
  responses come.
\<close>

theorem sip_response_first_final:
  "(\<forall>r. rw_result (sipResponse [] es) = Returns (Inr r) \<longrightarrow>
      (\<exists>rs rest. es = map GotResponse rs @ GotResponse r # rest
         \<and> (\<forall>x\<in>set rs. is_provisional (resp_status x)) \<and> \<not> is_provisional (resp_status r)
         \<and> rw_seen (sipResponse [] es) = rs @ [r]))
   \<and> (rw_result (sipResponse [] es) = Blocked \<longleftrightarrow>
        (\<forall>e\<in>set es. \<exists>r. e = GotResponse r \<and> is_provisional (resp_status r)))
   \<and> rw_result (sipResponse [] es) \<noteq> Panics"
proof -
  have "\<exists>rs rest. es = map GotResponse rs @ GotResponse r # rest
         \<and> (\<forall>x\<in>set rs. is_provisional (resp_status x)) \<and> \<not> is_provisional (resp_status r)
         \<and> rw_seen (sipResponse [] es) = rs @ [r]"
    if res: "rw_result (sipResponse [] es) = Returns (Inr r)" for r
  proof -
    from sipResponse_final [OF res] obtain rs rest where es: "es = map GotResponse rs @ GotResponse r # rest"
      and p: "\<forall>x\<in>set rs. is_provisional (resp_status x)" "\<not> is_provisional (resp_status r)" by blast
    then have "rw_seen (sipResponse [] es) = rs @ [r]" by (simp add: sipResponse_provisionals)
    with es p show ?thesis by blast
  qed
  then show ?thesis using sipResponse_blocked [of "[]" es] sipResponse_no_panic [of "[]" es] by simp
qed

theorem sip_response_first_final_witness:
  "\<forall>r. rw_result (sipResponse [] [GotResponse (r\<lparr>resp_status := 180\<rparr>), GotResponse (r\<lparr>resp_status := 486\<rparr>)]) \<noteq> Blocked"
  using sip_response_first_final [of "[GotResponse (r\<lparr>resp_status := 180\<rparr>), GotResponse (r\<lparr>resp_status := 486\<rparr>)]" for r]
  by (auto simp: is_provisional_def)

text \<open>
  The body of a NOTIFY that carries a status line with any status number gives back that
  number and the reason up to the end of the line.
\<close>

theorem notify_body_roundtrip:
  assumes "- (2 ^ 63) \<le> n" and "n < 2 ^ 63"
    and "CHR 0x0A \<notin> set reason" and "reason = [] \<or> last reason \<noteq> CHR 0x0D"
  shows "parseNotifyBody (''SIP/2.0 '' @ itoa n @ '' '' @ reason @ [CHR 0x0D, CHR 0x0A] @ rest) = Inr (n, reason)"
proof -
  have "split_n 3 (CHR '' '') (''SIP/2.0 '' @ itoa n @ '' '' @ reason @ [CHR 0x0D, CHR 0x0A] @ rest)
      = [''SIP/2.0'', itoa n, reason @ [CHR 0x0D, CHR 0x0A] @ rest]"
    using break_at_append [of "CHR '' ''" "''SIP/2.0''" "itoa n @ '' '' @ reason @ [CHR 0x0D, CHR 0x0A] @ rest"]
      break_at_append [OF itoa_no_space, of n "reason @ [CHR 0x0D, CHR 0x0A] @ rest"]
    by (simp add: numeral_3_eq_3)
  moreover have "index_of [CHR 0x0A] (reason @ [CHR 0x0D, CHR 0x0A] @ rest) = Some (Suc (length reason))"
    using index_of_single_append [of "CHR 0x0A" "reason @ [CHR 0x0D]" rest] assms(3) by simp
  moreover have "to_upper ''SIP/2.0'' = ''SIP/2.0''" by code_simp
  moreover have "atoi (itoa n) = (n, None)" using assms(1,2) by (rule atoi_itoa)
  ultimately show ?thesis by (simp add: parseNotifyBody_def Let_def)
qed

theorem notify_body_roundtrip_witness:
  "parseNotifyBody (''SIP/2.0 '' @ itoa 486 @ '' '' @ ''Busy Here'' @ [CHR 0x0D, CHR 0x0A] @ '''') = Inr (486, ''Busy Here'')"
  by (rule notify_body_roundtrip) simp_all

text \<open>
  A Reason header with a cause number and a quoted text (without quotes, backslashes, line
  ends and semicolons) is read as it was written.
\<close>

theorem reason_header_roundtrip:
  assumes "CHR '';'' \<notin> set ty" and "trim_space ty = ty"
    and "- (2 ^ 63) \<le> n" and "n < 2 ^ 63"
    and "\<forall>c\<in>set t. c \<noteq> CHR 0x22 \<and> c \<noteq> CHR 0x5C \<and> c \<noteq> CHR 0x0A \<and> c \<noteq> CHR '';''"
  shows "ParseReasonHeader (ty @ '';'' @ (''cause='' @ itoa n) @ '';'' @ (''text='' @ CHR 0x22 # t @ [CHR 0x22]))
           = (\<lparr>rh_type = ty, rh_cause = n, rh_text = t\<rparr>, None)"
proof -
  let ?tx = "''text='' @ CHR 0x22 # t @ [CHR 0x22]"
  have c: "CHR '';'' \<notin> set (''cause='' @ itoa n)" using itoa_no_semicolon by simp
  have x: "CHR '';'' \<notin> set ?tx" using assms(5) by auto
  have "split_all (CHR '';'') (ty @ '';'' @ (''cause='' @ itoa n) @ '';'' @ ?tx) = [ty, ''cause='' @ itoa n, ?tx]"
    using split_all_append_sep [OF assms(1), of "(''cause='' @ itoa n) @ '';'' @ ?tx"]
      split_all_append_sep [OF c, of ?tx] split_all_no_sep [OF x]
    by simp
  moreover have "reason_field ?tx r = r\<lparr>rh_text := t\<rparr>" for r
    by (rule reason_field_text) (use assms(5) in blast)
  ultimately show ?thesis
    using assms(2) reason_field_cause [OF assms(3,4)]
    by (simp add: ParseReasonHeader_def Let_def zero_reason_def del: append.simps append_Cons)
qed

theorem reason_header_roundtrip_witness:
  "ParseReasonHeader (''Q.850'' @ '';'' @ (''cause='' @ itoa 16) @ '';'' @ (''text='' @ CHR 0x22 # ''Terminated'' @ [CHR 0x22]))
     = (\<lparr>rh_type = ''Q.850'', rh_cause = 16, rh_text = ''Terminated''\<rparr>, None)"
  by (rule reason_header_roundtrip) (simp_all add: trim_space_def is_space_def)

text \<open>A semicolon within the quoted text cuts it, and the text is lost.\<close>

lemma reason_text_semicolon_lost:
  "ParseReasonHeader (''SIP'' @ '';'' @ (''cause='' @ itoa 200) @ '';'' @ ''text='' @ CHR 0x22 # ''Call; moved'' @ [CHR 0x22])
     = (\<lparr>rh_type = ''SIP'', rh_cause = 200, rh_text = ''''\<rparr>, None)"
proof -
  let ?tx = "''text='' @ CHR 0x22 # ''Call''" and ?rest = "'' moved'' @ [CHR 0x22]"
  have "split_all (CHR '';'') (''SIP'' @ '';'' @ (''cause='' @ itoa 200) @ '';'' @ ?tx @ '';'' @ ?rest)
      = [''SIP'', ''cause='' @ itoa 200, ?tx, ?rest]"
    using split_all_append_sep [of "CHR '';''" "''SIP''" "(''cause='' @ itoa 200) @ '';'' @ ?tx @ '';'' @ ?rest"]
      split_all_append_sep [of "CHR '';''" "''cause='' @ itoa 200" "?tx @ '';'' @ ?rest"]
      split_all_append_sep [of "CHR '';''" ?tx ?rest] split_all_no_sep [of "CHR '';''" ?rest] itoa_no_semicolon
    by simp
  moreover have "reason_field ?tx r = r\<lparr>rh_text := ''''\<rparr>" for r
    by (simp add: reason_field_def Let_def trim_space_def is_space_def unquote_def)
  moreover have "reason_field ?rest r = r" for r
    by (simp add: reason_field_def Let_def trim_space_def is_space_def)
  moreover have "trim_space ''SIP'' = ''SIP''" by (simp add: trim_space_def is_space_def)
  ultimately show ?thesis
    using reason_field_cause [of 200]
    by (simp add: ParseReasonHeader_def Let_def zero_reason_def)
qed

text \<open>
  A request that failed is never answered with success: the status for an error is 200
  only if its code is OK, and otherwise lies in the 4xx and 5xx classes; an error without a
  code is 500.
\<close>

theorem error_status_not_success:
  "case sipCodeAndMessageFromError err of (code, msg) \<Rightarrow>
     (code = 200 \<longleftrightarrow> (err = None \<or> (\<exists>e. err = Some e \<and> err_as_psrpc e = Some OK))) \<and>
     (code \<noteq> 200 \<longrightarrow> 400 \<le> code \<and> code < 600) \<and>
     (\<forall>e. err = Some e \<and> err_as_psrpc e = None \<longrightarrow> code = 500)"
proof (cases err)
  case None
  then show ?thesis by (simp add: sipCodeAndMessageFromError_def)
next
  case (Some e)
  then show ?thesis
    using sipStatusForErrorCode_200 sipStatusForErrorCode_final
    by (cases "err_as_psrpc e") (auto simp: sipCodeAndMessageFromError_def)
qed

theorem error_status_not_success_witness:
  "fst (sipCodeAndMessageFromError (Some (PsrpcErr NotFound ''no call'' None))) \<noteq> 200"
  using error_status_not_success [of "Some (PsrpcErr NotFound ''no call'' None)"]
  by (simp add: case_prod_beta)

end
