(* ===== verification/Call_State.thy ===== *)
theory Call_State
  imports Sip_Protocol
begin

text \<open>
  \<open>pkg/sip/analytics.go\<close>: the state of a call as it is reported to the backend. A
  \<open>CallState\<close> holds the call info, the transfers in progress and a dirty mark; the model
  adds the requests sent so far, each with the outcome of the RPC. Every operation that
  may send takes the outcome of its RPC as an argument.
\<close>

section \<open>What is reported\<close>

datatype sip_call_status =
    SCS_CALL_INCOMING | SCS_PARTICIPANT_JOINED | SCS_ACTIVE | SCS_DISCONNECTED | SCS_ERROR

datatype call_direction = SCD_UNKNOWN | SCD_INBOUND | SCD_OUTBOUND

text \<open>
  \<open>livekit.SIPCallInfo\<close>. The error text is kept as the error it is the text of, \<open>None\<close> for
  the empty text.
\<close>

record sip_call_info =
  ci_call_id :: string
  ci_region :: string
  ci_trunk_id :: string
  ci_dispatch_rule_id :: string
  ci_room_id :: string
  ci_room_name :: string
  ci_participant_identity :: string
  ci_participant_attributes :: "string \<rightharpoonup> string"
  ci_from_uri :: "livekit_uri option"
  ci_to_uri :: "livekit_uri option"
  ci_status :: sip_call_status
  ci_direction :: call_direction
  ci_created_at :: int
  ci_started_at :: int
  ci_ended_at :: int
  ci_error :: "go_error option"
  ci_disconnect_reason :: disconnect_reason
  ci_status_code :: "(int \<times> string) option"
  ci_audio_codec :: string

definition empty_call_info :: sip_call_info where
  "empty_call_info =
     \<lparr>ci_call_id = '''', ci_region = '''', ci_trunk_id = '''', ci_dispatch_rule_id = '''',
      ci_room_id = '''', ci_room_name = '''', ci_participant_identity = '''',
      ci_participant_attributes = Map.empty, ci_from_uri = None, ci_to_uri = None,
      ci_status = SCS_CALL_INCOMING, ci_direction = SCD_UNKNOWN, ci_created_at = 0,
      ci_started_at = 0, ci_ended_at = 0, ci_error = None,
      ci_disconnect_reason = UNKNOWN_REASON, ci_status_code = None, ci_audio_codec = ''''\<rparr>"

datatype transfer_status = STS_TRANSFER_ONGOING | STS_TRANSFER_FAILED | STS_TRANSFER_SUCCESSFUL

record transfer_info =
  ti_transfer_id :: string
  ti_call_id :: string
  ti_transfer_to :: string
  ti_initiated_at :: int
  ti_completed_at :: int
  ti_status :: transfer_status
  ti_error :: "go_error option"
  ti_status_code :: "(int \<times> string) option"

datatype update_req = ReqCallInfo sip_call_info | ReqTransferInfo transfer_info

record CallState =
  cs_cli :: bool
  cs_info :: sip_call_info
  cs_transfers :: "string \<rightharpoonup> transfer_info"
  cs_dirty :: bool
  cs_sent :: "(update_req \<times> bool) list"

section \<open>Operations\<close>

definition NewCallState :: "bool \<Rightarrow> sip_call_info option \<Rightarrow> CallState" where
  "NewCallState cli initial =
     \<lparr>cs_cli = cli, cs_info = (case initial of None \<Rightarrow> empty_call_info | Some i \<Rightarrow> i),
      cs_transfers = Map.empty, cs_dirty = True, cs_sent = []\<rparr>"

definition flush :: "bool \<Rightarrow> CallState \<Rightarrow> CallState" where
  "flush ok s =
     (if \<not> cs_cli s then s\<lparr>cs_dirty := False\<rparr>
      else s\<lparr>cs_sent := cs_sent s @ [(ReqCallInfo (cs_info s), ok)],
             cs_dirty := (if ok then False else cs_dirty s)\<rparr>)"

definition DeferUpdate :: "(sip_call_info \<Rightarrow> sip_call_info) \<Rightarrow> CallState \<Rightarrow> CallState" where
  "DeferUpdate update s = s\<lparr>cs_dirty := True, cs_info := update (cs_info s)\<rparr>"

definition Update :: "bool \<Rightarrow> (sip_call_info \<Rightarrow> sip_call_info) \<Rightarrow> CallState \<Rightarrow> CallState" where
  "Update ok update s = flush ok (s\<lparr>cs_dirty := True, cs_info := update (cs_info s)\<rparr>)"

definition Flush :: "bool \<Rightarrow> CallState \<Rightarrow> CallState" where
  "Flush ok s = (if \<not> cs_dirty s then s else flush ok s)"

definition ForceFlush :: "bool \<Rightarrow> CallState \<Rightarrow> CallState" where
  "ForceFlush ok s = flush ok s"

text \<open>
  The two transfer operations call the client without looking whether there is one.
  \<open>tid\<close> is the identifier \<open>guid.New\<close> makes and \<open>now\<close> the time.
\<close>

definition StartTransfer :: "string \<Rightarrow> int \<Rightarrow> bool \<Rightarrow> string \<Rightarrow> CallState \<Rightarrow> (CallState \<times> string) outcome" where
  "StartTransfer tid now ok transferTo s =
     (if \<not> cs_cli s then Panics
      else
        let ti = \<lparr>ti_transfer_id = tid, ti_call_id = ci_call_id (cs_info s),
                  ti_transfer_to = transferTo, ti_initiated_at = now, ti_completed_at = 0,
                  ti_status = STS_TRANSFER_ONGOING, ti_error = None, ti_status_code = None\<rparr>
        in Returns (s\<lparr>cs_sent := cs_sent s @ [(ReqTransferInfo ti, ok)],
                      cs_transfers := (cs_transfers s)(tid \<mapsto> ti)\<rparr>, tid))"

definition finish_transfer :: "int \<Rightarrow> go_error option \<Rightarrow> transfer_info \<Rightarrow> transfer_info" where
  "finish_transfer now inErr ti =
     (let ti = ti\<lparr>ti_completed_at := now\<rparr>;
          ti = (case inErr of
                  Some e \<Rightarrow> ti\<lparr>ti_error := Some e, ti_status := STS_TRANSFER_FAILED\<rparr>
                | None \<Rightarrow> ti\<lparr>ti_status := STS_TRANSFER_SUCCESSFUL\<rparr>)
      in case Option.bind inErr err_as_sip_status of
           Some st \<Rightarrow> ti\<lparr>ti_status_code := Some st\<rparr>
         | None \<Rightarrow> ti)"

definition EndTransfer :: "int \<Rightarrow> bool \<Rightarrow> string \<Rightarrow> go_error option \<Rightarrow> CallState \<Rightarrow> CallState outcome" where
  "EndTransfer now ok transferID inErr s =
     (let s' = s\<lparr>cs_transfers := (cs_transfers s)(transferID := None)\<rparr>
      in case cs_transfers s transferID of
           None \<Rightarrow> Returns s'
         | Some ti \<Rightarrow>
             if \<not> cs_cli s then Panics
             else Returns (s'\<lparr>cs_sent := cs_sent s @ [(ReqTransferInfo (finish_transfer now inErr ti), ok)]\<rparr>))"

section \<open>Any sequence of operations\<close>

datatype state_op =
    OpDefer "sip_call_info \<Rightarrow> sip_call_info"
  | OpUpdate bool "sip_call_info \<Rightarrow> sip_call_info"
  | OpFlush bool
  | OpForceFlush bool
  | OpStartTransfer string int bool string
  | OpEndTransfer int bool string "go_error option"

text \<open>An operation that panics leaves no new state behind.\<close>

fun state_step :: "state_op \<Rightarrow> CallState \<Rightarrow> CallState" where
  "state_step (OpDefer f) s = DeferUpdate f s"
| "state_step (OpUpdate ok f) s = Update ok f s"
| "state_step (OpFlush ok) s = Flush ok s"
| "state_step (OpForceFlush ok) s = ForceFlush ok s"
| "state_step (OpStartTransfer tid now ok to) s =
     (case StartTransfer tid now ok to s of Returns (s', _) \<Rightarrow> s' | _ \<Rightarrow> s)"
| "state_step (OpEndTransfer now ok tid e) s =
     (case EndTransfer now ok tid e s of Returns s' \<Rightarrow> s' | _ \<Rightarrow> s)"

text \<open>The call info of the last request the backend took.\<close>

fun last_reported :: "(update_req \<times> bool) list \<Rightarrow> sip_call_info option" where
  "last_reported [] = None"
| "last_reported ((ReqCallInfo i, ok) # xs) =
     (case last_reported xs of Some j \<Rightarrow> Some j | None \<Rightarrow> if ok then Some i else None)"
| "last_reported ((ReqTransferInfo t, ok) # xs) = last_reported xs"

definition synced :: "CallState \<Rightarrow> bool" where
  "synced s \<longleftrightarrow> (cs_cli s \<longrightarrow> \<not> cs_dirty s \<longrightarrow> last_reported (cs_sent s) = Some (cs_info s))"

lemma last_reported_append:
  "last_reported (xs @ [(ReqCallInfo i, ok)]) = (if ok then Some i else last_reported xs)"
  "last_reported (xs @ [(ReqTransferInfo t, ok)]) = last_reported xs"
  by (induction xs rule: last_reported.induct) (auto split: option.splits)

lemma synced_NewCallState: "synced (NewCallState cli initial)"
  by (simp add: synced_def NewCallState_def)

lemma synced_flush: "synced s \<Longrightarrow> synced (flush ok s)"
  by (auto simp: synced_def flush_def last_reported_append)

lemma synced_DeferUpdate: "synced (DeferUpdate f s)"
  by (simp add: synced_def DeferUpdate_def)

lemma synced_Update: "synced (Update ok f s)"
  by (auto simp: synced_def Update_def flush_def last_reported_append)

lemma synced_StartTransfer: "synced s \<Longrightarrow> StartTransfer tid now ok to s = Returns (s', t) \<Longrightarrow> synced s'"
  by (auto simp: synced_def StartTransfer_def Let_def last_reported_append split: if_splits)

lemma synced_EndTransfer: "synced s \<Longrightarrow> EndTransfer now ok tid e s = Returns s' \<Longrightarrow> synced s'"
  by (auto simp: synced_def EndTransfer_def Let_def last_reported_append split: if_splits option.splits)

lemma synced_step: "synced s \<Longrightarrow> synced (state_step op s)"
proof (cases op)
  case (OpStartTransfer tid now ok to)
  assume "synced s"
  then show ?thesis
    by (cases "StartTransfer tid now ok to s")
      (auto simp: OpStartTransfer dest: synced_StartTransfer split: prod.splits)
next
  case (OpEndTransfer now ok tid e)
  assume "synced s"
  then show ?thesis
    by (cases "EndTransfer now ok tid e s") (auto simp: OpEndTransfer dest: synced_EndTransfer)
qed (simp_all add: synced_DeferUpdate synced_Update synced_flush Flush_def ForceFlush_def)

interpretation reporting: event_system state_step synced
  by unfold_locales (rule synced_step)

lemma flush_extends: "\<exists>out. cs_sent (flush ok s) = cs_sent s @ out"
  by (simp add: flush_def)

lemma state_step_extends: "\<exists>out. cs_sent (state_step op s) = cs_sent s @ out"
proof (cases op)
  case (OpStartTransfer tid now ok to)
  then show ?thesis by (simp add: StartTransfer_def Let_def)
next
  case (OpEndTransfer now ok tid e)
  then show ?thesis by (simp add: EndTransfer_def Let_def split: option.splits)
qed (simp_all add: DeferUpdate_def Update_def flush_def Flush_def ForceFlush_def)

interpretation reporting_log: traced_system state_step cs_sent
  by unfold_locales (rule state_step_extends)

lemma Update_info [simp]: "cs_info (Update ok f s) = f (cs_info s)"
  by (simp add: Update_def flush_def)

lemma DeferUpdate_info [simp]: "cs_info (DeferUpdate f s) = f (cs_info s)"
  by (simp add: DeferUpdate_def)

lemma flush_info [simp]: "cs_info (flush ok s) = cs_info s"
  by (simp add: flush_def)

lemma Flush_info [simp]: "cs_info (Flush ok s) = cs_info s" "cs_info (ForceFlush ok s) = cs_info s"
  by (simp_all add: Flush_def ForceFlush_def)

lemma Update_last_reported:
  "cs_cli s \<Longrightarrow> last_reported (cs_sent (Update True f s)) = Some (f (cs_info s))"
  by (simp add: Update_def flush_def last_reported_append)

section \<open>Properties\<close>

text \<open>
  C33. Whatever operations are made on a new call state that has a client, a state that is
  not marked dirty has been reported: the last call info the backend took is the current one.
\<close>

theorem call_state_reported:
  assumes "\<not> cs_dirty (fold state_step ops (NewCallState True initial))"
  shows "last_reported (cs_sent (fold state_step ops (NewCallState True initial)))
           = Some (cs_info (fold state_step ops (NewCallState True initial)))"
proof -
  have cli: "cs_cli (state_step op s) = cs_cli s" for op s
    by (cases op) (simp_all add: DeferUpdate_def Update_def flush_def Flush_def ForceFlush_def
        StartTransfer_def EndTransfer_def Let_def split: option.split)
  have "cs_cli (fold state_step ops s) = cs_cli s" for s
    by (induction ops arbitrary: s) (simp_all add: cli)
  then have "cs_cli (fold state_step ops (NewCallState True initial))"
    by (simp add: NewCallState_def)
  moreover have "synced (fold state_step ops (NewCallState True initial))"
    by (rule reporting.run_inv) (rule synced_NewCallState)
  ultimately show ?thesis using assms by (simp add: synced_def)
qed

theorem call_state_reported_witness:
  "last_reported (cs_sent (fold state_step [OpFlush True] (NewCallState True None)))
     = Some (cs_info (fold state_step [OpFlush True] (NewCallState True None)))"
  by (rule call_state_reported) (simp add: Flush_def flush_def NewCallState_def)

text \<open>
  A transfer is reported twice under one identifier: when it starts, as ongoing, and when
  it first ends, as successful exactly if there was no error, with the SIP status if the error
  carries one; ending it again reports nothing.
\<close>

theorem transfer_reported_once:
  assumes "cs_cli s"
  shows "\<exists>s1 s2 ti. StartTransfer tid t0 ok0 to s = Returns (s1, tid)
           \<and> EndTransfer t1 ok1 tid err s1 = Returns s2
           \<and> cs_sent s2 = cs_sent s @ [(ReqTransferInfo ti, ok0), (ReqTransferInfo (finish_transfer t1 err ti), ok1)]
           \<and> ti_transfer_id ti = tid \<and> ti_call_id ti = ci_call_id (cs_info s) \<and> ti_transfer_to ti = to
           \<and> ti_status ti = STS_TRANSFER_ONGOING
           \<and> (ti_status (finish_transfer t1 err ti) = STS_TRANSFER_SUCCESSFUL \<longleftrightarrow> err = None)
           \<and> ti_status_code (finish_transfer t1 err ti) = Option.bind err err_as_sip_status
           \<and> cs_sent s2 = cs_sent (state_step (OpEndTransfer t2 ok2 tid err2) s2)"
proof -
  define ti where "ti = \<lparr>ti_transfer_id = tid, ti_call_id = ci_call_id (cs_info s), ti_transfer_to = to,
    ti_initiated_at = t0, ti_completed_at = 0, ti_status = STS_TRANSFER_ONGOING, ti_error = None,
    ti_status_code = None\<rparr>"
  define s1 where "s1 = s\<lparr>cs_sent := cs_sent s @ [(ReqTransferInfo ti, ok0)],
    cs_transfers := (cs_transfers s)(tid \<mapsto> ti)\<rparr>"
  define s2 where "s2 = s1\<lparr>cs_transfers := (cs_transfers s1)(tid := None),
    cs_sent := cs_sent s1 @ [(ReqTransferInfo (finish_transfer t1 err ti), ok1)]\<rparr>"
  have "StartTransfer tid t0 ok0 to s = Returns (s1, tid)"
    using assms by (simp add: StartTransfer_def s1_def ti_def Let_def)
  moreover have "EndTransfer t1 ok1 tid err s1 = Returns s2"
    using assms by (simp add: EndTransfer_def s1_def s2_def Let_def)
  moreover have "cs_sent (state_step (OpEndTransfer t2 ok2 tid err2) s2) = cs_sent s2"
    by (simp add: EndTransfer_def s2_def Let_def)
  moreover have "ti_status (finish_transfer t1 err ti) = STS_TRANSFER_SUCCESSFUL \<longleftrightarrow> err = None"
    "ti_status_code (finish_transfer t1 err ti) = Option.bind err err_as_sip_status"
    by (auto simp: finish_transfer_def Let_def ti_def split: option.split bind_splits)
  ultimately show ?thesis
    by (intro exI [of _ s1] exI [of _ s2] exI [of _ ti]) (simp add: s1_def s2_def ti_def)
qed

theorem transfer_reported_once_witness:
  "\<exists>s1 s2 ti. StartTransfer ''TR_1'' 5 True ''sip:b@x'' (NewCallState True None) = Returns (s1, ''TR_1'')
     \<and> EndTransfer 9 True ''TR_1'' (Some (SIPStatusErr 603 ''Decline'')) s1 = Returns s2
     \<and> cs_sent s2 = cs_sent (NewCallState True None) @ [(ReqTransferInfo ti, True),
         (ReqTransferInfo (finish_transfer 9 (Some (SIPStatusErr 603 ''Decline'')) ti), True)]
     \<and> ti_transfer_id ti = ''TR_1'' \<and> ti_call_id ti = ci_call_id (cs_info (NewCallState True None))
     \<and> ti_transfer_to ti = ''sip:b@x'' \<and> ti_status ti = STS_TRANSFER_ONGOING
     \<and> (ti_status (finish_transfer 9 (Some (SIPStatusErr 603 ''Decline'')) ti) = STS_TRANSFER_SUCCESSFUL
          \<longleftrightarrow> Some (SIPStatusErr 603 ''Decline'') = None)
     \<and> ti_status_code (finish_transfer 9 (Some (SIPStatusErr 603 ''Decline'')) ti)
         = Option.bind (Some (SIPStatusErr 603 ''Decline'')) err_as_sip_status
     \<and> cs_sent s2 = cs_sent (state_step (OpEndTransfer 10 True ''TR_1'' None) s2)"
  by (rule transfer_reported_once) (simp add: NewCallState_def)

text \<open>Without a client the start of a transfer panics, although a flush would not.\<close>

lemma transfer_needs_client: "\<not> cs_cli s \<Longrightarrow> StartTransfer tid now ok to s = Panics"
  by (simp add: StartTransfer_def)

end
