(* ===== verification/Dispatch.thy ===== *)
theory Dispatch
  imports Sip_Protocol
begin

text \<open>
  \<open>pkg/service/psrpc.go\<close> with the types it fills in from \<open>pkg/sip/server.go\<close> and
  \<open>room.go\<close>: authenticating and dispatching an inbound call by asking the backend. The two
  RPCs are functions from the request to an error or a response.
\<close>

section \<open>Data\<close>

record sip_call =
  sc_lk_call_id :: string
  sc_sip_call_id :: string
  sc_source_ip :: string
  sc_address :: livekit_uri
  sc_from :: livekit_uri
  sc_to :: livekit_uri
  sc_via :: "livekit_uri list"

record CallInfo =
  cinfo_trunk_id :: string
  cinfo_call :: sip_call
  cinfo_pin :: string
  cinfo_no_pin :: bool

datatype auth_result = AuthNotFound | AuthDrop | AuthPassword | AuthAccept

record AuthInfo =
  ai_result :: auth_result
  ai_project_id :: string
  ai_trunk_id :: string
  ai_username :: string
  ai_password :: string

definition zero_auth_info :: AuthInfo where
  "zero_auth_info =
     \<lparr>ai_result = AuthNotFound, ai_project_id = '''', ai_trunk_id = '''', ai_username = '''', ai_password = ''''\<rparr>"

text \<open>\<open>DispatchResult\<close> is an \<open>int\<close>; the constants are 0 to 3.\<close>

datatype dispatch_result =
    DispatchAccept | DispatchRequestPin | DispatchNoRuleReject | DispatchNoRuleDrop | DispatchOther int

record participant_config =
  pc_identity :: string
  pc_name :: string
  pc_metadata :: string
  pc_attributes :: "(string \<rightharpoonup> string) option"

record room_config =
  rc_ws_url :: string
  rc_token :: string
  rc_room_name :: string
  rc_participant :: participant_config
  rc_room_preset :: string
  rc_room_config :: "string option"
  rc_jitter_buf :: bool

definition zero_participant :: participant_config where
  "zero_participant = \<lparr>pc_identity = '''', pc_name = '''', pc_metadata = '''', pc_attributes = None\<rparr>"

definition zero_room_config :: room_config where
  "zero_room_config =
     \<lparr>rc_ws_url = '''', rc_token = '''', rc_room_name = '''', rc_participant = zero_participant,
      rc_room_preset = '''', rc_room_config = None, rc_jitter_buf = False\<rparr>"

record CallDispatch =
  cd_result :: dispatch_result
  cd_room :: room_config
  cd_project_id :: string
  cd_trunk_id :: string
  cd_dispatch_rule_id :: string
  cd_headers :: "(string \<times> string) list"
  cd_headers_to_attributes :: "(string \<times> string) list"
  cd_include_headers :: header_options
  cd_attributes_to_headers :: "(string \<times> string) list"
  cd_enabled_features :: "string list"
  cd_ringing_timeout :: int
  cd_max_call_duration :: int
  cd_media_encryption :: sip_media_encryption

definition zero_dispatch :: CallDispatch where
  "zero_dispatch =
     \<lparr>cd_result = DispatchAccept, cd_room = zero_room_config, cd_project_id = '''',
      cd_trunk_id = '''', cd_dispatch_rule_id = '''', cd_headers = [],
      cd_headers_to_attributes = [], cd_include_headers = SIP_NO_HEADERS,
      cd_attributes_to_headers = [], cd_enabled_features = [], cd_ringing_timeout = 0,
      cd_max_call_duration = 0, cd_media_encryption = SIP_MEDIA_ENCRYPT_DISABLE\<rparr>"

section \<open>GetAuthCredentials\<close>

record auth_request =
  aq_call :: sip_call
  aq_sip_call_id :: string
  aq_from :: string
  aq_from_host :: string
  aq_to :: string
  aq_to_host :: string
  aq_src_address :: string

record auth_response =
  ar_drop :: bool
  ar_username :: string
  ar_password :: string
  ar_project_id :: string
  ar_sip_trunk_id :: string

definition auth_request_of :: "sip_call \<Rightarrow> auth_request" where
  "auth_request_of call =
     \<lparr>aq_call = call, aq_sip_call_id = sc_lk_call_id call,
      aq_from = lk_user (sc_from call), aq_from_host = lk_host (sc_from call),
      aq_to = lk_user (sc_to call), aq_to_host = lk_host (sc_to call),
      aq_src_address = sc_source_ip call\<rparr>"

definition GetAuthCredentials ::
  "(auth_request \<Rightarrow> go_error + auth_response) \<Rightarrow> sip_call \<Rightarrow> go_error + AuthInfo" where
  "GetAuthCredentials rpc call =
     (case rpc (auth_request_of call) of
        Inl e \<Rightarrow> Inl e
      | Inr resp \<Rightarrow>
          if ar_drop resp
          then Inr (zero_auth_info\<lparr>ai_project_id := ar_project_id resp, ai_result := AuthDrop\<rparr>)
          else if ar_username resp \<noteq> '''' \<and> ar_password resp \<noteq> ''''
          then Inr \<lparr>ai_result = AuthPassword, ai_project_id = ar_project_id resp,
                    ai_trunk_id = ar_sip_trunk_id resp, ai_username = ar_username resp,
                    ai_password = ar_password resp\<rparr>
          else Inr (zero_auth_info\<lparr>ai_project_id := ar_project_id resp,
                                   ai_trunk_id := ar_sip_trunk_id resp, ai_result := AuthAccept\<rparr>))"

section \<open>DispatchCall\<close>

record dispatch_request =
  dq_sip_trunk_id :: string
  dq_call :: sip_call
  dq_pin :: string
  dq_no_pin :: bool
  dq_sip_call_id :: string
  dq_calling_number :: string
  dq_calling_host :: string
  dq_called_number :: string
  dq_called_host :: string
  dq_src_address :: string

datatype rpc_dispatch_result =
    LEGACY_ACCEPT_OR_PIN | RPC_ACCEPT | RPC_REQUEST_PIN | RPC_REJECT | RPC_DROP | RPC_OTHER int

record dispatch_response =
  dr_result :: rpc_dispatch_result
  dr_request_pin :: bool
  dr_project_id :: string
  dr_sip_trunk_id :: string
  dr_sip_dispatch_rule_id :: string
  dr_ws_url :: string
  dr_token :: string
  dr_room_name :: string
  dr_participant_identity :: string
  dr_participant_name :: string
  dr_participant_metadata :: string
  dr_participant_attributes :: "(string \<rightharpoonup> string) option"
  dr_room_preset :: string
  dr_room_config :: "string option"
  dr_headers :: "(string \<times> string) list"
  dr_include_headers :: header_options
  dr_headers_to_attributes :: "(string \<times> string) list"
  dr_attributes_to_headers :: "(string \<times> string) list"
  dr_enabled_features :: "string list"
  dr_ringing_timeout :: int
  dr_max_call_duration :: int
  dr_media_encryption :: sip_media_encryption

definition dispatch_request_of :: "CallInfo \<Rightarrow> dispatch_request" where
  "dispatch_request_of info =
     (let call = cinfo_call info in
      \<lparr>dq_sip_trunk_id = cinfo_trunk_id info, dq_call = call, dq_pin = cinfo_pin info,
       dq_no_pin = cinfo_no_pin info, dq_sip_call_id = sc_lk_call_id call,
       dq_calling_number = lk_user (sc_from call), dq_calling_host = lk_host (sc_from call),
       dq_called_number = lk_user (sc_to call), dq_called_host = lk_host (sc_to call),
       dq_src_address = sc_source_ip call\<rparr>)"

text \<open>The accepting result, which the legacy and the current answer both build.\<close>

definition accept_dispatch :: "dispatch_response \<Rightarrow> CallDispatch" where
  "accept_dispatch resp =
     \<lparr>cd_result = DispatchAccept,
      cd_room =
        \<lparr>rc_ws_url = dr_ws_url resp, rc_token = dr_token resp, rc_room_name = dr_room_name resp,
         rc_participant =
           \<lparr>pc_identity = dr_participant_identity resp, pc_name = dr_participant_name resp,
            pc_metadata = dr_participant_metadata resp, pc_attributes = dr_participant_attributes resp\<rparr>,
         rc_room_preset = dr_room_preset resp, rc_room_config = dr_room_config resp,
         rc_jitter_buf = False\<rparr>,
      cd_project_id = dr_project_id resp,
      cd_trunk_id = dr_sip_trunk_id resp,
      cd_dispatch_rule_id = dr_sip_dispatch_rule_id resp,
      cd_headers = dr_headers resp,
      cd_headers_to_attributes = dr_headers_to_attributes resp,
      cd_include_headers = dr_include_headers resp,
      cd_attributes_to_headers = dr_attributes_to_headers resp,
      cd_enabled_features = dr_enabled_features resp,
      cd_ringing_timeout = dr_ringing_timeout resp,
      cd_max_call_duration = dr_max_call_duration resp,
      cd_media_encryption = dr_media_encryption resp\<rparr>"

definition DispatchCall ::
  "(dispatch_request \<Rightarrow> go_error + dispatch_response) \<Rightarrow> CallInfo \<Rightarrow> CallDispatch" where
  "DispatchCall rpc info =
     (case rpc (dispatch_request_of info) of
        Inl e \<Rightarrow> zero_dispatch\<lparr>cd_result := DispatchNoRuleReject\<rparr>
      | Inr resp \<Rightarrow>
          (case dr_result resp of
             LEGACY_ACCEPT_OR_PIN \<Rightarrow>
               if dr_request_pin resp
               then zero_dispatch\<lparr>cd_project_id := dr_project_id resp, cd_trunk_id := dr_sip_trunk_id resp,
                      cd_dispatch_rule_id := dr_sip_dispatch_rule_id resp, cd_result := DispatchRequestPin,
                      cd_media_encryption := dr_media_encryption resp\<rparr>
               else accept_dispatch resp
           | RPC_ACCEPT \<Rightarrow> accept_dispatch resp
           | RPC_REQUEST_PIN \<Rightarrow>
               zero_dispatch\<lparr>cd_project_id := dr_project_id resp, cd_result := DispatchRequestPin,
                 cd_trunk_id := dr_sip_trunk_id resp, cd_media_encryption := dr_media_encryption resp\<rparr>
           | RPC_REJECT \<Rightarrow>
               zero_dispatch\<lparr>cd_project_id := dr_project_id resp, cd_result := DispatchNoRuleReject,
                 cd_trunk_id := dr_sip_trunk_id resp\<rparr>
           | RPC_DROP \<Rightarrow>
               zero_dispatch\<lparr>cd_project_id := dr_project_id resp, cd_result := DispatchNoRuleDrop,
                 cd_trunk_id := dr_sip_trunk_id resp\<rparr>
           | RPC_OTHER n \<Rightarrow>
               zero_dispatch\<lparr>cd_project_id := dr_project_id resp, cd_trunk_id := dr_sip_trunk_id resp,
                 cd_result := DispatchNoRuleReject\<rparr>))"

lemma accept_dispatch_simps [simp]:
  "cd_result (accept_dispatch resp) = DispatchAccept"
  "rc_room_name (cd_room (accept_dispatch resp)) = dr_room_name resp"
  "cd_trunk_id (accept_dispatch resp) = dr_sip_trunk_id resp"
  "cd_project_id (accept_dispatch resp) = dr_project_id resp"
  by (simp_all add: accept_dispatch_def)

lemma zero_dispatch_simps [simp]:
  "cd_room zero_dispatch = zero_room_config"
  "rc_room_name zero_room_config = ''''"
  "cd_result zero_dispatch = DispatchAccept"
  by (simp_all add: zero_dispatch_def zero_room_config_def)

text \<open>The result of a dispatch as a function of the backend's answer.\<close>

lemma DispatchCall_result:
  "cd_result (DispatchCall rpc info) =
     (case rpc (dispatch_request_of info) of
        Inl e \<Rightarrow> DispatchNoRuleReject
      | Inr resp \<Rightarrow>
          (case dr_result resp of
             LEGACY_ACCEPT_OR_PIN \<Rightarrow> if dr_request_pin resp then DispatchRequestPin else DispatchAccept
           | RPC_ACCEPT \<Rightarrow> DispatchAccept
           | RPC_REQUEST_PIN \<Rightarrow> DispatchRequestPin
           | RPC_REJECT \<Rightarrow> DispatchNoRuleReject
           | RPC_DROP \<Rightarrow> DispatchNoRuleDrop
           | RPC_OTHER n \<Rightarrow> DispatchNoRuleReject))"
  by (simp add: DispatchCall_def split: sum.splits rpc_dispatch_result.splits)

lemma DispatchCall_room:
  "cd_result (DispatchCall rpc info) \<noteq> DispatchAccept \<Longrightarrow>
     cd_room (DispatchCall rpc info) = zero_room_config"
  by (auto simp: DispatchCall_def split: sum.splits rpc_dispatch_result.splits)

section \<open>Properties\<close>

text \<open>
  C35. A call is let into a room without a pin only if the backend answered so, and then into
  the room, with the token and identity, of that answer; no other result carries a room; a
  failed RPC is a rejection.
\<close>

theorem dispatch_accept_only_if_told:
  "(cd_result (DispatchCall rpc info) = DispatchAccept \<longleftrightarrow>
      (\<exists>resp. rpc (dispatch_request_of info) = Inr resp \<and>
         (dr_result resp = RPC_ACCEPT \<or> dr_result resp = LEGACY_ACCEPT_OR_PIN \<and> \<not> dr_request_pin resp)))
   \<and> (cd_result (DispatchCall rpc info) = DispatchAccept \<longrightarrow>
        (\<exists>resp. rpc (dispatch_request_of info) = Inr resp \<and>
           rc_room_name (cd_room (DispatchCall rpc info)) = dr_room_name resp \<and>
           rc_token (cd_room (DispatchCall rpc info)) = dr_token resp \<and>
           pc_identity (rc_participant (cd_room (DispatchCall rpc info))) = dr_participant_identity resp))
   \<and> (cd_result (DispatchCall rpc info) \<noteq> DispatchAccept \<longrightarrow> cd_room (DispatchCall rpc info) = zero_room_config)
   \<and> (\<forall>e. rpc (dispatch_request_of info) = Inl e \<longrightarrow> cd_result (DispatchCall rpc info) = DispatchNoRuleReject)"
proof (cases "rpc (dispatch_request_of info)")
  case (Inl e)
  then show ?thesis by (simp add: DispatchCall_def)
next
  case (Inr resp)
  then show ?thesis
    by (cases "dr_result resp") (auto simp: DispatchCall_def accept_dispatch_def)
qed

theorem dispatch_accept_only_if_told_witness:
  "\<forall>call. cd_result (DispatchCall (\<lambda>q. Inl (PlainErr ''timeout''))
     \<lparr>cinfo_trunk_id = ''ST_1'', cinfo_call = call, cinfo_pin = '''', cinfo_no_pin = False\<rparr>) = DispatchNoRuleReject"
  using dispatch_accept_only_if_told [of "\<lambda>q. Inl (PlainErr ''timeout'')"
      "\<lparr>cinfo_trunk_id = ''ST_1'', cinfo_call = call, cinfo_pin = '''', cinfo_no_pin = False\<rparr>" for call]
  by simp

text \<open>
  What the backend's answer to an authentication request comes to: a drop; else a demand
  for the password, exactly when both a user name and a password are configured; else
  acceptance. The result \<open>AuthNotFound\<close> never arises, and an error is passed on.
\<close>

theorem auth_credentials_cases:
  "case rpc (auth_request_of call) of
     Inl e \<Rightarrow> GetAuthCredentials rpc call = Inl e
   | Inr resp \<Rightarrow>
       (\<exists>info. GetAuthCredentials rpc call = Inr info \<and>
          ai_result info \<noteq> AuthNotFound \<and> ai_project_id info = ar_project_id resp \<and>
          (ai_result info = AuthDrop \<longleftrightarrow> ar_drop resp) \<and>
          (ai_result info = AuthPassword \<longleftrightarrow>
             \<not> ar_drop resp \<and> ar_username resp \<noteq> '''' \<and> ar_password resp \<noteq> '''') \<and>
          (ai_result info = AuthPassword \<longrightarrow>
             ai_username info = ar_username resp \<and> ai_password info = ar_password resp) \<and>
          (ai_result info \<noteq> AuthDrop \<longrightarrow> ai_trunk_id info = ar_sip_trunk_id resp))"
  by (auto simp: GetAuthCredentials_def split: sum.split)

theorem auth_credentials_cases_witness:
  "\<forall>call. \<exists>info. GetAuthCredentials (\<lambda>q. Inr \<lparr>ar_drop = False, ar_username = ''joe'', ar_password = ''secret'',
       ar_project_id = ''p'', ar_sip_trunk_id = ''ST_1''\<rparr>) call = Inr info \<and> ai_result info = AuthPassword"
  using auth_credentials_cases [of "\<lambda>q. Inr \<lparr>ar_drop = False, ar_username = ''joe'', ar_password = ''secret'',
       ar_project_id = ''p'', ar_sip_trunk_id = ''ST_1''\<rparr>" call for call]
  by auto

end
