(* ===== verification/Invite_Auth.thy ===== *)
theory Invite_Auth
  imports Dispatch
begin

text \<open>
  Authentication of an INVITE (\<open>pkg/sip/inbound.go\<close>: \<open>inboundCallInfo\<close>, \<open>getCallInfo\<close>,
  \<open>getInvite\<close>, \<open>handleInviteAuth\<close>; \<open>server.go\<close>: \<open>inProgressInvite\<close>). Parsing credentials and
  computing a digest (\<open>icholy/digest\<close>) and the cache of call infos (\<open>golang-lru\<close>) are
  arguments. The cache holds references, since its entries are counted in place.
\<close>

section \<open>Counting INVITEs of a call\<close>

record inbound_call_info =
  ici_cseq :: "32 word"
  ici_cseq_auth :: "32 word"
  ici_invites :: "32 word"
  ici_invites_auth :: "32 word"

definition new_call_info :: inbound_call_info where
  "new_call_info = \<lparr>ici_cseq = 0, ici_cseq_auth = 0, ici_invites = 0, ici_invites_auth = 0\<rparr>"

definition inviteHasAuth :: "sip_request \<Rightarrow> bool" where
  "inviteHasAuth r =
     (GetHeader (req_headers r) ''Proxy-Authorization'' \<noteq> None \<or>
      GetHeader (req_headers r) ''Authorization'' \<noteq> None)"

text \<open>The two counters are handled alike: first CSeq seen, and count of the requests up to it.\<close>

definition count_one :: "32 word \<Rightarrow> 32 word \<times> 32 word \<Rightarrow> 32 word \<times> 32 word" where
  "count_one seq_no cc = (case cc of (cseq, count) \<Rightarrow>
     (let cseq = (if cseq = 0 then seq_no else cseq)
      in if cseq < seq_no then (cseq, count) else (cseq, count + 1)))"

definition countInvite :: "sip_request \<Rightarrow> inbound_call_info \<Rightarrow> inbound_call_info" where
  "countInvite req c =
     (case req_cseq req of
        None \<Rightarrow> c
      | Some seq_no \<Rightarrow>
          if inviteHasAuth req
          then (case count_one seq_no (ici_cseq_auth c, ici_invites_auth c) of
                  (s, n) \<Rightarrow> c\<lparr>ici_cseq_auth := s, ici_invites_auth := n\<rparr>)
          else (case count_one seq_no (ici_cseq c, ici_invites c) of
                  (s, n) \<Rightarrow> c\<lparr>ici_cseq := s, ici_invites := n\<rparr>))"

text \<open>
  The cache maps a Call-ID to a reference into the store of infos. \<open>get\<close> and \<open>add\<close> are the
  operations of the LRU cache.
\<close>

record 'c info_cache =
  ic_cache :: 'c
  ic_store :: "nat \<Rightarrow> inbound_call_info"
  ic_next :: nat

definition getCallInfo ::
  "('c \<Rightarrow> string \<Rightarrow> nat option) \<Rightarrow> ('c \<Rightarrow> string \<Rightarrow> nat \<Rightarrow> 'c) \<Rightarrow> string \<Rightarrow> 'c info_cache \<Rightarrow> 'c info_cache \<times> nat" where
  "getCallInfo get add cid s =
     (case get (ic_cache s) cid of
        Some c \<Rightarrow> (s, c)
      | None \<Rightarrow>
          (let c = ic_next s in
           (\<lparr>ic_cache = add (ic_cache s) cid c, ic_store = (ic_store s)(c := new_call_info),
             ic_next = c + 1\<rparr>, c)))"

definition count_in_cache :: "sip_request \<Rightarrow> nat \<Rightarrow> 'c info_cache \<Rightarrow> 'c info_cache" where
  "count_in_cache req c s = s\<lparr>ic_store := (ic_store s)(c := countInvite req (ic_store s c))\<rparr>"

section \<open>Invites in progress\<close>

record challenge =
  ch_realm :: string
  ch_nonce :: string
  ch_algorithm :: string

definition zero_challenge :: challenge where
  "zero_challenge = \<lparr>ch_realm = '''', ch_nonce = '''', ch_algorithm = ''''\<rparr>"

record in_progress_invite =
  ip_sip_call_id :: string
  ip_challenge :: challenge

definition digestLimit :: nat where
  "digestLimit = 500"

definition getInvite ::
  "string \<Rightarrow> in_progress_invite list \<Rightarrow> in_progress_invite list \<times> in_progress_invite" where
  "getInvite cid invites =
     (case find (\<lambda>i. ip_sip_call_id i = cid) invites of
        Some i \<Rightarrow> (invites, i)
      | None \<Rightarrow>
          (let invites = (if digestLimit \<le> length invites then tl invites else invites);
               i = \<lparr>ip_sip_call_id = cid, ip_challenge = zero_challenge\<rparr>
           in (invites @ [i], i)))"

text \<open>Storing a challenge through the pointer that \<open>getInvite\<close> returned.\<close>

definition setChallenge :: "string \<Rightarrow> challenge \<Rightarrow> in_progress_invite list \<Rightarrow> in_progress_invite list" where
  "setChallenge cid ch invites =
     map (\<lambda>i. if ip_sip_call_id i = cid then i\<lparr>ip_challenge := ch\<rparr> else i) invites"

section \<open>handleInviteAuth\<close>

record credentials =
  cr_uri :: string
  cr_username :: string
  cr_response :: string

record digest_options =
  do_method :: string
  do_uri :: string
  do_username :: string
  do_password :: string

text \<open>A response: status, reason and the challenge of its Proxy-Authenticate header, if any.\<close>

datatype auth_reply = AuthReply (reply_status: int) (reply_reason: string) (reply_challenge: "challenge option")

record 'c auth_state =
  as_infos :: "'c info_cache"
  as_invites :: "in_progress_invite list"

record auth_outcome =
  ao_ok :: bool
  ao_replies :: "auth_reply list"

definition UserAgent :: string where
  "UserAgent = ''LiveKit''"

text \<open>
  \<open>hide\<close> is \<open>conf.HideInboundPort\<close>, \<open>now\<close> the time in microseconds.
\<close>

definition handleInviteAuth ::
  "('c \<Rightarrow> string \<Rightarrow> nat option) \<Rightarrow> ('c \<Rightarrow> string \<Rightarrow> nat \<Rightarrow> 'c)
    \<Rightarrow> (string \<Rightarrow> go_error + credentials) \<Rightarrow> (challenge \<Rightarrow> digest_options \<Rightarrow> go_error + string)
    \<Rightarrow> bool \<Rightarrow> int \<Rightarrow> sip_request \<Rightarrow> string \<Rightarrow> string \<Rightarrow> 'c auth_state \<Rightarrow> 'c auth_state \<times> auth_outcome" where
  "handleInviteAuth get add parse_credentials digest hide now req username password s =
     (if username = '''' \<or> password = '''' then (s, \<lparr>ao_ok = True, ao_replies = []\<rparr>)
      else
        let progress = (if hide then [AuthReply 100 ''Processing'' None] else []);
            sip_call_id = (case req_call_id req of None \<Rightarrow> '''' | Some v \<Rightarrow> v);
            (infos, ci) = getCallInfo get add sip_call_id (as_infos s);
            infos = count_in_cache req ci infos;
            (invites, invite_state) = getInvite sip_call_id (as_invites s);
            s = s\<lparr>as_infos := infos, as_invites := invites\<rparr>
        in case GetHeader (req_headers req) ''Proxy-Authorization'' of
             None \<Rightarrow>
               (let ch = \<lparr>ch_realm = UserAgent, ch_nonce = itoa now, ch_algorithm = ''MD5''\<rparr>
                in (s\<lparr>as_invites := setChallenge sip_call_id ch invites\<rparr>,
                    \<lparr>ao_ok = False,
                     ao_replies = progress @ [AuthReply 407 ''Unauthorized'' (Some ch)]\<rparr>))
           | Some value \<Rightarrow>
               (case parse_credentials value of
                  Inl e \<Rightarrow>
                    (s, \<lparr>ao_ok = False, ao_replies = progress @ [AuthReply 401 ''Bad credentials'' None]\<rparr>)
                | Inr cred \<Rightarrow>
                    if ch_realm (ip_challenge invite_state) = ''''
                    then (s, \<lparr>ao_ok = False, ao_replies = progress @ [AuthReply 401 ''Bad credentials'' None]\<rparr>)
                    else
                      (case digest (ip_challenge invite_state)
                              \<lparr>do_method = req_method req, do_uri = cr_uri cred,
                               do_username = cr_username cred, do_password = password\<rparr> of
                         Inl e \<Rightarrow>
                           (s, \<lparr>ao_ok = False, ao_replies = progress @ [AuthReply 401 ''Bad credentials'' None]\<rparr>)
                       | Inr expected \<Rightarrow>
                           if cr_response cred \<noteq> expected
                           then (s, \<lparr>ao_ok = False, ao_replies = progress @ [AuthReply 401 ''Unauthorized'' None]\<rparr>)
                           else (s, \<lparr>ao_ok = True, ao_replies = progress\<rparr>))))"

section \<open>The list of invites in progress\<close>

datatype invite_op = OpGetInvite string | OpSetChallenge string challenge

fun invite_step :: "invite_op \<Rightarrow> in_progress_invite list \<Rightarrow> in_progress_invite list" where
  "invite_step (OpGetInvite cid) is = fst (getInvite cid is)"
| "invite_step (OpSetChallenge cid ch) is = setChallenge cid ch is"

definition invites_ok :: "in_progress_invite list \<Rightarrow> bool" where
  "invites_ok is \<longleftrightarrow> length is \<le> digestLimit \<and> distinct (map ip_sip_call_id is)"

lemma setChallenge_ids [simp]: "map ip_sip_call_id (setChallenge cid ch is) = map ip_sip_call_id is"
  by (induction "is") (auto simp: setChallenge_def)

lemma setChallenge_length [simp]: "length (setChallenge cid ch is) = length is"
  by (simp add: setChallenge_def)

lemma find_none_ids: "find (\<lambda>i. f i = k) xs = None \<longleftrightarrow> k \<notin> set (map f xs)"
  by (auto simp: find_None_iff)

lemma digestLimit_pos [simp]: "0 < digestLimit"
  by (simp add: digestLimit_def)

lemma getInvite_ok:
  assumes "invites_ok is"
  shows "invites_ok (fst (getInvite cid is))"
proof (cases "find (\<lambda>i. ip_sip_call_id i = cid) is")
  case None
  then have new: "cid \<notin> ip_sip_call_id ` set is" by (auto simp: find_none_ids)
  have tl: "set (tl is) \<subseteq> set is" by (cases "is") auto
  have dtl: "distinct (map ip_sip_call_id (tl is))"
    using assms by (cases "is") (auto simp: invites_ok_def)
  have pos: "0 < digestLimit" by simp
  show ?thesis
  proof (cases "digestLimit \<le> length is")
    case True
    with assms have len: "length is = digestLimit" by (simp add: invites_ok_def)
    have "cid \<notin> ip_sip_call_id ` set (tl is)" using new tl by blast
    moreover have "length (tl is) + 1 \<le> digestLimit" using len pos by simp
    ultimately show ?thesis
      using None True dtl by (simp add: getInvite_def invites_ok_def Let_def)
  next
    case False
    with None new assms show ?thesis by (simp add: getInvite_def invites_ok_def Let_def)
  qed
next
  case (Some i)
  with assms show ?thesis by (simp add: getInvite_def)
qed

lemma invite_step_ok: "invites_ok is \<Longrightarrow> invites_ok (invite_step op is)" (is "_ \<Longrightarrow> ?thesis")
proof (cases op)
  case (OpGetInvite cid)
  then show "invites_ok is \<Longrightarrow> ?thesis" by (simp add: getInvite_ok)
next
  case (OpSetChallenge cid ch)
  then show "invites_ok is \<Longrightarrow> ?thesis" by (simp add: invites_ok_def)
qed

interpretation invites: event_system invite_step invites_ok
  by unfold_locales (rule invite_step_ok)

lemma getInvite_id [simp]: "ip_sip_call_id (snd (getInvite cid is)) = cid"
  by (auto simp: getInvite_def Let_def find_Some_iff split: option.splits)

lemma getInvite_found:
  "invites_ok is \<Longrightarrow> i \<in> set is \<Longrightarrow> getInvite (ip_sip_call_id i) is = (is, i)"
  by (simp add: getInvite_def invites_ok_def find_key_distinct)

lemma getInvite_in: "snd (getInvite cid is) \<in> set (fst (getInvite cid is))"
  by (auto simp: getInvite_def Let_def find_Some_iff split: option.splits)

lemma setChallenge_in:
  "i \<in> set is \<Longrightarrow> ip_sip_call_id i = cid \<Longrightarrow> i\<lparr>ip_challenge := ch\<rparr> \<in> set (setChallenge cid ch is)"
  by (force simp: setChallenge_def)

section \<open>A stored challenge outlives fewer than 500 other calls\<close>

definition op_id :: "invite_op \<Rightarrow> string" where
  "op_id op = (case op of OpGetInvite cid \<Rightarrow> cid | OpSetChallenge cid ch \<Rightarrow> cid)"

definition held_within :: "in_progress_invite \<Rightarrow> nat \<Rightarrow> in_progress_invite list \<Rightarrow> bool" where
  "held_within i n is \<longleftrightarrow> (\<exists>ys zs. is = ys @ i # zs \<and> length zs \<le> n)"

lemma held_within_in: "held_within i n is \<Longrightarrow> i \<in> set is"
  by (auto simp: held_within_def)

lemma held_within_mono: "held_within i n is \<Longrightarrow> n \<le> m \<Longrightarrow> held_within i m is"
  unfolding held_within_def by (elim exE conjE) (intro exI conjI, assumption, erule le_trans)

lemma held_within_setChallenge:
  assumes "held_within i n is" and "cid \<noteq> ip_sip_call_id i"
  shows "held_within i n (setChallenge cid ch is)"
proof -
  from assms obtain ys zs where "is = ys @ i # zs" "length zs \<le> n"
    by (auto simp: held_within_def)
  with assms(2) show ?thesis
    unfolding held_within_def
    by (intro exI [of _ "setChallenge cid ch ys"] exI [of _ "setChallenge cid ch zs"])
      (simp add: setChallenge_def)
qed

lemma held_within_getInvite:
  assumes "held_within i n is" and "Suc n < digestLimit" and "cid \<noteq> ip_sip_call_id i"
  shows "held_within i (Suc n) (fst (getInvite cid is))"
proof (cases "find (\<lambda>j. ip_sip_call_id j = cid) is")
  case (Some j)
  with assms(1) show ?thesis by (simp add: getInvite_def held_within_mono)
next
  case None
  from assms(1) obtain ys zs where is_eq: "is = ys @ i # zs" and zs: "length zs \<le> n"
    by (auto simp: held_within_def)
  let ?new = "\<lparr>ip_sip_call_id = cid, ip_challenge = zero_challenge\<rparr>"
  show ?thesis
  proof (cases "digestLimit \<le> length is")
    case True
    with is_eq zs assms(2) have "ys \<noteq> []" by auto
    then have "tl is = tl ys @ i # zs" using is_eq by (cases ys) auto
    then have "fst (getInvite cid is) = tl ys @ i # (zs @ [?new])"
      using None True by (simp add: getInvite_def Let_def)
    moreover have "length (zs @ [?new]) \<le> Suc n" using zs by simp
    ultimately show ?thesis unfolding held_within_def by blast
  next
    case False
    then have "fst (getInvite cid is) = ys @ i # (zs @ [?new])"
      using None False is_eq by (simp add: getInvite_def Let_def)
    moreover have "length (zs @ [?new]) \<le> Suc n" using zs by simp
    ultimately show ?thesis unfolding held_within_def by blast
  qed
qed

lemma held_within_steps:
  assumes "held_within i n is" and "\<forall>op\<in>set ops. op_id op \<noteq> ip_sip_call_id i"
    and "n + length ops < digestLimit"
  shows "held_within i (n + length ops) (fold invite_step ops is)"
  using assms
proof (induction ops arbitrary: n "is")
  case Nil
  then show ?case by simp
next
  case (Cons op ops)
  have "held_within i (Suc n) (invite_step op is)"
  proof (cases op)
    case (OpGetInvite cid)
    with Cons.prems show ?thesis by (auto simp: op_id_def intro: held_within_getInvite)
  next
    case (OpSetChallenge cid ch)
    with Cons.prems have "held_within i n (setChallenge cid ch is)"
      by (auto simp: op_id_def intro: held_within_setChallenge)
    with OpSetChallenge show ?thesis by (auto intro: held_within_mono)
  qed
  from Cons.IH [OF this] Cons.prems show ?case by simp
qed

lemma getInvite_new_last:
  assumes "cid \<notin> ip_sip_call_id ` set is"
  shows "\<exists>ys. fst (getInvite cid is) = ys @ [\<lparr>ip_sip_call_id = cid, ip_challenge = zero_challenge\<rparr>]"
proof -
  from assms have "find (\<lambda>i. ip_sip_call_id i = cid) is = None" by (simp add: find_none_ids)
  then show ?thesis by (simp add: getInvite_def Let_def)
qed

section \<open>Properties\<close>

text \<open>
  C30. An INVITE passes authentication exactly when the trunk has no complete credentials or
  it carries credentials whose response is the digest of the challenge stored for its Call-ID
  with the trunk's password; then no final response is sent, and otherwise exactly one, a 401
  or a 407.
\<close>

theorem invite_auth_sound:
  "case handleInviteAuth get add parse digest hide now req username password s of (s', out) \<Rightarrow>
     (ao_ok out \<longleftrightarrow>
        username = '''' \<or> password = '''' \<or>
        (\<exists>value cred.
           GetHeader (req_headers req) ''Proxy-Authorization'' = Some value \<and> parse value = Inr cred \<and>
           (let ch = ip_challenge (snd (getInvite (case req_call_id req of None \<Rightarrow> '''' | Some v \<Rightarrow> v) (as_invites s)))
            in ch_realm ch \<noteq> '''' \<and>
               digest ch \<lparr>do_method = req_method req, do_uri = cr_uri cred,
                          do_username = cr_username cred, do_password = password\<rparr> = Inr (cr_response cred)))) \<and>
     (let finals = filter (\<lambda>r. 200 \<le> reply_status r) (ao_replies out) in
        (ao_ok out \<longrightarrow> finals = []) \<and>
        (\<not> ao_ok out \<longrightarrow> (\<exists>f. finals = [f] \<and> (reply_status f = 401 \<or> reply_status f = 407))))"
proof -
  obtain infos ci where infos: "getCallInfo get add (case req_call_id req of None \<Rightarrow> '''' | Some v \<Rightarrow> v) (as_infos s) = (infos, ci)"
    by fastforce
  obtain invites i where inv: "getInvite (case req_call_id req of None \<Rightarrow> '''' | Some v \<Rightarrow> v) (as_invites s) = (invites, i)"
    by fastforce
  show ?thesis
  proof (cases "username = '''' \<or> password = ''''")
    case True
    then show ?thesis by (auto simp: handleInviteAuth_def)
  next
    case False
    then show ?thesis
      by (cases "GetHeader (req_headers req) ''Proxy-Authorization''"; cases hide)
        (auto simp: handleInviteAuth_def infos inv Let_def split: sum.split)
  qed
qed

theorem invite_auth_sound_witness:
  "\<not> ao_ok (snd (handleInviteAuth (\<lambda>_ _. None) (\<lambda>c _ _. c) (\<lambda>v. Inl (PlainErr ''bad'')) (\<lambda>ch opt. Inr '''')
       False 7 (bare_request ''INVITE'') ''joe'' ''secret''
       \<lparr>as_infos = \<lparr>ic_cache = (0::nat), ic_store = \<lambda>_. new_call_info, ic_next = 0\<rparr>, as_invites = []\<rparr>))"
  using invite_auth_sound [where get = "\<lambda>_ _. None" and add = "\<lambda>c _ _. c"
      and parse = "\<lambda>v. Inl (PlainErr ''bad'')" and digest = "\<lambda>ch opt. Inr ''''" and hide = False
      and now = 7 and req = "bare_request ''INVITE''" and username = "''joe''" and password = "''secret''"
      and s = "\<lparr>as_infos = \<lparr>ic_cache = (0::nat), ic_store = \<lambda>_. new_call_info, ic_next = 0\<rparr>, as_invites = []\<rparr>"]
  by (simp add: case_prod_beta bare_request_def)

text \<open>
  The list of INVITEs in progress never holds more than 500 entries, and one entry per
  Call-ID.
\<close>

theorem invites_bounded:
  "length (fold invite_step ops []) \<le> 500 \<and> distinct (map ip_sip_call_id (fold invite_step ops []))"
proof -
  have "invites_ok (fold invite_step ops [])"
    by (rule invites.run_inv) (simp add: invites_ok_def)
  then show ?thesis by (simp add: invites_ok_def digestLimit_def)
qed

text \<open>
  C29. The two steps of authentication work out: after the challenge to a first INVITE, and
  whatever fewer than 499 operations for other calls, a second INVITE of the same Call-ID
  whose credentials answer that challenge passes.
\<close>

theorem invite_auth_two_steps:
  assumes creds: "username \<noteq> ''''" "password \<noteq> ''''"
    and ids: "req_call_id r1 = Some cid" "req_call_id r2 = Some cid"
    and first: "GetHeader (req_headers r1) ''Proxy-Authorization'' = None"
    and s1: "handleInviteAuth get add parse digest hide now r1 username password s = (s1, out1)"
    and ok: "invites_ok (as_invites s)"
    and fresh: "cid \<notin> ip_sip_call_id ` set (as_invites s)"
    and others: "\<forall>op\<in>set ops. op_id op \<noteq> cid" "length ops < 499"
    and second: "GetHeader (req_headers r2) ''Proxy-Authorization'' = Some hv" "parse hv = Inr cred"
    and answer: "digest \<lparr>ch_realm = UserAgent, ch_nonce = itoa now, ch_algorithm = ''MD5''\<rparr>
        \<lparr>do_method = req_method r2, do_uri = cr_uri cred, do_username = cr_username cred,
         do_password = password\<rparr> = Inr (cr_response cred)"
  shows "\<not> ao_ok out1 \<and>
         ao_ok (snd (handleInviteAuth get add parse digest hide now' r2 username password
                       (s1\<lparr>as_invites := fold invite_step ops (as_invites s1)\<rparr>)))"
proof -
  let ?ch = "\<lparr>ch_realm = UserAgent, ch_nonce = itoa now, ch_algorithm = ''MD5''\<rparr>"
  let ?i = "\<lparr>ip_sip_call_id = cid, ip_challenge = ?ch\<rparr>"
  have a: "\<not> ao_ok out1" "as_invites s1 = setChallenge cid ?ch (fst (getInvite cid (as_invites s)))"
    using s1 creds ids(1) first by (auto simp: handleInviteAuth_def Let_def case_prod_beta)
  from getInvite_new_last [OF fresh] obtain ys where
    "fst (getInvite cid (as_invites s)) = ys @ [\<lparr>ip_sip_call_id = cid, ip_challenge = zero_challenge\<rparr>]" by blast
  then have "as_invites s1 = setChallenge cid ?ch ys @ [?i]"
    using a(2) by (simp add: setChallenge_def)
  then have "held_within ?i 0 (as_invites s1)" by (auto simp: held_within_def)
  then have "held_within ?i (0 + length ops) (fold invite_step ops (as_invites s1))"
    by (rule held_within_steps) (use others in \<open>simp_all add: digestLimit_def\<close>)
  then have mem: "?i \<in> set (fold invite_step ops (as_invites s1))" by (rule held_within_in)
  have "invites_ok (as_invites s1)"
    using getInvite_ok [OF ok, of cid] a(2) by (simp add: invites_ok_def)
  then have "invites_ok (fold invite_step ops (as_invites s1))" by (rule invites.run_inv)
  from getInvite_found [OF this mem]
  have "getInvite cid (fold invite_step ops (as_invites s1)) = (fold invite_step ops (as_invites s1), ?i)"
    by simp
  then have "ao_ok (snd (handleInviteAuth get add parse digest hide now' r2 username password
                       (s1\<lparr>as_invites := fold invite_step ops (as_invites s1)\<rparr>)))"
    using creds ids(2) second answer
    by (simp add: handleInviteAuth_def Let_def case_prod_beta UserAgent_def)
  with a(1) show ?thesis by simp
qed

theorem invite_auth_two_steps_witness:
  "let r1 = (bare_request ''INVITE'')\<lparr>req_call_id := Some ''c1''\<rparr>;
       r2 = r1\<lparr>req_headers := [\<lparr>hdr_name = ''Proxy-Authorization'', hdr_value = ''7:secret''\<rparr>]\<rparr>;
       auth = handleInviteAuth (\<lambda>_ _. None) (\<lambda>c _ _. c)
                (\<lambda>v. Inr \<lparr>cr_uri = ''sip:x'', cr_username = ''joe'', cr_response = v\<rparr>)
                (\<lambda>ch opt. Inr (ch_nonce ch @ '':'' @ do_password opt)) False;
       s = \<lparr>as_infos = \<lparr>ic_cache = (0::nat), ic_store = \<lambda>_. new_call_info, ic_next = 0\<rparr>, as_invites = []\<rparr>;
       s1 = fst (auth 7 r1 ''joe'' ''secret'' s)
   in \<not> ao_ok (snd (auth 7 r1 ''joe'' ''secret'' s)) \<and>
      ao_ok (snd (auth 8 r2 ''joe'' ''secret''
                    (s1\<lparr>as_invites := fold invite_step [OpGetInvite ''c2''] (as_invites s1)\<rparr>)))"
proof -
  have i: "itoa 7 = ''7''" by code_simp
  show ?thesis
    unfolding Let_def
    by (rule invite_auth_two_steps [where hv = "''7:secret''" and cid = "''c1''"
        and cred = "\<lparr>cr_uri = ''sip:x'', cr_username = ''joe'', cr_response = ''7:secret''\<rparr>"])
      (simp_all add: bare_request_def GetHeader_def invites_ok_def op_id_def i, simp_all add: i)
qed

text \<open>
  The user name of the trunk is not compared: any other one that is not empty gives the same
  result, so credentials under any name pass that know the password.
\<close>

lemma username_not_checked:
  "u1 \<noteq> '''' \<Longrightarrow> u2 \<noteq> '''' \<Longrightarrow>
     handleInviteAuth get add parse digest hide now req u1 password s
       = handleInviteAuth get add parse digest hide now req u2 password s"
  by (simp add: handleInviteAuth_def)

end
