(* ===== verification/Outbound_Leg.thy ===== *)
theory Outbound_Leg
  imports Call_State Invite_Auth "HOL-Library.Char_ord" "HOL-Library.List_Lexorder"
begin

text \<open>
  The SIP leg of an outbound call (\<open>sipOutbound\<close> in \<open>pkg/sip/outbound.go\<close>): the INVITE with its
  authentication loop, the ACK, requests within the dialog, closing. Its operations run under
  the mutex of the leg, so each is one step. What the leg sends is appended to a trace. The SIP
  and digest libraries are arguments.
\<close>

section \<open>State\<close>

text \<open>
  \<open>OutInvite\<close> carries the request and its body; \<open>OutCancel\<close> cancels the INVITE last sent;
  \<open>OutAck\<close> acknowledges the 200 to the INVITE, \<open>OutAckOf\<close> the 200 to another request.
\<close>

datatype out_msg =
    OutInvite out_request string
  | OutCancel
  | OutAck sip_request sip_response
  | OutBye out_request
  | OutAckOf out_request
  | OutRefer out_request
  | OutByeOK

record sip_outbound =
  so_id :: string
  so_display :: string
  so_from :: addr_header
  so_contact :: sip_uri
  so_tag :: string
  so_call_id :: string
  so_invite :: "sip_request option"
  so_invite_ok :: "sip_response option"
  so_to :: "addr_header option"
  so_next_cseq :: "32 word"
  so_refer_cseq :: "32 word"
  so_out :: "out_msg list"

definition newOutbound :: "string \<Rightarrow> URI \<Rightarrow> URI \<Rightarrow> string option \<Rightarrow> sip_outbound" where
  "newOutbound lid from contact displayName =
     (let from = Normalize from
      in \<lparr>so_id = lid,
          so_display = (case displayName of None \<Rightarrow> User from | Some d \<Rightarrow> d),
          so_from = \<lparr>ah_address = GetURI from, ah_params = Some (Map.empty(''tag'' \<mapsto> lid))\<rparr>,
          so_contact = GetContactURI contact,
          so_tag = '''', so_call_id = '''', so_invite = None, so_invite_ok = None, so_to = None,
          so_next_cseq = 1, so_refer_cseq = 0, so_out = []\<rparr>)"

text \<open>
  The surroundings: the hash that makes a Call-ID, what the accessors of an INVITE return once
  the library has sent it, parsing a challenge, the digest, a URI as text, \<open>NewByeRequest\<close>,
  whether the client is closing, and the header callback.
\<close>

record out_env =
  oe_hash :: "string \<Rightarrow> sip_uri \<Rightarrow> string"
  oe_sent :: "out_request \<Rightarrow> string \<Rightarrow> sip_request"
  oe_challenge :: "string \<Rightarrow> go_error + challenge"
  oe_digest :: "challenge \<Rightarrow> digest_options \<Rightarrow> go_error + string"
  oe_uri_string :: "sip_uri \<Rightarrow> string"
  oe_new_bye :: "sip_request \<Rightarrow> sip_response \<Rightarrow> out_request"
  oe_closing :: bool
  oe_headers :: "((string \<times> string) list \<Rightarrow> (string \<times> string) list) option"

definition out_emit :: "out_msg \<Rightarrow> sip_outbound \<Rightarrow> sip_outbound" where
  "out_emit m c = c\<lparr>so_out := so_out c @ [m]\<rparr>"

section \<open>What the leg tells about itself\<close>

definition out_From :: "sip_outbound \<Rightarrow> sip_uri" where
  "out_From c = ah_address (so_from c)"

definition out_To :: "sip_outbound \<Rightarrow> sip_uri" where
  "out_To c = (case so_to c of None \<Rightarrow> empty_uri | Some h \<Rightarrow> ah_address h)"

definition out_Address :: "sip_outbound \<Rightarrow> sip_uri" where
  "out_Address c = (case so_invite c of None \<Rightarrow> empty_uri | Some r \<Rightarrow> req_recipient r)"

definition out_RemoteHeaders :: "sip_outbound \<Rightarrow> sip_header list" where
  "out_RemoteHeaders c = (case so_invite_ok c of None \<Rightarrow> [] | Some r \<Rightarrow> resp_headers r)"

section \<open>The INVITE\<close>

definition out_setCSeq :: "out_request \<Rightarrow> sip_outbound \<Rightarrow> sip_outbound \<times> out_request" where
  "out_setCSeq req c = (c\<lparr>so_next_cseq := so_next_cseq c + 1\<rparr>, setCSeq req (so_next_cseq c))"

text \<open>What an INVITE is made of; the headers in the order they are added.\<close>

record invite_args =
  ia_call_id :: string
  ia_dest :: string
  ia_to :: sip_uri
  ia_offer :: string
  ia_user :: string
  ia_pass :: string
  ia_headers :: "(string \<times> string) list"

definition invite_request :: "invite_args \<Rightarrow> string \<Rightarrow> string \<Rightarrow> sip_outbound \<Rightarrow> sip_outbound \<times> out_request" where
  "invite_request ia authHeaderName authHeader c =
     (let req = \<lparr>or_method = ''INVITE'', or_recipient = ia_to ia, or_ops = [], or_cseq = None,
                 or_source = '''', or_destination = '''', or_transport = ''''\<rparr>;
          (c, req) = out_setCSeq req c
      in (c, req\<lparr>or_destination := ia_dest ia,
                 or_ops := or_ops req @
                   [RemoveHeader ''Call-ID'', AppendHeader ''Call-ID'' (ia_call_id ia),
                    AppendTo (Some \<lparr>ah_address = ia_to ia, ah_params = None\<rparr>),
                    AppendFrom (Some (so_from c)), AppendContact (so_contact c),
                    AppendHeader ''Content-Type'' ''application/sdp'',
                    AppendHeader ''Allow'' allow_value] @
                   (if authHeader \<noteq> '''' then [AppendHeader authHeaderName authHeader] else []) @
                   map (\<lambda>(k, v). AppendHeader k v) (ia_headers ia)\<rparr>))"

text \<open>
  One attempt: \<open>tx\<close> is the error of opening the transaction and what the wait for a response
  sees. Returns the responses passed to \<open>setState\<close> too.
\<close>

definition attemptInvite ::
  "invite_args \<Rightarrow> string \<Rightarrow> string \<Rightarrow> go_error option \<times> resp_event list \<Rightarrow> sip_outbound
    \<Rightarrow> (sip_outbound \<times> sip_response list \<times> (go_error + out_request \<times> sip_response)) outcome" where
  "attemptInvite ia authHeaderName authHeader tx c =
     (let (c, req) = invite_request ia authHeaderName authHeader c
      in case fst tx of
           Some e \<Rightarrow> Returns (c, [], Inl e)
         | None \<Rightarrow>
             (let c = out_emit (OutInvite req (ia_offer ia)) c;
                  w = sipResponse [] (snd tx);
                  c = (if rw_cancelled w then out_emit OutCancel c else c)
              in bind_outcome (rw_result w) (\<lambda>r.
                 Returns (c, rw_seen w, case r of Inl e \<Rightarrow> Inl e | Inr resp \<Rightarrow> Inr (req, resp)))))"

text \<open>
  The switch over the response: an error, the end of the loop (\<open>Inr None\<close>), or the name and
  value of the header to try again with.
\<close>

definition invite_answer :: "out_env \<Rightarrow> invite_args \<Rightarrow> sip_response \<Rightarrow> go_error + (string \<times> string) option" where
  "invite_answer env ia resp =
     (let status = resp_status resp;
          auth = (\<lambda>name respName.
            if ia_user ia = '''' \<or> ia_pass ia = ''''
            then Inl (PlainErr ''server required auth, but no username or password was provided'')
            else case GetHeader (resp_headers resp) name of
                   None \<Rightarrow> Inl (PlainErr ''no auth header in response'')
                 | Some v \<Rightarrow>
                     (case oe_challenge env v of
                        Inl e \<Rightarrow> Inl (WrapErr ''invalid challenge'' e)
                      | Inr ch \<Rightarrow>
                          (case resp_to resp of
                             None \<Rightarrow> Inl (PlainErr ''no 'To' header on Response'')
                           | Some to \<Rightarrow>
                               (case oe_digest env ch
                                       \<lparr>do_method = ''INVITE'', do_uri = oe_uri_string env (ah_address to),
                                        do_username = ia_user ia, do_password = ia_pass ia\<rparr> of
                                  Inl e \<Rightarrow> Inl e
                                | Inr cred \<Rightarrow> Inr (Some (respName, cred))))))
      in if status = 200 then Inr None
         else if status \<in> {400, 404, 480, 488, 486}
         then Inl (WrapErr ''INVITE failed''
                (SIPStatusErr status
                   (if resp_body resp \<noteq> '''' then resp_body resp
                    else case GetHeader (resp_headers resp) ''X-Twilio-Error'' of
                           Some v \<Rightarrow> v | None \<Rightarrow> resp_reason resp)))
         else if status = 401 then auth ''WWW-Authenticate'' ''Authorization''
         else if status = 407 then auth ''Proxy-Authenticate'' ''Proxy-Authorization''
         else Inl (WrapErr ''unexpected status from INVITE response'' (SIPStatusErr status (resp_reason resp))))"

definition maxInviteTries :: nat where
  "maxInviteTries = 5"

text \<open>The loop, with what each of its attempts meets.\<close>

fun authLoop ::
  "out_env \<Rightarrow> invite_args \<Rightarrow> nat \<Rightarrow> string \<Rightarrow> string \<Rightarrow> (go_error option \<times> resp_event list) list \<Rightarrow> sip_outbound
    \<Rightarrow> (sip_outbound \<times> sip_response list \<times> (go_error + out_request \<times> sip_response)) outcome" where
  "authLoop env ia try name auth [] c =
     (if maxInviteTries \<le> try then Returns (c, [], Inl (PlainErr ''max auth retry attemps reached''))
      else Blocked)"
| "authLoop env ia try name auth (tx # txs) c =
     (if maxInviteTries \<le> try then Returns (c, [], Inl (PlainErr ''max auth retry attemps reached''))
      else
        bind_outcome (attemptInvite ia name auth tx c) (\<lambda>(c, seen, r).
          case r of
            Inl e \<Rightarrow> Returns (c, seen, Inl e)
          | Inr (req, resp) \<Rightarrow>
              (case invite_answer env ia resp of
                 Inl e \<Rightarrow> Returns (c, seen, Inl e)
               | Inr None \<Rightarrow> Returns (c, seen, Inr (req, resp))
               | Inr (Some (name, auth)) \<Rightarrow>
                   bind_outcome (authLoop env ia (Suc try) name auth txs c) (\<lambda>(c, more, r).
                     Returns (c, seen @ more, r)))))"

text \<open>
  After a 200: the tag of the remote, the target of further requests and their route.
\<close>

definition accept_response ::
  "out_env \<Rightarrow> string \<Rightarrow> out_request \<Rightarrow> sip_response \<Rightarrow> sip_outbound \<Rightarrow> (sip_outbound \<times> (go_error + string)) outcome" where
  "accept_response env offer req resp c =
     (let invite = oe_sent env req offer;
          c = c\<lparr>so_invite := Some invite, so_invite_ok := Some resp\<rparr>
      in case resp_to resp of
           None \<Rightarrow> Returns (c, Inl (PlainErr ''no To header in INVITE response''))
         | Some to \<Rightarrow>
             (case getTagFrom (ah_params to) of
                None \<Rightarrow> Returns (c\<lparr>so_tag := ''''\<rparr>, Inl (PlainErr ''no tag in To header in INVITE response''))
              | Some tag \<Rightarrow>
                  (let c = c\<lparr>so_tag := tag\<rparr>;
                       invite = (case resp_contact resp of
                                   None \<Rightarrow> invite
                                 | Some cont \<Rightarrow>
                                     invite\<lparr>req_recipient := (if uri_port (ah_address cont) = 0
                                              then (ah_address cont)\<lparr>uri_port := 5060\<rparr> else ah_address cont)\<rparr>)
                   in if None \<in> set (resp_record_routes resp) then Panics
                      else Returns
                        (c\<lparr>so_invite := Some (invite\<lparr>req_routes :=
                              rev (List.map_filter id (resp_record_routes resp)) @ req_routes invite\<rparr>)\<rparr>,
                         Inr (resp_body resp)))))"

definition Invite ::
  "out_env \<Rightarrow> URI \<Rightarrow> string \<Rightarrow> string \<Rightarrow> (string \<times> string) list \<Rightarrow> string
    \<Rightarrow> (go_error option \<times> resp_event list) list \<Rightarrow> sip_outbound
    \<Rightarrow> (sip_outbound \<times> sip_response list \<times> (go_error + string)) outcome" where
  "Invite env to user pass headers sdpOffer txs c =
     (let ia = \<lparr>ia_call_id = oe_hash env (so_id c) (GetURI to), ia_dest = GetDest to, ia_to = GetURI to,
                ia_offer = sdpOffer, ia_user = user, ia_pass = pass, ia_headers = sort_key fst headers\<rparr>;
          c = c\<lparr>so_call_id := ia_call_id ia\<rparr>
      in bind_outcome (authLoop env ia 0 '''' '''' txs c) (\<lambda>(c, seen, r).
           case r of
             Inl e \<Rightarrow> Returns (c, seen, Inl e)
           | Inr (req, resp) \<Rightarrow>
               bind_outcome (accept_response env sdpOffer req resp c) (\<lambda>(c, res). Returns (c, seen, res))))"

text \<open>\<open>AckInviteOK\<close>; \<open>write_err\<close> is the error of writing the ACK.\<close>

definition AckInviteOK :: "go_error option \<Rightarrow> sip_outbound \<Rightarrow> sip_outbound \<times> go_error option" where
  "AckInviteOK write_err c =
     (case (so_invite c, so_invite_ok c) of
        (Some invite, Some ok) \<Rightarrow>
          (case write_err of
             None \<Rightarrow> (out_emit (OutAck invite ok) c, None)
           | Some e \<Rightarrow> (c, Some e))
      | _ \<Rightarrow> (c, Some (PlainErr ''call already closed'')))"

section \<open>Requests within the dialog\<close>

definition out_drop :: "sip_outbound \<Rightarrow> sip_outbound" where
  "out_drop c = c\<lparr>so_invite := None, so_invite_ok := None, so_next_cseq := 0\<rparr>"

definition out_AcceptBye :: "sip_outbound \<Rightarrow> sip_outbound" where
  "out_AcceptBye c = out_drop (out_emit OutByeOK c)"

text \<open>
  \<open>sendBye\<close>: while the client is closing the request is only written, without a number of
  its own, and the leg stays as it is.
\<close>

definition out_sendBye :: "out_env \<Rightarrow> go_error option \<times> resp_event list \<Rightarrow> sip_outbound \<Rightarrow> sip_outbound outcome" where
  "out_sendBye env tx c =
     (case (so_invite c, so_invite_ok c) of
        (Some invite, Some ok) \<Rightarrow>
          (let r = oe_new_bye env invite ok;
               hs = (case oe_headers env of None \<Rightarrow> [] | Some f \<Rightarrow> f []);
               r = r\<lparr>or_ops := or_ops r @ [AppendHeader ''User-Agent'' ''LiveKit''] @
                                map (\<lambda>(k, v). AppendHeader k v) hs\<rparr>
           in if oe_closing env then Returns (out_emit (OutBye r) c)
              else
                (let (c, r) = out_setCSeq r c;
                     c = out_drop c
                 in bind_outcome (sendAndACK (fst tx) (snd tx)) (\<lambda>ack.
                      let c = (if fst tx = None then out_emit (OutBye r) c else c)
                      in Returns (if ack then out_emit (OutAckOf r) c else c))))
      | _ \<Rightarrow> Returns c)"

definition out_Close :: "out_env \<Rightarrow> go_error option \<times> resp_event list \<Rightarrow> sip_outbound \<Rightarrow> sip_outbound outcome" where
  "out_Close env tx c = (if so_invite_ok c \<noteq> None then out_sendBye env tx c else Returns (out_drop c))"

text \<open>\<open>transferCall\<close> up to sending the REFER, and as a whole.\<close>

definition out_start_refer ::
  "out_env \<Rightarrow> string \<Rightarrow> (string \<times> string) list \<Rightarrow> go_error option \<Rightarrow> sip_outbound
    \<Rightarrow> (sip_outbound \<times> go_error option) outcome" where
  "out_start_refer env transferTo headers tx_err c =
     (case (so_invite c, so_invite_ok c) of
        (Some invite, Some ok) \<Rightarrow>
          if oe_closing env
          then Returns (c, Some (PsrpcErr FailedPrecondition ''can't transfer hung up call'' None))
          else
            (let headers = (case oe_headers env of None \<Rightarrow> headers | Some f \<Rightarrow> f headers)
             in bind_outcome (NewReferRequest invite ok (so_contact c) transferTo headers) (\<lambda>req.
                let (c, req) = out_setCSeq req c
                in case or_cseq req of
                     None \<Rightarrow> Returns (c, Some (PsrpcErr Internal ''missing CSeq header in REFER request'' None))
                   | Some n \<Rightarrow>
                       (let c = c\<lparr>so_refer_cseq := n\<rparr>
                        in case tx_err of
                             Some e \<Rightarrow> Returns (c, Some e)
                           | None \<Rightarrow> Returns (out_emit (OutRefer req) c, None))))
      | _ \<Rightarrow> Returns (c, Some (PsrpcErr FailedPrecondition ''can't transfer non established call'' None)))"

datatype out_refer_wait = OutReferCtxDone | OutReferDone "go_error option"

definition out_transferCall ::
  "out_env \<Rightarrow> string \<Rightarrow> (string \<times> string) list \<Rightarrow> go_error option \<times> resp_event list
    \<Rightarrow> out_refer_wait option \<Rightarrow> sip_outbound \<Rightarrow> (sip_outbound \<times> go_error option) outcome" where
  "out_transferCall env transferTo headers tx wait c =
     bind_outcome (out_start_refer env transferTo headers (fst tx) c) (\<lambda>(c, err).
       case err of
         Some e \<Rightarrow> Returns (c, Some e)
       | None \<Rightarrow>
           bind_outcome (sendRefer None (snd tx)) (\<lambda>(resp, err).
              case err of
                Some e \<Rightarrow> Returns (c, Some e)
              | None \<Rightarrow>
                  (case wait of
                     None \<Rightarrow> Blocked
                   | Some OutReferCtxDone \<Rightarrow> Returns (c, Some (PsrpcErr Canceled ''refer canceled'' None))
                   | Some (OutReferDone result) \<Rightarrow> Returns (c, result))))"

definition out_handleNotify ::
  "sip_request \<Rightarrow> 32 word \<Rightarrow> go_error option \<times> go_error option option" where
  "out_handleNotify req referCseq =
     (case handleNotify req of
        Inl e \<Rightarrow> (Some e, None)
      | Inr n \<Rightarrow>
          if ni_method n = ''REFER''
          then (None, handleReferNotify (ni_cseq n) (ni_status n) (ni_reason n) referCseq)
          else (None, None))"

section \<open>The leg as an event-driven component\<close>

text \<open>What may happen to the leg after its INVITE.\<close>

datatype out_event =
    OAck "go_error option"
  | OBye
  | ODrop
  | ORefer string "(string \<times> string) list" "go_error option"
  | OClose "go_error option \<times> resp_event list"

fun out_step :: "out_env \<times> out_event \<Rightarrow> sip_outbound \<Rightarrow> sip_outbound outcome" where
  "out_step (env, OAck e) c = Returns (fst (AckInviteOK e c))"
| "out_step (env, OBye) c = Returns (out_AcceptBye c)"
| "out_step (env, ODrop) c = Returns (out_drop c)"
| "out_step (env, ORefer to headers tx_err) c =
     bind_outcome (out_start_refer env to headers tx_err c) (\<lambda>(c, err). Returns c)"
| "out_step (env, OClose tx) c = out_Close env tx c"

text \<open>The numbers of the requests the leg sends, and which messages are said of its own.\<close>

fun out_num :: "out_msg \<Rightarrow> 32 word option list" where
  "out_num (OutInvite r body) = [or_cseq r]"
| "out_num (OutRefer r) = [or_cseq r]"
| "out_num (OutBye r) = [or_cseq r]"
| "out_num _ = []"

definition out_cseqs :: "out_msg list \<Rightarrow> 32 word option list" where
  "out_cseqs ms = concat (map out_num ms)"

fun is_out_bye :: "out_msg \<Rightarrow> bool" where
  "is_out_bye (OutBye r) = True"
| "is_out_bye _ = False"

fun is_out_invite :: "out_msg \<Rightarrow> bool" where
  "is_out_invite (OutInvite r body) = True"
| "is_out_invite _ = False"

definition out_said :: "sip_outbound \<Rightarrow> out_msg list" where
  "out_said c = filter (\<lambda>m. m \<noteq> OutByeOK) (so_out c)"

definition out_dropped :: "sip_outbound \<Rightarrow> bool" where
  "out_dropped c \<longleftrightarrow> so_invite c = None \<and> so_invite_ok c = None"

text \<open>Numbers count up from 1, with gaps where a request could not be sent; all are below \<open>k\<close>.\<close>

definition ascending :: "nat \<Rightarrow> 32 word option list \<Rightarrow> bool" where
  "ascending k xs \<longleftrightarrow>
     (\<exists>ns. xs = map (\<lambda>n. Some (of_nat n)) ns \<and> sorted_wrt (<) ns \<and> (\<forall>n\<in>set ns. 0 < n \<and> n < k))"

lemma ascending_Nil [simp]: "ascending k []"
  by (simp add: ascending_def)

lemma ascending_Suc: "ascending k xs \<Longrightarrow> ascending (Suc k) xs"
  by (fastforce simp: ascending_def)

lemma ascending_snoc:
  assumes "ascending k xs" and "0 < k"
  shows "ascending (Suc k) (xs @ [Some (of_nat k)])"
proof -
  from assms(1) obtain ns where "xs = map (\<lambda>n. Some (of_nat n)) ns" "sorted_wrt (<) ns" "\<forall>n\<in>set ns. 0 < n \<and> n < k"
    by (auto simp: ascending_def)
  with assms(2) show ?thesis
    unfolding ascending_def by (intro exI [of _ "ns @ [k]"]) (auto simp: sorted_wrt_append)
qed

lemma out_emit_frame [simp]:
  "so_invite (out_emit m c) = so_invite c" "so_invite_ok (out_emit m c) = so_invite_ok c"
  "so_next_cseq (out_emit m c) = so_next_cseq c" "so_out (out_emit m c) = so_out c @ [m]"
  "so_tag (out_emit m c) = so_tag c" "so_id (out_emit m c) = so_id c" "so_refer_cseq (out_emit m c) = so_refer_cseq c"
  by (simp_all add: out_emit_def)

lemma out_drop_frame [simp]:
  "so_invite (out_drop c) = None" "so_invite_ok (out_drop c) = None" "so_out (out_drop c) = so_out c"
  "so_id (out_drop c) = so_id c" "so_tag (out_drop c) = so_tag c"
  by (simp_all add: out_drop_def)

lemma out_cseqs_simps [simp]:
  "out_cseqs [] = []" "out_cseqs (a @ b) = out_cseqs a @ out_cseqs b" "out_cseqs [m] = out_num m"
  by (simp_all add: out_cseqs_def)

section \<open>Facts: the authentication loop\<close>

text \<open>
  What an attempt sends: nothing where the transaction cannot be opened, else the INVITE with
  the next number, and a CANCEL where the wait was given up. The number is used up either way.
\<close>

lemma invite_request_cseq:
  assumes "invite_request ia name auth c = (c', req)"
  shows "or_cseq req = Some (so_next_cseq c)" and "c' = c\<lparr>so_next_cseq := so_next_cseq c + 1\<rparr>"
  using assms by (auto simp: invite_request_def out_setCSeq_def setCSeq_def Let_def)

lemma attemptInvite_cases:
  assumes "attemptInvite ia name auth tx c = Returns (c', seen, r)"
  obtains (Unsent) e where "c' = c\<lparr>so_next_cseq := so_next_cseq c + 1\<rparr>" and "seen = []" and "r = Inl e"
  | (Sent) req ms where "invite_request ia name auth c = (c\<lparr>so_next_cseq := so_next_cseq c + 1\<rparr>, req)"
      and "c' = c\<lparr>so_next_cseq := so_next_cseq c + 1, so_out := so_out c @ OutInvite req (ia_offer ia) # ms\<rparr>"
      and "ms = [] \<or> ms = [OutCancel] \<and> (\<exists>e. r = Inl e)"
      and "rw_result (sipResponse [] (snd tx)) = Returns (case r of Inl e \<Rightarrow> Inl e | Inr (q, resp) \<Rightarrow> Inr resp)"
      and "seen = rw_seen (sipResponse [] (snd tx))" and "\<And>q resp. r = Inr (q, resp) \<Longrightarrow> q = req"
proof -
  obtain d req where ir: "invite_request ia name auth c = (d, req)" by fastforce
  note d = invite_request_cseq(2) [OF ir]
  show ?thesis
  proof (cases "fst tx")
    case (Some e)
    with assms ir d show ?thesis by (intro Unsent [of e]) (simp_all add: attemptInvite_def)
  next
    case None
    define w where "w = sipResponse [] (snd tx)"
    from assms None ir obtain r' where r': "rw_result w = Returns r'"
      and c': "c' = (if rw_cancelled w then out_emit OutCancel (out_emit (OutInvite req (ia_offer ia)) d)
                     else out_emit (OutInvite req (ia_offer ia)) d)"
      and seen: "seen = rw_seen w"
      and r: "r = (case r' of Inl e \<Rightarrow> Inl e | Inr resp \<Rightarrow> Inr (req, resp))"
      by (auto simp: attemptInvite_def Let_def bind_outcome_Returns w_def)
    have "rw_cancelled w \<Longrightarrow> \<exists>e. r' = Inl e"
    proof -
      have "rw_cancelled (sipResponse s es) \<Longrightarrow> rw_result (sipResponse s es) = Returns x \<Longrightarrow> \<exists>e. x = Inl e" for s es x
        by (induction s es rule: sipResponse.induct) (auto split: if_splits)
      with r' show "rw_cancelled w \<Longrightarrow> \<exists>e. r' = Inl e" by (simp add: w_def)
    qed
    with ir d c' seen r r' show ?thesis
      by (intro Sent [of req "if rw_cancelled w then [OutCancel] else []"])
        (auto simp: out_emit_def w_def split: sum.splits)
  qed
qed

text \<open>
  What the loop sends: at most as many INVITEs as tries are left, numbered one after the other.
\<close>

definition invites_sent :: "invite_args \<Rightarrow> sip_outbound \<Rightarrow> sip_outbound \<Rightarrow> out_request list \<Rightarrow> bool" where
  "invites_sent ia c c' reqs \<longleftrightarrow>
     (\<exists>ms k. c' = c\<lparr>so_next_cseq := so_next_cseq c + of_nat k, so_out := so_out c @ ms\<rparr>
        \<and> length reqs \<le> k \<and> k \<le> Suc (length reqs)
        \<and> (ms = map (\<lambda>r. OutInvite r (ia_offer ia)) reqs
           \<or> reqs \<noteq> [] \<and> ms = map (\<lambda>r. OutInvite r (ia_offer ia)) reqs @ [OutCancel]))
     \<and> map or_cseq reqs = map (\<lambda>i. Some (so_next_cseq c + of_nat i)) [0..<length reqs]"

lemma invites_sent_Nil: "invites_sent ia c c []"
  unfolding invites_sent_def by (rule conjI, rule exI [of _ "[]"], rule exI [of _ 0]) simp_all

lemma map_upt_Suc_shift: "map f [0..<Suc n] = f 0 # map (\<lambda>i. f (Suc i)) [0..<n]"
  by (induction n) simp_all

lemma invites_sent_Cons:
  assumes "invites_sent ia (c\<lparr>so_next_cseq := so_next_cseq c + 1, so_out := so_out c @ [OutInvite req (ia_offer ia)]\<rparr>) c' reqs"
    and "or_cseq req = Some (so_next_cseq c)"
  shows "invites_sent ia c c' (req # reqs)"
proof -
  from assms(1) obtain ms k where
    "c' = c\<lparr>so_next_cseq := so_next_cseq c + 1 + of_nat k, so_out := so_out c @ OutInvite req (ia_offer ia) # ms\<rparr>"
    "length reqs \<le> k" "k \<le> Suc (length reqs)"
    "ms = map (\<lambda>r. OutInvite r (ia_offer ia)) reqs \<or> reqs \<noteq> [] \<and> ms = map (\<lambda>r. OutInvite r (ia_offer ia)) reqs @ [OutCancel]"
    and seqs: "map or_cseq reqs = map (\<lambda>i. Some (so_next_cseq c + 1 + of_nat i)) [0..<length reqs]"
    by (auto simp: invites_sent_def)
  then have "\<exists>ms k. c' = c\<lparr>so_next_cseq := so_next_cseq c + of_nat k, so_out := so_out c @ ms\<rparr>
      \<and> length (req # reqs) \<le> k \<and> k \<le> Suc (length (req # reqs))
      \<and> (ms = map (\<lambda>r. OutInvite r (ia_offer ia)) (req # reqs)
         \<or> req # reqs \<noteq> [] \<and> ms = map (\<lambda>r. OutInvite r (ia_offer ia)) (req # reqs) @ [OutCancel])"
    by (intro exI [of _ "OutInvite req (ia_offer ia) # ms"] exI [of _ "Suc k"]) (auto simp: algebra_simps)
  then show ?thesis
    unfolding invites_sent_def using seqs assms(2)
    by (simp add: map_upt_Suc_shift algebra_simps del: upt_Suc)
qed

lemma sipResponse_seen:
  "rw_result (sipResponse s es) = Returns (Inr r) \<Longrightarrow> r \<in> set (rw_seen (sipResponse s es))"
  by (induction s es rule: sipResponse.induct) (auto split: if_splits)

lemma invite_answer_done: "invite_answer env ia resp = Inr None \<longleftrightarrow> resp_status resp = 200"
  by (auto simp: invite_answer_def Let_def split: option.splits sum.splits)

lemma invite_answer_again:
  assumes "invite_answer env ia resp = Inr (Some (name, auth))"
  shows "resp_status resp \<in> {401, 407} \<and> ia_user ia \<noteq> '''' \<and> ia_pass ia \<noteq> ''''
     \<and> name \<in> {''Authorization'', ''Proxy-Authorization''}"
  using assms by (auto simp: invite_answer_def Let_def split: if_splits option.splits sum.splits)

lemma authLoop_sends:
  assumes "authLoop env ia try name auth txs c = Returns (c', seen, r)"
  shows "\<exists>reqs. invites_sent ia c c' reqs \<and> length reqs \<le> maxInviteTries - try
     \<and> (\<forall>q resp. r = Inr (q, resp) \<longrightarrow> resp_status resp = 200 \<and> resp \<in> set seen \<and> reqs \<noteq> [] \<and> q = last reqs)
     \<and> (1 < length reqs \<longrightarrow> ia_user ia \<noteq> '''' \<and> ia_pass ia \<noteq> ''''
          \<and> length reqs \<le> Suc (count_if (\<lambda>resp. resp_status resp \<in> {401, 407}) seen))"
  using assms
proof (induction env ia "try" name auth txs c arbitrary: c' seen r rule: authLoop.induct)
  case (1 env ia t name auth c)
  then show ?case using invites_sent_Nil by (intro exI [of _ "[]"]) (auto split: if_splits)
next
  case (2 env ia t name auth tx txs c)
  show ?case
  proof (cases "maxInviteTries \<le> t")
    case True
    with "2.prems" show ?thesis using invites_sent_Nil by (intro exI [of _ "[]"]) auto
  next
    case False
    with "2.prems" obtain p where p: "attemptInvite ia name auth tx c = Returns p"
      and rest: "(case p of (c, seen, r) \<Rightarrow> (case r of
            Inl e \<Rightarrow> Returns (c, seen, Inl e)
          | Inr (req, resp) \<Rightarrow>
              (case invite_answer env ia resp of
                 Inl e \<Rightarrow> Returns (c, seen, Inl e)
               | Inr None \<Rightarrow> Returns (c, seen, Inr (req, resp))
               | Inr (Some (name, auth)) \<Rightarrow>
                   bind_outcome (authLoop env ia (Suc t) name auth txs c) (\<lambda>(c, more, r).
                     Returns (c, seen @ more, r))))) = Returns (c', seen, r)"
      by (auto simp: bind_outcome_Returns)
    obtain d s1 r1 where p': "p = (d, s1, r1)" by (cases p)
    from p [unfolded p'] show ?thesis
    proof (cases rule: attemptInvite_cases)
      case (Unsent e)
      with rest p' have "c' = c\<lparr>so_next_cseq := so_next_cseq c + 1\<rparr>" "r = Inl e" by simp_all
      then show ?thesis
        by (intro exI [of _ "[]"]) (auto simp: invites_sent_def intro!: exI [of _ 1])
    next
      case (Sent req ms)
      note cs = invite_request_cseq(1) [OF Sent(1)]
      have left: "Suc 0 \<le> maxInviteTries - t" using False by simp
      have fails: ?thesis if "r = Inl e" "c' = d" for e
        using that Sent(2,3) cs left
        by (intro exI [of _ "[req]"]) (auto simp: invites_sent_def intro!: exI [of _ 1])
      show ?thesis
      proof (cases r1)
        case (Inl e)
        with rest p' have "r = Inl e" "c' = d" by auto
        then show ?thesis by (rule fails)
      next
        case (Inr qr)
        then obtain resp where qr: "qr = (req, resp)" using Sent(6) by (cases qr) simp
        with Inr Sent(3) have d: "d = c\<lparr>so_next_cseq := so_next_cseq c + 1, so_out := so_out c @ [OutInvite req (ia_offer ia)]\<rparr>"
          using Sent(2) by simp
        show ?thesis
        proof (cases "invite_answer env ia resp")
          case (Inl e)
          with rest p' Inr qr have "r = Inl e" "c' = d" by auto
          then show ?thesis by (rule fails)
        next
          case ans: (Inr again)
          show ?thesis
          proof (cases again)
            case None
            with ans have "resp_status resp = 200" using invite_answer_done by simp
            moreover have "resp \<in> set s1" using sipResponse_seen Sent(4,5) Inr qr by simp
            moreover have "c' = d" "seen = s1" "r = Inr (req, resp)" using rest p' Inr qr ans None by simp_all
            ultimately show ?thesis using d cs left
              by (intro exI [of _ "[req]"]) (auto simp: invites_sent_def intro!: exI [of _ 1])
          next
            case (Some na)
            obtain n a where na: "na = (n, a)" by (cases na)
            note ag = invite_answer_again [OF ans [unfolded Some na]]
            from rest p' Inr qr ans Some na obtain more where
              rec: "authLoop env ia (Suc t) n a txs d = Returns (c', more, r)" and seen: "seen = s1 @ more"
              by (auto simp: bind_outcome_Returns)
            from "2.IH" [OF False ans Some na [symmetric] rec] obtain reqs where
              reqs: "invites_sent ia d c' reqs" "length reqs \<le> maxInviteTries - Suc t"
              "\<forall>q resp. r = Inr (q, resp) \<longrightarrow> resp_status resp = 200 \<and> resp \<in> set more \<and> reqs \<noteq> [] \<and> q = last reqs"
              "1 < length reqs \<longrightarrow> length reqs \<le> Suc (count_if (\<lambda>resp. resp_status resp \<in> {401, 407}) more)"
              by blast
            have "resp \<in> set s1" using sipResponse_seen Sent(4,5) Inr qr by simp
            with ag have "1 \<le> count_if (\<lambda>resp. resp_status resp \<in> {401, 407}) s1"
              using count_if_zero [of "\<lambda>resp. resp_status resp \<in> {401, 407}" s1] by auto
            with reqs(4) seen have "length reqs \<le> count_if (\<lambda>resp. resp_status resp \<in> {401, 407}) seen"
              by (cases "1 < length reqs") auto
            with reqs(1-3) ag invites_sent_Cons [OF reqs(1) [unfolded d] cs] seen left show ?thesis
              by (intro exI [of _ "req # reqs"]) auto
          qed
        qed
      qed
    qed
  qed
qed

section \<open>Facts: the leg after its INVITE\<close>

text \<open>
  The requests are numbered upwards, there is at most one BYE, and a leg with a dialog has sent
  none yet.
\<close>

definition so_inv :: "sip_outbound \<Rightarrow> bool" where
  "so_inv c \<longleftrightarrow>
     (\<exists>k. 0 < k \<and> ascending k (out_cseqs (so_out c)) \<and> count_if is_out_bye (so_out c) \<le> 1
        \<and> (out_dropped c \<or> so_invite c \<noteq> None \<and> so_invite_ok c \<noteq> None
             \<and> so_next_cseq c = of_nat k \<and> count_if is_out_bye (so_out c) = 0))"

lemma so_inv_dropped: "so_inv c \<Longrightarrow> so_out d = so_out c @ ms \<Longrightarrow> out_cseqs ms = [] \<Longrightarrow>
   count_if is_out_bye ms = 0 \<Longrightarrow> out_dropped d \<Longrightarrow> so_inv d"
  unfolding so_inv_def by auto

lemma so_inv_kept:
  "so_inv c \<Longrightarrow> so_out d = so_out c @ ms \<Longrightarrow> out_cseqs ms = [] \<Longrightarrow> count_if is_out_bye ms = 0 \<Longrightarrow>
   so_invite d = so_invite c \<Longrightarrow> so_invite_ok d = so_invite_ok c \<Longrightarrow> so_next_cseq d = so_next_cseq c \<Longrightarrow> so_inv d"
  unfolding so_inv_def out_dropped_def by auto

lemma out_drop_dropped [simp]: "out_dropped (out_drop c)" "out_dropped (out_emit m c) = out_dropped c"
  by (simp_all add: out_dropped_def)

lemma invites_sent_numbers:
  assumes "invites_sent ia c c' reqs" and "so_out c = []" and "so_next_cseq c = 1"
  shows "\<exists>k. 0 < k \<and> so_next_cseq c' = of_nat k \<and> ascending k (out_cseqs (so_out c'))
     \<and> count_if is_out_bye (so_out c') = 0 \<and> so_invite c' = so_invite c \<and> so_invite_ok c' = so_invite_ok c"
proof -
  from assms obtain ms k where
    c': "c' = c\<lparr>so_next_cseq := so_next_cseq c + of_nat k, so_out := ms\<rparr>" and k: "length reqs \<le> k" and
    ms: "ms = map (\<lambda>r. OutInvite r (ia_offer ia)) reqs \<or> ms = map (\<lambda>r. OutInvite r (ia_offer ia)) reqs @ [OutCancel]"
    and seqs: "map or_cseq reqs = map (\<lambda>i. Some (1 + of_nat i)) [0..<length reqs]"
    by (auto simp: invites_sent_def)
  have "out_cseqs (map (\<lambda>r. OutInvite r b) rs) = map or_cseq rs" for rs b
    by (induction rs) (simp_all add: out_cseqs_def)
  with ms seqs have "out_cseqs ms = map (\<lambda>i. Some (1 + of_nat i)) [0..<length reqs]" by auto
  also have "\<dots> = map (\<lambda>n. Some (of_nat n)) [1..<Suc (length reqs)]"
    by (rule nth_equalityI) (simp_all del: upt_Suc)
  finally have "ascending (Suc k) (out_cseqs ms)"
    unfolding ascending_def using k by (intro exI [of _ "[1..<Suc (length reqs)]"]) (auto simp: sorted_wrt_upt simp del: upt_Suc)
  moreover have "count_if is_out_bye ms = 0" using ms by (auto simp: count_if_zero)
  ultimately show ?thesis using c' assms(3) by (intro exI [of _ "Suc k"]) simp
qed

lemma accept_response_frame:
  assumes "accept_response env offer req resp c = Returns (c', r)"
  shows "so_out c' = so_out c" "so_next_cseq c' = so_next_cseq c" "so_invite c' \<noteq> None" "so_invite_ok c' = Some resp"
    "so_id c' = so_id c" "so_call_id c' = so_call_id c"
  using assms by (auto simp: accept_response_def Let_def split: option.splits if_splits)

lemma Invite_established:
  assumes "Invite env to user pass headers offer txs (newOutbound lid from contact dn) = Returns (c, seen, r)"
  shows "so_inv c" and "so_invite c \<noteq> None \<Longrightarrow> \<exists>resp\<in>set seen. resp_status resp = 200"
    and "so_invite c = None \<Longrightarrow> \<exists>e. r = Inl e"
    and "\<forall>m\<in>set (so_out c). is_out_invite m \<or> m = OutCancel"
    and "count_if is_out_invite (so_out c) \<le> maxInviteTries"
    and "1 < count_if is_out_invite (so_out c) \<Longrightarrow> user \<noteq> '''' \<and> pass \<noteq> ''''
       \<and> count_if is_out_invite (so_out c) \<le> Suc (count_if (\<lambda>resp. resp_status resp \<in> {401, 407}) seen)"
proof -
  define ia where "ia = \<lparr>ia_call_id = oe_hash env (so_id (newOutbound lid from contact dn)) (GetURI to),
     ia_dest = GetDest to, ia_to = GetURI to, ia_offer = offer, ia_user = user, ia_pass = pass, ia_headers = sort_key fst headers\<rparr>"
  define c0 where "c0 = (newOutbound lid from contact dn)\<lparr>so_call_id := ia_call_id ia\<rparr>"
  have c0: "so_out c0 = []" "so_next_cseq c0 = 1" "so_invite c0 = None" "so_invite_ok c0 = None"
    by (simp_all add: c0_def newOutbound_def Let_def)
  from assms obtain p where p: "authLoop env ia 0 '''' '''' txs c0 = Returns p"
    and rest0: "(case p of (d, s, q) \<Rightarrow> (case q of Inl e \<Rightarrow> Returns (d, s, Inl e)
       | Inr (req, resp) \<Rightarrow> bind_outcome (accept_response env offer req resp d) (\<lambda>(c, res). Returns (c, s, res))))
       = Returns (c, seen, r)"
    unfolding Invite_def Let_def ia_def [symmetric] c0_def [symmetric] bind_outcome_Returns by blast
  obtain d s q where p': "p = (d, s, q)" by (cases p)
  from rest0 p' have "s = seen" by (auto simp: bind_outcome_Returns split: sum.splits)
  with p p' rest0 have loop: "authLoop env ia 0 '''' '''' txs c0 = Returns (d, seen, q)"
    and rest: "(case q of Inl e \<Rightarrow> Returns (d, seen, Inl e)
       | Inr (req, resp) \<Rightarrow> bind_outcome (accept_response env offer req resp d) (\<lambda>(c, res). Returns (c, seen, res)))
       = Returns (c, seen, r)" by simp_all
  from authLoop_sends [OF loop] obtain reqs where reqs: "invites_sent ia c0 d reqs"
    "\<forall>q' resp. q = Inr (q', resp) \<longrightarrow> resp_status resp = 200 \<and> resp \<in> set seen"
    "length reqs \<le> maxInviteTries"
    "1 < length reqs \<longrightarrow> user \<noteq> '''' \<and> pass \<noteq> ''''
       \<and> length reqs \<le> Suc (count_if (\<lambda>resp. resp_status resp \<in> {401, 407}) seen)"
    by (auto simp: ia_def)
  have sent: "\<forall>m\<in>set (so_out d). is_out_invite m \<or> m = OutCancel"
    "count_if is_out_invite (so_out d) = length reqs"
    using reqs(1) c0 by (auto simp: invites_sent_def count_if_def)
  from invites_sent_numbers [OF reqs(1) c0(1,2)] c0 obtain k where
    k: "0 < k" "so_next_cseq d = of_nat k" "ascending k (out_cseqs (so_out d))"
    "count_if is_out_bye (so_out d) = 0" "so_invite d = None" "so_invite_ok d = None" by auto
  have out: "so_out c = so_out d"
    using rest by (auto simp: bind_outcome_Returns dest: accept_response_frame(1) split: sum.splits)
  have "so_inv c \<and> (so_invite c \<noteq> None \<longrightarrow> (\<exists>resp\<in>set seen. resp_status resp = 200)) \<and> (so_invite c = None \<longrightarrow> (\<exists>e. r = Inl e))"
  proof (cases q)
    case (Inl e)
    with rest k show ?thesis by (auto simp: so_inv_def out_dropped_def)
  next
    case (Inr qr)
    obtain req resp where qr: "qr = (req, resp)" by (cases qr)
    with rest Inr obtain res where "accept_response env offer req resp d = Returns (c, res)"
      by (auto simp: bind_outcome_Returns)
    from accept_response_frame [OF this] k reqs(2) Inr qr show ?thesis by (auto simp: so_inv_def)
  qed
  then show "so_inv c" "so_invite c \<noteq> None \<Longrightarrow> \<exists>resp\<in>set seen. resp_status resp = 200"
    "so_invite c = None \<Longrightarrow> \<exists>e. r = Inl e" by auto
  show "\<forall>m\<in>set (so_out c). is_out_invite m \<or> m = OutCancel" "count_if is_out_invite (so_out c) \<le> maxInviteTries"
    "1 < count_if is_out_invite (so_out c) \<Longrightarrow> user \<noteq> '''' \<and> pass \<noteq> ''''
       \<and> count_if is_out_invite (so_out c) \<le> Suc (count_if (\<lambda>resp. resp_status resp \<in> {401, 407}) seen)"
    using sent reqs(3,4) out by auto
qed

text \<open>After its INVITE the leg is not closed while the client is shutting down.\<close>

fun out_event_ok :: "out_env \<times> out_event \<Rightarrow> bool" where
  "out_event_ok (env, OClose tx) = (\<not> oe_closing env)"
| "out_event_ok (env, e) = True"

lemma out_start_refer_cases:
  assumes "out_start_refer env to hs tx_err c = Returns (c', err)"
  obtains (Same) "c' = c"
  | (Unsent) "so_invite c \<noteq> None" and "so_invite_ok c \<noteq> None"
      and "c' = c\<lparr>so_next_cseq := so_next_cseq c + 1, so_refer_cseq := so_next_cseq c\<rparr>"
  | (Sent) req where "so_invite c \<noteq> None" and "so_invite_ok c \<noteq> None" and "or_cseq req = Some (so_next_cseq c)"
      and "c' = c\<lparr>so_next_cseq := so_next_cseq c + 1, so_refer_cseq := so_next_cseq c, so_out := so_out c @ [OutRefer req]\<rparr>"
proof -
  have "c' = c \<or> so_invite c \<noteq> None \<and> so_invite_ok c \<noteq> None
     \<and> (c' = c\<lparr>so_next_cseq := so_next_cseq c + 1, so_refer_cseq := so_next_cseq c\<rparr>
        \<or> (\<exists>req. or_cseq req = Some (so_next_cseq c)
             \<and> c' = c\<lparr>so_next_cseq := so_next_cseq c + 1, so_refer_cseq := so_next_cseq c, so_out := so_out c @ [OutRefer req]\<rparr>))"
    using assms
    by (force simp: out_start_refer_def bind_outcome_Returns out_setCSeq_def setCSeq_def out_emit_def Let_def
        split: option.splits if_splits)
  then show ?thesis using that by blast
qed

lemma out_sendBye_cases:
  assumes "out_sendBye env tx c = Returns c'" and "\<not> oe_closing env"
  shows "(so_invite c = None \<or> so_invite_ok c = None) \<and> c' = c
     \<or> so_invite c \<noteq> None \<and> so_invite_ok c \<noteq> None \<and> out_dropped c'
       \<and> (\<exists>r ms. so_out c' = so_out c @ ms \<and> or_cseq r = Some (so_next_cseq c)
            \<and> (ms = [] \<or> ms = [OutBye r] \<or> ms = [OutBye r, OutAckOf r]))"
proof (cases "so_invite c = None \<or> so_invite_ok c = None")
  case True
  with assms(1) show ?thesis by (auto simp: out_sendBye_def split: option.splits)
next
  case False
  then obtain invite ok where io: "so_invite c = Some invite" "so_invite_ok c = Some ok" by auto
  define r where "r = (oe_new_bye env invite ok)\<lparr>or_ops := or_ops (oe_new_bye env invite ok) @
      [AppendHeader ''User-Agent'' ''LiveKit''] @
      map (\<lambda>(k, v). AppendHeader k v) (case oe_headers env of None \<Rightarrow> [] | Some f \<Rightarrow> f [])\<rparr>"
  define d where "d = out_drop (c\<lparr>so_next_cseq := so_next_cseq c + 1\<rparr>)"
  define q where "q = setCSeq r (so_next_cseq c)"
  from assms io obtain ack where "sendAndACK (fst tx) (snd tx) = Returns ack" and
    c': "c' = (if ack then out_emit (OutAckOf q) (if fst tx = None then out_emit (OutBye q) d else d)
               else (if fst tx = None then out_emit (OutBye q) d else d))"
    by (auto simp: out_sendBye_def Let_def out_setCSeq_def bind_outcome_Returns r_def d_def q_def)
  then have "fst tx \<noteq> None \<Longrightarrow> \<not> ack" by (auto simp: sendAndACK_def)
  moreover have "or_cseq q = Some (so_next_cseq c)" by (simp add: q_def setCSeq_def)
  moreover have "out_dropped d" "so_out d = so_out c" by (simp_all add: d_def)
  ultimately show ?thesis using io c' by auto
qed

lemma out_step_inv:
  assumes inv: "so_inv c" and ok: "out_event_ok e" and step: "out_step e c = Returns c'"
  shows "so_inv c'"
proof -
  obtain env ev where e: "e = (env, ev)" by (cases e)
  have send: "so_inv d" if io: "so_invite c \<noteq> None" "so_invite_ok c \<noteq> None"
      and d: "so_out d = so_out c @ ms" "out_cseqs ms = [Some (so_next_cseq c)]" "count_if is_out_bye ms \<le> 1"
        "out_dropped d \<or> so_invite d \<noteq> None \<and> so_invite_ok d \<noteq> None
           \<and> so_next_cseq d = so_next_cseq c + 1 \<and> count_if is_out_bye ms = 0" for d ms
  proof -
    from inv io obtain k where k: "0 < k" "ascending k (out_cseqs (so_out c))" "so_next_cseq c = of_nat k"
      "count_if is_out_bye (so_out c) = 0"
      by (auto simp: so_inv_def out_dropped_def)
    have "ascending (Suc k) (out_cseqs (so_out d))" using ascending_snoc [OF k(2,1)] d(1,2) k(3) by simp
    with k d show ?thesis unfolding so_inv_def by (intro exI [of _ "Suc k"]) auto
  qed
  show ?thesis
  proof (cases ev)
    case (OAck w)
    with step e have "c' = c \<or> (\<exists>i ok. c' = out_emit (OutAck i ok) c)"
      by (auto simp: AckInviteOK_def split: option.splits)
    then show ?thesis using inv so_inv_kept [OF inv, of c' "[OutAck i ok]" for i ok] by auto
  next
    case OBye
    with step e so_inv_dropped [OF inv, of c' "[OutByeOK]"] show ?thesis
      by (auto simp: out_AcceptBye_def)
  next
    case ODrop
    with step e so_inv_dropped [OF inv, of c' "[]"] show ?thesis by auto
  next
    case (ORefer to hs tx_err)
    with step e obtain err where "out_start_refer env to hs tx_err c = Returns (c', err)"
      by (auto simp: bind_outcome_Returns)
    then show ?thesis
    proof (cases rule: out_start_refer_cases)
      case Unsent
      with inv obtain k where "0 < k" "ascending k (out_cseqs (so_out c))" "so_next_cseq c = of_nat k"
        "count_if is_out_bye (so_out c) = 0"
        by (auto simp: so_inv_def out_dropped_def)
      with Unsent ascending_Suc show ?thesis
        unfolding so_inv_def by (intro exI [of _ "Suc k"]) (auto simp: add.commute)
    next
      case (Sent req)
      with send [of c' "[OutRefer req]"] show ?thesis by simp
    qed (use inv in simp)
  next
    case (OClose tx)
    show ?thesis
    proof (cases "so_invite_ok c = None")
      case True
      with OClose step e so_inv_dropped [OF inv, of c' "[]"] show ?thesis by (auto simp: out_Close_def)
    next
      case False
      with OClose step e ok have "out_sendBye env tx c = Returns c'" "\<not> oe_closing env" by (auto simp: out_Close_def)
      from out_sendBye_cases [OF this] show ?thesis
      proof
        assume "so_invite c \<noteq> None \<and> so_invite_ok c \<noteq> None \<and> out_dropped c'
          \<and> (\<exists>r ms. so_out c' = so_out c @ ms \<and> or_cseq r = Some (so_next_cseq c)
            \<and> (ms = [] \<or> ms = [OutBye r] \<or> ms = [OutBye r, OutAckOf r]))"
        then obtain r ms where io: "so_invite c \<noteq> None" "so_invite_ok c \<noteq> None" "out_dropped c'"
          and ms: "so_out c' = so_out c @ ms" "or_cseq r = Some (so_next_cseq c)"
            "ms = [] \<or> ms = [OutBye r] \<or> ms = [OutBye r, OutAckOf r]" by blast
        from ms(3) show ?thesis
        proof (elim disjE)
          assume "ms = []"
          with so_inv_dropped [OF inv, of c' "[]"] ms(1) io(3) show ?thesis by simp
        next
          assume "ms = [OutBye r]"
          with send [of c' ms] io ms show ?thesis by simp
        next
          assume m: "ms = [OutBye r, OutAckOf r]"
          then have "out_cseqs ms = [Some (so_next_cseq c)]" using ms(2) by (simp add: out_cseqs_def)
          with send [of c' ms] io ms m show ?thesis by simp
        qed
      qed (use inv in simp)
    qed
  qed
qed

interpretation outbound_leg: outcome_system out_step so_inv out_event_ok
  by unfold_locales (rule out_step_inv)

lemma out_dropped_step:
  assumes "out_dropped c" and "out_step e c = Returns c'"
  shows "out_dropped c' \<and> out_said c' = out_said c"
proof -
  obtain env ev where e: "e = (env, ev)" by (cases e)
  show ?thesis
    using assms unfolding e
    by (cases ev) (auto simp: out_dropped_def out_said_def AckInviteOK_def out_AcceptBye_def out_drop_def out_emit_def
        out_start_refer_def out_Close_def)
qed

interpretation outbound_closing: closing_system out_step out_dropped out_said
  by unfold_locales (use out_dropped_step in blast)+

lemma authLoop_ends:
  assumes "\<forall>tx\<in>set txs. fst tx = None \<longrightarrow> rw_result (sipResponse [] (snd tx)) \<noteq> Blocked"
    and "maxInviteTries \<le> t + length txs"
  shows "\<exists>p. authLoop env ia t name auth txs c = Returns p"
  using assms
proof (induction env ia t name auth txs c rule: authLoop.induct)
  case (2 env ia t name auth tx txs c)
  show ?case
  proof (cases "maxInviteTries \<le> t")
    case False
    have "\<exists>p. attemptInvite ia name auth tx c = Returns p"
      using "2.prems"(1) sipResponse_no_panic [of "[]" "snd tx"]
      by (cases "rw_result (sipResponse [] (snd tx))")
        (auto simp: attemptInvite_def Let_def split: prod.split option.split)
    then obtain d seen r where run: "attemptInvite ia name auth tx c = Returns (d, seen, r)" by auto
    have rec: "\<exists>p. authLoop env ia (Suc t) n a txs d = Returns p" if "r = Inr (req, resp)"
      "invite_answer env ia resp = Inr (Some (n, a))" for req resp n a
      using "2.IH" [OF False that(2) refl refl, of d] "2.prems" by auto
    have ends: "\<exists>p. bind_outcome (authLoop env ia (Suc t) n a txs d) (\<lambda>(c, more, r). Returns (c, seen @ more, r)) = Returns p"
      if "r = Inr (req, resp)" "invite_answer env ia resp = Inr (Some (n, a))" for req resp n a
    proof -
      from rec [OF that] obtain p where "authLoop env ia (Suc t) n a txs d = Returns p" by blast
      then show ?thesis by (cases p) simp
    qed
    show ?thesis
    proof (cases r)
      case (Inr qr)
      obtain req resp where "qr = (req, resp)" by (cases qr)
      with Inr False run ends show ?thesis
        by (auto split: sum.split option.split)
    qed (use False run in simp)
  qed simp
qed simp

lemma sipResponse_from:
  "r \<in> set (rw_seen (sipResponse s es)) \<Longrightarrow> r \<in> set s \<or> GotResponse r \<in> set es"
  by (induction s es rule: sipResponse.induct) (auto split: if_splits)

lemma authLoop_from:
  assumes "authLoop env ia t name auth txs c = Returns (c', seen, r)"
  shows "\<forall>resp\<in>set seen. \<exists>tx\<in>set txs. GotResponse resp \<in> set (snd tx)"
  using assms
proof (induction env ia t name auth txs c arbitrary: c' seen r rule: authLoop.induct)
  case (2 env ia t name auth tx txs c)
  have one: "attemptInvite ia name auth tx c = Returns (d, s, q) \<Longrightarrow> \<forall>resp\<in>set s. GotResponse resp \<in> set (snd tx)" for d s q
    by (erule attemptInvite_cases) (auto dest: sipResponse_from)
  show ?case
  proof (cases "maxInviteTries \<le> t")
    case False
    with "2.prems" obtain p where p: "attemptInvite ia name auth tx c = Returns p"
      and rest: "(case p of (c, seen, r) \<Rightarrow> (case r of
            Inl e \<Rightarrow> Returns (c, seen, Inl e)
          | Inr (req, resp) \<Rightarrow>
              (case invite_answer env ia resp of
                 Inl e \<Rightarrow> Returns (c, seen, Inl e)
               | Inr None \<Rightarrow> Returns (c, seen, Inr (req, resp))
               | Inr (Some (name, auth)) \<Rightarrow>
                   bind_outcome (authLoop env ia (Suc t) name auth txs c) (\<lambda>(c, more, r).
                     Returns (c, seen @ more, r))))) = Returns (c', seen, r)"
      by (auto simp: bind_outcome_Returns)
    obtain d s q where p': "p = (d, s, q)" by (cases p)
    note s = one [OF p [unfolded p']]
    have stop: ?thesis if "seen = s" using that s by auto
    show ?thesis
    proof (cases q)
      case (Inl e)
      with rest p' stop show ?thesis by auto
    next
      case (Inr qr)
      obtain req resp where qr: "qr = (req, resp)" by (cases qr)
      show ?thesis
      proof (cases "\<exists>n a. invite_answer env ia resp = Inr (Some (n, a))")
        case True
        then obtain n a where ans: "invite_answer env ia resp = Inr (Some (n, a))" by blast
        with rest p' Inr qr obtain more where
          "authLoop env ia (Suc t) n a txs d = Returns (c', more, r)" "seen = s @ more"
          by (auto simp: bind_outcome_Returns)
        with "2.IH" [OF False ans refl refl] s show ?thesis by fastforce
      next
        case no: False
        then have "seen = s"
          using rest p' Inr qr by (auto split: sum.splits option.splits)
        then show ?thesis by (rule stop)
      qed
    qed
  qed (use "2.prems" in auto)
qed (auto split: if_splits)

lemma Invite_ends:
  assumes "\<forall>tx\<in>set txs. fst tx = None \<longrightarrow> rw_result (sipResponse [] (snd tx)) \<noteq> Blocked"
    and "\<forall>tx\<in>set txs. \<forall>resp. GotResponse resp \<in> set (snd tx) \<longrightarrow> None \<notin> set (resp_record_routes resp)"
    and "maxInviteTries \<le> 0 + length txs"
  shows "\<exists>p. Invite env to user pass headers offer txs c = Returns p"
proof -
  define ia where "ia = \<lparr>ia_call_id = oe_hash env (so_id c) (GetURI to),
     ia_dest = GetDest to, ia_to = GetURI to, ia_offer = offer, ia_user = user, ia_pass = pass, ia_headers = sort_key fst headers\<rparr>"
  define c0 where "c0 = c\<lparr>so_call_id := ia_call_id ia\<rparr>"
  from authLoop_ends [OF assms(1,3)] obtain d seen q where
    run: "authLoop env ia 0 '''' '''' txs c0 = Returns (d, seen, q)" by (metis prod_cases3)
  note unf = Invite_def Let_def ia_def [symmetric] c0_def [symmetric] run bind_outcome.simps(1) prod.case
  show ?thesis
  proof (cases q)
    case (Inl e)
    then show ?thesis unfolding unf by simp
  next
    case (Inr qr)
    obtain req resp where qr: "qr = (req, resp)" by (cases qr)
    from authLoop_sends [OF run] Inr qr have "resp \<in> set seen" by blast
    with authLoop_from [OF run] assms(2) have "None \<notin> set (resp_record_routes resp)" by blast
    then have "\<exists>p. accept_response env offer req resp d = Returns p"
      by (auto simp: accept_response_def Let_def split: option.split)
    with Inr qr show ?thesis unfolding unf by auto
  qed
qed

section \<open>Properties\<close>

text \<open>
  C24. The conversation of an outbound leg. Whatever the remote answers to the INVITE, and
  whatever BYE, ACK, REFER and closing come in any order after it, while the client is not
  shutting down: the requests of the leg are numbered upwards from 1 without repetition, there
  is at most one BYE, and nothing but INVITEs and a CANCEL is sent unless a 200 was received.
\<close>

theorem outbound_leg_conduct:
  assumes "Invite env to user pass headers offer txs (newOutbound lid from contact dn) = Returns (c, seen, r)"
    and "runs out_step c es d" and "\<forall>e\<in>set es. out_event_ok e"
  shows "(\<exists>ns. out_cseqs (so_out d) = map (\<lambda>n. Some (of_nat n)) ns \<and> sorted_wrt (<) ns \<and> (\<forall>n\<in>set ns. 0 < n))
     \<and> count_if is_out_bye (so_out d) \<le> 1
     \<and> ((\<exists>m\<in>set (so_out d). \<not> is_out_invite m \<and> m \<notin> {OutCancel, OutByeOK}) \<longrightarrow>
          (\<exists>resp\<in>set seen. resp_status resp = 200))"
proof -
  note est = Invite_established [OF assms(1)]
  have "so_inv d" by (rule outbound_leg.runs_inv [OF assms(2) est(1)]) (use assms(3) in auto)
  moreover have "\<exists>resp\<in>set seen. resp_status resp = 200"
    if m: "m \<in> set (so_out d)" "\<not> is_out_invite m" "m \<notin> {OutCancel, OutByeOK}" for m
  proof (cases "so_invite c")
    case None
    with est(1) have "out_dropped c" by (auto simp: so_inv_def)
    have "m \<in> set (out_said d)" using m by (simp add: out_said_def)
    then have "m \<in> set (out_said c)" using outbound_closing.runs_silent [OF assms(2) \<open>out_dropped c\<close>] by simp
    then have "m \<in> set (so_out c)" by (simp add: out_said_def)
    with est(4) m show ?thesis by auto
  qed (use est(2) in simp)
  ultimately show ?thesis unfolding so_inv_def ascending_def by blast
qed

text \<open>
  C25. The INVITE comes to an end: when each attempt gets its final answer, or fails, or is
  given up, the loop over the attempts ends by itself after at most five INVITEs. More than one
  is only sent with a user name and a password, and never more than one for each challenge
  (401 or 407) received, and the first.
\<close>

theorem invite_terminates:
  assumes "\<forall>tx\<in>set txs. fst tx = None \<longrightarrow> rw_result (sipResponse [] (snd tx)) \<noteq> Blocked"
    and "\<forall>tx\<in>set txs. \<forall>resp. GotResponse resp \<in> set (snd tx) \<longrightarrow> None \<notin> set (resp_record_routes resp)"
    and "5 \<le> length txs"
  shows "\<exists>c seen r. Invite env to user pass headers offer txs (newOutbound lid from contact dn) = Returns (c, seen, r)
     \<and> count_if is_out_invite (so_out c) \<le> 5
     \<and> (1 < count_if is_out_invite (so_out c) \<longrightarrow> user \<noteq> '''' \<and> pass \<noteq> ''''
          \<and> count_if is_out_invite (so_out c) \<le> Suc (count_if (\<lambda>resp. resp_status resp \<in> {401, 407}) seen))"
proof -
  have "maxInviteTries \<le> 0 + length txs" using assms(3) by (simp add: maxInviteTries_def)
  from Invite_ends [OF assms(1,2) this] obtain c seen r where
    run: "Invite env to user pass headers offer txs (newOutbound lid from contact dn) = Returns (c, seen, r)"
    by (metis prod_cases3)
  from run Invite_established(5,6) [OF run] show ?thesis by (fastforce simp: maxInviteTries_def)
qed


text \<open>A remote that answers the INVITE with 200, or with a challenge.\<close>

definition example_out_env :: out_env where
  "example_out_env =
     \<lparr>oe_hash = (\<lambda>lid uri. ''c1''), oe_sent = (\<lambda>req body. bare_request ''INVITE''),
      oe_challenge = (\<lambda>v. Inr zero_challenge), oe_digest = (\<lambda>ch opt. Inr ''digest''),
      oe_uri_string = (\<lambda>uri. ''''),
      oe_new_bye = (\<lambda>req resp. \<lparr>or_method = ''BYE'', or_recipient = empty_uri, or_ops = [], or_cseq = None,
                                or_source = '''', or_destination = '''', or_transport = ''''\<rparr>),
      oe_closing = False, oe_headers = None\<rparr>"

definition example_response :: "int \<Rightarrow> sip_response" where
  "example_response status =
     \<lparr>resp_status = status, resp_reason = '''', resp_source = '''', resp_destination = '''',
      resp_to = Some \<lparr>ah_address = empty_uri, ah_params = Some (Map.empty(''tag'' \<mapsto> ''r1''))\<rparr>,
      resp_contact = None, resp_record_routes = [],
      resp_headers = [\<lparr>hdr_name = ''WWW-Authenticate'', hdr_value = ''Digest''\<rparr>], resp_body = ''sdp''\<rparr>"

abbreviation example_uri :: URI where
  "example_uri \<equiv> \<lparr>User = ''alice'', Host = ''example.com'', Addr = None, Port = 0, Transport = ''''\<rparr>"

lemma example_invite_ok:
  "\<exists>c seen. Invite example_out_env example_uri '''' '''' [] ''offer'' [(None, [GotResponse (example_response 200)])]
       (newOutbound ''SCL_1'' example_uri example_uri None) = Returns (c, seen, Inr ''sdp'')
     \<and> so_invite c \<noteq> None \<and> so_invite_ok c \<noteq> None"
  by (simp add: Invite_def Let_def attemptInvite_def invite_request_def out_setCSeq_def maxInviteTries_def
      is_provisional_def example_response_def invite_answer_def accept_response_def getTagFrom_def)

theorem outbound_leg_conduct_witness:
  "\<exists>c seen d. Invite example_out_env example_uri '''' '''' [] ''offer'' [(None, [GotResponse (example_response 200)])]
       (newOutbound ''SCL_1'' example_uri example_uri None) = Returns (c, seen, Inr ''sdp'')
     \<and> runs out_step c [(example_out_env, OAck None), (example_out_env, OClose (None, [TxDone]))] d
     \<and> count_if is_out_bye (so_out d) = 1
     \<and> (\<exists>resp\<in>set seen. resp_status resp = 200)"
proof -
  obtain c seen where inv: "Invite example_out_env example_uri '''' '''' [] ''offer'' [(None, [GotResponse (example_response 200)])]
       (newOutbound ''SCL_1'' example_uri example_uri None) = Returns (c, seen, Inr ''sdp'')"
    "so_invite c \<noteq> None" "so_invite_ok c \<noteq> None"
    using example_invite_ok by blast
  define c1 where "c1 = fst (AckInviteOK None c)"
  have c1: "out_step (example_out_env, OAck None) c = Returns c1" "so_invite c1 \<noteq> None" "so_invite_ok c1 \<noteq> None"
    using inv(2,3) by (auto simp: c1_def AckInviteOK_def split: option.split)
  have "sendAndACK None [TxDone] = Returns False" by (simp add: sendAndACK_def)
  then obtain d where d: "out_step (example_out_env, OClose (None, [TxDone])) c1 = Returns d"
    "\<exists>m\<in>set (so_out d). is_out_bye m"
    using c1(2,3) by (auto simp: out_Close_def out_sendBye_def example_out_env_def out_setCSeq_def Let_def)
  have run: "runs out_step c [(example_out_env, OAck None), (example_out_env, OClose (None, [TxDone]))] d"
    by (rule runs_Cons [where step = out_step, OF c1(1)], rule runs_one) (rule d(1))
  have ok: "\<forall>e\<in>set [(example_out_env, OAck None), (example_out_env, OClose (None, [TxDone]))]. out_event_ok e"
    by (simp add: example_out_env_def)
  note conduct = outbound_leg_conduct [OF inv(1) run ok]
  obtain m where m: "m \<in> set (so_out d)" "is_out_bye m" using d(2) by blast
  have "\<not> is_out_invite m \<and> m \<notin> {OutCancel, OutByeOK}"
    using m(2) by (cases m rule: is_out_bye.cases) simp_all
  with conduct m(1) have "\<exists>resp\<in>set seen. resp_status resp = 200" by blast
  moreover have "count_if is_out_bye (so_out d) \<noteq> 0" using m by (auto simp: count_if_zero)
  ultimately show ?thesis using conduct inv(1) run by (intro exI [of _ c] exI [of _ seen] exI [of _ d]) simp
qed

theorem invite_terminates_witness:
  "\<exists>c seen r. Invite example_out_env example_uri ''u'' ''p'' [] ''offer''
       (replicate 5 (None, [GotResponse (example_response 401)]))
       (newOutbound ''SCL_1'' example_uri example_uri None) = Returns (c, seen, r)
     \<and> count_if is_out_invite (so_out c) \<le> 5"
proof -
  have "\<forall>tx\<in>set (replicate 5 (None, [GotResponse (example_response 401)])).
      fst tx = None \<longrightarrow> rw_result (sipResponse [] (snd tx)) \<noteq> Blocked"
    by (simp add: example_response_def is_provisional_def)
  moreover have "\<forall>tx\<in>set (replicate 5 (None, [GotResponse (example_response 401)])). \<forall>resp.
      GotResponse resp \<in> set (snd tx) \<longrightarrow> None \<notin> set (resp_record_routes resp)"
    by (simp add: example_response_def)
  ultimately show ?thesis
    using invite_terminates [of "replicate 5 (None, [GotResponse (example_response 401)])"
        example_out_env example_uri "''u''" "''p''" "[]" "''offer''" "''SCL_1''" example_uri example_uri None]
    by fastforce
qed


text \<open>
  While the client is shutting down, closing a leg writes a BYE but leaves the dialog open, so
  closing it again writes another one.
\<close>

lemma closing_keeps_dialog:
  assumes "so_invite c = Some i" and "so_invite_ok c = Some ok" and "oe_closing env"
  shows "\<exists>r. out_Close env tx c = Returns (out_emit (OutBye r) c) \<and> so_invite_ok (out_emit (OutBye r) c) = Some ok"
  using assms by (auto simp: out_Close_def out_sendBye_def Let_def)

end
