(* ===== verification/Call_Monitor.thy ===== *)
theory Call_Monitor
  imports Complex_Main Call_State
begin

text \<open>
  \<open>pkg/stats/monitor.go\<close>: the metrics of the service and of one call, and the health of
  the node, with its HTTP report in \<open>pkg/service/service.go\<close> and its name in
  \<open>pkg/stats/healthstatus_string.go\<close>. A metric with labels is a function of the label set;
  durations and sizes observed by histograms are not kept.
\<close>

section \<open>Metrics\<close>

type_synonym labels = "string \<rightharpoonup> string"

datatype call_dir = Inbound | Outbound

fun dir_string :: "call_dir \<Rightarrow> string" where
  "dir_string Inbound = ''in''"
| "dir_string Outbound = ''out''"

record monitor =
  mn_node_id :: string
  mn_max_utilization :: real
  mn_started :: bool
  mn_shutdown :: bool
  mn_invite_req_raw :: nat
  mn_invite_req :: "labels \<Rightarrow> nat"
  mn_invite_accept :: "labels \<Rightarrow> nat"
  mn_invite_err :: "labels \<Rightarrow> nat"
  mn_calls_active :: "labels \<Rightarrow> int"
  mn_calls_terminated :: "labels \<Rightarrow> nat"
  mn_packets_rtp :: "labels \<Rightarrow> nat"

record call_monitor =
  cm_dir :: call_dir
  cm_from_host :: string
  cm_to_host :: string
  cm_started :: bool
  cm_terminated :: bool

definition NewCall :: "call_dir \<Rightarrow> string \<Rightarrow> string \<Rightarrow> call_monitor" where
  "NewCall dir from_host to_host =
     \<lparr>cm_dir = dir, cm_from_host = from_host, cm_to_host = to_host, cm_started = False, cm_terminated = False\<rparr>"

definition labelsShort :: "call_monitor \<Rightarrow> (string \<times> string) list \<Rightarrow> labels" where
  "labelsShort c l = put_all l (Map.empty(''dir'' \<mapsto> dir_string (cm_dir c)))"

definition labels_of :: "call_monitor \<Rightarrow> (string \<times> string) list \<Rightarrow> labels" where
  "labels_of c l = put_all l (Map.empty(''dir'' \<mapsto> dir_string (cm_dir c), ''to'' \<mapsto> cm_to_host c))"

definition bump :: "labels \<Rightarrow> (labels \<Rightarrow> 'n::comm_semiring_1) \<Rightarrow> (labels \<Rightarrow> 'n)" where
  "bump l f = f(l := f l + 1)"

definition InviteReqRaw :: "monitor \<Rightarrow> monitor" where
  "InviteReqRaw m = m\<lparr>mn_invite_req_raw := mn_invite_req_raw m + 1\<rparr>"

definition InviteReq :: "call_monitor \<Rightarrow> monitor \<Rightarrow> monitor" where
  "InviteReq c m = m\<lparr>mn_invite_req := bump (labelsShort c []) (mn_invite_req m)\<rparr>"

definition InviteAccept :: "call_monitor \<Rightarrow> monitor \<Rightarrow> monitor" where
  "InviteAccept c m = m\<lparr>mn_invite_accept := bump (labels_of c []) (mn_invite_accept m)\<rparr>"

definition InviteErrorShort :: "string \<Rightarrow> call_monitor \<Rightarrow> monitor \<Rightarrow> monitor" where
  "InviteErrorShort reason c m =
     m\<lparr>mn_invite_err := bump (labelsShort c [(''reason'', reason), (''to'', ''unknown'')]) (mn_invite_err m)\<rparr>"

definition InviteError :: "string \<Rightarrow> call_monitor \<Rightarrow> monitor \<Rightarrow> monitor" where
  "InviteError reason c m =
     m\<lparr>mn_invite_err := bump (labels_of c [(''reason'', reason)]) (mn_invite_err m)\<rparr>"

definition CallStart :: "call_monitor \<times> monitor \<Rightarrow> call_monitor \<times> monitor" where
  "CallStart cm = (case cm of (c, m) \<Rightarrow>
     if cm_started c then (c, m)
     else (c\<lparr>cm_started := True\<rparr>,
           m\<lparr>mn_calls_active := bump (labels_of c []) (mn_calls_active m)\<rparr>))"

definition CallEnd :: "call_monitor \<times> monitor \<Rightarrow> call_monitor \<times> monitor" where
  "CallEnd cm = (case cm of (c, m) \<Rightarrow>
     if \<not> cm_started c then (c, m)
     else (c\<lparr>cm_started := False\<rparr>,
           m\<lparr>mn_calls_active :=
               (mn_calls_active m)(labels_of c [] := mn_calls_active m (labels_of c []) - 1)\<rparr>))"

definition CallTerminate :: "string \<Rightarrow> call_monitor \<times> monitor \<Rightarrow> call_monitor \<times> monitor" where
  "CallTerminate reason cm = (case cm of (c, m) \<Rightarrow>
     if cm_terminated c then (c, m)
     else (c\<lparr>cm_terminated := True\<rparr>,
           m\<lparr>mn_calls_terminated :=
               bump (labels_of c [(''reason'', reason)]) (mn_calls_terminated m)\<rparr>))"

definition RTPPacketSend :: "string \<Rightarrow> call_monitor \<Rightarrow> monitor \<Rightarrow> monitor" where
  "RTPPacketSend payload c m =
     m\<lparr>mn_packets_rtp :=
         bump (labels_of c [(''op'', ''send''), (''payload'', payload)]) (mn_packets_rtp m)\<rparr>"

definition RTPPacketRecv :: "string \<Rightarrow> call_monitor \<Rightarrow> monitor \<Rightarrow> monitor" where
  "RTPPacketRecv payload c m =
     m\<lparr>mn_packets_rtp :=
         bump (labels_of c [(''op'', ''recv''), (''payload'', payload)]) (mn_packets_rtp m)\<rparr>"

text \<open>A call is counted as terminated once, with the reason it is first given.\<close>

interpretation terminate: once_op "\<lambda>cm. cm_terminated (fst cm)" CallTerminate
  by unfold_locales (auto simp: CallTerminate_def split: prod.splits)

section \<open>Many calls on one monitor\<close>

datatype mon_op = OpCallStart | OpCallEnd | OpCallTerminate string

fun mon_apply :: "mon_op \<Rightarrow> call_monitor \<times> monitor \<Rightarrow> call_monitor \<times> monitor" where
  "mon_apply OpCallStart cm = CallStart cm"
| "mon_apply OpCallEnd cm = CallEnd cm"
| "mon_apply (OpCallTerminate r) cm = CallTerminate r cm"

text \<open>An operation of the \<open>i\<close>-th of the calls; an index beyond the list is no call.\<close>

fun mon_step :: "nat \<times> mon_op \<Rightarrow> call_monitor list \<times> monitor \<Rightarrow> call_monitor list \<times> monitor" where
  "mon_step (i, op) (cs, m) =
     (if i < length cs then (case mon_apply op (cs ! i, m) of (c', m') \<Rightarrow> (cs[i := c'], m'))
      else (cs, m))"

definition started_with :: "labels \<Rightarrow> call_monitor list \<Rightarrow> int" where
  "started_with l cs = int (count_if (\<lambda>c. cm_started c \<and> labels_of c [] = l) cs)"

definition gauge_ok :: "(labels \<Rightarrow> int) \<Rightarrow> call_monitor list \<times> monitor \<Rightarrow> bool" where
  "gauge_ok base csm \<longleftrightarrow> (\<forall>l. mn_calls_active (snd csm) l = base l + started_with l (fst csm))"

lemma labels_of_cong [simp]:
  "labels_of (c\<lparr>cm_started := b\<rparr>) l = labels_of c l"
  "labels_of (c\<lparr>cm_terminated := b\<rparr>) l = labels_of c l"
  by (simp_all add: labels_of_def)

lemma mon_apply_gauge:
  assumes "mon_apply op (c, m) = (c', m')"
  shows "mn_calls_active m' l = mn_calls_active m l
           + (if cm_started c' \<and> labels_of c' [] = l then 1 else 0)
           - (if cm_started c \<and> labels_of c [] = l then 1 else 0)"
proof (cases op)
  case OpCallStart
  with assms have "CallStart (c, m) = (c', m')" by simp
  then show ?thesis
    by (cases "cm_started c") (clarsimp simp: CallStart_def bump_def)+
next
  case OpCallEnd
  with assms have "CallEnd (c, m) = (c', m')" by simp
  then show ?thesis
    by (cases "cm_started c") (clarsimp simp: CallEnd_def)+
next
  case (OpCallTerminate r)
  with assms have "CallTerminate r (c, m) = (c', m')" by simp
  then show ?thesis
    by (cases "cm_terminated c") (clarsimp simp: CallTerminate_def)+
qed

lemma gauge_ok_apply:
  assumes "gauge_ok base (cs, m)" and "i < length cs" and "mon_apply op (cs ! i, m) = (c', m')"
  shows "gauge_ok base (cs[i := c'], m')"
  using assms(1) mon_apply_gauge [OF assms(3)] count_if_update [OF assms(2)]
  by (simp add: gauge_ok_def started_with_def)

lemma gauge_ok_step: "gauge_ok base csm \<Longrightarrow> gauge_ok base (mon_step e csm)"
  by (cases e; cases csm) (auto split: prod.splits dest: gauge_ok_apply)

interpretation calls_gauge: event_system mon_step "gauge_ok base" for base
  by unfold_locales (rule gauge_ok_step)

section \<open>Health\<close>

datatype health_status = HealthOK | HealthNotStarted | HealthStopped | HealthUnderLoad | HealthDisabled

fun health_code :: "health_status \<Rightarrow> nat" where
  "health_code HealthOK = 0"
| "health_code HealthNotStarted = 1"
| "health_code HealthStopped = 2"
| "health_code HealthUnderLoad = 3"
| "health_code HealthDisabled = 4"

definition Health :: "monitor \<Rightarrow> real \<Rightarrow> real \<Rightarrow> health_status" where
  "Health m idle num_cpu =
     (if \<not> mn_started m then HealthNotStarted
      else if mn_shutdown m then HealthStopped
      else if idle < num_cpu * (1 - mn_max_utilization m) then HealthUnderLoad
      else HealthOK)"

definition node_available :: "monitor \<Rightarrow> real \<Rightarrow> real \<Rightarrow> nat" where
  "node_available m idle num_cpu = (if Health m idle num_cpu = HealthOK then 1 else 0)"

definition Shutdown :: "monitor \<Rightarrow> monitor" where
  "Shutdown m = m\<lparr>mn_shutdown := True\<rparr>"

text \<open>The generated \<open>String\<close> method: slices of one string by a table of offsets.\<close>

definition HealthStatus_name :: string where
  "HealthStatus_name = ''OKNotStartedStoppedUnderLoadDisabled''"

definition HealthStatus_index :: "nat list" where
  "HealthStatus_index = [0, 2, 12, 19, 28, 36]"

definition health_string :: "int \<Rightarrow> string" where
  "health_string i =
     (if i < 0 \<or> int (length HealthStatus_index) - 1 \<le> i
      then ''HealthStatus('' @ itoa i @ '')''
      else drop (HealthStatus_index ! nat i) (take (HealthStatus_index ! (nat i + 1)) HealthStatus_name))"

text \<open>The health endpoint of \<open>service.go\<close>: the HTTP status and the body.\<close>

definition health_http :: "health_status \<Rightarrow> int \<times> string" where
  "health_http st =
     ((case st of HealthOK \<Rightarrow> 200 | HealthUnderLoad \<Rightarrow> 429 | _ \<Rightarrow> 503),
      health_string (int (health_code st)))"

section \<open>Properties\<close>

text \<open>
  C34. However the starts, ends and terminations of several calls interleave (repeated and
  unmatched ones too), the gauge of active calls stays at its initial value plus the number of
  calls that are started, for every set of labels.
\<close>

theorem active_calls_gauge:
  assumes "\<forall>c\<in>set cs. \<not> cm_started c"
  shows "case fold mon_step es (cs, m) of (cs', m') \<Rightarrow>
           mn_calls_active m' l = mn_calls_active m l + int (count_if (\<lambda>c. cm_started c \<and> labels_of c [] = l) cs')"
proof -
  have "count_if (\<lambda>c. cm_started c \<and> labels_of c [] = l) cs = 0" for l
    using assms by (simp add: count_if_zero)
  then have "gauge_ok (mn_calls_active m) (cs, m)" by (simp add: gauge_ok_def started_with_def)
  then have "gauge_ok (mn_calls_active m) (fold mon_step es (cs, m))" by (rule calls_gauge.run_inv)
  then show ?thesis by (simp add: gauge_ok_def started_with_def case_prod_beta)
qed

theorem active_calls_gauge_witness:
  "\<forall>m. case fold mon_step [(0, OpCallStart), (1, OpCallStart), (0, OpCallEnd), (0, OpCallEnd)]
          ([NewCall Inbound ''a'' ''b'', NewCall Inbound ''c'' ''b''], m) of (cs', m') \<Rightarrow>
     mn_calls_active m' (labels_of (NewCall Inbound ''a'' ''b'') []) = mn_calls_active m (labels_of (NewCall Inbound ''a'' ''b'') [])
       + int (count_if (\<lambda>c. cm_started c \<and> labels_of c [] = labels_of (NewCall Inbound ''a'' ''b'') []) cs')"
  by (intro allI, rule active_calls_gauge) (simp add: NewCall_def)

text \<open>
  A call is counted as terminated once, under the reason given first, whatever reasons
  follow.
\<close>

theorem terminated_once:
  assumes "\<not> cm_terminated c"
  shows "case fold CallTerminate (r # rs) (c, m) of (c', m') \<Rightarrow>
           mn_calls_terminated m' = bump (labels_of c [(''reason'', r)]) (mn_calls_terminated m)"
proof -
  have "fold CallTerminate (r # rs) (c, m) = CallTerminate r (c, m)"
    using terminate.first_fire_wins [of "r # rs" "(c, m)"] by simp
  then show ?thesis using assms by (simp only:) (simp add: CallTerminate_def)
qed

theorem terminated_once_witness:
  "\<forall>m. case fold CallTerminate (''hangup'' # [''other'', ''media-timeout'']) (NewCall Inbound ''a'' ''b'', m) of (c', m') \<Rightarrow>
     mn_calls_terminated m' = bump (labels_of (NewCall Inbound ''a'' ''b'') [(''reason'', ''hangup'')]) (mn_calls_terminated m)"
  by (intro allI, rule terminated_once) (simp add: NewCall_def)

text \<open>
  The health endpoint answers 200 OK only for a node that is started, not shut down and
  has the CPU it keeps in reserve; each other state has its own text, cut out of the generated
  name table.
\<close>

theorem health_endpoint:
  "health_http (Health m idle num_cpu) =
     (if \<not> mn_started m then (503, ''NotStarted'')
      else if mn_shutdown m then (503, ''Stopped'')
      else if idle < num_cpu * (1 - mn_max_utilization m) then (429, ''UnderLoad'')
      else (200, ''OK''))
   \<and> Health (Shutdown m) idle num_cpu \<noteq> HealthOK
   \<and> (node_available m idle num_cpu = 1 \<longleftrightarrow> fst (health_http (Health m idle num_cpu)) = 200)"
proof -
  have s: "health_string 0 = ''OK''" "health_string 1 = ''NotStarted''" "health_string 2 = ''Stopped''"
    "health_string 3 = ''UnderLoad''"
    by (simp_all add: health_string_def HealthStatus_index_def HealthStatus_name_def)
  show ?thesis
    by (simp add: Health_def health_http_def node_available_def Shutdown_def s)
qed

end
