(* ===== verification/Room.thy ===== *)
theory Room
  imports Dispatch
begin

text \<open>
  A call's side of a LiveKit room (\<open>pkg/sip/room.go\<close>). The room SDK, the mixer and the
  tracks are outside: joining, subscribing and what remote participants do come in as
  arguments and events, what is done to them goes out as a list of actions.
\<close>

section \<open>State\<close>

record ParticipantInfo =
  pi_id :: string
  pi_room_name :: string
  pi_identity :: string
  pi_name :: string

definition no_participant :: ParticipantInfo where
  "no_participant = \<lparr>pi_id = '''', pi_room_name = '''', pi_identity = '''', pi_name = ''''\<rparr>"

datatype room_action =
    JoinRoom string string
  | SetAttributes "string \<rightharpoonup> string"
  | SetSubscribed string
  | MixTrack string
  | ForwardDTMF string
  | PublishData string
  | PublishTrack string
  | DisconnectRoom disconnect_reason
  | StopMixer
  | SwapRoomOutput bool
  | CloseRoomOutput

record room =
  rm_joined :: bool
  rm_p :: ParticipantInfo
  rm_ready :: bool
  rm_subscribe :: bool
  rm_subscribed :: bool
  rm_stopped :: bool
  rm_closed :: bool
  rm_out_dtmf :: bool
  rm_actions :: "room_action list"

definition NewRoom :: room where
  "NewRoom =
     \<lparr>rm_joined = False, rm_p = no_participant, rm_ready = False, rm_subscribe = False,
      rm_subscribed = False, rm_stopped = False, rm_closed = False, rm_out_dtmf = False,
      rm_actions = []\<rparr>"

definition room_act :: "room_action list \<Rightarrow> room \<Rightarrow> room" where
  "room_act as r = r\<lparr>rm_actions := rm_actions r @ as\<rparr>"

section \<open>Remote participants and tracks\<close>

text \<open>A published track: its name, whether it is audio, and the error of subscribing to it.\<close>

record remote_track =
  rt_name :: string
  rt_audio :: bool
  rt_sub_err :: "go_error option"

record remote_participant =
  rp_sip :: bool
  rp_tracks :: "remote_track list"

definition participantJoin :: "remote_participant \<Rightarrow> room \<Rightarrow> room" where
  "participantJoin rp r = (if rp_sip rp then r\<lparr>rm_subscribed := True\<rparr> else r)"

definition subscribeTo :: "remote_track \<Rightarrow> room \<Rightarrow> room" where
  "subscribeTo pub r =
     (if \<not> rt_audio pub then r
      else case rt_sub_err pub of
             Some e \<Rightarrow> room_act [SetSubscribed (rt_name pub)] r
           | None \<Rightarrow> (room_act [SetSubscribed (rt_name pub)] r)\<lparr>rm_subscribed := True\<rparr>)"

section \<open>Connecting\<close>

text \<open>
  The attributes that may go into a token the service signs itself; \<open>keys\<close> are the five
  constants of the protocol library the code lists (call, trunk and rule identifiers, and the
  two phone numbers).
\<close>

definition token_attrs :: "string list \<Rightarrow> (string \<rightharpoonup> string) \<Rightarrow> (string \<rightharpoonup> string)" where
  "token_attrs keys attrs = (\<lambda>k. if k \<in> set keys then attrs k else None)"

text \<open>
  \<open>Connect\<close>: \<open>sign\<close> builds a token from the room, the participant and the attributes;
  \<open>join\<close> is the outcome of joining, with the participant's SID and identity.
\<close>

definition room_attrs :: "participant_config \<Rightarrow> (string \<rightharpoonup> string)" where
  "room_attrs p = (case pc_attributes p of None \<Rightarrow> Map.empty | Some m \<Rightarrow> m)"

definition Connect ::
  "string list \<Rightarrow> config \<Rightarrow> (room_config \<Rightarrow> (string \<rightharpoonup> string) \<Rightarrow> go_error + string)
    \<Rightarrow> (string \<Rightarrow> string \<Rightarrow> go_error + (string \<times> string)) \<Rightarrow> room_config \<Rightarrow> room \<Rightarrow> room \<times> go_error option" where
  "Connect keys conf sign join rconf r =
     (let url = (if rc_ws_url rconf = '''' then cf_ws_url conf else rc_ws_url rconf);
          part = rc_participant rconf;
          r = r\<lparr>rm_p := \<lparr>pi_id = '''', pi_room_name = rc_room_name rconf,
                         pi_identity = pc_identity part, pi_name = pc_name part\<rparr>\<rparr>;
          token = (if rc_token rconf = '''' then sign rconf (token_attrs keys (room_attrs part))
                   else Inr (rc_token rconf))
      in case token of
           Inl e \<Rightarrow> (r, Some e)
         | Inr token \<Rightarrow>
             (case join url token of
                Inl e \<Rightarrow> (r, Some e)
              | Inr (sid, identity) \<Rightarrow>
                  ((room_act [JoinRoom url token, SetAttributes (room_attrs part)] r)
                     \<lparr>rm_joined := True, rm_p := (rm_p r)\<lparr>pi_id := sid, pi_identity := identity\<rparr>,
                      rm_ready := True, rm_subscribe := False\<rparr>, None)))"

definition Subscribe :: "remote_participant list \<Rightarrow> room \<Rightarrow> room" where
  "Subscribe remotes r =
     (if \<not> rm_joined r then r
      else fold (\<lambda>rp r. fold subscribeTo (rp_tracks rp) (participantJoin rp r)) remotes
             (r\<lparr>rm_subscribe := True\<rparr>))"

section \<open>Output, DTMF, data, closing\<close>

text \<open>\<open>old\<close>: whether there was an output before.\<close>

definition SwapOutput :: "bool \<Rightarrow> room \<Rightarrow> room" where
  "SwapOutput out r = room_act [SwapRoomOutput out] r"

definition CloseOutput :: "bool \<Rightarrow> room \<Rightarrow> room" where
  "CloseOutput old r = room_act ([SwapRoomOutput False] @ (if old then [CloseRoomOutput] else [])) r"

definition SetDTMFOutput :: "bool \<Rightarrow> room \<Rightarrow> room" where
  "SetDTMFOutput w r = r\<lparr>rm_out_dtmf := w\<rparr>"

definition sendDTMF :: "string \<Rightarrow> room \<Rightarrow> room" where
  "sendDTMF digit r = (if \<not> rm_out_dtmf r then r else room_act [ForwardDTMF digit] r)"

definition CloseWithReason :: "bool \<Rightarrow> disconnect_reason \<Rightarrow> room \<Rightarrow> room" where
  "CloseWithReason old reason r =
     (let r = r\<lparr>rm_closed := True\<rparr>;
          r = r\<lparr>rm_subscribe := False\<rparr>;
          r = CloseOutput old r;
          r = SetDTMFOutput False r;
          r = (if rm_joined r then (room_act [DisconnectRoom reason] r)\<lparr>rm_joined := False\<rparr> else r)
      in room_act [StopMixer] r)"

definition room_Close :: "bool \<Rightarrow> room \<Rightarrow> room" where
  "room_Close old r = CloseWithReason old UNKNOWN_REASON r"

text \<open>
  The local participant is used without a check, so publishing a track needs a joined room.
  The errors are those of making the track, of publishing it and of making the encoder.
\<close>

record track_env =
  te_track :: "go_error option"
  te_publish :: "go_error option"
  te_encoder :: "go_error option"

definition NewParticipantTrack :: "track_env \<Rightarrow> room \<Rightarrow> (room \<times> go_error option) outcome" where
  "NewParticipantTrack env r =
     (case te_track env of
        Some e \<Rightarrow> Returns (r, Some e)
      | None \<Rightarrow>
          if \<not> rm_joined r then Panics
          else case te_publish env of
                 Some e \<Rightarrow> Returns (r, Some e)
               | None \<Rightarrow> Returns (room_act [PublishTrack (pi_identity (rm_p r))] r, te_encoder env))"

definition SendData :: "string \<Rightarrow> room \<Rightarrow> room outcome" where
  "SendData data r =
     (if \<not> rm_ready r \<or> rm_closed r then Returns r
      else if \<not> rm_joined r then Panics
      else Returns (room_act [PublishData data] r))"

section \<open>The room as an event-driven component\<close>

datatype room_event =
    RemoteJoined remote_participant
  | RemotePublished remote_track
  | TrackSubscribed string
  | RemoteDTMF string
  | RoomDisconnected
  | DoSubscribe "remote_participant list"
  | DoClose bool disconnect_reason
  | DoSetDTMF bool

fun room_step :: "room_event \<Rightarrow> room \<Rightarrow> room" where
  "room_step (RemoteJoined rp) r = (if \<not> rm_subscribe r then r else participantJoin rp r)"
| "room_step (RemotePublished pub) r = (if \<not> rm_subscribe r then r else subscribeTo pub r)"
| "room_step (TrackSubscribed name) r = (if \<not> rm_ready r then r else room_act [MixTrack name] r)"
| "room_step (RemoteDTMF digit) r = sendDTMF digit r"
| "room_step RoomDisconnected r = r\<lparr>rm_stopped := True\<rparr>"
| "room_step (DoSubscribe remotes) r = Subscribe remotes r"
| "room_step (DoClose old reason) r = CloseWithReason old reason r"
| "room_step (DoSetDTMF w) r = SetDTMFOutput w r"

section \<open>Facts\<close>

lemma room_act_simps [simp]:
  "rm_joined (room_act as r) = rm_joined r" "rm_ready (room_act as r) = rm_ready r"
  "rm_subscribe (room_act as r) = rm_subscribe r" "rm_subscribed (room_act as r) = rm_subscribed r"
  "rm_stopped (room_act as r) = rm_stopped r" "rm_closed (room_act as r) = rm_closed r"
  "rm_out_dtmf (room_act as r) = rm_out_dtmf r" "rm_p (room_act as r) = rm_p r"
  "rm_actions (room_act as r) = rm_actions r @ as"
  by (simp_all add: room_act_def)

lemma CloseWithReason_simps [simp]:
  "rm_closed (CloseWithReason old reason r)" "\<not> rm_joined (CloseWithReason old reason r)"
  "\<not> rm_subscribe (CloseWithReason old reason r)" "\<not> rm_out_dtmf (CloseWithReason old reason r)"
  "rm_stopped (CloseWithReason old reason r) = rm_stopped r"
  by (simp_all add: CloseWithReason_def CloseOutput_def SetDTMFOutput_def Let_def)

definition unjoined_closed :: "room \<Rightarrow> bool" where
  "unjoined_closed r \<longleftrightarrow> rm_closed r \<and> \<not> rm_joined r \<and> \<not> rm_subscribe r"

lemma unjoined_closed_step:
  "unjoined_closed r \<Longrightarrow> unjoined_closed (room_step e r) \<and> rm_subscribed (room_step e r) = rm_subscribed r"
  by (cases e) (auto simp: unjoined_closed_def Subscribe_def sendDTMF_def SetDTMFOutput_def
      CloseWithReason_def CloseOutput_def Let_def)

interpretation room_closed: event_system room_step unjoined_closed
  by unfold_locales (simp add: unjoined_closed_step)

lemma not_subscribing_step:
  "\<not> rm_subscribe r \<Longrightarrow> (\<forall>rs. e \<noteq> DoSubscribe rs) \<Longrightarrow>
     \<not> rm_subscribe (room_step e r) \<and> rm_subscribed (room_step e r) = rm_subscribed r"
  by (cases e) (auto simp: sendDTMF_def SetDTMFOutput_def CloseWithReason_def CloseOutput_def Let_def)

section \<open>Properties\<close>

text \<open>
  C40. Nothing counts as a subscription before the call asks for one: joining a room and any
  events in it leave the subscription mark unset until \<open>Subscribe\<close>; and a room that is closed
  without one never gets one.
\<close>

theorem no_subscription_unasked:
  assumes "Connect keys conf sign join rconf NewRoom = (r, err)"
  shows "((\<forall>e\<in>set es. \<forall>rs. e \<noteq> DoSubscribe rs) \<longrightarrow> \<not> rm_subscribed (fold room_step es r))
     \<and> (\<not> rm_subscribed r' \<longrightarrow> \<not> rm_subscribed (fold room_step es (CloseWithReason old reason r')))"
proof -
  have a: "\<not> rm_subscribed (fold room_step es s)"
    if "\<forall>e\<in>set es. \<forall>rs. e \<noteq> DoSubscribe rs" "\<not> rm_subscribe s" "\<not> rm_subscribed s" for s
    using that by (induction es arbitrary: s) (auto dest: not_subscribing_step)
  have b: "\<not> rm_subscribed (fold room_step es s)" if "unjoined_closed s" "\<not> rm_subscribed s" for s
    using that by (induction es arbitrary: s) (auto dest: unjoined_closed_step)
  have r: "\<not> rm_subscribe r \<and> \<not> rm_subscribed r"
    using assms by (auto simp: Connect_def NewRoom_def Let_def split: sum.splits)
  have c: "rm_subscribed (CloseWithReason old reason r') = rm_subscribed r'"
    by (simp add: CloseWithReason_def CloseOutput_def SetDTMFOutput_def Let_def)
  have "unjoined_closed (CloseWithReason old reason r')" by (simp add: unjoined_closed_def)
  with a [of r] b [of "CloseWithReason old reason r'"] r c show ?thesis by simp
qed

theorem no_subscription_unasked_witness:
  "\<not> rm_subscribed (fold room_step [RemoteJoined \<lparr>rp_sip = True, rp_tracks = []\<rparr>]
     (fst (Connect [] zero_config (\<lambda>_ _. Inr ''tok'') (\<lambda>_ _. Inr (''PA_1'', ''joe'')) zero_room_config NewRoom)))"
  using no_subscription_unasked [where keys = "[]" and conf = zero_config and sign = "\<lambda>_ _. Inr ''tok''"
      and join = "\<lambda>_ _. Inr (''PA_1'', ''joe'')" and rconf = zero_room_config, OF surjective_pairing,
      of "[RemoteJoined \<lparr>rp_sip = True, rp_tracks = []\<rparr>]" NewRoom False UNKNOWN_REASON]
  by simp

end
