(* ===== verification/Media_Port.thy ===== *)
theory Media_Port
  imports Service_Config
begin

text \<open>
  The media side of a call (\<open>pkg/sip/media_port.go\<close>): the UDP connection, the timeout
  watching incoming packets, reading RTP, and the pipelines that are set up from the
  negotiated configuration. What library objects answer (writers replaced, sessions and
  streams opened) is an argument; what is done to them is a list of actions.
\<close>

section \<open>The UDP connection\<close>

text \<open>An address and port as text, \<open>None\<close> for the zero (invalid) value.\<close>

type_synonym addr_port = "string option"

record udp_conn =
  uc_src :: "addr_port option"
  uc_dst :: "addr_port option"

definition newUDPConn :: udp_conn where
  "newUDPConn = \<lparr>uc_src = None, uc_dst = None\<rparr>"

definition GetSrc :: "udp_conn \<Rightarrow> addr_port \<times> bool" where
  "GetSrc c = (case uc_src c of None \<Rightarrow> (None, False) | Some a \<Rightarrow> (a, a \<noteq> None))"

definition SetDst :: "addr_port \<Rightarrow> udp_conn \<Rightarrow> udp_conn" where
  "SetDst addr c = (if addr \<noteq> None then c\<lparr>uc_dst := Some addr\<rparr> else c)"

text \<open>The source is taken over even when the read failed.\<close>

definition udp_Read :: "nat \<times> addr_port \<times> go_error option \<Rightarrow> udp_conn \<Rightarrow> udp_conn \<times> nat \<times> go_error option" where
  "udp_Read r c = (case r of (n, addr, err) \<Rightarrow> (c\<lparr>uc_src := Some addr\<rparr>, n, err))"

datatype udp_write = WriteIgnored nat | WriteTo addr_port string

definition udp_Write :: "string \<Rightarrow> udp_conn \<Rightarrow> udp_write" where
  "udp_Write b c = (case uc_dst c of None \<Rightarrow> WriteIgnored (length b) | Some dst \<Rightarrow> WriteTo dst b)"

section \<open>The media timeout\<close>

definition defaultMediaTimeout :: duration where "defaultMediaTimeout = 15 * Second"
definition defaultMediaTimeoutInitial :: duration where "defaultMediaTimeoutInitial = 30 * Second"

text \<open>
  The fields of the port that the timeout uses (packet counter, options, start, limits,
  pending reset of the ticker, whether it fired), and the variables of the loop: whether
  it runs, the count at the last change, at the last reset, the time of either, the period.
\<close>

record media_timeout =
  mt_packets :: "64 word"
  mt_opt_initial :: duration
  mt_opt_general :: duration
  mt_start :: "int option"
  mt_initial :: duration
  mt_general :: duration
  mt_reset :: "duration option"
  mt_closed :: bool
  mt_fired :: bool
  mt_running :: bool
  mt_last_packets :: "64 word"
  mt_start_packets :: "64 word"
  mt_last_time :: int
  mt_period :: duration

text \<open>\<open>NewMediaPortWith\<close>: defaults for the limits that are not positive; the loop is started.\<close>

definition new_media_timeout :: "duration \<Rightarrow> duration \<Rightarrow> media_timeout" where
  "new_media_timeout initial general =
     (let initial = (if initial \<le> 0 then defaultMediaTimeoutInitial else initial);
          general = (if general \<le> 0 then defaultMediaTimeout else general)
      in \<lparr>mt_packets = 0, mt_opt_initial = initial, mt_opt_general = general, mt_start = None,
          mt_initial = initial, mt_general = general, mt_reset = None, mt_closed = False,
          mt_fired = False, mt_running = True, mt_last_packets = 0, mt_start_packets = 0,
          mt_last_time = 0, mt_period = general\<rparr>)"

definition disableTimeout :: "media_timeout \<Rightarrow> media_timeout" where
  "disableTimeout p = p\<lparr>mt_start := None\<rparr>"

text \<open>The reset channel holds one value; a second one is dropped.\<close>

definition enableTimeout :: "int \<Rightarrow> duration \<Rightarrow> duration \<Rightarrow> media_timeout \<Rightarrow> media_timeout" where
  "enableTimeout now initial general p =
     p\<lparr>mt_initial := initial, mt_general := general,
       mt_reset := (case mt_reset p of None \<Rightarrow> Some general | Some g \<Rightarrow> Some g),
       mt_start := Some now\<rparr>"

definition EnableTimeout :: "int \<Rightarrow> bool \<Rightarrow> media_timeout \<Rightarrow> media_timeout" where
  "EnableTimeout now enabled p =
     (if \<not> enabled then disableTimeout p
      else enableTimeout now (mt_opt_initial p) (mt_opt_general p) p)"

definition SetTimeout :: "int \<Rightarrow> duration \<Rightarrow> duration \<Rightarrow> media_timeout \<Rightarrow> media_timeout" where
  "SetTimeout now initial general p =
     (if initial \<le> 0 then disableTimeout p else enableTimeout now initial general p)"

text \<open>
  What happens to the port and its loop, in order. The three \<open>Loop\<close> events are the branches of
  the loop's \<open>select\<close>; a branch that is not ready is not taken.
\<close>

datatype media_event =
    PacketReceived
  | CallEnable int bool
  | CallSetTimeout int duration duration
  | CallClose
  | LoopClosed
  | LoopReset int
  | LoopTick int

definition timeout_tick :: "int \<Rightarrow> media_timeout \<Rightarrow> media_timeout" where
  "timeout_tick now p =
     (if mt_packets p \<noteq> mt_last_packets p
      then p\<lparr>mt_last_packets := mt_packets p, mt_last_time := now\<rparr>
      else case mt_start p of
             None \<Rightarrow> p
           | Some start \<Rightarrow>
               (let isInitial = (mt_last_packets p = mt_start_packets p);
                    since = (if isInitial then now - start else now - mt_last_time p);
                    timeout = (if isInitial then mt_initial p else mt_general p)
                in if since < timeout then p
                   else p\<lparr>mt_fired := True, mt_running := False\<rparr>))"

fun timeout_step :: "media_event \<Rightarrow> media_timeout \<Rightarrow> media_timeout" where
  "timeout_step PacketReceived p = p\<lparr>mt_packets := mt_packets p + 1\<rparr>"
| "timeout_step (CallEnable now enabled) p = EnableTimeout now enabled p"
| "timeout_step (CallSetTimeout now initial general) p = SetTimeout now initial general p"
| "timeout_step CallClose p = p\<lparr>mt_closed := True\<rparr>"
| "timeout_step LoopClosed p = (if mt_running p \<and> mt_closed p then p\<lparr>mt_running := False\<rparr> else p)"
| "timeout_step (LoopReset now) p =
     (case mt_reset p of
        Some tick \<Rightarrow>
          if mt_running p
          then p\<lparr>mt_reset := None, mt_period := tick, mt_start_packets := mt_packets p, mt_last_time := now\<rparr>
          else p
      | None \<Rightarrow> p)"
| "timeout_step (LoopTick now) p = (if mt_running p then timeout_tick now p else p)"

section \<open>Facts about the timeout\<close>

fun is_tick :: "media_event \<Rightarrow> bool" where
  "is_tick (LoopTick now) = True"
| "is_tick _ = False"

fun arms :: "media_event \<Rightarrow> bool" where
  "arms (CallEnable now enabled) = enabled"
| "arms (CallSetTimeout now initial general) = (0 < initial)"
| "arms _ = False"

lemma not_tick_frame:
  "\<not> is_tick e \<Longrightarrow> mt_fired (timeout_step e p) = mt_fired p
     \<and> mt_last_packets (timeout_step e p) = mt_last_packets p
     \<and> mt_packets (timeout_step e p) = mt_packets p + (if e = PacketReceived then 1 else 0)"
  by (cases e)
    (auto simp: EnableTimeout_def SetTimeout_def enableTimeout_def disableTimeout_def split: option.split)

lemma not_ticks_frame:
  "\<forall>e\<in>set es. \<not> is_tick e \<Longrightarrow> mt_fired (fold timeout_step es p) = mt_fired p
     \<and> mt_last_packets (fold timeout_step es p) = mt_last_packets p
     \<and> mt_packets (fold timeout_step es p) = mt_packets p + of_nat (count_if (\<lambda>e. e = PacketReceived) es)"
  by (induction es arbitrary: p) (auto simp: not_tick_frame)

lemma tick_sees_packets:
  "mt_packets p \<noteq> mt_last_packets p \<Longrightarrow>
     mt_fired (timeout_step (LoopTick now) p) = mt_fired p
     \<and> (mt_running p \<longrightarrow> mt_last_packets (timeout_step (LoopTick now) p) = mt_packets p)
     \<and> mt_packets (timeout_step (LoopTick now) p) = mt_packets p"
  by (simp add: timeout_tick_def)

text \<open>A loop that is not armed cannot fire, one that has fired or ended is over.\<close>

lemma fired_stays: "mt_fired p \<Longrightarrow> mt_fired (timeout_step e p)"
  by (cases e) (auto simp: EnableTimeout_def SetTimeout_def enableTimeout_def disableTimeout_def
      timeout_tick_def Let_def split: option.splits)

definition timeout_inv :: "media_timeout \<Rightarrow> bool" where
  "timeout_inv p \<longleftrightarrow> \<not> (mt_fired p \<and> mt_running p) \<and> 0 < mt_opt_initial p \<and> 0 < mt_opt_general p"

lemma timeout_inv_step: "timeout_inv p \<Longrightarrow> timeout_inv (timeout_step e p)"
  by (cases e) (auto simp: timeout_inv_def EnableTimeout_def SetTimeout_def enableTimeout_def
      disableTimeout_def timeout_tick_def Let_def split: option.splits)

interpretation media_timeout: event_system timeout_step timeout_inv
  by unfold_locales (rule timeout_inv_step)

definition disarmed :: "media_timeout \<Rightarrow> bool" where
  "disarmed p \<longleftrightarrow> mt_start p = None \<and> \<not> mt_fired p"

lemma disarmed_step: "disarmed p \<Longrightarrow> \<not> arms e \<Longrightarrow> disarmed (timeout_step e p)"
  by (cases e) (auto simp: disarmed_def EnableTimeout_def SetTimeout_def disableTimeout_def
      timeout_tick_def split: option.splits)

lemma disarmed_run: "disarmed p \<Longrightarrow> \<forall>e\<in>set es. \<not> arms e \<Longrightarrow> disarmed (fold timeout_step es p)"
  by (induction es arbitrary: p) (auto intro: disarmed_step)

section \<open>Reading RTP\<close>

record port_stats =
  ps_streams :: "64 word"
  ps_packets :: "64 word"
  ps_ignored :: "64 word"
  ps_input :: "64 word"

text \<open>
  One read: end of stream, an error, or a packet of some size, with the result of the handler
  where one is installed.
\<close>

datatype rtp_read = ReadEOF | ReadFailed go_error | ReadPacket nat "go_error option option"

datatype read_end = LoopReading nat | LoopEOF | LoopFailed | LoopKilled

definition maxErrors :: nat where
  "maxErrors = 50"

fun rtpReadLoop :: "nat \<Rightarrow> nat \<Rightarrow> rtp_read list \<Rightarrow> port_stats \<Rightarrow> port_stats \<times> read_end" where
  "rtpReadLoop mtu errorCnt [] st = (st, LoopReading errorCnt)"
| "rtpReadLoop mtu errorCnt (ReadEOF # rs) st = (st, LoopEOF)"
| "rtpReadLoop mtu errorCnt (ReadFailed e # rs) st = (st, LoopFailed)"
| "rtpReadLoop mtu errorCnt (ReadPacket n hnd # rs) st =
     (let st = st\<lparr>ps_packets := ps_packets st + 1\<rparr>
      in if mtu < n then rtpReadLoop mtu errorCnt rs (st\<lparr>ps_ignored := ps_ignored st + 1\<rparr>)
         else case hnd of
                None \<Rightarrow> rtpReadLoop mtu errorCnt rs (st\<lparr>ps_ignored := ps_ignored st + 1\<rparr>)
              | Some res \<Rightarrow>
                  (let st = st\<lparr>ps_input := ps_input st + 1\<rparr>
                   in case res of
                        None \<Rightarrow> rtpReadLoop mtu 0 rs st
                      | Some e \<Rightarrow>
                          if maxErrors \<le> errorCnt + 1 then (st, LoopKilled)
                          else rtpReadLoop mtu (errorCnt + 1) rs st))"

text \<open>The handler results of the packets that reach the handler.\<close>

definition handled :: "nat \<Rightarrow> rtp_read list \<Rightarrow> go_error option list" where
  "handled mtu rs = concat (map (\<lambda>r. case r of
     ReadPacket n (Some res) \<Rightarrow> (if mtu < n then [] else [res]) | _ \<Rightarrow> []) rs)"

lemma handled_simps [simp]:
  "handled mtu [] = []"
  "handled mtu (ReadEOF # rs) = handled mtu rs"
  "handled mtu (ReadFailed e # rs) = handled mtu rs"
  "handled mtu (ReadPacket n None # rs) = handled mtu rs"
  "handled mtu (ReadPacket n (Some res) # rs) = (if mtu < n then handled mtu rs else res # handled mtu rs)"
  by (simp_all add: handled_def)

lemma rtpReadLoop_counts:
  "ps_packets (fst (rtpReadLoop mtu k rs st)) - ps_packets st
     = (ps_ignored (fst (rtpReadLoop mtu k rs st)) - ps_ignored st)
       + (ps_input (fst (rtpReadLoop mtu k rs st)) - ps_input st)"
  by (induction mtu k rs st rule: rtpReadLoop.induct)
    (auto simp: Let_def algebra_simps split: option.split)

definition all_failed :: "nat \<Rightarrow> go_error option list \<Rightarrow> bool" where
  "all_failed n es \<longleftrightarrow> length es = n \<and> None \<notin> set es"

lemma rtpReadLoop_killed:
  "k < maxErrors \<Longrightarrow> snd (rtpReadLoop mtu k rs st) = LoopKilled \<Longrightarrow>
     (\<exists>es rest. handled mtu rs = es @ rest \<and> all_failed (maxErrors - k) es)
     \<or> (\<exists>ys es rest. handled mtu rs = ys @ es @ rest \<and> all_failed maxErrors es)"
proof (induction mtu k rs st rule: rtpReadLoop.induct)
  case (4 mtu k n hnd rs st)
  show ?case
  proof (cases "mtu < n \<or> hnd = None")
    case True
    with 4 show ?thesis by (cases hnd) (auto simp: Let_def split: if_splits)
  next
    case False
    then obtain res where res: "hnd = Some res" "\<not> mtu < n" by auto
    show ?thesis
    proof (cases res)
      case None
      with 4 res have "(\<exists>es rest. handled mtu rs = es @ rest \<and> all_failed (maxErrors - 0) es)
          \<or> (\<exists>ys es rest. handled mtu rs = ys @ es @ rest \<and> all_failed maxErrors es)"
        by (auto simp: Let_def maxErrors_def)
      then obtain ys es rest where "handled mtu rs = ys @ es @ rest" "all_failed maxErrors es"
        by (metis append_Nil diff_zero)
      with res None show ?thesis
        by (intro disjI2 exI [of _ "None # ys"] exI [of _ es] exI [of _ rest]) simp
    next
      case (Some e)
      show ?thesis
      proof (cases "maxErrors \<le> k + 1")
        case True
        with "4.prems"(1) have "maxErrors - k = 1" by simp
        with res Some show ?thesis
          by (intro disjI1 exI [of _ "[Some e]"] exI [of _ "handled mtu rs"]) (simp add: all_failed_def)
      next
        case False
        with 4 res Some have "(\<exists>es rest. handled mtu rs = es @ rest \<and> all_failed (maxErrors - (k + 1)) es)
            \<or> (\<exists>ys es rest. handled mtu rs = ys @ es @ rest \<and> all_failed maxErrors es)"
          by (auto simp: Let_def)
        then show ?thesis
        proof
          assume "\<exists>es rest. handled mtu rs = es @ rest \<and> all_failed (maxErrors - (k + 1)) es"
          then obtain es rest where "handled mtu rs = es @ rest" "all_failed (maxErrors - (k + 1)) es" by blast
          with res Some False show ?thesis
            by (intro disjI1 exI [of _ "Some e # es"] exI [of _ rest]) (auto simp: all_failed_def)
        next
          assume "\<exists>ys es rest. handled mtu rs = ys @ es @ rest \<and> all_failed maxErrors es"
          then obtain ys es rest where "handled mtu rs = ys @ es @ rest" "all_failed maxErrors es" by blast
          with res Some show ?thesis
            by (intro disjI2 exI [of _ "Some e # ys"] exI [of _ es] exI [of _ rest]) simp
        qed
      qed
    qed
  qed
qed simp_all

section \<open>The pipelines\<close>

text \<open>\<open>MediaConf\<close>: what was negotiated. A DTMF type 0 means there is no DTMF.\<close>

record media_conf =
  mc_remote :: addr_port
  mc_crypto :: bool
  mc_audio_type :: nat
  mc_audio_clock :: nat
  mc_audio_name :: string
  mc_dtmf_type :: nat
  mc_processor :: bool

text \<open>Actions on library objects: writers swapped and closed, the session and the connection.\<close>

datatype media_action =
    SwapAudioOut "bool option"
  | CloseOldAudioOut
  | SwapAudioIn bool
  | CloseOldAudioIn
  | CloseDtmfAudio
  | StartRtpLoop
  | CloseSession
  | CloseConn
  | CloseHandler

text \<open>
  The handler of incoming packets: routes by payload type, a default that only counts, and
  perhaps a jitter buffer before them.
\<close>

datatype route = RouteAudio string | RouteDTMF | RouteDefault

record media_handler =
  mh_routes :: "nat \<rightharpoonup> route"
  mh_jitter :: bool

record media_port =
  mp_closed :: bool
  mp_udp :: udp_conn
  mp_conf :: "media_conf option"
  mp_sess :: bool
  mp_hnd :: "media_handler option"
  mp_audio_out_rtp :: "(nat \<times> nat) option"
  mp_dtmf_out_rtp :: "(nat \<times> nat) option"
  mp_dtmf_out_audio :: bool
  mp_audio_in_handler :: bool
  mp_dtmf_in :: bool
  mp_dtmf_audio_enabled :: bool
  mp_jitter :: bool
  mp_out_enabled :: bool
  mp_received :: bool
  mp_actions :: "media_action list"

definition new_media_port :: "bool \<Rightarrow> media_port" where
  "new_media_port jitter =
     \<lparr>mp_closed = False, mp_udp = newUDPConn, mp_conf = None, mp_sess = False, mp_hnd = None,
      mp_audio_out_rtp = None, mp_dtmf_out_rtp = None, mp_dtmf_out_audio = False,
      mp_audio_in_handler = False, mp_dtmf_in = False, mp_dtmf_audio_enabled = False,
      mp_jitter = jitter, mp_out_enabled = True, mp_received = False, mp_actions = []\<rparr>"

text \<open>
  \<open>NewMediaPortWith\<close>: \<open>listen\<close> is the outcome of opening the UDP port. The port and its
  timeout are kept apart, the options the timeout needs being the two limits.
\<close>

record media_options =
  mo_initial :: duration
  mo_general :: duration
  mo_jitter :: bool

definition NewMediaPort ::
  "go_error option \<Rightarrow> media_options \<Rightarrow> go_error + media_port \<times> media_timeout" where
  "NewMediaPort listen opts =
     (case listen of
        Some e \<Rightarrow> Inl e
      | None \<Rightarrow> Inr (new_media_port (mo_jitter opts), new_media_timeout (mo_initial opts) (mo_general opts)))"

definition DisableOut :: "media_port \<Rightarrow> media_port" where
  "DisableOut p = p\<lparr>mp_out_enabled := False\<rparr>"

definition EnableOut :: "media_port \<Rightarrow> media_port" where
  "EnableOut p = p\<lparr>mp_out_enabled := True\<rparr>"

text \<open>
  Offers and answers are made by the SDP library: parsing, and answering an offer or applying
  an answer to ours, are arguments. Nothing is changed before \<open>SetConfig\<close>.
\<close>

definition SetOffer ::
  "(string \<Rightarrow> go_error + 'offer) \<Rightarrow> ('offer \<Rightarrow> 'enc \<Rightarrow> go_error + 'answer \<times> media_conf)
    \<Rightarrow> string \<Rightarrow> 'enc \<Rightarrow> go_error + 'answer \<times> media_conf" where
  "SetOffer parse_offer make_answer offerData enc =
     (case parse_offer offerData of
        Inl e \<Rightarrow> Inl e
      | Inr offer \<Rightarrow> make_answer offer enc)"

definition SetAnswer ::
  "(string \<Rightarrow> go_error + 'answer) \<Rightarrow> ('answer \<Rightarrow> 'offer \<Rightarrow> 'enc \<Rightarrow> go_error + media_conf)
    \<Rightarrow> 'offer \<Rightarrow> string \<Rightarrow> 'enc \<Rightarrow> go_error + media_conf" where
  "SetAnswer parse_answer apply_answer offer answerData enc =
     (case parse_answer answerData of
        Inl e \<Rightarrow> Inl e
      | Inr answer \<Rightarrow> apply_answer answer offer enc)"

text \<open>
  Accepting the streams of a session: each one is counted and marks the media as received; an
  error ends the loop. The result says whether the loop still runs.
\<close>

fun rtpLoop :: "(go_error option) list \<Rightarrow> port_stats \<times> media_port \<Rightarrow> (port_stats \<times> media_port) \<times> bool" where
  "rtpLoop [] sp = (sp, True)"
| "rtpLoop (Some err # streams) sp = (sp, False)"
| "rtpLoop (None # streams) (st, p) =
     rtpLoop streams (st\<lparr>ps_streams := ps_streams st + 1\<rparr>, p\<lparr>mp_received := True\<rparr>)"

definition act :: "media_action list \<Rightarrow> media_port \<Rightarrow> media_port" where
  "act as p = p\<lparr>mp_actions := mp_actions p @ as\<rparr>"

text \<open>\<open>old\<close> in the operations below: whether the swapped writer replaced another one.\<close>

definition media_Close :: "bool \<times> bool \<Rightarrow> media_port \<Rightarrow> media_port" where
  "media_Close old p =
     (if mp_closed p then p
      else
        let p = act ([SwapAudioOut None] @ (if fst old then [CloseOldAudioOut] else []) @
                     [SwapAudioIn False] @ (if snd old then [CloseOldAudioIn] else [])) p;
            p = p\<lparr>mp_audio_out_rtp := None, mp_audio_in_handler := False, mp_dtmf_out_rtp := None\<rparr>;
            p = (if mp_dtmf_out_audio p then (act [CloseDtmfAudio] p)\<lparr>mp_dtmf_out_audio := False\<rparr> else p);
            p = p\<lparr>mp_dtmf_in := False\<rparr>;
            p = (if mp_sess p then act [CloseSession] p else p);
            p = act [CloseConn] p;
            p = (if mp_hnd p \<noteq> None then act [CloseHandler] p else p)
        in p\<lparr>mp_closed := True\<rparr>)"

definition WriteAudioTo :: "bool \<Rightarrow> media_port \<Rightarrow> media_port outcome" where
  "WriteAudioTo old p =
     (case mp_conf p of
        None \<Rightarrow> Panics
      | Some conf \<Rightarrow> Returns (act ([SwapAudioIn True] @ (if old then [CloseOldAudioIn] else [])) p))"

text \<open>
  What the libraries answer while a configuration is applied: creating the session, opening
  its write stream, making the mixer for audible DTMF.
\<close>

record setup_env =
  se_session :: "go_error option"
  se_stream :: "go_error option"
  se_mixer :: "go_error option"
  se_old :: bool
  se_dtmf_rate :: nat

definition media_closed_error :: go_error where
  "media_closed_error = PlainErr ''media is already closed''"

definition setupOutput :: "setup_env \<Rightarrow> media_conf \<Rightarrow> media_port \<Rightarrow> media_port \<times> go_error option" where
  "setupOutput env conf p =
     (if mp_closed p then (p, Some media_closed_error)
      else
        let p = act [StartRtpLoop] p
        in case se_stream env of
             Some e \<Rightarrow> (p, Some e)
           | None \<Rightarrow>
               let p = p\<lparr>mp_audio_out_rtp := Some (mc_audio_type conf, mc_audio_clock conf)\<rparr>;
                   swap = (\<lambda>mixed. [SwapAudioOut (Some mixed)] @ (if se_old env then [CloseOldAudioOut] else []))
               in if mc_dtmf_type conf \<noteq> 0
                  then
                    let p = p\<lparr>mp_dtmf_out_rtp := Some (mc_dtmf_type conf, se_dtmf_rate env)\<rparr>
                    in if mp_dtmf_audio_enabled p
                       then (case se_mixer env of
                               Some e \<Rightarrow> (p, Some e)
                             | None \<Rightarrow> (act (swap True) (p\<lparr>mp_dtmf_out_audio := True\<rparr>), None))
                       else (act (swap False) p, None)
                  else (act (swap False) p, None))"

definition setupInput :: "media_conf \<Rightarrow> media_port \<Rightarrow> media_port" where
  "setupInput conf p =
     (let routes = Map.empty(mc_audio_type conf \<mapsto> RouteAudio (mc_audio_name conf));
          routes = (if mc_dtmf_type conf \<noteq> 0 then routes(mc_dtmf_type conf \<mapsto> RouteDTMF) else routes)
      in p\<lparr>mp_audio_in_handler := True,
           mp_hnd := Some \<lparr>mh_routes = routes, mh_jitter = mp_jitter p\<rparr>\<rparr>)"

definition SetConfig :: "setup_env \<Rightarrow> media_conf \<Rightarrow> media_port \<Rightarrow> media_port \<times> go_error option" where
  "SetConfig env conf p =
     (if mp_closed p then (p, Some media_closed_error)
      else
        let p = p\<lparr>mp_udp := SetDst (mc_remote conf) (mp_udp p)\<rparr>
        in case se_session env of
             Some e \<Rightarrow> (p, Some e)
           | None \<Rightarrow>
               (let p = p\<lparr>mp_udp := SetDst (mc_remote conf) (mp_udp p), mp_conf := Some conf, mp_sess := True\<rparr>
                in case setupOutput env conf p of
                     (p, Some e) \<Rightarrow> (p, Some e)
                   | (p, None) \<Rightarrow> (setupInput conf p, None)))"

text \<open>Where an incoming packet of a payload type goes; \<open>None\<close> without a handler.\<close>

definition route_of :: "nat \<Rightarrow> media_port \<Rightarrow> route option" where
  "route_of typ p =
     (case mp_hnd p of
        None \<Rightarrow> None
      | Some h \<Rightarrow> Some (case mh_routes h typ of None \<Rightarrow> RouteDefault | Some r \<Rightarrow> r))"

definition SetDTMFAudio :: "bool \<Rightarrow> media_port \<Rightarrow> media_port" where
  "SetDTMFAudio enabled p = p\<lparr>mp_dtmf_audio_enabled := enabled\<rparr>"

definition HandleDTMF :: "bool \<Rightarrow> media_port \<Rightarrow> media_port" where
  "HandleDTMF h p = p\<lparr>mp_dtmf_in := h\<rparr>"

text \<open>
  What \<open>WriteDTMF\<close> hands to the library: to the audio mixer, to the RTP stream, from which
  timestamp; \<open>None\<close> where nothing is written.
\<close>

record dtmf_write =
  dw_audio :: bool
  dw_rtp :: "(nat \<times> nat) option"
  dw_timestamp :: "32 word"
  dw_digits :: string

definition WriteDTMF :: "32 word \<Rightarrow> string \<Rightarrow> media_port \<Rightarrow> dtmf_write option" where
  "WriteDTMF current_ts digits p =
     (if digits = '''' then None
      else
        let audioOut = (mp_dtmf_out_audio p \<and> mp_dtmf_audio_enabled p)
        in if mp_dtmf_out_rtp p = None \<and> \<not> audioOut then None
           else Some \<lparr>dw_audio = audioOut, dw_rtp = mp_dtmf_out_rtp p,
                      dw_timestamp = (if mp_audio_out_rtp p \<noteq> None then current_ts else 0),
                      dw_digits = digits\<rparr>)"

subsection \<open>Facts about the pipelines\<close>

interpretation media_close: once_op mp_closed media_Close
  by unfold_locales (simp_all add: media_Close_def Let_def)

datatype media_op =
    OpSetConfig setup_env media_conf
  | OpClose "bool \<times> bool"
  | OpSetDTMFAudio bool
  | OpHandleDTMF bool

fun media_step :: "media_op \<Rightarrow> media_port \<Rightarrow> media_port" where
  "media_step (OpSetConfig env conf) p = fst (SetConfig env conf p)"
| "media_step (OpClose old) p = media_Close old p"
| "media_step (OpSetDTMFAudio b) p = SetDTMFAudio b p"
| "media_step (OpHandleDTMF h) p = HandleDTMF h p"

definition media_ok :: "media_port \<Rightarrow> bool" where
  "media_ok p \<longleftrightarrow>
     (mp_closed p \<longrightarrow> mp_dtmf_out_rtp p = None \<and> \<not> mp_dtmf_out_audio p \<and> mp_audio_out_rtp p = None) \<and>
     (mp_dtmf_out_audio p \<longrightarrow> mp_dtmf_out_rtp p \<noteq> None) \<and>
     (\<forall>t r. mp_dtmf_out_rtp p = Some (t, r) \<longrightarrow> t \<noteq> 0) \<and>
     (mp_hnd p \<noteq> None \<longrightarrow> mp_sess p)"

lemma act_simps [simp]:
  "mp_closed (act as p) = mp_closed p" "mp_dtmf_out_rtp (act as p) = mp_dtmf_out_rtp p"
  "mp_dtmf_out_audio (act as p) = mp_dtmf_out_audio p" "mp_audio_out_rtp (act as p) = mp_audio_out_rtp p"
  "mp_hnd (act as p) = mp_hnd p" "mp_sess (act as p) = mp_sess p" "mp_conf (act as p) = mp_conf p"
  "mp_actions (act as p) = mp_actions p @ as" "mp_dtmf_audio_enabled (act as p) = mp_dtmf_audio_enabled p"
  by (simp_all add: act_def)

lemma media_Close_ok: "media_ok p \<Longrightarrow> media_ok (media_Close old p)"
  by (auto simp: media_ok_def media_Close_def Let_def)

lemma setupOutput_ok:
  assumes "media_ok p" and "setupOutput env conf p = (p', err)"
  shows "media_ok p' \<and> mp_sess p' = mp_sess p \<and> mp_hnd p' = mp_hnd p"
proof (cases "mp_closed p \<or> se_stream env \<noteq> None")
  case True
  then show ?thesis
  proof (cases "mp_closed p")
    case True
    with assms show ?thesis by (simp add: setupOutput_def)
  next
    case False
    with True obtain e where "se_stream env = Some e" by auto
    with False assms show ?thesis by (auto simp: setupOutput_def media_ok_def Let_def)
  qed
next
  case False
  with assms show ?thesis
    by (cases "mc_dtmf_type conf = 0"; cases "mp_dtmf_audio_enabled p"; cases "se_mixer env")
      (auto simp: setupOutput_def media_ok_def Let_def)
qed

lemma SetConfig_ok: "media_ok p \<Longrightarrow> media_ok (fst (SetConfig env conf p))"
proof (cases "mp_closed p \<or> se_session env \<noteq> None")
  case True
  moreover assume "media_ok p"
  ultimately show ?thesis by (cases "mp_closed p") (auto simp: SetConfig_def media_ok_def Let_def)
next
  case False
  assume ok: "media_ok p"
  define q where "q = p\<lparr>mp_udp := SetDst (mc_remote conf) (SetDst (mc_remote conf) (mp_udp p)),
    mp_conf := Some conf, mp_sess := True\<rparr>"
  obtain p' err where out: "setupOutput env conf q = (p', err)" by fastforce
  have "media_ok q" using ok by (simp add: q_def media_ok_def)
  from setupOutput_ok [OF this out] have p': "media_ok p'" "mp_sess p'" by (simp_all add: q_def)
  then have "media_ok (setupInput conf p')" by (simp add: media_ok_def setupInput_def Let_def)
  with p' False out show ?thesis by (auto simp: SetConfig_def q_def split: option.split)
qed

lemma media_step_ok: "media_ok p \<Longrightarrow> media_ok (media_step op p)"
proof (cases op)
  case (OpSetConfig env conf)
  assume "media_ok p"
  with OpSetConfig show ?thesis by (simp add: SetConfig_ok)
next
  case (OpClose old)
  assume "media_ok p"
  with OpClose show ?thesis by (simp add: media_Close_ok)
qed (simp_all add: SetDTMFAudio_def HandleDTMF_def media_ok_def)

interpretation media_pipes: event_system media_step media_ok
  by unfold_locales (rule media_step_ok)

lemma closed_stays: "mp_closed p \<Longrightarrow> mp_closed (media_step op p)"
  by (cases op) (auto simp: SetConfig_def media_Close_def SetDTMFAudio_def HandleDTMF_def)

lemma closed_stays_run: "mp_closed p \<Longrightarrow> mp_closed (fold media_step ops p)"
  by (induction ops arbitrary: p) (auto intro: closed_stays)

section \<open>Properties\<close>

lemma silent_tick:
  assumes "mt_running p" "mt_packets p = mt_last_packets p" "mt_start p = Some t0"
  shows "timeout_step (LoopTick t) p =
    (if (if mt_last_packets p = mt_start_packets p then mt_initial p \<le> t - t0 else mt_general p \<le> t - mt_last_time p)
     then p\<lparr>mt_fired := True, mt_running := False\<rparr> else p)"
  using assms by (simp add: timeout_tick_def Let_def)

lemma running_back: "mt_running (timeout_step e p) \<Longrightarrow> mt_running p"
  by (cases e) (auto simp: EnableTimeout_def SetTimeout_def enableTimeout_def disableTimeout_def
      timeout_tick_def Let_def split: option.splits if_splits)

lemma running_back_run: "mt_running (fold timeout_step es p) \<Longrightarrow> mt_running p"
proof (induction es arbitrary: p)
  case (Cons e es)
  then have "mt_running (timeout_step e p)" by simp
  then show ?case by (rule running_back)
qed simp

lemma ticks_after_fired: "mt_fired p \<Longrightarrow> mt_fired (fold timeout_step es p)"
  by (induction es arbitrary: p) (simp_all add: fired_stays)

text \<open>
  C37. While no packet comes, an armed port times out at the first tick of the loop at which the
  limit has passed, and not before: the initial limit, counted from when it was armed, as long as no
  packet has come since the ticker was reset, and the general limit, counted from the last
  noticed change, afterwards.
\<close>

theorem silence_times_out:
  assumes "mt_running p" and "\<not> mt_fired p" and "mt_packets p = mt_last_packets p" and "mt_start p = Some t0"
  shows "mt_fired (fold timeout_step (map LoopTick ts) p) \<longleftrightarrow>
           (\<exists>t\<in>set ts. if mt_last_packets p = mt_start_packets p then mt_initial p \<le> t - t0
                       else mt_general p \<le> t - mt_last_time p)"
  using assms
proof (induction ts)
  case Nil
  then show ?case by simp
next
  case (Cons t ts)
  show ?case
  proof (cases "if mt_last_packets p = mt_start_packets p then mt_initial p \<le> t - t0
                else mt_general p \<le> t - mt_last_time p")
    case True
    then have "mt_fired (fold timeout_step (map LoopTick (t # ts)) p)"
      using silent_tick [OF Cons.prems(1,3,4)] by (simp add: ticks_after_fired)
    with True show ?thesis by auto
  next
    case False
    then have "fold timeout_step (map LoopTick (t # ts)) p = fold timeout_step (map LoopTick ts) p"
      using silent_tick [OF Cons.prems(1,3,4)] by simp
    with False Cons show ?thesis by simp
  qed
qed

theorem silence_times_out_witness:
  "mt_fired (fold timeout_step (map LoopTick [15 * Second, 30 * Second])
     (fold timeout_step [CallEnable 0 True, LoopReset 0] (new_media_timeout 0 0)))"
proof -
  let ?p = "fold timeout_step [CallEnable 0 True, LoopReset 0] (new_media_timeout 0 0)"
  have "mt_running ?p \<and> \<not> mt_fired ?p \<and> mt_packets ?p = mt_last_packets ?p \<and> mt_start ?p = Some 0
    \<and> mt_last_packets ?p = mt_start_packets ?p \<and> mt_initial ?p = 30 * Second"
    by (simp add: new_media_timeout_def EnableTimeout_def enableTimeout_def defaultMediaTimeoutInitial_def Let_def)
  then show ?thesis using silence_times_out [of ?p 0 "[15 * Second, 30 * Second]"] by simp
qed

text \<open>
  A call whose media flows never times out: if at least one packet comes between any two
  ticks of the loop (and not a multiple of 2^64 of them), the timeout does not fire, whatever
  the limits and whatever else is done to the port.
\<close>

theorem flowing_media_never_times_out:
  assumes "\<forall>r\<in>set rounds. (\<forall>e\<in>set (fst r). \<not> is_tick e)
             \<and> 0 < count_if (\<lambda>e. e = PacketReceived) (fst r) \<and> count_if (\<lambda>e. e = PacketReceived) (fst r) < 2 ^ 64"
  shows "\<not> mt_fired (fold timeout_step (concat (map (\<lambda>(es, t). es @ [LoopTick t]) rounds)) (new_media_timeout i g))"
proof -
  have round: "\<not> mt_fired (timeout_step (LoopTick t) (fold timeout_step es p))
      \<and> (let q = timeout_step (LoopTick t) (fold timeout_step es p)
         in mt_running q \<longrightarrow> mt_packets q = mt_last_packets q)"
    if es: "\<forall>e\<in>set es. \<not> is_tick e" "0 < count_if (\<lambda>e. e = PacketReceived) es"
      "count_if (\<lambda>e. e = PacketReceived) es < 2 ^ 64"
      and p: "\<not> mt_fired p" "mt_running p \<longrightarrow> mt_packets p = mt_last_packets p" for es t p
  proof (cases "mt_running (fold timeout_step es p)")
    case False
    then show ?thesis using not_ticks_frame [OF es(1), of p] p(1) by (simp add: Let_def)
  next
    case True
    with p(2) have "mt_packets p = mt_last_packets p" using running_back_run by blast
    moreover have "(of_nat (count_if (\<lambda>e. e = PacketReceived) es) :: 64 word) \<noteq> 0"
    proof
      assume "(of_nat (count_if (\<lambda>e. e = PacketReceived) es) :: 64 word) = 0"
      then have "2 ^ 64 dvd count_if (\<lambda>e. e = PacketReceived) es"
        by (simp only: word_of_nat_eq_0_iff len_num1 len_num0 len_bit0) simp
      with es(2) have "2 ^ 64 \<le> count_if (\<lambda>e. e = PacketReceived) es" by (intro dvd_imp_le)
      with es(3) show False by simp
    qed
    ultimately have "mt_packets (fold timeout_step es p) \<noteq> mt_last_packets (fold timeout_step es p)"
      using not_ticks_frame [OF es(1), of p] by simp
    from tick_sees_packets [OF this, of t] True not_ticks_frame [OF es(1), of p] p(1)
    show ?thesis by (simp add: Let_def)
  qed
  have "\<not> mt_fired (fold timeout_step (concat (map (\<lambda>(es, t). es @ [LoopTick t]) rounds)) p)"
    if "\<not> mt_fired p" "mt_running p \<longrightarrow> mt_packets p = mt_last_packets p" for p
    using assms that
  proof (induction rounds arbitrary: p)
    case (Cons r rounds)
    obtain es t where r: "r = (es, t)" by (cases r)
    let ?q = "timeout_step (LoopTick t) (fold timeout_step es p)"
    have "\<not> mt_fired ?q \<and> (mt_running ?q \<longrightarrow> mt_packets ?q = mt_last_packets ?q)"
      using round [of es p t] Cons.prems r by (simp add: Let_def)
    with Cons r show ?case by simp
  qed simp
  then show ?thesis by (simp add: new_media_timeout_def Let_def)
qed

theorem flowing_media_never_times_out_witness:
  "\<not> mt_fired (fold timeout_step (concat (map (\<lambda>(es, t). es @ [LoopTick t])
      [([CallEnable 0 True, PacketReceived], 40 * Second), ([LoopReset (41 * Second), PacketReceived], 90 * Second)]))
      (new_media_timeout 0 0))"
  by (rule flowing_media_never_times_out) simp

text \<open>
  A port that was never armed, or was disarmed and not armed again, does not time out.
\<close>

theorem unarmed_never_times_out:
  assumes "\<forall>e\<in>set es. \<not> arms e"
  shows "\<not> mt_fired (fold timeout_step es (new_media_timeout i g))
     \<and> (\<not> mt_fired p \<longrightarrow> \<not> mt_fired (fold timeout_step es (timeout_step (CallEnable now False) p)))"
proof -
  have "disarmed (new_media_timeout i g)" by (simp add: disarmed_def new_media_timeout_def Let_def)
  from disarmed_run [OF this assms] have "\<not> mt_fired (fold timeout_step es (new_media_timeout i g))"
    by (simp add: disarmed_def)
  moreover have "\<not> mt_fired (fold timeout_step es (timeout_step (CallEnable now False) p))" if "\<not> mt_fired p"
  proof -
    have "disarmed (timeout_step (CallEnable now False) p)"
      using that by (simp add: disarmed_def EnableTimeout_def disableTimeout_def)
    from disarmed_run [OF this assms] show ?thesis by (simp add: disarmed_def)
  qed
  ultimately show ?thesis by blast
qed

theorem unarmed_never_times_out_witness:
  "\<not> mt_fired (fold timeout_step [LoopTick (60 * Second), LoopTick (90 * Second)] (new_media_timeout 0 0))"
  using unarmed_never_times_out [of "[LoopTick (60 * Second), LoopTick (90 * Second)]" 0 0] by simp

text \<open>
  Reading RTP counts every packet as ignored or as passed on (modulo 2^64), and gives up
  on a stream only after 50 packets passed on in a row that the handler failed on.
\<close>

theorem rtp_read_accounting:
  "ps_packets (fst (rtpReadLoop mtu 0 rs st)) - ps_packets st
     = (ps_ignored (fst (rtpReadLoop mtu 0 rs st)) - ps_ignored st)
       + (ps_input (fst (rtpReadLoop mtu 0 rs st)) - ps_input st)
   \<and> (snd (rtpReadLoop mtu 0 rs st) = LoopKilled \<longrightarrow>
        (\<exists>ys es rest. handled mtu rs = ys @ es @ rest \<and> length es = 50 \<and> None \<notin> set es))"
proof -
  have "\<exists>ys es rest. handled mtu rs = ys @ es @ rest \<and> all_failed maxErrors es"
    if "snd (rtpReadLoop mtu 0 rs st) = LoopKilled"
    using rtpReadLoop_killed [of 0 mtu rs st] that by (auto simp: maxErrors_def) (metis append_Nil)
  then show ?thesis using rtpReadLoop_counts by (auto simp: all_failed_def maxErrors_def)
qed

theorem rtp_read_accounting_witness:
  "snd (rtpReadLoop 1500 0 [ReadPacket 100 (Some (Some (PlainErr ''x''))), ReadPacket 2000 None, ReadEOF]
     \<lparr>ps_streams = 0, ps_packets = 0, ps_ignored = 0, ps_input = 0\<rparr>) \<noteq> LoopKilled"
  using rtp_read_accounting [of 1500 "[ReadPacket 100 (Some (Some (PlainErr ''x''))), ReadPacket 2000 None, ReadEOF]"
      "\<lparr>ps_streams = 0, ps_packets = 0, ps_ignored = 0, ps_input = 0\<rparr>"]
  by (auto dest!: arg_cong [where f = length])

text \<open>
  Closing releases the port once: a second close does nothing, and whatever is done after
  it, no configuration is applied any more and no DTMF is written.
\<close>

theorem closed_media_stays_closed:
  assumes "media_ok p" and "q = fold media_step ops (media_Close old p)"
  shows "mp_closed q \<and> media_Close old2 q = q \<and> WriteDTMF ts digits q = None
     \<and> SetConfig env conf q = (q, Some media_closed_error)"
proof -
  have c: "mp_closed q"
    unfolding assms(2) by (rule closed_stays_run) (rule media_close.fire_marks)
  have "media_ok (media_Close old p)" using media_Close_ok [OF assms(1)] .
  then have "media_ok q" unfolding assms(2) by (rule media_pipes.run_inv)
  with c show ?thesis
    by (auto simp: media_ok_def WriteDTMF_def SetConfig_def media_close.fire_skips Let_def)
qed

theorem closed_media_stays_closed_witness:
  "WriteDTMF 7 ''1#'' (fold media_step [OpSetDTMFAudio True] (media_Close (True, False) (new_media_port True))) = None"
proof -
  have "media_ok (new_media_port True)" by (simp add: new_media_port_def media_ok_def)
  from closed_media_stays_closed [OF this refl] show ?thesis by blast
qed

end
