(* ===== verification/Call_Parts.thy ===== *)
theory Call_Parts
  imports Call_Monitor Room Media_Port
begin

text \<open>
  What inbound and outbound calls share: the events the media port and the room raise by
  themselves, and how the parts of a call (metrics, state, media, room) behave under the
  operations both kinds of call use.
\<close>

fun own_media_event :: "media_event \<Rightarrow> bool" where
  "own_media_event PacketReceived = True"
| "own_media_event LoopClosed = True"
| "own_media_event (LoopReset now) = True"
| "own_media_event (LoopTick now) = True"
| "own_media_event _ = False"

fun remote_room_event :: "room_event \<Rightarrow> bool" where
  "remote_room_event (RemoteJoined rp) = True"
| "remote_room_event (RemotePublished pub) = True"
| "remote_room_event (TrackSubscribed name) = True"
| "remote_room_event (RemoteDTMF digit) = True"
| "remote_room_event RoomDisconnected = True"
| "remote_room_event _ = False"

lemma CallTerminate_marks [simp]:
  "cm_terminated (fst (CallTerminate reason cm))" "cm_started (fst (CallTerminate reason cm)) = cm_started (fst cm)"
  by (auto simp: CallTerminate_def split: prod.split)

lemma media_Close_closed [simp]:
  "case m of None \<Rightarrow> True | Some x \<Rightarrow> (mp_closed \<circ> media_Close old) x"
  by (cases m) (simp_all add: media_close.fire_marks)

lemma room_remote_closed: "unjoined_closed r \<Longrightarrow> unjoined_closed (room_step ev r)"
  using unjoined_closed_step by blast

lemma SendData_closed: "unjoined_closed r \<Longrightarrow> SendData d r = Returns r' \<Longrightarrow> r' = r"
  by (simp add: SendData_def unjoined_closed_def)

lemma unjoined_act [simp]: "unjoined_closed (room_act as r) = unjoined_closed r"
  "unjoined_closed (SwapOutput w r) = unjoined_closed r"
  by (simp_all add: unjoined_closed_def SwapOutput_def)

lemma room_step_remote:
  "remote_room_event ev \<Longrightarrow> rm_joined (room_step ev r) = rm_joined r \<and> rm_p (room_step ev r) = rm_p r"
  by (cases ev) (auto simp: participantJoin_def subscribeTo_def sendDTMF_def split: option.splits)

lemma SendData_frame:
  "SendData d r = Returns r' \<Longrightarrow> rm_joined r' = rm_joined r \<and> rm_p r' = rm_p r
     \<and> unjoined_closed r' = unjoined_closed r"
  by (auto simp: SendData_def split: if_splits)

lemma EndTransfer_info: "EndTransfer now ok tid e st = Returns st' \<Longrightarrow> cs_info st' = cs_info st"
  by (auto simp: EndTransfer_def Let_def split: option.splits if_splits)

lemma StartTransfer_info: "StartTransfer tid now ok to st = Returns (st', t) \<Longrightarrow> cs_info st' = cs_info st"
  by (auto simp: StartTransfer_def Let_def split: if_splits)

lemma SwapOutput_frame [simp]:
  "rm_joined (SwapOutput w r) = rm_joined r" "rm_p (SwapOutput w r) = rm_p r"
  by (simp_all add: SwapOutput_def)

lemma media_Close_enabled [simp]: "mp_out_enabled (media_Close old m) = mp_out_enabled m"
  by (simp add: media_Close_def Let_def act_def)

lemma SetConfig_enabled: "mp_out_enabled (fst (SetConfig env conf p)) = mp_out_enabled p"
  by (auto simp: SetConfig_def setupOutput_def setupInput_def act_def Let_def split: option.split)

lemma NewMediaPort_ok: "NewMediaPort l opts = Inr (mp, mt) \<Longrightarrow> mp = new_media_port (mo_jitter opts)"
  by (auto simp: NewMediaPort_def split: option.splits)

lemma Connect_name:
  "Connect keys conf sign join rconf r = (r', err) \<Longrightarrow> pi_room_name (rm_p r') = rc_room_name rconf"
  by (auto simp: Connect_def Let_def split: sum.splits if_splits prod.splits)

lemma NewParticipantTrack_frame:
  "NewParticipantTrack te r = Returns (r', err) \<Longrightarrow> rm_joined r' = rm_joined r \<and> rm_p r' = rm_p r"
  by (auto simp: NewParticipantTrack_def split: option.splits if_splits)

lemma Subscribe_frame: "rm_joined (Subscribe rs r) = rm_joined r \<and> rm_p (Subscribe rs r) = rm_p r"
proof -
  have t: "rm_joined (fold subscribeTo ts r) = rm_joined r \<and> rm_p (fold subscribeTo ts r) = rm_p r" for ts r
    by (induction ts arbitrary: r) (simp_all add: subscribeTo_def split: option.split)
  have "rm_joined (fold (\<lambda>rp r. fold subscribeTo (rp_tracks rp) (participantJoin rp r)) rs r) = rm_joined r
      \<and> rm_p (fold (\<lambda>rp r. fold subscribeTo (rp_tracks rp) (participantJoin rp r)) rs r) = rm_p r" for r
    by (induction rs arbitrary: r) (simp_all add: t participantJoin_def)
  then show ?thesis by (simp add: Subscribe_def)
qed

lemma WriteAudioTo_enabled: "WriteAudioTo old m = Returns m' \<Longrightarrow> mp_out_enabled m' = mp_out_enabled m"
  by (auto simp: WriteAudioTo_def act_def split: option.splits)

end
