(* ===== verification/Outbound_Call.thy ===== *)
theory Outbound_Call
  imports Outbound_Leg Call_Parts
begin

text \<open>
  An outbound call (\<open>outboundCall\<close> in \<open>pkg/sip/outbound.go\<close>): made with a room joined, dialled,
  then watched until it ends. The goroutine that dials and waits is a program counter moved
  from one waiting point to the next; requests of the remote, the room, the media, transfers
  and the shutdown of the client are events of their own, so every interleaving is a run.
\<close>

section \<open>State\<close>

record out_conf =
  of_address :: string
  of_transport :: sip_transport
  of_host :: string
  of_from :: string
  of_to :: string
  of_user :: string
  of_pass :: string
  of_dtmf :: string
  of_dialtone :: bool
  of_headers :: "(string \<times> string) list"
  of_include_headers :: header_options
  of_headers_to_attrs :: "(string \<times> string) list"
  of_attrs_to_headers :: "(string \<times> string) list"
  of_ringing_timeout :: duration
  of_max_call_duration :: duration
  of_features :: "string list"
  of_encryption :: sdp_encryption
  of_display_name :: "string option"

datatype ocall_act =
    OSetCallStatus string
  | OPlayDialtone
  | OInitialDTMF dtmf_write
  | ORegisterTransfer string
  | ODeregisterTransfer string
  | OHangupAfterTransfer
  | OSessionEnd string

text \<open>
  Where the goroutine is: about to dial; to send the INVITE, to give up on it, to use its
  answer, to acknowledge it, to start the media, or to close the call as something failed
  (these six hold the mutex of the call); to report the call active; at the end of \<open>Dial\<close>; in
  the loop of \<open>WaitClose\<close>, at its end; or over.
\<close>

datatype ocall_pc =
    ODial
  | OInvite
  | ORefused go_error
  | OAnswer string string
  | OConfirm string
  | OAnswered string
  | OFail go_error
  | OActive
  | ODone "go_error option"
  | OWait
  | OLeave "go_error option"
  | OExit "go_error option"

text \<open>Why another goroutine is about to close the call: a BYE, the shutdown, a transfer done.\<close>

datatype close_cause = CByBye | CByStop | CByTransfer

text \<open>
  \<open>oc_media\<close> and \<open>oc_room\<close> are \<open>None\<close> where the pointer is nil; \<open>oc_room_in\<close> says whether our
  track is there. \<open>oc_sync\<close>: \<open>createSIPParticipant\<close> waits for the answer; \<open>oc_reply\<close>: the
  result it has still to report; \<open>oc_closers\<close>: the other goroutines about to close the call.
  \<open>oc_active\<close> and \<open>oc_by_remote\<close> are the tables of the client.
\<close>

record ocall =
  oc_leg :: sip_outbound
  oc_cmon :: call_monitor
  oc_monitor :: monitor
  oc_state :: CallState
  oc_media :: "media_port option"
  oc_timeout :: media_timeout
  oc_room :: "room option"
  oc_room_in :: bool
  oc_conf :: out_conf
  oc_started :: bool
  oc_stopped :: bool
  oc_jitter :: bool
  oc_project_id :: string
  oc_sync :: bool
  oc_reply :: "go_error option option"
  oc_closers :: "close_cause list"
  oc_pending :: "(string \<times> bool option) list"
  oc_active :: "string \<rightharpoonup> string"
  oc_by_remote :: "string \<rightharpoonup> string"
  oc_log :: "ocall_act list"
  oc_pc :: ocall_pc

text \<open>
  The surroundings of a step: those of the leg (less the header callback), what a BYE of ours
  meets, what swapping writers returned, the time, the outcome of the state RPC, the room's
  identifier and our participant in it, the order a map of headers is visited in, and the names
  of attributes.
\<close>

record ocall_env =
  oe_leg :: out_env
  oe_conf :: config
  oe_tx :: "go_error option \<times> resp_event list"
  oe_old :: "bool \<times> bool"
  oe_room_old :: bool
  oe_now :: int
  oe_flush_ok :: bool
  oe_room_sid :: string
  oe_identity :: string
  oe_room_attrs :: "string \<rightharpoonup> string"
  oe_visit :: "(string \<rightharpoonup> string) option \<Rightarrow> (string \<times> string) list"
  oe_pre :: string
  oe_hpre :: string
  oe_keys :: "string list"
  oe_status_attr :: string
  oe_call_id_attr :: string

definition olog :: "ocall_act \<Rightarrow> ocall \<Rightarrow> ocall" where
  "olog a s = s\<lparr>oc_log := oc_log s @ [a]\<rparr>"

definition on_omon :: "(call_monitor \<times> monitor \<Rightarrow> call_monitor \<times> monitor) \<Rightarrow> ocall \<Rightarrow> ocall" where
  "on_omon f s = (case f (oc_cmon s, oc_monitor s) of (c, m) \<Rightarrow> s\<lparr>oc_cmon := c, oc_monitor := m\<rparr>)"

definition ogoto :: "ocall_pc \<Rightarrow> ocall \<Rightarrow> ocall" where
  "ogoto pc s = s\<lparr>oc_pc := pc\<rparr>"

text \<open>Whether our participant is in the room: \<open>lkRoom.Room()\<close> is not nil.\<close>

definition joined_room :: "ocall \<Rightarrow> room option" where
  "joined_room s = (case oc_room s of None \<Rightarrow> None | Some r \<Rightarrow> if rm_joined r then Some r else None)"

definition out_view :: "sip_outbound \<Rightarrow> signaling_view" where
  "out_view l = \<lparr>sv_remote_headers = out_RemoteHeaders l, sv_tag = so_tag l, sv_call_id = so_call_id l\<rparr>"

text \<open>The header callback given to the leg.\<close>

definition ocall_headers :: "ocall_env \<Rightarrow> ocall \<Rightarrow> (string \<times> string) list \<Rightarrow> (string \<times> string) list" where
  "ocall_headers env s headers =
     (if of_attrs_to_headers (oc_conf s) = [] then headers
      else case joined_room s of
             None \<Rightarrow> headers
           | Some r \<Rightarrow> oe_visit env (AttrsToHeaders (oe_room_attrs env) (of_attrs_to_headers (oc_conf s))
                                      (Some (map_of headers))))"

definition out_env_of :: "ocall_env \<Rightarrow> ocall \<Rightarrow> out_env" where
  "out_env_of env s = (oe_leg env)\<lparr>oe_headers := Some (ocall_headers env s)\<rparr>"

section \<open>Reporting\<close>

definition oc_setStatus :: "call_status \<Rightarrow> ocall \<Rightarrow> ocall" where
  "oc_setStatus v s =
     (let attr = Attribute v
      in if attr = '''' then s
         else case joined_room s of None \<Rightarrow> s | Some r \<Rightarrow> olog (OSetCallStatus attr) s)"

definition setExtraAttrs ::
  "ocall_env \<Rightarrow> (string \<times> string) list \<Rightarrow> header_options \<Rightarrow> signaling_view option \<Rightarrow> sip_header list \<Rightarrow> ocall \<Rightarrow> ocall" where
  "setExtraAttrs env hdrToAttr opts cc hdrs s =
     (let extra = HeadersToAttrs (oe_pre env) (oe_hpre env) None hdrToAttr opts cc hdrs
      in case joined_room s of
           None \<Rightarrow> s
         | Some r \<Rightarrow> if extra = Map.empty then s else s\<lparr>oc_room := Some (room_act [SetAttributes extra] r)\<rparr>)"

definition closed_info :: "ocall_env \<Rightarrow> ocall \<Rightarrow> sip_call_info \<Rightarrow> sip_call_info" where
  "closed_info env s info =
     (let info = info\<lparr>ci_status := (if ci_error info \<noteq> None then SCS_ERROR else SCS_DISCONNECTED)\<rparr>;
          info = (case joined_room s of
                    None \<Rightarrow> info
                  | Some r \<Rightarrow> info\<lparr>ci_participant_identity := oe_identity env,
                                   ci_participant_attributes := oe_room_attrs env\<rparr>)
      in info\<lparr>ci_ended_at := oe_now env\<rparr>)"

definition ensureClosed :: "ocall_env \<Rightarrow> ocall \<Rightarrow> ocall" where
  "ensureClosed env s = s\<lparr>oc_state := Update (oe_flush_ok env) (closed_info env s) (oc_state s)\<rparr>"

definition setErrStatus :: "ocall_env \<Rightarrow> go_error option \<Rightarrow> ocall \<Rightarrow> ocall" where
  "setErrStatus env err s =
     (case err of
        None \<Rightarrow> s
      | Some e \<Rightarrow>
          s\<lparr>oc_state := Update (oe_flush_ok env) (\<lambda>info.
              if ci_error info \<noteq> None then info
              else info\<lparr>ci_error := Some e, ci_status := SCS_ERROR\<rparr>) (oc_state s)\<rparr>)"

section \<open>Closing\<close>

definition stopSIP :: "ocall_env \<Rightarrow> string \<Rightarrow> ocall \<Rightarrow> ocall outcome" where
  "stopSIP env reason s =
     (let s = on_omon (CallTerminate reason) s
      in bind_outcome (out_Close (out_env_of env s) (oe_tx env) (oc_leg s)) (\<lambda>leg.
           Returns (s\<lparr>oc_leg := leg\<rparr>)))"

text \<open>\<open>close\<close>: the media port is used without a check, the room is not.\<close>

definition oc_close ::
  "ocall_env \<Rightarrow> go_error option \<Rightarrow> call_status \<Rightarrow> string \<Rightarrow> disconnect_reason \<Rightarrow> ocall \<Rightarrow> ocall outcome" where
  "oc_close env err status description reason s =
     (if oc_stopped s then Returns s
      else
        let s = s\<lparr>oc_stopped := True\<rparr>;
            s = oc_setStatus status s;
            s = s\<lparr>oc_state := Update (oe_flush_ok env) (\<lambda>info.
                  let info = (if err \<noteq> None \<and> ci_error info = None
                              then info\<lparr>ci_error := err, ci_status := SCS_ERROR\<rparr> else info)
                  in info\<lparr>ci_disconnect_reason := reason\<rparr>) (oc_state s)\<rparr>
        in case oc_media s of
             None \<Rightarrow> Panics
           | Some m \<Rightarrow>
               (let s = s\<lparr>oc_media := Some (media_Close (oe_old env) m),
                          oc_timeout := timeout_step CallClose (oc_timeout s),
                          oc_room := map_option
                            (\<lambda>r. CloseWithReason False (DisconnectReason status) (CloseOutput (oe_room_old env) r)) (oc_room s),
                          oc_room_in := False\<rparr>
                in bind_outcome (stopSIP env description s) (\<lambda>s.
                   let s = s\<lparr>oc_active := (oc_active s)(so_id (oc_leg s) := None)\<rparr>;
                       tag = so_tag (oc_leg s);
                       s = (if tag \<noteq> '''' then s\<lparr>oc_by_remote := (oc_by_remote s)(tag := None)\<rparr> else s);
                       s = olog (ODeregisterTransfer (so_id (oc_leg s))) s
                   in Returns (olog (OSessionEnd description) s))))"

definition oc_CloseWithReason ::
  "ocall_env \<Rightarrow> call_status \<Rightarrow> string \<Rightarrow> disconnect_reason \<Rightarrow> ocall \<Rightarrow> ocall outcome" where
  "oc_CloseWithReason env status description reason s = oc_close env None status description reason s"

definition oc_Close :: "ocall_env \<Rightarrow> ocall \<Rightarrow> ocall outcome" where
  "oc_Close env s = oc_close env None callDropped ''shutdown'' SERVER_SHUTDOWN s"

definition oc_closeWithTimeout :: "ocall_env \<Rightarrow> ocall \<Rightarrow> ocall outcome" where
  "oc_closeWithTimeout env s =
     oc_close env (Some (PsrpcErr DeadlineExceeded ''media-timeout'' None)) callDropped ''media-timeout'' UNKNOWN_REASON s"

section \<open>Making the call\<close>

text \<open>What the room SDK answers: registering for transfers is not waited for.\<close>

record join_answers =
  ja_sign :: "room_config \<Rightarrow> (string \<rightharpoonup> string) \<Rightarrow> go_error + string"
  ja_join :: "string \<Rightarrow> string \<Rightarrow> go_error + (string \<times> string)"
  ja_track :: track_env

definition connectToRoom ::
  "ocall_env \<Rightarrow> join_answers \<Rightarrow> room_config \<Rightarrow> ocall \<Rightarrow> (ocall \<times> go_error option) outcome" where
  "connectToRoom env ja lkNew s =
     (let part = rc_participant lkNew;
          attrs = room_attrs part;
          sipCallID = (case attrs (oe_call_id_attr env) of None \<Rightarrow> '''' | Some v \<Rightarrow> v);
          s = (if sipCallID \<noteq> '''' then olog (ORegisterTransfer sipCallID) s else s);
          attrs = attrs(oe_status_attr env \<mapsto> Attribute CallDialing);
          lkNew = lkNew\<lparr>rc_participant := part\<lparr>pc_attributes := Some attrs\<rparr>\<rparr>
      in case Connect (oe_keys env) (oe_conf env) (ja_sign ja) (ja_join ja) lkNew NewRoom of
           (r, Some e) \<Rightarrow> Returns (s, Some e)
         | (r, None) \<Rightarrow>
             bind_outcome (NewParticipantTrack (ja_track ja) r) (\<lambda>(r, err).
               case err of
                 Some e \<Rightarrow> Returns (s, Some e)
               | None \<Rightarrow> Returns (s\<lparr>oc_room := Some r, oc_room_in := True\<rparr>, None)))"

definition call_conf :: "URI \<Rightarrow> out_conf \<Rightarrow> out_conf" where
  "call_conf contact conf =
     conf\<lparr>of_max_call_duration := (if of_max_call_duration conf \<le> 0 \<or> maxCallDuration < of_max_call_duration conf
                                   then maxCallDuration else of_max_call_duration conf),
          of_ringing_timeout := (if of_ringing_timeout conf \<le> 0 then defaultRingingTimeout
                                 else of_ringing_timeout conf),
          of_host := (if of_host conf = '''' then GetHost contact else of_host conf)\<rparr>"

text \<open>
  The call before its media and room; \<open>draw\<close> is the random number for the jitter buffer,
  \<open>contact\<close> the client's contact for a transport.
\<close>

definition bare_call ::
  "ocall_env \<Rightarrow> (transport \<Rightarrow> URI) \<Rightarrow> real \<Rightarrow> monitor \<Rightarrow> string \<Rightarrow> out_conf \<Rightarrow> CallState \<Rightarrow> string \<Rightarrow> bool
    \<Rightarrow> (string \<rightharpoonup> string) \<Rightarrow> (string \<rightharpoonup> string) \<Rightarrow> ocall" where
  "bare_call env contact draw mon lid conf st projectID sync active by_remote =
     (let tr = TransportFrom (of_transport conf);
          conf = call_conf (contact tr) conf
      in \<lparr>oc_leg = newOutbound lid
                     \<lparr>User = of_from conf, Host = of_host conf, Addr = Addr (contact tr), Port = 0, Transport = tr\<rparr>
                     (contact tr) (of_display_name conf),
          oc_cmon = NewCall Outbound (of_host conf) (of_address conf), oc_monitor = mon, oc_state = st,
          oc_media = None, oc_timeout = new_media_timeout 0 0, oc_room = None, oc_room_in = False,
          oc_conf = conf, oc_started = False, oc_stopped = False,
          oc_jitter = SelectValueBool (cf_enable_jitter_buffer (oe_conf env))
                        (cf_enable_jitter_buffer_prob (oe_conf env)) draw,
          oc_project_id = projectID, oc_sync = sync, oc_reply = (if sync then None else Some None),
          oc_closers = [], oc_pending = [],
          oc_active = active, oc_by_remote = by_remote, oc_log = [], oc_pc = ODial\<rparr>)"

definition newCall ::
  "ocall_env \<Rightarrow> go_error option \<Rightarrow> join_answers \<Rightarrow> room_config \<Rightarrow> ocall \<Rightarrow> (ocall \<times> go_error option) outcome" where
  "newCall env listen ja room s =
     (let room = room\<lparr>rc_jitter_buf := oc_jitter s\<rparr>
      in case NewMediaPort listen
                \<lparr>mo_initial = cf_media_timeout_initial (oe_conf env), mo_general = cf_media_timeout (oe_conf env),
                 mo_jitter = oc_jitter s\<rparr> of
           Inl e \<Rightarrow>
             bind_outcome (oc_close env (Some (WrapErr ''media failed'' e)) callDropped ''media-failed'' UNKNOWN_REASON s)
               (\<lambda>s. Returns (s, Some e))
         | Inr (mp, mt) \<Rightarrow>
             (let s = s\<lparr>oc_media := Some (DisableOut (SetDTMFAudio (cf_audio_dtmf (oe_conf env)) mp)),
                        oc_timeout := EnableTimeout (oe_now env) False mt\<rparr>
              in bind_outcome (connectToRoom env ja room s) (\<lambda>(s, err).
                 case err of
                   Some e \<Rightarrow>
                     bind_outcome (oc_close env (Some (WrapErr ''room join failed'' e)) callDropped ''join-failed'' UNKNOWN_REASON s)
                       (\<lambda>s. Returns (s, Some (WrapErr ''update room failed'' e)))
                 | None \<Rightarrow>
                     Returns (s\<lparr>oc_active := (oc_active s)(so_id (oc_leg s) \<mapsto> so_id (oc_leg s))\<rparr>, None))))"

section \<open>The steps of Dial\<close>

definition dial_start :: "ocall \<Rightarrow> ocall outcome" where
  "dial_start s =
     (let s = on_omon CallStart s;
          s = (if of_dialtone (oc_conf s) \<and> oc_room_in s then olog OPlayDialtone s else s)
      in Returns (ogoto OInvite s))"

text \<open>The callback on each response to the INVITE; its state is whether it rang.\<close>

definition on_response :: "ocall_env \<Rightarrow> sip_response \<Rightarrow> bool \<times> ocall \<Rightarrow> bool \<times> ocall" where
  "on_response env resp rs = (case rs of (ringing, s) \<Rightarrow>
     (if resp_status resp = 200 then (ringing, s)
      else
        let (ringing, s) = (if \<not> ringing \<and> 180 \<le> resp_status resp \<and> resp_status resp < 200
                            then (True, oc_setStatus CallRinging s) else (ringing, s))
        in (ringing, setExtraAttrs env [] SIP_NO_HEADERS None (resp_headers resp) s)))"

text \<open>
  What the libraries answer while signalling: our offer and its text, what each attempt of the
  INVITE meets, parsing the answer and applying it, the configuration, which features come with
  a processor.
\<close>

record signal_env =
  sg_offer :: "sdp_encryption \<Rightarrow> go_error + string"
  sg_marshal :: "string \<Rightarrow> go_error + string"
  sg_txs :: "(go_error option \<times> resp_event list) list"
  sg_parse :: "string \<Rightarrow> go_error + string"
  sg_apply :: "string \<Rightarrow> string \<Rightarrow> sdp_encryption \<Rightarrow> go_error + media_conf"
  sg_setup :: setup_env
  sg_processor :: "string list \<Rightarrow> bool"

definition signal_invite :: "ocall_env \<Rightarrow> signal_env \<Rightarrow> ocall \<Rightarrow> ocall outcome" where
  "signal_invite env sg s =
     (case sg_offer sg (of_encryption (oc_conf s)) of
        Inl e \<Rightarrow> Returns (ogoto (OFail e) s)
      | Inr sdpOffer \<Rightarrow>
          (case sg_marshal sg sdpOffer of
             Inl e \<Rightarrow> Returns (ogoto (OFail e) s)
           | Inr sdpOfferData \<Rightarrow>
               (let s = s\<lparr>oc_monitor := InviteReq (oc_cmon s) (oc_monitor s)\<rparr>;
                    toUri = CreateURIFromUserAndAddress (of_to (oc_conf s)) (of_address (oc_conf s))
                              (TransportFrom (of_transport (oc_conf s)))
                in bind_outcome (Invite (out_env_of env s) toUri (of_user (oc_conf s)) (of_pass (oc_conf s))
                                   (of_headers (oc_conf s)) sdpOfferData (sg_txs sg) (oc_leg s))
                     (\<lambda>(leg, seen, r).
                        let s = snd (fold (on_response env) seen (False, s\<lparr>oc_leg := leg\<rparr>))
                        in case r of
                             Inl e \<Rightarrow> Returns (ogoto (ORefused e) s)
                           | Inr sdpResp \<Rightarrow> Returns (ogoto (OAnswer sdpOffer sdpResp) s)))))"

definition signal_refused :: "ocall_env \<Rightarrow> go_error \<Rightarrow> ocall \<Rightarrow> ocall outcome" where
  "signal_refused env e s =
     (let s = (case err_as_sip_status e of
                 Some st \<Rightarrow>
                   s\<lparr>oc_monitor := InviteError (statusName (fst st)) (oc_cmon s) (oc_monitor s),
                     oc_state := DeferUpdate (\<lambda>info. info\<lparr>ci_status_code := Some st\<rparr>) (oc_state s)\<rparr>
               | None \<Rightarrow> s\<lparr>oc_monitor := InviteError ''other'' (oc_cmon s) (oc_monitor s)\<rparr>)
      in bind_outcome (out_Close (out_env_of env s) (oe_tx env) (oc_leg s)) (\<lambda>leg.
           Returns (ogoto (OFail e) (s\<lparr>oc_leg := leg\<rparr>))))"

definition signal_answer :: "ocall_env \<Rightarrow> signal_env \<Rightarrow> string \<Rightarrow> string \<Rightarrow> ocall \<Rightarrow> ocall outcome" where
  "signal_answer env sg sdpOffer sdpResp s =
     (case oc_media s of
        None \<Rightarrow> Panics
      | Some m \<Rightarrow>
          (case SetAnswer (sg_parse sg) (sg_apply sg) sdpOffer sdpResp (of_encryption (oc_conf s)) of
             Inl e \<Rightarrow> Returns (ogoto (OFail e) s)
           | Inr mc \<Rightarrow>
               (let mc = mc\<lparr>mc_processor := sg_processor sg (of_features (oc_conf s))\<rparr>
                in case SetConfig (sg_setup sg) mc m of
                     (m, Some e) \<Rightarrow> Returns (ogoto (OFail e) (s\<lparr>oc_media := Some m\<rparr>))
                   | (m, None) \<Rightarrow>
                       Returns (ogoto (OConfirm (mc_audio_name mc))
                         (s\<lparr>oc_media := Some (EnableOut m),
                            oc_by_remote := (oc_by_remote s)(so_tag (oc_leg s) \<mapsto> so_id (oc_leg s)),
                            oc_monitor := InviteAccept (oc_cmon s) (oc_monitor s),
                            oc_timeout := EnableTimeout (oe_now env) True (oc_timeout s)\<rparr>)))))"

definition signal_confirm :: "go_error option \<Rightarrow> string \<Rightarrow> ocall \<Rightarrow> ocall outcome" where
  "signal_confirm write_err codec s =
     (case AckInviteOK write_err (oc_leg s) of
        (leg, Some e) \<Rightarrow> Returns (ogoto (OFail e) (s\<lparr>oc_leg := leg\<rparr>))
      | (leg, None) \<Rightarrow> Returns (ogoto (OAnswered codec) (s\<lparr>oc_leg := leg\<rparr>)))"

text \<open>\<open>old_in\<close>: whether there was a writer for the audio before.\<close>

definition connectMedia :: "ocall_env \<Rightarrow> bool \<Rightarrow> ocall \<Rightarrow> ocall outcome" where
  "connectMedia env old_in s =
     (case oc_media s of
        None \<Rightarrow> Panics
      | Some m \<Rightarrow>
          bind_outcome (WriteAudioTo old_in m) (\<lambda>m.
            Returns (s\<lparr>oc_room := map_option
                         (\<lambda>r. SetDTMFOutput True
                                ((if oe_room_old env then room_act [CloseRoomOutput] else id) (SwapOutput True r))) (oc_room s),
                       oc_media := Some (HandleDTMF True m)\<rparr>)))"

text \<open>The rest of \<open>sipSignal\<close> and \<open>dialSIP\<close>, then the media; \<open>ts\<close> and \<open>err\<close> are for the DTMF.\<close>

definition answered_info :: "ocall_env \<Rightarrow> string \<Rightarrow> ocall \<Rightarrow> sip_call_info \<Rightarrow> sip_call_info" where
  "answered_info env codec s info =
     (let info = info\<lparr>ci_audio_codec := codec\<rparr>
      in case joined_room s of
           None \<Rightarrow> info
         | Some r \<Rightarrow> info\<lparr>ci_participant_attributes := oe_room_attrs env\<rparr>)"

definition initial_dtmf :: "32 word \<Rightarrow> go_error option \<Rightarrow> ocall \<Rightarrow> (ocall \<times> go_error option) outcome" where
  "initial_dtmf ts err s =
     (let digits = of_dtmf (oc_conf s)
      in if digits = '''' then Returns (s, None)
         else
           let s = oc_setStatus CallAutomation s
           in case oc_media s of
                None \<Rightarrow> Panics
              | Some m \<Rightarrow>
                  (case WriteDTMF ts digits m of
                     None \<Rightarrow> Returns (s, None)
                   | Some w \<Rightarrow> Returns (olog (OInitialDTMF w) s, err)))"

definition dial_answered ::
  "ocall_env \<Rightarrow> 32 word \<Rightarrow> go_error option \<Rightarrow> bool \<Rightarrow> remote_participant list \<Rightarrow> string \<Rightarrow> ocall \<Rightarrow> ocall outcome" where
  "dial_answered env ts dtmf_err old_in remotes codec s =
     (let s = setExtraAttrs env (of_headers_to_attrs (oc_conf s)) (of_include_headers (oc_conf s))
                (Some (out_view (oc_leg s))) [] s;
          s = s\<lparr>oc_state := DeferUpdate (answered_info env codec s) (oc_state s)\<rparr>
      in bind_outcome (initial_dtmf ts dtmf_err s) (\<lambda>(s, err).
           case err of
             Some e \<Rightarrow> Returns (ogoto (OFail e) s)
           | None \<Rightarrow>
               (let s = oc_setStatus CallActive s
                in bind_outcome (connectMedia env old_in s) (\<lambda>s.
                     let s = s\<lparr>oc_started := True\<rparr>
                     in Returns (ogoto OActive (s\<lparr>oc_room := map_option (Subscribe remotes) (oc_room s)\<rparr>))))))"

text \<open>The failure of \<open>dialSIP\<close>: what the call is closed with.\<close>

definition dial_failure ::
  "go_error \<Rightarrow> go_error option \<times> call_status \<times> string \<times> disconnect_reason" where
  "dial_failure err =
     (case err_as_sip_status err of
        None \<Rightarrow> (Some err, callDropped, ''invite-failed'', UNKNOWN_REASON)
      | Some (code, text) \<Rightarrow>
          if code = 480 then (None, callUnavailable, ''unavailable'', USER_UNAVAILABLE)
          else if code = 486 then (None, callRejected, ''busy'', USER_REJECTED)
          else (Some err, callDropped, ''invite-failed'', UNKNOWN_REASON))"

definition dial_failed :: "ocall_env \<Rightarrow> go_error \<Rightarrow> ocall \<Rightarrow> ocall outcome" where
  "dial_failed env err s =
     (case dial_failure err of (reportErr, status, desc, reason) \<Rightarrow>
        bind_outcome (oc_close env reportErr status desc reason s) (\<lambda>s. Returns (ogoto (ODone (Some err)) s)))"

text \<open>The call is active: the room's identifier is asked for without a check.\<close>

definition dial_active :: "ocall_env \<Rightarrow> ocall \<Rightarrow> ocall outcome" where
  "dial_active env s =
     (case joined_room s of
        None \<Rightarrow> Panics
      | Some r \<Rightarrow>
          Returns (ogoto (ODone None)
            (s\<lparr>oc_state := Update (oe_flush_ok env) (\<lambda>info.
                 info\<lparr>ci_room_id := oe_room_sid env, ci_started_at := oe_now env, ci_status := SCS_ACTIVE\<rparr>)
                 (oc_state s)\<rparr>)))"

text \<open>The deferred calls of \<open>Dial\<close>, then \<open>WaitClose\<close> unless it failed.\<close>

definition dial_done :: "ocall_env \<Rightarrow> go_error option \<Rightarrow> ocall \<Rightarrow> ocall outcome" where
  "dial_done env err s =
     (let s = ensureClosed env s;
          s = on_omon CallEnd s;
          s = (if oc_sync s then s\<lparr>oc_reply := Some err\<rparr> else s)
      in Returns (ogoto (if err = None then OWait else OExit err) s))"

section \<open>WaitClose\<close>

datatype wait_close_event = OTick | ORoomClosed | OMediaTimeout | OClosed

fun wait_close :: "ocall_env \<Rightarrow> wait_close_event \<Rightarrow> ocall \<Rightarrow> ocall outcome" where
  "wait_close env OTick s = Returns (s\<lparr>oc_state := ForceFlush (oe_flush_ok env) (oc_state s)\<rparr>)"
| "wait_close env ORoomClosed s =
     (case oc_room s of
        None \<Rightarrow> Blocked
      | Some r \<Rightarrow>
          if rm_stopped r
          then bind_outcome (oc_CloseWithReason env callDropped ''removed'' CLIENT_INITIATED s)
                 (\<lambda>s. Returns (ogoto (OLeave None) s))
          else Blocked)"
| "wait_close env OMediaTimeout s =
     (if mt_fired (oc_timeout s)
      then bind_outcome (oc_closeWithTimeout env s) (\<lambda>s.
             let err = Some (PsrpcErr DeadlineExceeded ''media timeout'' None)
             in Returns (ogoto (OLeave err) (setErrStatus env err s)))
      else Blocked)"
| "wait_close env OClosed s = (if oc_stopped s then Returns (ogoto (OLeave None) s) else Blocked)"

definition wait_leave :: "ocall_env \<Rightarrow> go_error option \<Rightarrow> ocall \<Rightarrow> ocall outcome" where
  "wait_leave env err s = Returns (ogoto (OExit err) (ensureClosed env s))"

section \<open>What happens to the call from outside\<close>

text \<open>The mutex of the call is held while it is dialled.\<close>

fun dialling :: "ocall_pc \<Rightarrow> bool" where
  "dialling OInvite = True"
| "dialling (ORefused e) = True"
| "dialling (OAnswer sdpOffer sdpResp) = True"
| "dialling (OConfirm codec) = True"
| "dialling (OAnswered codec) = True"
| "dialling (OFail e) = True"
| "dialling _ = False"

fun close_for :: "ocall_env \<Rightarrow> close_cause \<Rightarrow> ocall \<Rightarrow> ocall outcome" where
  "close_for env CByBye s = oc_CloseWithReason env CallHangup ''bye'' CLIENT_INITIATED s"
| "close_for env CByStop s = oc_Close env s"
| "close_for env CByTransfer s = oc_CloseWithReason env CallHangup ''call transferred'' CLIENT_INITIATED s"

definition run_closer :: "ocall_env \<Rightarrow> close_cause \<Rightarrow> ocall \<Rightarrow> ocall outcome" where
  "run_closer env c s =
     (if c \<in> set (oc_closers s) \<and> \<not> dialling (oc_pc s)
      then close_for env c (s\<lparr>oc_closers := remove1 c (oc_closers s)\<rparr>)
      else Blocked)"

text \<open>The last update of \<open>createSIPParticipant\<close>, with its result.\<close>

definition reply_info :: "go_error option \<Rightarrow> sip_call_info \<Rightarrow> sip_call_info" where
  "reply_info retErr info =
     (case retErr of
        None \<Rightarrow> info\<lparr>ci_status := SCS_PARTICIPANT_JOINED\<rparr>
      | Some e \<Rightarrow> info\<lparr>ci_status := SCS_ERROR, ci_disconnect_reason := UNKNOWN_REASON, ci_error := Some e\<rparr>)"

definition oc_handleDTMF :: "char \<Rightarrow> ocall \<Rightarrow> ocall outcome" where
  "oc_handleDTMF tone s =
     (case oc_room s of
        None \<Rightarrow> Returns s
      | Some r \<Rightarrow> bind_outcome (SendData [tone] r) (\<lambda>r. Returns (s\<lparr>oc_room := Some r\<rparr>)))"

text \<open>
  \<open>transferCall\<close>, up to sending the REFER and from its result on. The output taken off for the
  dial tone is used without a check when it is closed.
\<close>

definition oc_transfer_mute :: "ocall_env \<Rightarrow> bool \<Rightarrow> ocall \<Rightarrow> ocall \<times> bool option" where
  "oc_transfer_mute env dialtone s =
     (if dialtone \<and> oc_started s \<and> \<not> oc_stopped s
      then (s\<lparr>oc_room := map_option (SwapOutput False) (oc_room s)\<rparr>, Some (oc_room s \<noteq> None \<and> oe_room_old env))
      else (s, None))"

definition oc_transfer_restore :: "bool option \<Rightarrow> go_error option \<Rightarrow> ocall \<Rightarrow> ocall outcome" where
  "oc_transfer_restore swapped retErr s =
     (case swapped of
        None \<Rightarrow> Returns s
      | Some w \<Rightarrow>
          if retErr \<noteq> None \<and> \<not> oc_stopped s
          then Returns (s\<lparr>oc_room := map_option (SwapOutput w) (oc_room s)\<rparr>)
          else if w then Returns (s\<lparr>oc_room := map_option (room_act [CloseRoomOutput]) (oc_room s)\<rparr>)
          else Panics)"

definition oc_transfer_finish ::
  "ocall_env \<Rightarrow> string \<Rightarrow> bool option \<Rightarrow> go_error option \<Rightarrow> ocall \<Rightarrow> ocall outcome" where
  "oc_transfer_finish env tid swapped retErr s =
     (let s = (if retErr = None
               then (olog OHangupAfterTransfer s)\<lparr>oc_closers := oc_closers s @ [CByTransfer]\<rparr> else s)
      in bind_outcome (oc_transfer_restore swapped retErr s) (\<lambda>s.
           bind_outcome (EndTransfer (oe_now env) (oe_flush_ok env) tid retErr (oc_state s)) (\<lambda>st.
             Returns (s\<lparr>oc_state := st, oc_pending := filter (\<lambda>p. fst p \<noteq> tid) (oc_pending s)\<rparr>))))"

definition oc_transfer_refer ::
  "ocall_env \<Rightarrow> string \<Rightarrow> string \<Rightarrow> (string \<times> string) list \<Rightarrow> go_error option \<Rightarrow> ocall \<times> bool option \<Rightarrow> ocall outcome" where
  "oc_transfer_refer env tid transferTo headers tx_err muted = (case muted of (s, swapped) \<Rightarrow>
     bind_outcome (out_start_refer (out_env_of env s) transferTo headers tx_err (oc_leg s)) (\<lambda>(leg, err).
       let s = s\<lparr>oc_leg := leg\<rparr>
       in case err of
            Some e \<Rightarrow> oc_transfer_finish env tid swapped (Some e) s
          | None \<Rightarrow> Returns (s\<lparr>oc_pending := oc_pending s @ [(tid, swapped)]\<rparr>)))"

definition oc_transfer_begin ::
  "ocall_env \<Rightarrow> string \<Rightarrow> string \<Rightarrow> (string \<times> string) list \<Rightarrow> bool \<Rightarrow> go_error option \<Rightarrow> ocall \<Rightarrow> ocall outcome" where
  "oc_transfer_begin env tid transferTo headers dialtone tx_err s =
     bind_outcome (StartTransfer tid (oe_now env) (oe_flush_ok env) transferTo (oc_state s)) (\<lambda>(st, tid).
       oc_transfer_refer env tid transferTo headers tx_err (oc_transfer_mute env dialtone (s\<lparr>oc_state := st\<rparr>)))"

section \<open>The call as a state machine\<close>

datatype dial_event =
    DStart
  | DInvite signal_env
  | DRefused
  | DAnswer signal_env
  | DConfirm "go_error option"
  | DAnswered "32 word" "go_error option" bool "remote_participant list"
  | DFailed
  | DActive
  | DDone
  | DWait wait_close_event
  | DLeave

datatype around_event =
    YReply
  | YBye
  | YStop
  | YCloser close_cause
  | YDtmf char
  | YMedia media_event
  | YStream
  | YRoom room_event
  | YTransfer string string "(string \<times> string) list" bool "go_error option"
  | YTransferResult string "go_error option"
  | YOtherCall string string
  | YOtherGone string string

datatype ocall_event = Dialer dial_event | Around around_event

fun dial_step :: "ocall_env \<Rightarrow> dial_event \<Rightarrow> ocall_pc \<Rightarrow> ocall \<Rightarrow> ocall outcome" where
  "dial_step env e ODial s = (case e of DStart \<Rightarrow> dial_start s | _ \<Rightarrow> Blocked)"
| "dial_step env e OInvite s = (case e of DInvite sg \<Rightarrow> signal_invite env sg s | _ \<Rightarrow> Blocked)"
| "dial_step env e (ORefused err) s = (case e of DRefused \<Rightarrow> signal_refused env err s | _ \<Rightarrow> Blocked)"
| "dial_step env e (OAnswer sdpOffer sdpResp) s =
     (case e of DAnswer sg \<Rightarrow> signal_answer env sg sdpOffer sdpResp s | _ \<Rightarrow> Blocked)"
| "dial_step env e (OConfirm codec) s =
     (case e of DConfirm write_err \<Rightarrow> signal_confirm write_err codec s | _ \<Rightarrow> Blocked)"
| "dial_step env e (OAnswered codec) s =
     (case e of DAnswered ts err old_in remotes \<Rightarrow> dial_answered env ts err old_in remotes codec s | _ \<Rightarrow> Blocked)"
| "dial_step env e (OFail err) s = (case e of DFailed \<Rightarrow> dial_failed env err s | _ \<Rightarrow> Blocked)"
| "dial_step env e OActive s = (case e of DActive \<Rightarrow> dial_active env s | _ \<Rightarrow> Blocked)"
| "dial_step env e (ODone err) s = (case e of DDone \<Rightarrow> dial_done env err s | _ \<Rightarrow> Blocked)"
| "dial_step env e OWait s = (case e of DWait ev \<Rightarrow> wait_close env ev s | _ \<Rightarrow> Blocked)"
| "dial_step env e (OLeave err) s = (case e of DLeave \<Rightarrow> wait_leave env err s | _ \<Rightarrow> Blocked)"
| "dial_step env e (OExit err) s = Blocked"

text \<open>The client finds the call by the tag of the request.\<close>

definition out_routed :: "ocall \<Rightarrow> bool" where
  "out_routed s \<longleftrightarrow> oc_by_remote s (so_tag (oc_leg s)) = Some (so_id (oc_leg s))"

fun around_step :: "ocall_env \<Rightarrow> around_event \<Rightarrow> ocall \<Rightarrow> ocall outcome" where
  "around_step env YReply s =
     (case oc_reply s of
        None \<Rightarrow> Blocked
      | Some retErr \<Rightarrow>
          Returns (s\<lparr>oc_state := Update (oe_flush_ok env) (reply_info retErr) (oc_state s), oc_reply := None\<rparr>))"
| "around_step env YBye s =
     (if out_routed s
      then Returns (s\<lparr>oc_leg := out_AcceptBye (oc_leg s), oc_closers := oc_closers s @ [CByBye]\<rparr>)
      else Blocked)"
| "around_step env YStop s =
     Returns (s\<lparr>oc_closers := (if oc_active s (so_id (oc_leg s)) \<noteq> None then oc_closers s @ [CByStop]
                               else oc_closers s),
                oc_active := Map.empty, oc_by_remote := Map.empty\<rparr>)"
| "around_step env (YCloser c) s = run_closer env c s"
| "around_step env (YDtmf tone) s =
     (case oc_media s of
        Some m \<Rightarrow> if mp_dtmf_in m then oc_handleDTMF tone s else Blocked
      | None \<Rightarrow> Blocked)"
| "around_step env (YMedia ev) s =
     (if own_media_event ev then Returns (s\<lparr>oc_timeout := timeout_step ev (oc_timeout s)\<rparr>) else Blocked)"
| "around_step env YStream s =
     (case oc_media s of
        Some m \<Rightarrow> if mp_sess m \<and> \<not> mp_closed m then Returns (s\<lparr>oc_media := Some (m\<lparr>mp_received := True\<rparr>)\<rparr>) else Blocked
      | None \<Rightarrow> Blocked)"
| "around_step env (YRoom ev) s =
     (if remote_room_event ev then Returns (s\<lparr>oc_room := map_option (room_step ev) (oc_room s)\<rparr>) else Blocked)"
| "around_step env (YTransfer tid to headers dialtone tx_err) s =
     (if tid \<in> fst ` set (oc_pending s) then Blocked
      else oc_transfer_begin env tid to headers dialtone tx_err s)"
| "around_step env (YTransferResult tid result) s =
     (case map_of (oc_pending s) tid of
        None \<Rightarrow> Blocked
      | Some swapped \<Rightarrow> oc_transfer_finish env tid swapped result s)"
| "around_step env (YOtherCall tag lid) s =
     (if lid = so_id (oc_leg s) then Blocked
      else Returns (s\<lparr>oc_active := (oc_active s)(lid \<mapsto> lid), oc_by_remote := (oc_by_remote s)(tag \<mapsto> lid)\<rparr>))"
| "around_step env (YOtherGone tag lid) s =
     (if lid = so_id (oc_leg s) then Blocked
      else Returns (s\<lparr>oc_active := (oc_active s)(lid := None), oc_by_remote := (oc_by_remote s)(tag := None)\<rparr>))"

fun ocall_step :: "ocall_env \<times> ocall_event \<Rightarrow> ocall \<Rightarrow> ocall outcome" where
  "ocall_step (env, Dialer e) s = dial_step env e (oc_pc s) s"
| "ocall_step (env, Around e) s = around_step env e s"

end
