(* ===== verification/Outbound_Life.thy ===== *)
theory Outbound_Life
  imports Outbound_Call
begin

text \<open>
  The life of an outbound call: what each step does to the parts of the call. A call is closed
  at most once and its goroutine does not end before that; events around it leave its core
  alone; its leg only makes the operations of a leg.
\<close>

section \<open>The leg of a call\<close>

text \<open>What events around the call do to its leg: requests of the remote and transfers.\<close>

fun quiet_leg_event :: "out_env \<times> out_event \<Rightarrow> bool" where
  "quiet_leg_event (env, OBye) = True"
| "quiet_leg_event (env, ORefer to headers tx_err) = True"
| "quiet_leg_event (env, ev) = False"

lemma quiet_leg_event_ok: "quiet_leg_event e \<Longrightarrow> out_event_ok e"
  by (cases e rule: quiet_leg_event.cases) simp_all

definition oleg_reach :: "sip_outbound \<Rightarrow> sip_outbound \<Rightarrow> bool" where
  "oleg_reach c d \<longleftrightarrow> (\<exists>es. runs out_step c es d \<and> (\<forall>e\<in>set es. quiet_leg_event e))"

lemma oleg_reach_refl [simp]: "oleg_reach c c"
  by (auto simp: oleg_reach_def intro: exI [of _ "[]"])

lemma oleg_reach_step: "out_step e c = Returns d \<Longrightarrow> quiet_leg_event e \<Longrightarrow> oleg_reach c d"
  unfolding oleg_reach_def by (rule exI [of _ "[e]"]) (simp add: runs_one)

lemma oleg_reach_trans:
  assumes "oleg_reach c d" and "oleg_reach d e"
  shows "oleg_reach c e"
proof -
  from assms obtain es fs where "runs out_step c es d" "\<forall>e\<in>set es. quiet_leg_event e"
    "runs out_step d fs e" "\<forall>e\<in>set fs. quiet_leg_event e"
    by (auto simp: oleg_reach_def)
  then have "runs out_step c (es @ fs) e" "\<forall>e\<in>set (es @ fs). quiet_leg_event e"
    by (auto intro: runs_append)
  then show ?thesis unfolding oleg_reach_def by blast
qed

lemma oleg_reach_dropped: "oleg_reach c d \<Longrightarrow> out_dropped c \<Longrightarrow> out_dropped d \<and> out_said d = out_said c"
  unfolding oleg_reach_def using outbound_closing.runs_closed outbound_closing.runs_silent by blast

fun is_out_ack :: "out_msg \<Rightarrow> bool" where
  "is_out_ack (OutAck req resp) = True"
| "is_out_ack m = False"

lemma out_sendBye_frame:
  assumes "out_sendBye env tx c = Returns d"
  shows "so_id d = so_id c" "so_tag d = so_tag c" "filter is_out_ack (so_out d) = filter is_out_ack (so_out c)"
  using assms
  by (auto simp: out_sendBye_def Let_def out_setCSeq_def bind_outcome_Returns out_emit_def out_drop_def
      split: option.splits if_splits)

lemma out_step_frame:
  assumes "out_step e c = Returns d"
  shows "so_id d = so_id c" "so_tag d = so_tag c"
    "quiet_leg_event e \<or> (\<exists>env tx. e = (env, OClose tx)) \<Longrightarrow>
       filter is_out_ack (so_out d) = filter is_out_ack (so_out c)"
proof -
  obtain env ev where e: "e = (env, ev)" by (cases e)
  have "so_id d = so_id c \<and> so_tag d = so_tag c \<and>
    (quiet_leg_event e \<or> (\<exists>env tx. e = (env, OClose tx)) \<longrightarrow>
       filter is_out_ack (so_out d) = filter is_out_ack (so_out c))"
    using assms
  proof (cases ev)
    case (ORefer to hs tx_err)
    with assms e obtain err where "out_start_refer env to hs tx_err c = Returns (d, err)"
      by (auto simp: bind_outcome_Returns)
    then show ?thesis by (cases rule: out_start_refer_cases) auto
  next
    case (OClose tx)
    with assms e show ?thesis by (auto simp: out_Close_def out_sendBye_frame split: if_splits)
  qed (use e in \<open>auto simp: AckInviteOK_def out_AcceptBye_def split: option.splits\<close>)
  then show "so_id d = so_id c" "so_tag d = so_tag c"
    "quiet_leg_event e \<or> (\<exists>env tx. e = (env, OClose tx)) \<Longrightarrow>
       filter is_out_ack (so_out d) = filter is_out_ack (so_out c)" by blast+
qed

lemma oleg_reach_frame:
  assumes "oleg_reach c d"
  shows "so_id d = so_id c \<and> so_tag d = so_tag c \<and> filter is_out_ack (so_out d) = filter is_out_ack (so_out c)"
proof -
  from assms obtain es where "runs out_step c es d" "\<forall>e\<in>set es. quiet_leg_event e" by (auto simp: oleg_reach_def)
  then show ?thesis by (induction rule: runs.induct) (auto simp: out_step_frame)
qed

lemma out_start_refer_reach:
  "out_start_refer env to headers tx_err c = Returns (d, err) \<Longrightarrow> oleg_reach c d"
  by (rule oleg_reach_step [of "(env, ORefer to headers tx_err)"]) (simp_all add: bind_outcome_Returns)

lemma out_AcceptBye_reach: "oleg_reach c (out_AcceptBye c)"
  by (rule oleg_reach_step [of "(undefined, OBye)"]) simp_all

section \<open>Events around the call\<close>

fun core_act :: "ocall_act \<Rightarrow> bool" where
  "core_act (OSetCallStatus a) = True"
| "core_act (OSessionEnd d) = True"
| "core_act (ODeregisterTransfer i) = True"
| "core_act _ = False"

text \<open>What events around the call leave alone, but for closing it.\<close>

definition same_ocore :: "ocall \<Rightarrow> ocall \<Rightarrow> bool" where
  "same_ocore s s' \<longleftrightarrow>
     oleg_reach (oc_leg s) (oc_leg s') \<and> oc_pc s' = oc_pc s \<and> oc_stopped s' = oc_stopped s
     \<and> oc_cmon s' = oc_cmon s \<and> oc_room_in s' = oc_room_in s \<and> oc_conf s' = oc_conf s
     \<and> oc_started s' = oc_started s \<and> oc_sync s' = oc_sync s
     \<and> map_option (\<lambda>m. (mp_closed m, mp_out_enabled m)) (oc_media s') = map_option (\<lambda>m. (mp_closed m, mp_out_enabled m)) (oc_media s)
     \<and> map_option (\<lambda>r. (rm_joined r, unjoined_closed r)) (oc_room s') = map_option (\<lambda>r. (rm_joined r, unjoined_closed r)) (oc_room s)
     \<and> filter core_act (oc_log s') = filter core_act (oc_log s)"

lemma same_ocore_refl [simp]: "same_ocore s s"
  by (simp add: same_ocore_def)

lemma same_ocore_trans: "same_ocore s t \<Longrightarrow> same_ocore t u \<Longrightarrow> same_ocore s u"
  unfolding same_ocore_def using oleg_reach_trans by metis

definition no_new_entry :: "ocall \<Rightarrow> ocall \<Rightarrow> bool" where
  "no_new_entry s s' \<longleftrightarrow>
     (oc_active s' (so_id (oc_leg s)) \<noteq> None \<longrightarrow> oc_active s (so_id (oc_leg s)) \<noteq> None)
     \<and> (\<forall>t. oc_by_remote s' t = Some (so_id (oc_leg s)) \<longrightarrow> oc_by_remote s t = Some (so_id (oc_leg s)))"

lemma no_new_entry_refl [simp]: "no_new_entry s s"
  by (simp add: no_new_entry_def)

lemma oc_handleDTMF_core:
  assumes "oc_handleDTMF tone s = Returns s'"
  shows "same_ocore s s' \<and> no_new_entry s s'"
  using assms
  by (auto simp: oc_handleDTMF_def bind_outcome_Returns same_ocore_def no_new_entry_def
      dest: SendData_frame split: option.splits)

lemma oc_transfer_restore_core:
  assumes "oc_transfer_restore swapped retErr s = Returns s'"
  shows "same_ocore s s' \<and> no_new_entry s s'"
  using assms
  by (auto simp: oc_transfer_restore_def same_ocore_def no_new_entry_def room_act_def unjoined_closed_def
      SwapOutput_def option.map_comp comp_def split: option.splits if_splits)

lemma oc_transfer_finish_core:
  assumes "oc_transfer_finish env tid swapped retErr s = Returns s'"
  shows "same_ocore s s' \<and> no_new_entry s s'"
proof -
  define t where "t = (if retErr = None
     then (olog OHangupAfterTransfer s)\<lparr>oc_closers := oc_closers s @ [CByTransfer]\<rparr> else s)"
  from assms obtain u st where u: "oc_transfer_restore swapped retErr t = Returns u"
    and s': "s' = u\<lparr>oc_state := st, oc_pending := filter (\<lambda>p. fst p \<noteq> tid) (oc_pending u)\<rparr>"
    by (auto simp: oc_transfer_finish_def Let_def bind_outcome_Returns t_def)
  have "same_ocore s t" "no_new_entry s t"
    by (simp_all add: t_def same_ocore_def no_new_entry_def olog_def)
  moreover have "oc_leg t = oc_leg s" by (simp add: t_def olog_def)
  moreover note oc_transfer_restore_core [OF u]
  moreover have "same_ocore u s'" "no_new_entry u s'" by (simp_all add: s' same_ocore_def no_new_entry_def)
  ultimately have "same_ocore s s'" by (metis same_ocore_trans)
  moreover have "no_new_entry s s'"
    using \<open>no_new_entry s t\<close> oc_transfer_restore_core [OF u] \<open>oc_leg t = oc_leg s\<close>
    by (auto simp: no_new_entry_def s')
  ultimately show ?thesis by simp
qed

lemma oc_transfer_mute_core:
  "same_ocore s (fst (oc_transfer_mute env dialtone s)) \<and> no_new_entry s (fst (oc_transfer_mute env dialtone s))
     \<and> oc_leg (fst (oc_transfer_mute env dialtone s)) = oc_leg s"
  by (simp add: oc_transfer_mute_def same_ocore_def no_new_entry_def option.map_comp comp_def SwapOutput_def
      room_act_def unjoined_closed_def)

lemma oc_transfer_begin_core:
  assumes "oc_transfer_begin env tid to headers dialtone tx_err s = Returns s'"
  shows "same_ocore s s' \<and> no_new_entry s s'"
proof -
  from assms obtain st tid' where run:
    "oc_transfer_refer env tid' to headers tx_err (oc_transfer_mute env dialtone (s\<lparr>oc_state := st\<rparr>)) = Returns s'"
    by (auto simp: oc_transfer_begin_def bind_outcome_Returns)
  obtain t swapped where t: "oc_transfer_mute env dialtone (s\<lparr>oc_state := st\<rparr>) = (t, swapped)" by fastforce
  have mute: "same_ocore s t \<and> no_new_entry s t \<and> oc_leg t = oc_leg s"
    using oc_transfer_mute_core [of "s\<lparr>oc_state := st\<rparr>" env dialtone] t by (simp add: same_ocore_def no_new_entry_def)
  from run t obtain leg err where refer: "out_start_refer (out_env_of env t) to headers tx_err (oc_leg t) = Returns (leg, err)"
    and rest: "(case err of Some e \<Rightarrow> oc_transfer_finish env tid' swapped (Some e) (t\<lparr>oc_leg := leg\<rparr>)
       | None \<Rightarrow> Returns (t\<lparr>oc_leg := leg, oc_pending := oc_pending t @ [(tid', swapped)]\<rparr>)) = Returns s'"
    by (auto simp: oc_transfer_refer_def bind_outcome_Returns Let_def)
  note leg = out_start_refer_reach [OF refer]
  have upd: "same_ocore t (t\<lparr>oc_leg := leg\<rparr>)" using leg by (simp add: same_ocore_def)
  have end': "same_ocore (t\<lparr>oc_leg := leg\<rparr>) s' \<and> no_new_entry (t\<lparr>oc_leg := leg\<rparr>) s'"
  proof (cases err)
    case None
    with rest show ?thesis by (auto simp: same_ocore_def no_new_entry_def)
  next
    case (Some e)
    with rest oc_transfer_finish_core show ?thesis by simp
  qed
  then have "same_ocore s s'" using mute upd same_ocore_trans by blast
  moreover have "no_new_entry s s'"
    using mute end' oleg_reach_frame [OF leg] by (auto simp: no_new_entry_def)
  ultimately show ?thesis by simp
qed

text \<open>An event around the call closes it, or leaves its core alone.\<close>

lemma around_step_cases:
  assumes "around_step env e s = Returns s'"
  obtains (Closes) c where "e = YCloser c" and "c \<in> set (oc_closers s)" and "\<not> dialling (oc_pc s)"
      and "close_for env c (s\<lparr>oc_closers := remove1 c (oc_closers s)\<rparr>) = Returns s'"
  | (Keeps) "same_ocore s s'" and "no_new_entry s s'"
proof (cases "\<exists>c. e = YCloser c")
  case True
  then obtain c where "e = YCloser c" by blast
  with assms show ?thesis by (intro Closes [of c]) (auto simp: run_closer_def split: if_splits)
next
  case False
  have "same_ocore s s' \<and> no_new_entry s s'"
  proof (cases e)
    case YBye
    with assms show ?thesis
      using out_AcceptBye_reach [of "oc_leg s"] by (auto simp: same_ocore_def no_new_entry_def split: if_splits)
  next
    case (YDtmf tone)
    with assms oc_handleDTMF_core show ?thesis by (auto split: option.splits if_splits)
  next
    case (YTransfer tid to headers dialtone tx_err)
    with assms oc_transfer_begin_core show ?thesis by (auto split: if_splits)
  next
    case (YTransferResult tid result)
    with assms oc_transfer_finish_core show ?thesis by (auto split: option.splits)
  next
    case (YRoom ev)
    have "remote_room_event ev \<Longrightarrow> unjoined_closed (room_step ev r) = unjoined_closed r" for r
      by (cases ev) (auto simp: participantJoin_def subscribeTo_def sendDTMF_def unjoined_closed_def room_act_def
          split: option.splits)
    with YRoom assms room_step_remote show ?thesis
      by (auto simp: same_ocore_def no_new_entry_def option.map_comp comp_def split: if_splits)
  qed (use assms False in \<open>auto simp: same_ocore_def no_new_entry_def split: option.splits if_splits\<close>)
  with Keeps show ?thesis by blast
qed

section \<open>Closing\<close>

text \<open>What closing an open call does to it.\<close>

definition oclosed_by :: "ocall_env \<Rightarrow> ocall \<Rightarrow> ocall \<Rightarrow> bool" where
  "oclosed_by env s s' \<longleftrightarrow>
     \<not> oc_stopped s \<and> oc_stopped s' \<and> oc_pc s' = oc_pc s \<and> oc_room_in s' = False
     \<and> oc_conf s' = oc_conf s \<and> oc_started s' = oc_started s \<and> oc_sync s' = oc_sync s
     \<and> cm_terminated (oc_cmon s') \<and> cm_started (oc_cmon s') = cm_started (oc_cmon s)
     \<and> (\<exists>m m'. oc_media s = Some m \<and> oc_media s' = Some m' \<and> mp_closed m' \<and> mp_out_enabled m' = mp_out_enabled m)
     \<and> rel_option (\<lambda>r r'. unjoined_closed r') (oc_room s) (oc_room s')
     \<and> (\<exists>xs d. (xs = [] \<or> (\<exists>a. xs = [OSetCallStatus a] \<and> a \<noteq> ''active''))
          \<and> oc_log s' = oc_log s @ xs @ [ODeregisterTransfer (so_id (oc_leg s)), OSessionEnd d])
     \<and> oc_active s' = (oc_active s)(so_id (oc_leg s) := None)
     \<and> oc_by_remote s' = (if so_tag (oc_leg s) = '''' then oc_by_remote s
                          else (oc_by_remote s)(so_tag (oc_leg s) := None))
     \<and> oc_closers s' = oc_closers s \<and> oc_pending s' = oc_pending s \<and> oc_reply s' = oc_reply s
     \<and> (\<exists>e. oe_closing e = oe_closing (oe_leg env) \<and> out_step (e, OClose (oe_tx env)) (oc_leg s) = Returns (oc_leg s'))"

lemma Attribute_active: "Attribute v = ''active'' \<longleftrightarrow> v = CallActive"
  by (cases v) simp_all

lemma on_omon_frame [simp]:
  "oc_leg (on_omon f s) = oc_leg s" "oc_pc (on_omon f s) = oc_pc s" "oc_stopped (on_omon f s) = oc_stopped s"
  "oc_media (on_omon f s) = oc_media s" "oc_room (on_omon f s) = oc_room s" "oc_log (on_omon f s) = oc_log s"
  "oc_active (on_omon f s) = oc_active s" "oc_by_remote (on_omon f s) = oc_by_remote s"
  "oc_room_in (on_omon f s) = oc_room_in s" "oc_conf (on_omon f s) = oc_conf s" "oc_started (on_omon f s) = oc_started s"
  "oc_sync (on_omon f s) = oc_sync s" "oc_closers (on_omon f s) = oc_closers s" "oc_pending (on_omon f s) = oc_pending s"
  "oc_reply (on_omon f s) = oc_reply s" "oc_state (on_omon f s) = oc_state s" "oc_timeout (on_omon f s) = oc_timeout s"
  "oc_cmon (on_omon f s) = fst (f (oc_cmon s, oc_monitor s))"
  by (simp_all add: on_omon_def split: prod.split)

lemma oc_setStatus_cases:
  "oc_setStatus v s = s \<or> (Attribute v \<noteq> '''' \<and> oc_setStatus v s = olog (OSetCallStatus (Attribute v)) s)"
  by (simp add: oc_setStatus_def Let_def split: option.split)

lemma oc_close_cases:
  assumes "oc_close env err status d reason s = Returns s'" and "status \<noteq> CallActive"
  obtains (Already) "oc_stopped s" and "s' = s"
  | (Closed) "oclosed_by env s s'"
proof (cases "oc_stopped s")
  case True
  then have "oc_close env err status d reason s = Returns s" unfolding oc_close_def by (simp only: if_True)
  with assms(1) have "s' = s" by simp
  with True show ?thesis by (rule Already)
next
  case False
  define s0 where "s0 = oc_setStatus status (s\<lparr>oc_stopped := True\<rparr>)"
  obtain xs where xs: "s0 = s\<lparr>oc_stopped := True, oc_log := oc_log s @ xs\<rparr>"
    "xs = [] \<or> (\<exists>a. xs = [OSetCallStatus a] \<and> a \<noteq> ''active'')"
  proof (cases "s0 = s\<lparr>oc_stopped := True\<rparr>")
    case True
    with that [of "[]"] show ?thesis by simp
  next
    case False
    with oc_setStatus_cases [of status "s\<lparr>oc_stopped := True\<rparr>"]
    have "s0 = s\<lparr>oc_stopped := True, oc_log := oc_log s @ [OSetCallStatus (Attribute status)]\<rparr>"
      by (simp add: s0_def olog_def)
    with that [of "[OSetCallStatus (Attribute status)]"] assms(2) show ?thesis by (simp add: Attribute_active)
  qed
  have media0: "oc_media s0 = oc_media s" by (simp add: xs(1))
  obtain m where m: "oc_media s = Some m"
  proof (cases "oc_media s")
    case None
    with media0 assms(1) False show ?thesis
      unfolding oc_close_def Let_def s0_def [symmetric] by simp
  qed
  define s2 where "s2 = s0\<lparr>oc_state := Update (oe_flush_ok env) (\<lambda>info.
                  let info = (if err \<noteq> None \<and> ci_error info = None
                              then info\<lparr>ci_error := err, ci_status := SCS_ERROR\<rparr> else info)
                  in info\<lparr>ci_disconnect_reason := reason\<rparr>) (oc_state s0),
     oc_media := Some (media_Close (oe_old env) m), oc_timeout := timeout_step CallClose (oc_timeout s0),
     oc_room := map_option (\<lambda>r. CloseWithReason False (DisconnectReason status) (CloseOutput (oe_room_old env) r)) (oc_room s0),
     oc_room_in := False\<rparr>"
  from assms(1) False m have close: "bind_outcome (stopSIP env d s2) (\<lambda>s.
                   let s = s\<lparr>oc_active := (oc_active s)(so_id (oc_leg s) := None)\<rparr>;
                       tag = so_tag (oc_leg s);
                       s = (if tag \<noteq> '''' then s\<lparr>oc_by_remote := (oc_by_remote s)(tag := None)\<rparr> else s);
                       s = olog (ODeregisterTransfer (so_id (oc_leg s))) s
                   in Returns (olog (OSessionEnd d) s)) = Returns s'"
    unfolding oc_close_def Let_def s0_def [symmetric] s2_def by (simp add: media0)
  define t where "t = on_omon (CallTerminate d) s2"
  from close obtain leg where leg: "out_Close (out_env_of env t) (oe_tx env) (oc_leg t) = Returns leg"
    and s': "s' = (let s = t\<lparr>oc_leg := leg\<rparr>;
                       s = s\<lparr>oc_active := (oc_active s)(so_id (oc_leg s) := None)\<rparr>;
                       tag = so_tag (oc_leg s);
                       s = (if tag \<noteq> '''' then s\<lparr>oc_by_remote := (oc_by_remote s)(tag := None)\<rparr> else s);
                       s = olog (ODeregisterTransfer (so_id (oc_leg s))) s
                   in olog (OSessionEnd d) s)"
    by (auto simp: stopSIP_def Let_def bind_outcome_Returns t_def)
  have legt: "oc_leg t = oc_leg s" by (simp add: t_def s2_def xs(1))
  with leg have step: "out_step (out_env_of env t, OClose (oe_tx env)) (oc_leg s) = Returns leg" by simp
  note ids = out_step_frame(1,2) [OF step]
  have "unjoined_closed (CloseWithReason b rs r)" for b rs r
    by (simp add: unjoined_closed_def CloseWithReason_def SetDTMFOutput_def CloseOutput_def room_act_def Let_def SwapOutput_def)
  then have room: "rel_option (\<lambda>r r'. unjoined_closed r') (oc_room s) (oc_room t)"
    by (simp add: t_def s2_def xs(1) option.rel_map option.rel_refl)
  have cmon: "cm_terminated (oc_cmon t)" "cm_started (oc_cmon t) = cm_started (oc_cmon s)"
    by (simp_all add: t_def s2_def xs(1))
  have media: "oc_media t = Some (media_Close (oe_old env) m)" by (simp add: t_def s2_def)
  have rest: "oc_stopped t" "oc_pc t = oc_pc s" "\<not> oc_room_in t" "oc_conf t = oc_conf s" "oc_started t = oc_started s"
    "oc_sync t = oc_sync s" "oc_log t = oc_log s @ xs" "oc_active t = oc_active s" "oc_by_remote t = oc_by_remote s"
    "oc_closers t = oc_closers s" "oc_pending t = oc_pending s" "oc_reply t = oc_reply s"
    by (simp_all add: t_def s2_def xs(1))
  have closing: "oe_closing (out_env_of env t) = oe_closing (oe_leg env)" by (simp add: out_env_of_def)
  have "oclosed_by env s s'"
    unfolding oclosed_by_def
    using False m media room cmon rest xs(2) step closing ids media_close.fire_marks [of "oe_old env" m]
    by (auto simp: s' Let_def olog_def)
  then show ?thesis by (rule Closed)
qed

lemma close_for_cases:
  assumes "close_for env c s = Returns s'"
  obtains (Already) "oc_stopped s" and "s' = s"
  | (Closed) "oclosed_by env s s'"
proof (cases c)
  case CByBye
  with assms show ?thesis using that by (auto simp: oc_CloseWithReason_def elim: oc_close_cases)
next
  case CByStop
  with assms show ?thesis using that by (auto simp: oc_Close_def elim: oc_close_cases)
next
  case CByTransfer
  with assms show ?thesis using that by (auto simp: oc_CloseWithReason_def elim: oc_close_cases)
qed

section \<open>Being open, being shut\<close>

fun is_osession_end :: "ocall_act \<Rightarrow> bool" where
  "is_osession_end (OSessionEnd d) = True"
| "is_osession_end _ = False"

text \<open>
  The parts of a call called \<open>lid\<close>: all there while it is open, all closed and every entry
  removed once it is stopped. A remote that answers with an empty tag leaves an entry behind.
\<close>

definition ocore :: "string \<Rightarrow> ocall \<Rightarrow> bool" where
  "ocore lid s \<longleftrightarrow>
     so_id (oc_leg s) = lid
     \<and> (\<forall>t. oc_by_remote s t = Some lid \<longrightarrow> t = so_tag (oc_leg s))
     \<and> (\<exists>m r. oc_media s = Some m \<and> oc_room s = Some r
          \<and> (if oc_stopped s
             then mp_closed m \<and> unjoined_closed r \<and> \<not> oc_room_in s \<and> cm_terminated (oc_cmon s)
               \<and> count_if is_osession_end (oc_log s) = 1 \<and> ODeregisterTransfer lid \<in> set (oc_log s)
               \<and> oc_active s lid = None \<and> (\<forall>t. t \<noteq> '''' \<longrightarrow> oc_by_remote s t \<noteq> Some lid)
             else \<not> mp_closed m \<and> rm_joined r \<and> oc_room_in s \<and> count_if is_osession_end (oc_log s) = 0))"

fun counted :: "ocall_pc \<Rightarrow> bool" where
  "counted OActive = True"
| "counted (ODone err) = True"
| "counted pc = dialling pc"

fun pc_stopped :: "ocall_pc \<Rightarrow> bool" where
  "pc_stopped (ODone (Some e)) = True"
| "pc_stopped (OLeave err) = True"
| "pc_stopped (OExit err) = True"
| "pc_stopped _ = False"

fun pc_open :: "ocall_pc \<Rightarrow> bool" where
  "pc_open (OConfirm codec) = True"
| "pc_open (OAnswered codec) = True"
| "pc_open _ = False"

fun pc_unanswered :: "ocall_pc \<Rightarrow> bool" where
  "pc_unanswered ODial = True"
| "pc_unanswered OInvite = True"
| "pc_unanswered (ORefused e) = True"
| "pc_unanswered (OAnswer sdpOffer sdpResp) = True"
| "pc_unanswered _ = False"

definition olife :: "string \<Rightarrow> ocall \<Rightarrow> bool" where
  "olife lid s \<longleftrightarrow>
     ocore lid s \<and> (cm_started (oc_cmon s) \<longleftrightarrow> counted (oc_pc s))
     \<and> (pc_stopped (oc_pc s) \<longrightarrow> oc_stopped s) \<and> (pc_open (oc_pc s) \<longrightarrow> \<not> oc_stopped s)
     \<and> (pc_unanswered (oc_pc s) \<longrightarrow> (\<forall>t. oc_by_remote s t \<noteq> Some lid))"

text \<open>Steps that leave a call open or shut as it is.\<close>

lemma map_option_SomeE:
  "map_option f x = map_option f y \<Longrightarrow> y = Some b \<Longrightarrow> (\<And>a. x = Some a \<Longrightarrow> f a = f b \<Longrightarrow> thesis) \<Longrightarrow> thesis"
  by (cases x) auto

lemma ocore_cong:
  assumes "ocore lid s"
    and "so_id (oc_leg s') = so_id (oc_leg s)"
    and "so_tag (oc_leg s') = so_tag (oc_leg s) \<or> (\<forall>t. oc_by_remote s t \<noteq> Some lid)"
    and "map_option mp_closed (oc_media s') = map_option mp_closed (oc_media s)"
    and "map_option (\<lambda>r. (rm_joined r, unjoined_closed r)) (oc_room s') = map_option (\<lambda>r. (rm_joined r, unjoined_closed r)) (oc_room s)"
    and "oc_stopped s' = oc_stopped s" and "oc_room_in s' = oc_room_in s"
    and "cm_terminated (oc_cmon s') = cm_terminated (oc_cmon s)"
    and "count_if is_osession_end (oc_log s') = count_if is_osession_end (oc_log s)"
    and "ODeregisterTransfer lid \<in> set (oc_log s) \<Longrightarrow> ODeregisterTransfer lid \<in> set (oc_log s')"
    and "oc_active s lid = None \<Longrightarrow> oc_active s' lid = None"
    and "\<And>t. oc_by_remote s' t = Some lid \<Longrightarrow> oc_by_remote s t = Some lid"
  shows "ocore lid s'"
proof -
  from assms(1) obtain m r where mr: "oc_media s = Some m" "oc_room s = Some r" by (auto simp: ocore_def)
  from map_option_SomeE [OF assms(4) mr(1)] obtain m' where m': "oc_media s' = Some m'" "mp_closed m' = mp_closed m" by blast
  from map_option_SomeE [OF assms(5) mr(2)] obtain r' where
    r': "oc_room s' = Some r'" "rm_joined r' = rm_joined r" "unjoined_closed r' = unjoined_closed r" by blast
  have "so_id (oc_leg s') = lid" using assms(1,2) by (simp add: ocore_def)
  moreover have "\<forall>t. oc_by_remote s' t = Some lid \<longrightarrow> t = so_tag (oc_leg s')"
    using assms(1,3,12) by (auto simp: ocore_def)
  moreover have "if oc_stopped s'
     then mp_closed m' \<and> unjoined_closed r' \<and> \<not> oc_room_in s' \<and> cm_terminated (oc_cmon s')
       \<and> count_if is_osession_end (oc_log s') = 1 \<and> ODeregisterTransfer lid \<in> set (oc_log s')
       \<and> oc_active s' lid = None \<and> (\<forall>t. t \<noteq> '''' \<longrightarrow> oc_by_remote s' t \<noteq> Some lid)
     else \<not> mp_closed m' \<and> rm_joined r' \<and> oc_room_in s' \<and> count_if is_osession_end (oc_log s') = 0"
  proof (cases "oc_stopped s")
    case True
    with assms(1) have "\<forall>t. t \<noteq> '''' \<longrightarrow> oc_by_remote s t \<noteq> Some lid" by (auto simp: ocore_def)
    then have "\<forall>t. t \<noteq> '''' \<longrightarrow> oc_by_remote s' t \<noteq> Some lid" using assms(12) by blast
    with True assms(1,6-11) mr m' r' show ?thesis by (simp add: ocore_def)
  qed (use assms(1,6-11) mr m' r' in \<open>simp add: ocore_def\<close>)
  ultimately show ?thesis unfolding ocore_def using m'(1) r'(1) by blast
qed

lemma count_core_act:
  "filter core_act xs = filter core_act ys \<Longrightarrow> count_if is_osession_end xs = count_if is_osession_end ys
     \<and> (ODeregisterTransfer lid \<in> set xs \<longleftrightarrow> ODeregisterTransfer lid \<in> set ys)
     \<and> (OSetCallStatus a \<in> set xs \<longleftrightarrow> OSetCallStatus a \<in> set ys)"
proof -
  assume eq: "filter core_act xs = filter core_act ys"
  have sub: "filter is_osession_end zs = filter is_osession_end (filter core_act zs)" for zs
  proof (induction zs)
    case (Cons z zs)
    have "is_osession_end z \<Longrightarrow> core_act z" by (cases z) simp_all
    with Cons show ?case by simp
  qed simp
  have mem: "x \<in> set xs \<longleftrightarrow> x \<in> set ys" if "core_act x" for x
    using that arg_cong [OF eq, of set] by auto
  show ?thesis
  proof (intro conjI)
    show "count_if is_osession_end xs = count_if is_osession_end ys"
      unfolding count_if_def sub [of xs] sub [of ys] eq by (rule refl)
    show "ODeregisterTransfer lid \<in> set xs \<longleftrightarrow> ODeregisterTransfer lid \<in> set ys"
      by (rule mem) simp
    show "OSetCallStatus a \<in> set xs \<longleftrightarrow> OSetCallStatus a \<in> set ys"
      by (rule mem) simp
  qed
qed

lemma same_ocore_life:
  assumes "olife lid s" and "same_ocore s s'" and "no_new_entry s s'"
  shows "olife lid s'"
proof -
  from assms(2) have reach: "oleg_reach (oc_leg s) (oc_leg s')" by (simp add: same_ocore_def)
  note leg = oleg_reach_frame [OF reach]
  from assms(1) have lid: "so_id (oc_leg s) = lid" by (simp add: olife_def ocore_def)
  from assms(2) have "map_option fst (map_option (\<lambda>m. (mp_closed m, mp_out_enabled m)) (oc_media s'))
      = map_option fst (map_option (\<lambda>m. (mp_closed m, mp_out_enabled m)) (oc_media s))"
    by (simp add: same_ocore_def)
  then have media: "map_option mp_closed (oc_media s') = map_option mp_closed (oc_media s)"
    by (simp add: option.map_comp comp_def)
  have cores: "filter core_act (oc_log s') = filter core_act (oc_log s)" using assms(2) by (simp add: same_ocore_def)
  have "ocore lid s'"
    by (rule ocore_cong [of lid s])
      (use assms leg media lid count_core_act [OF cores] in \<open>auto simp: olife_def same_ocore_def no_new_entry_def\<close>)
  then show ?thesis
    using assms lid by (auto simp: olife_def same_ocore_def no_new_entry_def)
qed

lemma oclosed_by_life:
  assumes "ocore lid s" and "oclosed_by env s s'"
  shows "ocore lid s' \<and> oc_stopped s'"
proof -
  from assms(1) have lid: "so_id (oc_leg s) = lid" and tag: "\<And>t. oc_by_remote s t = Some lid \<Longrightarrow> t = so_tag (oc_leg s)"
    by (auto simp: ocore_def)
  from assms(2) obtain e where step: "out_step (e, OClose (oe_tx env)) (oc_leg s) = Returns (oc_leg s')"
    by (auto simp: oclosed_by_def)
  note ids = out_step_frame(1,2) [OF step]
  from assms obtain r' where r': "oc_room s' = Some r'" "unjoined_closed r'"
    by (auto simp: oclosed_by_def ocore_def option_rel_Some1)
  from assms(2) obtain xs d where log: "oc_log s' = oc_log s @ xs @ [ODeregisterTransfer (so_id (oc_leg s)), OSessionEnd d]"
    "xs = [] \<or> (\<exists>a. xs = [OSetCallStatus a] \<and> a \<noteq> ''active'')" by (auto simp: oclosed_by_def)
  have cnt: "count_if is_osession_end (oc_log s') = 1"
  proof -
    have "count_if is_osession_end (oc_log s) = 0" using assms by (auto simp: ocore_def oclosed_by_def)
    with log show ?thesis by auto
  qed
  from assms(2) have by_r: "oc_by_remote s' = (if so_tag (oc_leg s) = '''' then oc_by_remote s
      else (oc_by_remote s)(so_tag (oc_leg s) := None))" by (simp add: oclosed_by_def)
  have t: "oc_by_remote s' t = Some lid \<Longrightarrow> t = so_tag (oc_leg s) \<and> t = ''''" for t
    using tag [of t] by (auto simp: by_r split: if_splits)
  from assms(2) obtain m' where m': "oc_media s' = Some m'" "mp_closed m'" by (auto simp: oclosed_by_def)
  show ?thesis
  proof -
    have "oc_stopped s'" "cm_terminated (oc_cmon s')" "\<not> oc_room_in s'" "oc_active s' lid = None"
      using assms(2) lid by (auto simp: oclosed_by_def)
    moreover have "ODeregisterTransfer lid \<in> set (oc_log s')" using log(1) lid by simp
    ultimately show ?thesis
      unfolding ocore_def using lid ids r' m' cnt t by auto
  qed
qed

lemma oclosed_by_pc: "oclosed_by env s s' \<Longrightarrow> oc_pc s' = oc_pc s \<and> cm_started (oc_cmon s') = cm_started (oc_cmon s)
   \<and> (\<forall>t. oc_by_remote s' t = Some l \<longrightarrow> oc_by_remote s t = Some l)"
  by (auto simp: oclosed_by_def split: if_splits)

lemma around_step_life:
  assumes "olife lid s" and "around_step env e s = Returns s'"
  shows "olife lid s'"
  using assms(2)
proof (cases rule: around_step_cases)
  case (Closes c)
  define t where "t = s\<lparr>oc_closers := remove1 c (oc_closers s)\<rparr>"
  have "ocore lid t"
    by (rule ocore_cong [of lid s]) (use assms(1) in \<open>auto simp: t_def olife_def\<close>)
  then have t: "olife lid t" using assms(1) by (auto simp: t_def olife_def)
  from Closes(4) [folded t_def] show ?thesis
  proof (cases rule: close_for_cases)
    case Closed
    note c = oclosed_by_life [OF _ Closed] oclosed_by_pc [OF Closed]
    have "\<not> pc_open (oc_pc t)" using Closes(3) by (cases "oc_pc s") (simp_all add: t_def)
    with t c show ?thesis by (auto simp: olife_def)
  qed (use t in simp)
next
  case Keeps
  with assms(1) same_ocore_life show ?thesis by blast
qed

section \<open>The steps of the goroutine\<close>

text \<open>Attributes set on our participant: nothing else of the call changes.\<close>

definition chats :: "bool \<Rightarrow> ocall \<Rightarrow> ocall \<Rightarrow> bool" where
  "chats ac s s' \<longleftrightarrow>
     (\<exists>r xs. s' = s\<lparr>oc_room := r, oc_log := oc_log s @ xs\<rparr>
        \<and> map_option (\<lambda>r. (rm_joined r, unjoined_closed r)) r = map_option (\<lambda>r. (rm_joined r, unjoined_closed r)) (oc_room s)
        \<and> (\<forall>x\<in>set xs. \<exists>a. x = OSetCallStatus a \<and> (a = ''active'' \<longrightarrow> ac)))"

lemma chats_refl [simp]: "chats ac s s"
  unfolding chats_def by (intro exI [of _ "oc_room s"] exI [of _ "[]"]) simp

lemma chats_trans:
  assumes "chats ac s t" and "chats ac t u"
  shows "chats ac s u"
proof -
  from assms obtain r xs r' ys where *: "t = s\<lparr>oc_room := r, oc_log := oc_log s @ xs\<rparr>"
    "map_option (\<lambda>r. (rm_joined r, unjoined_closed r)) r = map_option (\<lambda>r. (rm_joined r, unjoined_closed r)) (oc_room s)"
    "\<forall>x\<in>set xs. \<exists>a. x = OSetCallStatus a \<and> (a = ''active'' \<longrightarrow> ac)"
    "u = t\<lparr>oc_room := r', oc_log := oc_log t @ ys\<rparr>"
    "map_option (\<lambda>r. (rm_joined r, unjoined_closed r)) r' = map_option (\<lambda>r. (rm_joined r, unjoined_closed r)) (oc_room t)"
    "\<forall>x\<in>set ys. \<exists>a. x = OSetCallStatus a \<and> (a = ''active'' \<longrightarrow> ac)"
    unfolding chats_def by blast
  then have "u = s\<lparr>oc_room := r', oc_log := oc_log s @ (xs @ ys)\<rparr>" by simp
  moreover have "map_option (\<lambda>r. (rm_joined r, unjoined_closed r)) r' = map_option (\<lambda>r. (rm_joined r, unjoined_closed r)) (oc_room s)"
    using * by simp
  moreover have "\<forall>x\<in>set (xs @ ys). \<exists>a. x = OSetCallStatus a \<and> (a = ''active'' \<longrightarrow> ac)" using * by auto
  ultimately show ?thesis unfolding chats_def by blast
qed

lemma chats_setStatus: "(v = CallActive \<Longrightarrow> ac) \<Longrightarrow> chats ac s (oc_setStatus v s)"
proof -
  assume v: "v = CallActive \<Longrightarrow> ac"
  from oc_setStatus_cases [of v s] show ?thesis
  proof
    assume "Attribute v \<noteq> '''' \<and> oc_setStatus v s = olog (OSetCallStatus (Attribute v)) s"
    then show ?thesis
      unfolding chats_def using v
      by (intro exI [of _ "oc_room s"] exI [of _ "[OSetCallStatus (Attribute v)]"])
        (simp add: olog_def Attribute_active)
  qed simp
qed

lemma chats_setExtraAttrs: "chats ac s (setExtraAttrs env m opts cc hdrs s)"
proof (cases "joined_room s")
  case None
  then show ?thesis by (simp add: setExtraAttrs_def Let_def)
next
  case (Some r)
  then have r: "oc_room s = Some r" by (auto simp: joined_room_def split: option.splits if_splits)
  have key: "rm_joined (room_act as r) = rm_joined r" for as by (simp add: room_act_def)
  show ?thesis
  proof (cases "HeadersToAttrs (oe_pre env) (oe_hpre env) None m opts cc hdrs = Map.empty")
    case True
    with Some show ?thesis by (simp add: setExtraAttrs_def)
  next
    case False
    with Some r key show ?thesis
      unfolding setExtraAttrs_def Let_def chats_def by (auto intro!: exI [of _ "[]"])
  qed
qed

lemma chats_on_response: "chats False s (snd (on_response env resp (ringing, s)))"
proof -
  have "chats False s (setExtraAttrs env [] SIP_NO_HEADERS None (resp_headers resp) t)" if "chats False s t" for t
    using chats_trans [OF that chats_setExtraAttrs] .
  moreover have "chats False s (oc_setStatus CallRinging s)" by (rule chats_setStatus) simp
  ultimately show ?thesis by (simp add: on_response_def Let_def split: if_split)
qed

lemma chats_responses: "chats False s (snd (fold (on_response env) seen (ringing, s)))"
proof (induction seen arbitrary: ringing s)
  case (Cons resp seen)
  obtain g t where t: "on_response env resp (ringing, s) = (g, t)" by fastforce
  have "chats False s t" using chats_on_response [of s env resp ringing] t by simp
  with Cons [of t g] t chats_trans show ?case by auto
qed simp

lemma chats_fields:
  assumes "chats ac s s'"
  shows "oc_leg s' = oc_leg s" "oc_pc s' = oc_pc s" "oc_media s' = oc_media s" "oc_cmon s' = oc_cmon s"
    "oc_active s' = oc_active s" "oc_by_remote s' = oc_by_remote s" "oc_stopped s' = oc_stopped s"
    "oc_room_in s' = oc_room_in s" "oc_conf s' = oc_conf s" "oc_started s' = oc_started s" "oc_state s' = oc_state s"
    "oc_closers s' = oc_closers s" "oc_pending s' = oc_pending s" "oc_sync s' = oc_sync s" "oc_reply s' = oc_reply s"
    "map_option (\<lambda>r. (rm_joined r, unjoined_closed r)) (oc_room s') = map_option (\<lambda>r. (rm_joined r, unjoined_closed r)) (oc_room s)"
    "count_if is_osession_end (oc_log s') = count_if is_osession_end (oc_log s)"
    "set (oc_log s) \<subseteq> set (oc_log s')"
    "OSetCallStatus ''active'' \<in> set (oc_log s') \<Longrightarrow> OSetCallStatus ''active'' \<in> set (oc_log s) \<or> ac"
proof -
  from assms obtain r xs where *: "s' = s\<lparr>oc_room := r, oc_log := oc_log s @ xs\<rparr>"
    "map_option (\<lambda>r. (rm_joined r, unjoined_closed r)) r = map_option (\<lambda>r. (rm_joined r, unjoined_closed r)) (oc_room s)"
    "\<forall>x\<in>set xs. \<exists>a. x = OSetCallStatus a \<and> (a = ''active'' \<longrightarrow> ac)" unfolding chats_def by blast
  have "count_if is_osession_end xs = 0" using *(3) by (force simp: count_if_zero)
  then show "count_if is_osession_end (oc_log s') = count_if is_osession_end (oc_log s)" using *(1) by simp
  show "map_option (\<lambda>r. (rm_joined r, unjoined_closed r)) (oc_room s') = map_option (\<lambda>r. (rm_joined r, unjoined_closed r)) (oc_room s)"
    using *(1,2) by simp
  show "OSetCallStatus ''active'' \<in> set (oc_log s') \<Longrightarrow> OSetCallStatus ''active'' \<in> set (oc_log s) \<or> ac"
    using *(1,3) by auto
qed (use assms in \<open>auto simp: chats_def\<close>)

lemma ocore_chats: "ocore lid s \<Longrightarrow> chats ac s s' \<Longrightarrow> ocore lid s'"
  by (rule ocore_cong [of lid s]) (auto simp: chats_fields(1-17) dest: chats_fields(18))

lemma ocore_frame:
  assumes "ocore lid s"
  shows "ocore lid (ogoto pc s)" and "ocore lid (s\<lparr>oc_state := st\<rparr>)" and "ocore lid (s\<lparr>oc_monitor := mn\<rparr>)"
    and "ocore lid (s\<lparr>oc_reply := rp\<rparr>)" and "ocore lid (s\<lparr>oc_started := b\<rparr>)"
    and "so_id leg = so_id (oc_leg s) \<Longrightarrow> so_tag leg = so_tag (oc_leg s) \<or> (\<forall>t. oc_by_remote s t \<noteq> Some lid) \<Longrightarrow>
           ocore lid (s\<lparr>oc_leg := leg\<rparr>)"
    and "\<not> is_osession_end a \<Longrightarrow> ocore lid (olog a s)"
    and "(\<And>c. cm_terminated (fst (f c)) = cm_terminated (fst c)) \<Longrightarrow> ocore lid (on_omon f s)"
  by (rule ocore_cong [OF assms]; use assms in \<open>auto simp: ogoto_def olog_def ocore_def\<close>)+

lemma ogoto_frame [simp]:
  "oc_pc (ogoto pc s) = pc" "oc_leg (ogoto pc s) = oc_leg s" "oc_stopped (ogoto pc s) = oc_stopped s"
  "oc_cmon (ogoto pc s) = oc_cmon s" "oc_media (ogoto pc s) = oc_media s" "oc_room (ogoto pc s) = oc_room s"
  "oc_log (ogoto pc s) = oc_log s" "oc_active (ogoto pc s) = oc_active s" "oc_by_remote (ogoto pc s) = oc_by_remote s"
  "oc_state (ogoto pc s) = oc_state s" "oc_reply (ogoto pc s) = oc_reply s" "oc_closers (ogoto pc s) = oc_closers s"
  "oc_pending (ogoto pc s) = oc_pending s" "oc_sync (ogoto pc s) = oc_sync s" "oc_started (ogoto pc s) = oc_started s"
  "oc_conf (ogoto pc s) = oc_conf s" "oc_room_in (ogoto pc s) = oc_room_in s"
  by (simp_all add: ogoto_def)

lemma olog_frame [simp]:
  "oc_pc (olog a s) = oc_pc s" "oc_leg (olog a s) = oc_leg s" "oc_stopped (olog a s) = oc_stopped s"
  "oc_cmon (olog a s) = oc_cmon s" "oc_media (olog a s) = oc_media s" "oc_room (olog a s) = oc_room s"
  "oc_log (olog a s) = oc_log s @ [a]" "oc_active (olog a s) = oc_active s" "oc_by_remote (olog a s) = oc_by_remote s"
  "oc_state (olog a s) = oc_state s" "oc_closers (olog a s) = oc_closers s" "oc_pending (olog a s) = oc_pending s"
  "oc_started (olog a s) = oc_started s" "oc_conf (olog a s) = oc_conf s"
  by (simp_all add: olog_def)

lemma CallStart_marks: "cm_terminated (fst (CallStart c)) = cm_terminated (fst c)" "cm_started (fst (CallStart c))"
  by (auto simp: CallStart_def split: prod.split)

lemma CallEnd_marks: "cm_terminated (fst (CallEnd c)) = cm_terminated (fst c)" "\<not> cm_started (fst (CallEnd c))"
  by (auto simp: CallEnd_def split: prod.split)

lemma dial_start_cases:
  assumes "dial_start s = Returns s'"
  obtains t where "s' = ogoto OInvite t" and "t = on_omon CallStart s \<or> t = olog OPlayDialtone (on_omon CallStart s)"
  using assms by (auto simp: dial_start_def Let_def split: if_splits)

lemma dial_start_life:
  assumes "olife lid s" and "oc_pc s = ODial" and "dial_start s = Returns s'"
  shows "olife lid s'"
  using assms(3)
proof (cases rule: dial_start_cases)
  case (1 t)
  have "ocore lid (on_omon CallStart s)"
    using assms(1) by (intro ocore_frame) (simp_all add: olife_def CallStart_marks)
  then have "ocore lid t" using 1(2) ocore_frame(7) by auto
  moreover have "cm_started (oc_cmon t)" "oc_by_remote t = oc_by_remote s" using 1(2) by (auto simp: CallStart_marks)
  ultimately show ?thesis using 1(1) assms(1,2) by (simp add: olife_def ocore_frame)
qed

text \<open>The INVITE is sent by the leg; its responses are chatted about.\<close>

lemma Invite_ids:
  assumes "Invite env to user pass headers offer txs c = Returns (c', seen, r)"
  shows "so_id c' = so_id c" "filter is_out_ack (so_out c') = filter is_out_ack (so_out c)"
    "\<And>sdp. r = Inr sdp \<Longrightarrow> \<exists>resp\<in>set seen. resp_status resp = 200"
    "\<forall>resp\<in>set seen. \<exists>tx\<in>set txs. GotResponse resp \<in> set (snd tx)"
proof -
  define ia where "ia = \<lparr>ia_call_id = oe_hash env (so_id c) (GetURI to), ia_dest = GetDest to, ia_to = GetURI to,
     ia_offer = offer, ia_user = user, ia_pass = pass, ia_headers = sort_key fst headers\<rparr>"
  define c0 where "c0 = c\<lparr>so_call_id := ia_call_id ia\<rparr>"
  from assms obtain p where p: "authLoop env ia 0 '''' '''' txs c0 = Returns p"
    and rest0: "(case p of (d, s, q) \<Rightarrow> (case q of Inl e \<Rightarrow> Returns (d, s, Inl e)
       | Inr (req, resp) \<Rightarrow> bind_outcome (accept_response env offer req resp d) (\<lambda>(c, res). Returns (c, s, res))))
       = Returns (c', seen, r)"
    unfolding Invite_def Let_def ia_def [symmetric] c0_def [symmetric] bind_outcome_Returns by blast
  obtain d s q where p': "p = (d, s, q)" by (cases p)
  from rest0 p' have s: "s = seen" by (auto simp: bind_outcome_Returns split: sum.splits)
  from authLoop_sends [OF p [unfolded p']] obtain reqs where reqs: "invites_sent ia c0 d reqs"
    "\<forall>q' resp. q = Inr (q', resp) \<longrightarrow> resp_status resp = 200 \<and> resp \<in> set s" by blast
  from authLoop_from [OF p [unfolded p']] s show "\<forall>resp\<in>set seen. \<exists>tx\<in>set txs. GotResponse resp \<in> set (snd tx)" by simp
  have d: "so_id d = so_id c" "filter is_out_ack (so_out d) = filter is_out_ack (so_out c)"
    using reqs(1) by (auto simp: invites_sent_def c0_def filter_empty_conv)
  from rest0 p' show "so_id c' = so_id c" "filter is_out_ack (so_out c') = filter is_out_ack (so_out c)"
    using d by (auto simp: bind_outcome_Returns accept_response_frame dest: accept_response_frame(1,5) split: sum.splits)
  show "\<exists>resp\<in>set seen. resp_status resp = 200" if "r = Inr sdp" for sdp
    using rest0 p' s reqs(2) that by (auto simp: bind_outcome_Returns split: sum.splits)
qed

lemma signal_invite_cases:
  assumes "signal_invite env sg s = Returns s'"
  obtains (NoOffer) e where "s' = ogoto (OFail e) s"
  | (Sent) leg seen r t pc to offer where
      "Invite (out_env_of env (s\<lparr>oc_monitor := InviteReq (oc_cmon s) (oc_monitor s)\<rparr>)) to (of_user (oc_conf s)) (of_pass (oc_conf s))
         (of_headers (oc_conf s)) offer (sg_txs sg) (oc_leg s) = Returns (leg, seen, r)"
      and "chats False (s\<lparr>oc_monitor := InviteReq (oc_cmon s) (oc_monitor s), oc_leg := leg\<rparr>) t"
      and "s' = ogoto pc t"
      and "(\<exists>e. pc = ORefused e \<and> r = Inl e) \<or> (\<exists>o' a. pc = OAnswer o' a \<and> r = Inr a)"
proof (cases "sg_offer sg (of_encryption (oc_conf s))")
  case (Inl e)
  with assms NoOffer show ?thesis by (auto simp: signal_invite_def)
next
  case off: (Inr o')
  show ?thesis
  proof (cases "sg_marshal sg o'")
    case (Inl e)
    with assms off NoOffer show ?thesis by (auto simp: signal_invite_def)
  next
    case (Inr data)
    define s1 where "s1 = s\<lparr>oc_monitor := InviteReq (oc_cmon s) (oc_monitor s)\<rparr>"
    define to where "to = CreateURIFromUserAndAddress (of_to (oc_conf s)) (of_address (oc_conf s)) (TransportFrom (of_transport (oc_conf s)))"
    have s1: "oc_conf s1 = oc_conf s" "oc_leg s1 = oc_leg s" by (simp_all add: s1_def)
    from assms off Inr obtain p where
      inv: "Invite (out_env_of env s1) to (of_user (oc_conf s)) (of_pass (oc_conf s)) (of_headers (oc_conf s)) data
              (sg_txs sg) (oc_leg s) = Returns p"
      and rest: "(case p of (leg, seen, r) \<Rightarrow>
                        let s = snd (fold (on_response env) seen (False, s1\<lparr>oc_leg := leg\<rparr>))
                        in case r of
                             Inl e \<Rightarrow> Returns (ogoto (ORefused e) s)
                           | Inr sdpResp \<Rightarrow> Returns (ogoto (OAnswer o' sdpResp) s)) = Returns s'"
      unfolding signal_invite_def Let_def s1_def [symmetric]
      by (auto simp: bind_outcome_Returns s1 to_def)
    obtain leg seen r where p: "p = (leg, seen, r)" by (cases p)
    define t where "t = snd (fold (on_response env) seen (False, s1\<lparr>oc_leg := leg\<rparr>))"
    have "chats False (s1\<lparr>oc_leg := leg\<rparr>) t" unfolding t_def by (rule chats_responses)
    with rest p inv Sent [of to data leg seen r t] show ?thesis
      unfolding s1_def by (auto simp: Let_def t_def s1_def split: sum.splits)
  qed
qed

lemma signal_invite_life:
  assumes "olife lid s" and "oc_pc s = OInvite" and "signal_invite env sg s = Returns s'"
  shows "olife lid s'"
  using assms(3)
proof (cases rule: signal_invite_cases)
  case (NoOffer e)
  with assms(1,2) show ?thesis by (simp add: olife_def ocore_frame)
next
  case (Sent leg seen r t pc to offer)
  have none: "\<forall>t. oc_by_remote s t \<noteq> Some lid" using assms(1,2) by (simp add: olife_def)
  have "ocore lid s" using assms(1) by (simp add: olife_def)
  then have "ocore lid (s\<lparr>oc_monitor := InviteReq (oc_cmon s) (oc_monitor s), oc_leg := leg\<rparr>)"
    using Invite_ids(1) [OF Sent(1)] none ocore_frame(3) by (intro ocore_frame(6)) auto
  then have "ocore lid t" using Sent(2) by (rule ocore_chats)
  moreover have "pc_unanswered pc" "counted pc" "\<not> pc_stopped pc" "\<not> pc_open pc" using Sent(4) by auto
  ultimately show ?thesis
    using Sent(3) assms(1,2) chats_fields(4,6) [OF Sent(2)] none by (simp add: olife_def ocore_frame)
qed

lemma out_Close_step: "out_Close env tx c = Returns d \<longleftrightarrow> out_step (env, OClose tx) c = Returns d"
  by simp

lemma signal_refused_cases:
  assumes "signal_refused env e s = Returns s'"
  obtains mn st leg where "out_step (out_env_of env (s\<lparr>oc_monitor := mn, oc_state := st\<rparr>), OClose (oe_tx env)) (oc_leg s) = Returns leg"
    and "s' = ogoto (OFail e) (s\<lparr>oc_monitor := mn, oc_state := st, oc_leg := leg\<rparr>)"
    and "cs_info st = (case err_as_sip_status e of None \<Rightarrow> cs_info (oc_state s)
           | Some code \<Rightarrow> (cs_info (oc_state s))\<lparr>ci_status_code := Some code\<rparr>)"
proof (cases "err_as_sip_status e")
  case None
  have same: "s\<lparr>oc_monitor := mn, oc_state := oc_state s\<rparr> = s\<lparr>oc_monitor := mn\<rparr>" for mn by (cases s) simp
  from None assms obtain leg where
    "out_Close (out_env_of env (s\<lparr>oc_monitor := InviteError ''other'' (oc_cmon s) (oc_monitor s)\<rparr>)) (oe_tx env) (oc_leg s) = Returns leg"
    "s' = ogoto (OFail e) (s\<lparr>oc_monitor := InviteError ''other'' (oc_cmon s) (oc_monitor s), oc_leg := leg\<rparr>)"
    by (auto simp: signal_refused_def Let_def bind_outcome_Returns)
  with None that [where mn = "InviteError ''other'' (oc_cmon s) (oc_monitor s)" and st = "oc_state s" and leg = leg] show ?thesis
    by (simp add: same)
next
  case (Some st)
  with assms that [where mn = "InviteError (statusName (fst st)) (oc_cmon s) (oc_monitor s)"
      and st = "DeferUpdate (\<lambda>info. info\<lparr>ci_status_code := Some st\<rparr>) (oc_state s)"] show ?thesis
    by (auto simp: signal_refused_def Let_def bind_outcome_Returns)
qed

lemma signal_refused_life:
  assumes "olife lid s" and "oc_pc s = ORefused e0" and "signal_refused env e s = Returns s'"
  shows "olife lid s'"
  using assms(3)
proof (cases rule: signal_refused_cases)
  case (1 mn st leg)
  note ids = out_step_frame(1,2) [OF 1(1)]
  have "ocore lid (s\<lparr>oc_monitor := mn, oc_state := st\<rparr>)"
    using ocore_frame(2) [OF ocore_frame(3)] assms(1) by (simp add: olife_def)
  then have "ocore lid ((s\<lparr>oc_monitor := mn, oc_state := st\<rparr>)\<lparr>oc_leg := leg\<rparr>)"
    by (rule ocore_frame(6)) (simp_all add: ids)
  with 1(2) assms(1,2) show ?thesis by (simp add: olife_def ocore_frame)
qed

lemma SetConfig_closed: "mp_closed (fst (SetConfig env conf p)) = mp_closed p"
  by (auto simp: SetConfig_def setupOutput_def setupInput_def act_def Let_def split: option.split)

lemma signal_answer_cases:
  assumes "signal_answer env sg offer answer s = Returns s'"
  obtains (Unusable) m m' e where "oc_media s = Some m" and "mp_closed m' = mp_closed m"
      and "mp_out_enabled m' = mp_out_enabled m" and "s' = ogoto (OFail e) (s\<lparr>oc_media := Some m'\<rparr>)"
  | (Usable) m m' mn mt codec where "oc_media s = Some m" and "\<not> mp_closed m" and "\<not> mp_closed m'" and "mp_conf m' \<noteq> None"
      and "s' = ogoto (OConfirm codec)
             (s\<lparr>oc_media := Some m', oc_by_remote := (oc_by_remote s)(so_tag (oc_leg s) \<mapsto> so_id (oc_leg s)),
                oc_monitor := mn, oc_timeout := mt\<rparr>)"
proof -
  from assms obtain m where m: "oc_media s = Some m" by (cases "oc_media s") (auto simp: signal_answer_def)
  show ?thesis
  proof (cases "SetAnswer (sg_parse sg) (sg_apply sg) offer answer (of_encryption (oc_conf s))")
    case (Inl e)
    have "s\<lparr>oc_media := Some m\<rparr> = s" using m by (cases s) simp
    with assms m Inl Unusable [of m m e] show ?thesis by (simp add: signal_answer_def)
  next
    case (Inr mc)
    define mc' where "mc' = mc\<lparr>mc_processor := sg_processor sg (of_features (oc_conf s))\<rparr>"
    obtain m' err where c: "SetConfig (sg_setup sg) mc' m = (m', err)" by fastforce
    have keep: "mp_closed m' = mp_closed m" "mp_out_enabled m' = mp_out_enabled m"
      using SetConfig_closed [of "sg_setup sg" mc' m] SetConfig_enabled [of "sg_setup sg" mc' m] c by simp_all
    show ?thesis
    proof (cases err)
      case (Some e)
      with assms m Inr c keep Unusable [of m m' e] show ?thesis
        by (simp add: signal_answer_def mc'_def)
    next
      case None
      then have open': "\<not> mp_closed m" "mp_conf m' \<noteq> None"
        using c by (auto simp: SetConfig_def media_closed_error_def setupInput_def setupOutput_def act_def Let_def
            split: if_splits option.splits)
      have "s' = ogoto (OConfirm (mc_audio_name mc'))
                         (s\<lparr>oc_media := Some (EnableOut m'),
                            oc_by_remote := (oc_by_remote s)(so_tag (oc_leg s) \<mapsto> so_id (oc_leg s)),
                            oc_monitor := InviteAccept (oc_cmon s) (oc_monitor s),
                            oc_timeout := EnableTimeout (oe_now env) True (oc_timeout s)\<rparr>)"
        using assms m Inr c None by (simp add: signal_answer_def mc'_def)
      with m open' keep show ?thesis by (intro Usable [of m "EnableOut m'"]) (simp_all add: EnableOut_def)
    qed
  qed
qed

lemma signal_answer_life:
  assumes "olife lid s" and "oc_pc s = OAnswer o' a" and "signal_answer env sg offer answer s = Returns s'"
  shows "olife lid s'"
  using assms(3)
proof (cases rule: signal_answer_cases)
  case (Unusable m m' e)
  have "ocore lid (s\<lparr>oc_media := Some m'\<rparr>)"
    by (rule ocore_cong [of lid s]) (use assms(1) Unusable(1,2) in \<open>auto simp: olife_def\<close>)
  with Unusable(4) assms(1,2) show ?thesis by (simp add: olife_def ocore_frame)
next
  case (Usable m m' mn mt codec)
  from assms(1) have core: "ocore lid s" by (simp add: olife_def)
  then have open': "\<not> oc_stopped s" using Usable(1,2) by (auto simp: ocore_def split: if_splits)
  have "\<forall>t. oc_by_remote s t \<noteq> Some lid" using assms(1,2) by (simp add: olife_def)
  with core open' Usable(1,3) have "ocore lid (s\<lparr>oc_media := Some m',
     oc_by_remote := (oc_by_remote s)(so_tag (oc_leg s) \<mapsto> so_id (oc_leg s)), oc_monitor := mn, oc_timeout := mt\<rparr>)"
    by (auto simp: ocore_def)
  with Usable(5) open' assms(1,2) show ?thesis by (simp add: olife_def ocore_frame)
qed

lemma signal_confirm_cases:
  assumes "signal_confirm w codec s = Returns s'"
  obtains pc where "s' = ogoto pc (s\<lparr>oc_leg := fst (AckInviteOK w (oc_leg s))\<rparr>)"
    and "(\<exists>e. pc = OFail e) \<or> pc = OAnswered codec"
  using assms by (auto simp: signal_confirm_def split: prod.splits option.splits)

lemma signal_confirm_life:
  assumes "olife lid s" and "oc_pc s = OConfirm c0" and "signal_confirm w codec s = Returns s'"
  shows "olife lid s'"
  using assms(3)
proof (cases rule: signal_confirm_cases)
  case (1 pc)
  have ids: "out_step (undefined, OAck w) (oc_leg s) = Returns (fst (AckInviteOK w (oc_leg s)))" by simp
  have "ocore lid s" using assms(1) by (simp add: olife_def)
  then have "ocore lid (s\<lparr>oc_leg := fst (AckInviteOK w (oc_leg s))\<rparr>)"
    by (rule ocore_frame(6)) (simp_all add: out_step_frame(1,2) [OF ids])
  with 1 assms(1,2) show ?thesis by (auto simp: olife_def ocore_frame)
qed

lemma initial_dtmf_cases:
  assumes "initial_dtmf ts err s = Returns (t, e)"
  obtains xs where "chats False s xs" and "t = xs \<or> (\<exists>w. t = olog (OInitialDTMF w) xs)"
proof (cases "of_dtmf (oc_conf s) = ''''")
  case True
  with assms that [of s] show ?thesis by (simp add: initial_dtmf_def Let_def)
next
  case False
  have "chats False s (oc_setStatus CallAutomation s)" by (rule chats_setStatus) simp
  with assms False that [of "oc_setStatus CallAutomation s"] show ?thesis
    by (auto simp: initial_dtmf_def Let_def split: option.splits)
qed

lemma room_key_connect:
  "rm_joined (SetDTMFOutput True ((if b then room_act as else id) (SwapOutput True r))) = rm_joined r"
  "unjoined_closed (SetDTMFOutput True ((if b then room_act as else id) (SwapOutput True r))) = unjoined_closed r"
  by (simp_all add: SetDTMFOutput_def SwapOutput_def room_act_def unjoined_closed_def)

lemma connectMedia_cases:
  assumes "connectMedia env old s = Returns s'"
  obtains m m' r where "oc_media s = Some m" and "mp_closed m' = mp_closed m" and "mp_out_enabled m' = mp_out_enabled m"
    and "s' = s\<lparr>oc_room := r, oc_media := Some m'\<rparr>"
    and "map_option (\<lambda>r. (rm_joined r, unjoined_closed r)) r = map_option (\<lambda>r. (rm_joined r, unjoined_closed r)) (oc_room s)"
proof -
  from assms obtain m where m: "oc_media s = Some m" by (cases "oc_media s") (auto simp: connectMedia_def)
  with assms obtain m1 where m1: "WriteAudioTo old m = Returns m1"
    and s': "s' = s\<lparr>oc_room := map_option
                         (\<lambda>r. SetDTMFOutput True
                                ((if oe_room_old env then room_act [CloseRoomOutput] else id) (SwapOutput True r))) (oc_room s),
                       oc_media := Some (HandleDTMF True m1)\<rparr>"
    by (auto simp: connectMedia_def bind_outcome_Returns)
  have "mp_closed (HandleDTMF True m1) = mp_closed m" "mp_out_enabled (HandleDTMF True m1) = mp_out_enabled m"
    using m1 by (auto simp: WriteAudioTo_def HandleDTMF_def act_def split: option.splits)
  with m s' show ?thesis
    by (intro that [where m = m and m' = "HandleDTMF True m1" and r = "map_option
                         (\<lambda>r. SetDTMFOutput True
                                ((if oe_room_old env then room_act [CloseRoomOutput] else id) (SwapOutput True r))) (oc_room s)"])
      (simp_all add: option.map_comp comp_def room_key_connect)
qed

lemma Subscribe_key:
  "rm_joined r \<Longrightarrow> rm_joined (Subscribe rs r) = rm_joined r \<and> unjoined_closed (Subscribe rs r) = unjoined_closed r"
  using Subscribe_frame [of rs r] by (simp add: unjoined_closed_def)

lemma dial_answered_cases:
  assumes "dial_answered env ts err old rs codec s = Returns s'"
  obtains (Failed) t e u where "chats False s t" and "chats False (t\<lparr>oc_state := DeferUpdate (answered_info env codec t) (oc_state t)\<rparr>) u"
      and "s' = ogoto (OFail e) u \<or> (\<exists>w. s' = ogoto (OFail e) (olog (OInitialDTMF w) u))"
  | (Active) t u v x m m' r where "chats False s t"
      and "chats False (t\<lparr>oc_state := DeferUpdate (answered_info env codec t) (oc_state t)\<rparr>) u"
      and "v = u \<or> (\<exists>w. v = olog (OInitialDTMF w) u)" and "chats True v x"
      and "oc_media x = Some m" and "mp_closed m' = mp_closed m" and "mp_out_enabled m' = mp_out_enabled m"
      and "map_option (\<lambda>r. (rm_joined r, unjoined_closed r)) r = map_option (\<lambda>r. (rm_joined r, unjoined_closed r)) (oc_room x)"
      and "s' = ogoto OActive (x\<lparr>oc_media := Some m', oc_started := True, oc_room := map_option (Subscribe rs) r\<rparr>)"
proof -
  define t where "t = setExtraAttrs env (of_headers_to_attrs (oc_conf s)) (of_include_headers (oc_conf s))
                (Some (out_view (oc_leg s))) [] s"
  define t' where "t' = t\<lparr>oc_state := DeferUpdate (answered_info env codec t) (oc_state t)\<rparr>"
  have st: "chats False s t" unfolding t_def by (rule chats_setExtraAttrs)
  from assms obtain p where p: "initial_dtmf ts err t' = Returns p"
    and rest: "(case p of (s, err) \<Rightarrow>
           case err of
             Some e \<Rightarrow> Returns (ogoto (OFail e) s)
           | None \<Rightarrow>
               (let s = oc_setStatus CallActive s
                in bind_outcome (connectMedia env old s) (\<lambda>s.
                     let s = s\<lparr>oc_started := True\<rparr>
                     in Returns (ogoto OActive (s\<lparr>oc_room := map_option (Subscribe rs) (oc_room s)\<rparr>))))) = Returns s'"
    unfolding dial_answered_def Let_def t_def [symmetric] t'_def [symmetric] bind_outcome_Returns by blast
  obtain v e where pv: "p = (v, e)" by (cases p)
  from p [unfolded pv] obtain u where u: "chats False t' u" "v = u \<or> (\<exists>w. v = olog (OInitialDTMF w) u)"
    by (rule initial_dtmf_cases)
  show ?thesis
  proof (cases e)
    case (Some e')
    with rest pv u st Failed [of t u e'] show ?thesis unfolding t'_def by auto
  next
    case None
    define x where "x = oc_setStatus CallActive v"
    from rest pv None obtain y where y: "connectMedia env old x = Returns y"
      and s': "s' = ogoto OActive (y\<lparr>oc_started := True, oc_room := map_option (Subscribe rs) (oc_room y)\<rparr>)"
      by (auto simp: Let_def bind_outcome_Returns x_def)
    have vx: "chats True v x" unfolding x_def by (rule chats_setStatus) simp
    from y obtain m m' r where "oc_media x = Some m" "mp_closed m' = mp_closed m" "mp_out_enabled m' = mp_out_enabled m"
      "y = x\<lparr>oc_room := r, oc_media := Some m'\<rparr>"
      "map_option (\<lambda>r. (rm_joined r, unjoined_closed r)) r = map_option (\<lambda>r. (rm_joined r, unjoined_closed r)) (oc_room x)"
      by (rule connectMedia_cases)
    with s' st u vx show ?thesis
      unfolding t'_def by (intro Active [where t = t and u = u and v = v and x = x and m = m and m' = m' and r = r]) simp_all
  qed
qed

lemma dial_answered_life:
  assumes "olife lid s" and "oc_pc s = OAnswered c0" and "dial_answered env ts err old rs codec s = Returns s'"
  shows "olife lid s'"
proof -
  have core: "ocore lid s" and open': "\<not> oc_stopped s" and started: "cm_started (oc_cmon s)"
    using assms(1,2) by (simp_all add: olife_def)
  from assms(3) show ?thesis
  proof (cases rule: dial_answered_cases)
    case (Failed t e u)
    have "ocore lid u"
      by (rule ocore_chats [OF ocore_frame(2) [OF ocore_chats [OF core Failed(1)]] Failed(2)])
    then have "ocore lid (ogoto (OFail e) u)" "ocore lid (ogoto (OFail e) (olog (OInitialDTMF w) u))" for w
      by (simp_all add: ocore_frame)
    moreover have "cm_started (oc_cmon u)" using started Failed(1,2) by (simp add: chats_fields)
    ultimately show ?thesis using Failed(3) by (auto simp: olife_def)
  next
    case (Active t u v x m m' r)
    have "ocore lid u"
      by (rule ocore_chats [OF ocore_frame(2) [OF ocore_chats [OF core Active(1)]] Active(2)])
    then have "ocore lid v" using Active(3) by (auto simp: ocore_frame)
    then have x: "ocore lid x" using Active(4) ocore_chats by blast
    have f: "oc_stopped x = oc_stopped s" "oc_cmon x = oc_cmon s"
      using Active(1-4) by (auto simp: chats_fields)
    from x open' f obtain r0 where r0: "oc_room x = Some r0" "rm_joined r0" by (auto simp: ocore_def)
    with Active(8) obtain r1 where r1: "r = Some r1" "rm_joined r1" by (cases r) auto
    have "ocore lid (x\<lparr>oc_media := Some m', oc_started := True, oc_room := map_option (Subscribe rs) r\<rparr>)"
      by (rule ocore_cong [OF x])
        (use Active(5,6) r0 r1 Subscribe_key [of r1 rs] in \<open>auto simp: unjoined_closed_def\<close>)
    with Active(9) f started show ?thesis by (simp add: olife_def ocore_frame)
  qed
qed

lemma dial_failed_cases:
  assumes "dial_failed env err s = Returns s'"
  obtains (Already) "oc_stopped s" and "s' = ogoto (ODone (Some err)) s"
  | (Closed) t where "oclosed_by env s t" and "s' = ogoto (ODone (Some err)) t"
proof -
  obtain rep status d reason where df: "dial_failure err = (rep, status, d, reason)" by (cases "dial_failure err")
  then have "status \<noteq> CallActive" by (auto simp: dial_failure_def split: option.splits prod.splits if_splits)
  moreover from assms df obtain t where "oc_close env rep status d reason s = Returns t" "s' = ogoto (ODone (Some err)) t"
    by (auto simp: dial_failed_def bind_outcome_Returns)
  ultimately show ?thesis using Already Closed by (auto elim: oc_close_cases)
qed

lemma dial_failed_life:
  assumes "olife lid s" and "oc_pc s = OFail e0" and "dial_failed env err s = Returns s'"
  shows "olife lid s'"
  using assms(3)
proof (cases rule: dial_failed_cases)
  case Already
  with assms(1,2) show ?thesis by (simp add: olife_def ocore_frame)
next
  case (Closed t)
  have "ocore lid s" using assms(1) by (simp add: olife_def)
  note c = oclosed_by_life [OF this Closed(1)] oclosed_by_pc [OF Closed(1)]
  with Closed(2) assms(1,2) show ?thesis by (simp add: olife_def ocore_frame)
qed

lemma dial_active_cases:
  assumes "dial_active env s = Returns s'"
  obtains r where "joined_room s = Some r"
    and "s' = ogoto (ODone None) (s\<lparr>oc_state := Update (oe_flush_ok env) (\<lambda>info.
                 info\<lparr>ci_room_id := oe_room_sid env, ci_started_at := oe_now env, ci_status := SCS_ACTIVE\<rparr>)
                 (oc_state s)\<rparr>)"
  using assms by (auto simp: dial_active_def split: option.splits)

lemma dial_active_life:
  assumes "olife lid s" and "oc_pc s = OActive" and "dial_active env s = Returns s'"
  shows "olife lid s'"
  using assms(3) by (cases rule: dial_active_cases) (use assms(1,2) in \<open>simp add: olife_def ocore_frame\<close>)

lemma dial_done_shape:
  assumes "dial_done env err s = Returns s'"
  shows "\<exists>rp. s' = ogoto (if err = None then OWait else OExit err) ((on_omon CallEnd (ensureClosed env s))\<lparr>oc_reply := rp\<rparr>)"
proof -
  define t where "t = on_omon CallEnd (ensureClosed env s)"
  have same: "t\<lparr>oc_reply := oc_reply t\<rparr> = t" by (cases t) simp
  have "s' = ogoto (if err = None then OWait else OExit err) (if oc_sync t then t\<lparr>oc_reply := Some err\<rparr> else t)"
    using assms unfolding dial_done_def Let_def t_def [symmetric] by (auto simp: t_def)
  then show ?thesis
    unfolding t_def [symmetric]
    by (intro exI [of _ "if oc_sync t then Some err else oc_reply t"]) (simp add: same)
qed

lemma dial_done_life:
  assumes "olife lid s" and "oc_pc s = ODone err" and "dial_done env err s = Returns s'"
  shows "olife lid s'"
proof -
  from dial_done_shape [OF assms(3)] obtain rp where
    s': "s' = ogoto (if err = None then OWait else OExit err) ((on_omon CallEnd (ensureClosed env s))\<lparr>oc_reply := rp\<rparr>)" by blast
  have "ocore lid (ensureClosed env s)" using assms(1) by (simp add: olife_def ensureClosed_def ocore_frame)
  then have "ocore lid (on_omon CallEnd (ensureClosed env s))" by (rule ocore_frame(8)) (simp add: CallEnd_marks)
  from ocore_frame(1) [OF ocore_frame(4) [OF this]] have "ocore lid s'" unfolding s' .
  with s' assms(1,2) show ?thesis
    by (cases err) (auto simp: olife_def CallEnd_marks ensureClosed_def)
qed

lemma setErrStatus_frame:
  obtains st where "setErrStatus env err s = s\<lparr>oc_state := st\<rparr>"
proof (cases err)
  case None
  have "s = s\<lparr>oc_state := oc_state s\<rparr>" by (cases s) simp
  with None that [of "oc_state s"] show ?thesis by (simp add: setErrStatus_def)
next
  case (Some e)
  with that show ?thesis by (simp add: setErrStatus_def)
qed

text \<open>\<open>WaitClose\<close> goes on, or it closes the call, or finds it closed, and leaves.\<close>

lemma wait_close_cases:
  assumes "wait_close env ev s = Returns s'"
  obtains (Tick) st where "s' = s\<lparr>oc_state := st\<rparr>"
  | (Leaves) err st t where "s' = ogoto (OLeave err) (t\<lparr>oc_state := st\<rparr>)" and "oc_stopped s \<and> t = s \<or> oclosed_by env s t"
proof (cases ev)
  case OTick
  with assms show ?thesis by (intro Tick [of "ForceFlush (oe_flush_ok env) (oc_state s)"]) simp
next
  case ORoomClosed
  with assms obtain t where t: "oc_close env None callDropped ''removed'' CLIENT_INITIATED s = Returns t" "s' = ogoto (OLeave None) t"
    by (auto simp: oc_CloseWithReason_def bind_outcome_Returns split: option.splits if_splits)
  have "t\<lparr>oc_state := oc_state t\<rparr> = t" by (cases t) simp
  with t(2) have s': "s' = ogoto (OLeave None) (t\<lparr>oc_state := oc_state t\<rparr>)" by simp
  from t(1) show ?thesis by (rule oc_close_cases) (use Leaves [OF s'] in auto)
next
  case OMediaTimeout
  with assms obtain t where
    t: "oc_close env (Some (PsrpcErr DeadlineExceeded ''media-timeout'' None)) callDropped ''media-timeout'' UNKNOWN_REASON s = Returns t"
    and s': "s' = ogoto (OLeave (Some (PsrpcErr DeadlineExceeded ''media timeout'' None)))
             (setErrStatus env (Some (PsrpcErr DeadlineExceeded ''media timeout'' None)) t)"
    by (auto simp: oc_closeWithTimeout_def bind_outcome_Returns Let_def split: if_splits)
  obtain st where st: "setErrStatus env (Some (PsrpcErr DeadlineExceeded ''media timeout'' None)) t = t\<lparr>oc_state := st\<rparr>"
    by (rule setErrStatus_frame)
  from t show ?thesis
    by (rule oc_close_cases) (use s' st Leaves in auto)
next
  case OClosed
  have "s\<lparr>oc_state := oc_state s\<rparr> = s" by (cases s) simp
  with OClosed assms show ?thesis
    by (intro Leaves [where err = None and t = s and st = "oc_state s"]) (auto split: if_splits)
qed

lemma wait_close_life:
  assumes "olife lid s" and "oc_pc s = OWait" and "wait_close env ev s = Returns s'"
  shows "olife lid s'"
proof -
  have core: "ocore lid s" and cm: "\<not> cm_started (oc_cmon s)" using assms(1,2) by (simp_all add: olife_def)
  from assms(3) show ?thesis
  proof (cases rule: wait_close_cases)
    case (Tick st)
    with assms(1) show ?thesis by (simp add: olife_def ocore_frame)
  next
    case (Leaves err st t)
    have "ocore lid t \<and> oc_stopped t \<and> \<not> cm_started (oc_cmon t)"
      using Leaves(2) core cm oclosed_by_life [OF core, of env t] oclosed_by_pc [of env s t] by auto
    with Leaves(1) show ?thesis by (simp add: olife_def ocore_frame)
  qed
qed

lemma dial_step_life:
  assumes "olife lid s" and "dial_step env e (oc_pc s) s = Returns s'"
  shows "olife lid s'"
proof (cases "oc_pc s")
  case ODial
  with assms dial_start_life show ?thesis by (auto split: dial_event.splits)
next
  case OInvite
  with assms signal_invite_life show ?thesis by (auto split: dial_event.splits)
next
  case (ORefused err)
  with assms signal_refused_life show ?thesis by (auto split: dial_event.splits)
next
  case (OAnswer o' a)
  with assms signal_answer_life show ?thesis by (auto split: dial_event.splits)
next
  case (OConfirm codec)
  with assms signal_confirm_life show ?thesis by (auto split: dial_event.splits)
next
  case (OAnswered codec)
  with assms dial_answered_life show ?thesis by (auto split: dial_event.splits)
next
  case (OFail err)
  with assms dial_failed_life show ?thesis by (auto split: dial_event.splits)
next
  case OActive
  with assms dial_active_life show ?thesis by (auto split: dial_event.splits)
next
  case (ODone err)
  with assms dial_done_life show ?thesis by (auto split: dial_event.splits)
next
  case OWait
  with assms wait_close_life show ?thesis by (auto split: dial_event.splits)
next
  case (OLeave err)
  with assms show ?thesis
    by (auto simp: wait_leave_def ensureClosed_def olife_def ocore_frame split: dial_event.splits)
next
  case (OExit err)
  with assms show ?thesis by simp
qed

lemma ocall_step_life: "olife lid s \<Longrightarrow> ocall_step e s = Returns s' \<Longrightarrow> olife lid s'"
proof -
  assume life: "olife lid s" and step: "ocall_step e s = Returns s'"
  obtain env ev where e: "e = (env, ev)" by (cases e)
  show "olife lid s'"
  proof (cases ev)
    case (Dialer d)
    with step e have "dial_step env d (oc_pc s) s = Returns s'" by simp
    with life show ?thesis by (rule dial_step_life)
  next
    case (Around a)
    with step e have "around_step env a s = Returns s'" by simp
    with life show ?thesis by (rule around_step_life)
  qed
qed

interpretation outbound_call: outcome_system ocall_step "olife lid" "\<lambda>_. True"
  by unfold_locales (rule ocall_step_life)

section \<open>A new call\<close>

lemma connectToRoom_ok:
  assumes "connectToRoom env ja room s = Returns (s', None)"
  obtains r xs where "s' = s\<lparr>oc_log := oc_log s @ xs, oc_room := Some r, oc_room_in := True\<rparr>" and "rm_joined r"
    and "xs = [] \<or> (\<exists>i. xs = [ORegisterTransfer i])"
proof -
  define i where "i = (case room_attrs (rc_participant room) (oe_call_id_attr env) of None \<Rightarrow> '''' | Some v \<Rightarrow> v)"
  define t where "t = (if i \<noteq> '''' then olog (ORegisterTransfer i) s else s)"
  define rc where "rc = room\<lparr>rc_participant := (rc_participant room)\<lparr>pc_attributes :=
     Some ((room_attrs (rc_participant room))(oe_status_attr env \<mapsto> Attribute CallDialing))\<rparr>\<rparr>"
  obtain r1 e1 where c: "Connect (oe_keys env) (oe_conf env) (ja_sign ja) (ja_join ja) rc NewRoom = (r1, e1)" by fastforce
  from assms c have "e1 = None"
    unfolding connectToRoom_def Let_def i_def [symmetric] t_def [symmetric] rc_def [symmetric]
    by (auto split: option.splits)
  with assms c obtain r where r: "NewParticipantTrack (ja_track ja) r1 = Returns (r, None)"
    and s': "s' = t\<lparr>oc_room := Some r, oc_room_in := True\<rparr>"
    unfolding connectToRoom_def Let_def i_def [symmetric] t_def [symmetric] rc_def [symmetric]
    by (auto simp: bind_outcome_Returns split: option.splits)
  have "rm_joined r1"
    using c \<open>e1 = None\<close> by (auto simp: Connect_def Let_def room_act_def split: sum.splits prod.splits)
  then have j: "rm_joined r" using NewParticipantTrack_frame [OF r] by simp
  show ?thesis
  proof (cases "i = ''''")
    case True
    have "s\<lparr>oc_log := oc_log s\<rparr> = s" by (cases s) simp
    with True s' j that [where xs = "[]" and r = r] show ?thesis by (simp add: t_def)
  next
    case False
    with s' j that [where xs = "[ORegisterTransfer i]" and r = r] show ?thesis by (simp add: t_def olog_def)
  qed
qed

text \<open>A call made: not dialled yet, everything in place, nothing sent.\<close>

definition ready_call :: "string \<Rightarrow> ocall \<Rightarrow> bool" where
  "ready_call lid s \<longleftrightarrow>
     olife lid s \<and> oc_pc s = ODial \<and> \<not> oc_stopped s \<and> oc_closers s = [] \<and> oc_pending s = [] \<and> \<not> oc_started s
     \<and> map_option mp_out_enabled (oc_media s) = Some False \<and> (\<forall>a. OSetCallStatus a \<notin> set (oc_log s))
     \<and> (\<exists>from contact dn. oc_leg s = newOutbound lid from contact dn)
     \<and> oc_active s lid = Some lid"

lemma bare_call_fields:
  "oc_leg (bare_call env contact draw mon lid conf st pid sync active by_remote) =
     newOutbound lid \<lparr>User = of_from conf, Host = of_host (call_conf (contact (TransportFrom (of_transport conf))) conf),
        Addr = Addr (contact (TransportFrom (of_transport conf))), Port = 0, Transport = TransportFrom (of_transport conf)\<rparr>
        (contact (TransportFrom (of_transport conf))) (of_display_name conf)"
  "oc_pc (bare_call env contact draw mon lid conf st pid sync active by_remote) = ODial"
  "oc_by_remote (bare_call env contact draw mon lid conf st pid sync active by_remote) = by_remote"
  "oc_log (bare_call env contact draw mon lid conf st pid sync active by_remote) = []"
  "oc_stopped (bare_call env contact draw mon lid conf st pid sync active by_remote) = False"
  "oc_started (bare_call env contact draw mon lid conf st pid sync active by_remote) = False"
  "oc_closers (bare_call env contact draw mon lid conf st pid sync active by_remote) = []"
  "oc_pending (bare_call env contact draw mon lid conf st pid sync active by_remote) = []"
  "cm_started (oc_cmon (bare_call env contact draw mon lid conf st pid sync active by_remote)) = False"
  "oc_state (bare_call env contact draw mon lid conf st pid sync active by_remote) = st"
  "oc_sync (bare_call env contact draw mon lid conf st pid sync active by_remote) = sync"
  by (simp_all add: bare_call_def Let_def NewCall_def call_conf_def)

lemma newCall_ready:
  assumes "newCall env listen ja room (bare_call env contact draw mon lid conf st pid sync active by_remote) = Returns (s, None)"
    and "\<forall>t. by_remote t \<noteq> Some lid"
  shows "ready_call lid s" and "oc_state s = st" and "oc_sync s = sync"
proof -
  define s0 where "s0 = bare_call env contact draw mon lid conf st pid sync active by_remote"
  note f = bare_call_fields [of env contact draw mon lid conf st pid sync active by_remote, folded s0_def]
  have id: "so_id (oc_leg s0) = lid" by (simp add: f newOutbound_def Let_def)
  from assms(1) [folded s0_def] obtain mp mt where mp: "mp = new_media_port (oc_jitter s0)"
    and join: "bind_outcome (connectToRoom env ja (room\<lparr>rc_jitter_buf := oc_jitter s0\<rparr>)
         (s0\<lparr>oc_media := Some (DisableOut (SetDTMFAudio (cf_audio_dtmf (oe_conf env)) mp)),
             oc_timeout := EnableTimeout (oe_now env) False mt\<rparr>)) (\<lambda>(s, err).
                 case err of
                   Some e \<Rightarrow>
                     bind_outcome (oc_close env (Some (WrapErr ''room join failed'' e)) callDropped ''join-failed'' UNKNOWN_REASON s)
                       (\<lambda>s. Returns (s, Some (WrapErr ''update room failed'' e)))
                 | None \<Rightarrow>
                     Returns (s\<lparr>oc_active := (oc_active s)(so_id (oc_leg s) \<mapsto> so_id (oc_leg s))\<rparr>, None)) = Returns (s, None)"
    by (auto simp: newCall_def Let_def bind_outcome_Returns dest: NewMediaPort_ok split: sum.splits)
  define s1 where "s1 = s0\<lparr>oc_media := Some (DisableOut (SetDTMFAudio (cf_audio_dtmf (oe_conf env)) mp)),
             oc_timeout := EnableTimeout (oe_now env) False mt\<rparr>"
  from join [folded s1_def] obtain s2 where
    conn: "connectToRoom env ja (room\<lparr>rc_jitter_buf := oc_jitter s0\<rparr>) s1 = Returns (s2, None)"
    and s: "s = s2\<lparr>oc_active := (oc_active s2)(so_id (oc_leg s2) \<mapsto> so_id (oc_leg s2))\<rparr>"
    by (auto simp: bind_outcome_Returns split: option.splits)
  from conn obtain r xs where s2: "s2 = s1\<lparr>oc_log := oc_log s1 @ xs, oc_room := Some r, oc_room_in := True\<rparr>"
    and r: "rm_joined r" and xs: "xs = [] \<or> (\<exists>i. xs = [ORegisterTransfer i])"
    by (rule connectToRoom_ok)
  have m: "\<not> mp_closed (DisableOut (SetDTMFAudio b mp)) \<and> \<not> mp_out_enabled (DisableOut (SetDTMFAudio b mp))" for b
    by (simp add: mp DisableOut_def SetDTMFAudio_def new_media_port_def)
  have "olife lid s"
    using assms(2) id r xs m f by (auto simp: olife_def ocore_def s s2 s1_def)
  then show "ready_call lid s"
    using f id m xs by (auto simp: ready_call_def s s2 s1_def)
  show "oc_state s = st" "oc_sync s = sync" by (simp_all add: s s2 s1_def f)
qed

section \<open>Properties\<close>

text \<open>
  C10. An outbound call ends clean. From the moment it is made, whatever the remote, the room,
  the media, transfers and the shutdown do in any order: when its goroutine is over, the call is
  stopped, its media port and its room are closed, it is no longer counted as active and
  is counted as terminated, its transfer topic is removed, the end of the session was reported
  exactly once, and the client has no entry for it left, but one under an empty tag.
\<close>

theorem outbound_call_ends_clean:
  assumes "newCall env listen ja room (bare_call env contact draw mon lid conf st pid sync active by_remote) = Returns (s, None)"
    and "\<forall>t. by_remote t \<noteq> Some lid"
    and "runs ocall_step s es s'" and "oc_pc s' = OExit err"
  shows "oc_stopped s' \<and> (\<exists>m r. oc_media s' = Some m \<and> mp_closed m \<and> oc_room s' = Some r \<and> unjoined_closed r)
     \<and> \<not> cm_started (oc_cmon s') \<and> cm_terminated (oc_cmon s')
     \<and> ODeregisterTransfer lid \<in> set (oc_log s') \<and> count_if is_osession_end (oc_log s') = 1
     \<and> oc_active s' lid = None \<and> (\<forall>t. t \<noteq> '''' \<longrightarrow> oc_by_remote s' t \<noteq> Some lid)"
proof -
  from newCall_ready(1) [OF assms(1,2)] have "olife lid s" by (simp add: ready_call_def)
  from outbound_call.runs_inv [OF assms(3) this] have "olife lid s'" by simp
  with assms(4) show ?thesis by (auto simp: olife_def ocore_def split: if_splits)
qed

text \<open>A call that is made; its INVITE cannot be sent, for want of an offer, or is sent.\<close>

definition example_oenv :: ocall_env where
  "example_oenv =
     \<lparr>oe_leg = example_out_env, oe_conf = zero_config, oe_tx = (None, [TxDone]), oe_old = (False, False),
      oe_room_old = False, oe_now = 7, oe_flush_ok = True, oe_room_sid = ''RM_1'', oe_identity = ''sip'',
      oe_room_attrs = Map.empty, oe_visit = (\<lambda>m. []), oe_pre = ''sip'', oe_hpre = ''sip.h.'', oe_keys = [],
      oe_status_attr = ''sip.callStatus'', oe_call_id_attr = ''sip.callID''\<rparr>"

definition example_oconf :: out_conf where
  "example_oconf =
     \<lparr>of_address = ''example.com'', of_transport = SIP_TRANSPORT_AUTO, of_host = ''a'', of_from = ''100'', of_to = ''200'',
      of_user = '''', of_pass = '''', of_dtmf = '''', of_dialtone = False, of_headers = [],
      of_include_headers = SIP_NO_HEADERS, of_headers_to_attrs = [], of_attrs_to_headers = [],
      of_ringing_timeout = 0, of_max_call_duration = 0, of_features = [], of_encryption = EncryptionNone,
      of_display_name = None\<rparr>"

definition example_join :: join_answers where
  "example_join =
     \<lparr>ja_sign = (\<lambda>rc attrs. Inr ''token''), ja_join = (\<lambda>url token. Inr (''PA_1'', ''sip'')),
      ja_track = \<lparr>te_track = None, te_publish = None, te_encoder = None\<rparr>\<rparr>"

abbreviation example_bare :: "monitor \<Rightarrow> ocall" where
  "example_bare mon \<equiv> bare_call example_oenv (\<lambda>tr. example_uri) 0 mon ''SCL_1'' example_oconf
     (NewCallState True None) '''' True Map.empty Map.empty"

lemma example_made: "\<exists>s. newCall example_oenv None example_join zero_room_config (example_bare mon) = Returns (s, None)"
  by (simp add: newCall_def Let_def NewMediaPort_def connectToRoom_def example_join_def example_oenv_def Connect_def
      NewParticipantTrack_def room_act_def zero_room_config_def zero_participant_def room_attrs_def)

lemma oc_setStatus_frame [simp]:
  "oc_leg (oc_setStatus v s) = oc_leg s" "oc_media (oc_setStatus v s) = oc_media s" "oc_pc (oc_setStatus v s) = oc_pc s"
  "oc_stopped (oc_setStatus v s) = oc_stopped s" "oc_state (oc_setStatus v s) = oc_state s"
  "oc_cmon (oc_setStatus v s) = oc_cmon s" "oc_closers (oc_setStatus v s) = oc_closers s"
  using chats_fields [OF chats_setStatus [of v True s]] by simp_all

text \<open>Closing a call whose leg has no dialog always comes to its end.\<close>

lemma oc_close_returns:
  assumes "oc_media s \<noteq> None" and "so_invite_ok (oc_leg s) = None"
  shows "\<exists>s'. oc_close env err status d reason s = Returns s'"
proof (cases "oc_stopped s")
  case True
  then show ?thesis unfolding oc_close_def by simp
next
  case False
  define s0 where "s0 = oc_setStatus status (s\<lparr>oc_stopped := True\<rparr>)"
  have s0: "oc_media s0 = oc_media s" "oc_leg s0 = oc_leg s" by (simp_all add: s0_def)
  obtain m where m: "oc_media s = Some m" using assms(1) by auto
  show ?thesis
    unfolding oc_close_def Let_def s0_def [symmetric] stopSIP_def
    using False m s0 assms(2) by (simp add: out_Close_def)
qed

lemma example_ends:
  "\<exists>s s'. newCall example_oenv None example_join zero_room_config (example_bare mon) = Returns (s, None)
     \<and> runs ocall_step s (map (\<lambda>e. (example_oenv, Dialer e)) [DStart, DInvite sg, DFailed, DDone]) s'
     \<and> oc_pc s' = OExit (Some e)"
  if "sg_offer sg EncryptionNone = Inl e"
proof -
  obtain s where s: "newCall example_oenv None example_join zero_room_config (example_bare mon) = Returns (s, None)"
    using example_made by blast
  from newCall_ready(1) [OF s] have ready: "ready_call ''SCL_1'' s" by simp
  have "oc_conf s = example_oconf\<lparr>of_max_call_duration := maxCallDuration, of_ringing_timeout := defaultRingingTimeout\<rparr>"
    using s by (auto simp: newCall_def Let_def NewMediaPort_def bare_call_def call_conf_def example_oconf_def
        bind_outcome_Returns elim!: connectToRoom_ok split: option.splits prod.splits)
  then have conf: "of_encryption (oc_conf s) = EncryptionNone" "\<not> of_dialtone (oc_conf s)"
    by (simp_all add: example_oconf_def)
  define s1 where "s1 = ogoto OInvite (on_omon CallStart s)"
  have d1: "ocall_step (example_oenv, Dialer DStart) s = Returns s1"
    using ready conf by (simp add: ready_call_def dial_start_def Let_def s1_def)
  define s2 where "s2 = ogoto (OFail e) s1"
  have d2: "ocall_step (example_oenv, Dialer (DInvite sg)) s1 = Returns s2"
    using that conf by (simp add: s1_def s2_def signal_invite_def)
  have leg: "so_invite_ok (oc_leg s2) = None" "oc_media s2 \<noteq> None"
    using ready by (auto simp: s2_def s1_def ready_call_def newOutbound_def Let_def)
  obtain rep status d reason where df: "dial_failure e = (rep, status, d, reason)" by (cases "dial_failure e")
  from oc_close_returns [OF leg(2,1)] obtain t where t: "oc_close example_oenv rep status d reason s2 = Returns t" by blast
  define s3 where "s3 = ogoto (ODone (Some e)) t"
  have d3: "ocall_step (example_oenv, Dialer DFailed) s2 = Returns s3"
  proof -
    have "oc_pc s2 = OFail e" by (simp add: s2_def)
    with df t show ?thesis by (simp add: dial_failed_def s3_def)
  qed
  obtain s4 where s4: "dial_done example_oenv (Some e) s3 = Returns s4" "oc_pc s4 = OExit (Some e)"
    by (auto simp: dial_done_def Let_def)
  have d4: "ocall_step (example_oenv, Dialer DDone) s3 = Returns s4" using s4(1) by (simp add: s3_def)
  have "runs ocall_step s (map (\<lambda>e. (example_oenv, Dialer e)) [DStart, DInvite sg, DFailed, DDone]) s4"
    using d4 by (auto intro!: runs_Cons [where step = ocall_step, OF d1] runs_Cons [where step = ocall_step, OF d2]
        runs_Cons [where step = ocall_step, OF d3] runs_one)
  with s s4(2) show ?thesis by blast
qed

definition no_offer :: signal_env where
  "no_offer =
     \<lparr>sg_offer = (\<lambda>enc. Inl (PlainErr ''no offer'')), sg_marshal = Inr, sg_txs = [], sg_parse = Inr,
      sg_apply = (\<lambda>a b enc. Inl (PlainErr '''')), sg_setup = \<lparr>se_session = None, se_stream = None, se_mixer = None,
      se_old = False, se_dtmf_rate = 0\<rparr>, sg_processor = (\<lambda>fs. False)\<rparr>"

theorem outbound_call_ends_clean_witness:
  "\<forall>mon. \<exists>s s'. newCall example_oenv None example_join zero_room_config (example_bare mon) = Returns (s, None)
     \<and> runs ocall_step s (map (\<lambda>e. (example_oenv, Dialer e)) [DStart, DInvite no_offer, DFailed, DDone]) s'
     \<and> oc_stopped s' \<and> oc_active s' ''SCL_1'' = None \<and> count_if is_osession_end (oc_log s') = 1"
proof
  fix mon
  have "sg_offer no_offer EncryptionNone = Inl (PlainErr ''no offer'')" by (simp add: no_offer_def)
  from example_ends [OF this, of mon] obtain s s' where
    s: "newCall example_oenv None example_join zero_room_config (example_bare mon) = Returns (s, None)"
    "runs ocall_step s (map (\<lambda>e. (example_oenv, Dialer e)) [DStart, DInvite no_offer, DFailed, DDone]) s'"
    "oc_pc s' = OExit (Some (PlainErr ''no offer''))" by blast
  from outbound_call_ends_clean [OF s(1) _ s(2,3)] s(1,2)
  show "\<exists>s s'. newCall example_oenv None example_join zero_room_config (example_bare mon) = Returns (s, None)
     \<and> runs ocall_step s (map (\<lambda>e. (example_oenv, Dialer e)) [DStart, DInvite no_offer, DFailed, DDone]) s'
     \<and> oc_stopped s' \<and> oc_active s' ''SCL_1'' = None \<and> count_if is_osession_end (oc_log s') = 1"
    by (intro exI [of _ s] exI [of _ s']) simp
qed

end
