(* ===== verification/Outbound_Conduct.thy ===== *)
theory Outbound_Conduct
  imports Outbound_Life
begin

text \<open>
  How an outbound call behaves towards its parties: nothing is sent or announced before an
  answer, its leg makes a lawful conversation, a refusal is reported as what it was, a BYE ends
  the call, and what the backend is told of an answered one.
\<close>

section \<open>Nothing before the answer\<close>

text \<open>A step of the INVITE in which a 200 came.\<close>

fun ok_event :: "ocall_env \<times> ocall_event \<Rightarrow> bool" where
  "ok_event (env, Dialer (DInvite sg)) \<longleftrightarrow>
     (\<exists>tx\<in>set (sg_txs sg). \<exists>ev\<in>set (snd tx). case ev of GotResponse resp \<Rightarrow> resp_status resp = 200 | _ \<Rightarrow> False)"
| "ok_event (env, e) \<longleftrightarrow> False"

fun pc_quiet :: "ocall_pc \<Rightarrow> bool" where
  "pc_quiet ODial = True"
| "pc_quiet OInvite = True"
| "pc_quiet (ORefused e) = True"
| "pc_quiet (OFail e) = True"
| "pc_quiet (ODone (Some e)) = True"
| "pc_quiet (OExit (Some e)) = True"
| "pc_quiet _ = False"

definition quiet_call :: "ocall \<Rightarrow> bool" where
  "quiet_call s \<longleftrightarrow>
     pc_quiet (oc_pc s) \<and> \<not> oc_started s \<and> map_option mp_out_enabled (oc_media s) = Some False
     \<and> OSetCallStatus ''active'' \<notin> set (oc_log s) \<and> filter is_out_ack (so_out (oc_leg s)) = []"

lemma quiet_same_ocore:
  assumes "quiet_call s" and "same_ocore s s'"
  shows "quiet_call s'"
proof -
  from assms(2) have reach: "oleg_reach (oc_leg s) (oc_leg s')" by (simp add: same_ocore_def)
  from assms(2) have "map_option snd (map_option (\<lambda>m. (mp_closed m, mp_out_enabled m)) (oc_media s'))
      = map_option snd (map_option (\<lambda>m. (mp_closed m, mp_out_enabled m)) (oc_media s))"
    by (simp add: same_ocore_def)
  then have media: "map_option mp_out_enabled (oc_media s') = map_option mp_out_enabled (oc_media s)"
    by (simp add: option.map_comp comp_def)
  have cores: "filter core_act (oc_log s') = filter core_act (oc_log s)" using assms(2) by (simp add: same_ocore_def)
  have "OSetCallStatus ''active'' \<notin> set (oc_log s')"
    using count_core_act [OF cores] assms(1) unfolding quiet_call_def by blast
  moreover have "oc_pc s' = oc_pc s" "oc_started s' = oc_started s" using assms(2) by (simp_all add: same_ocore_def)
  moreover have "filter is_out_ack (so_out (oc_leg s')) = []"
    using oleg_reach_frame [OF reach] assms(1) unfolding quiet_call_def by metis
  ultimately show ?thesis using assms(1) media unfolding quiet_call_def by simp
qed

lemma quiet_oclosed_by:
  assumes "quiet_call s" and "oclosed_by env s s'"
  shows "quiet_call s'"
proof -
  from assms(2) obtain e where step: "out_step (e, OClose (oe_tx env)) (oc_leg s) = Returns (oc_leg s')"
    by (auto simp: oclosed_by_def)
  have ack: "filter is_out_ack (so_out (oc_leg s')) = filter is_out_ack (so_out (oc_leg s))"
    by (rule out_step_frame(3) [OF step]) simp
  from assms(2) obtain m m' where m: "oc_media s = Some m" "oc_media s' = Some m'" "mp_out_enabled m' = mp_out_enabled m"
    unfolding oclosed_by_def by blast
  from assms(2) obtain xs d where log: "oc_log s' = oc_log s @ xs @ [ODeregisterTransfer (so_id (oc_leg s)), OSessionEnd d]"
    "xs = [] \<or> (\<exists>a. xs = [OSetCallStatus a] \<and> a \<noteq> ''active'')" unfolding oclosed_by_def by blast
  have "OSetCallStatus ''active'' \<notin> set (oc_log s')"
    using log assms(1) unfolding quiet_call_def by auto
  moreover have "oc_pc s' = oc_pc s" "oc_started s' = oc_started s" using assms(2) unfolding oclosed_by_def by blast+
  ultimately show ?thesis using assms(1) m ack unfolding quiet_call_def by simp
qed

lemma quiet_chats: "quiet_call s \<Longrightarrow> chats False s s' \<Longrightarrow> quiet_call s'"
  using chats_fields(1-3,10,19) [of False s s'] by (auto simp: quiet_call_def)

lemma quiet_invite:
  assumes "quiet_call s" and "signal_invite env sg s = Returns s'" and "\<not> ok_event (env, Dialer (DInvite sg))"
  shows "quiet_call s'"
  using assms(2)
proof (cases rule: signal_invite_cases)
  case (NoOffer e)
  with assms(1) show ?thesis by (simp add: quiet_call_def)
next
  case (Sent leg seen r t pc to offer)
  have "\<not> (\<exists>resp\<in>set seen. resp_status resp = 200)"
    using Invite_ids(4) [OF Sent(1)] assms(3) by fastforce
  then obtain e where "r = Inl e" using Invite_ids(3) [OF Sent(1)] by (cases r) auto
  then have pc: "pc_quiet pc" using Sent(4) by auto
  have "quiet_call (s\<lparr>oc_monitor := InviteReq (oc_cmon s) (oc_monitor s), oc_leg := leg\<rparr>)"
    using assms(1) Invite_ids(2) [OF Sent(1)] by (simp add: quiet_call_def)
  with Sent(2) have "quiet_call t" by (blast intro: quiet_chats)
  with Sent(3) pc show ?thesis by (simp add: quiet_call_def)
qed

lemma quiet_step:
  assumes "quiet_call s" and "ocall_step e s = Returns s'" and "\<not> ok_event e"
  shows "quiet_call s'"
proof -
  obtain env ev where e: "e = (env, ev)" by (cases e)
  show ?thesis
  proof (cases ev)
    case (Around a)
    with assms(2) e have "around_step env a s = Returns s'" by simp
    then show ?thesis
    proof (cases rule: around_step_cases)
      case (Closes c)
      have t: "quiet_call (s\<lparr>oc_closers := remove1 c (oc_closers s)\<rparr>)" using assms(1) by (simp add: quiet_call_def)
      from Closes(4) show ?thesis by (cases rule: close_for_cases) (use t quiet_oclosed_by in auto)
    next
      case Keeps
      with assms(1) quiet_same_ocore show ?thesis by blast
    qed
  next
    case (Dialer d)
    with assms(2) e have step: "dial_step env d (oc_pc s) s = Returns s'" by simp
    have q: "pc_quiet (oc_pc s)" using assms(1) by (simp add: quiet_call_def)
    show ?thesis
    proof (cases "oc_pc s")
      case ODial
      with step have "dial_start s = Returns s'" by (auto split: dial_event.splits)
      then show ?thesis
      proof (cases rule: dial_start_cases)
        case (1 t)
        from 1(2) assms(1) have "quiet_call t" by (elim disjE) (simp_all add: quiet_call_def)
        with 1(1) show ?thesis by (simp add: quiet_call_def)
      qed
    next
      case OInvite
      with step obtain sg where "d = DInvite sg" "signal_invite env sg s = Returns s'" by (auto split: dial_event.splits)
      with assms(1,3) e Dialer quiet_invite show ?thesis by blast
    next
      case (ORefused err)
      with step have "signal_refused env err s = Returns s'" by (auto split: dial_event.splits)
      then show ?thesis
      proof (cases rule: signal_refused_cases)
        case (1 mn st leg)
        with assms(1) out_step_frame(3) [OF 1(1)] show ?thesis by (simp add: quiet_call_def)
      qed
    next
      case (OFail err)
      with step have "dial_failed env err s = Returns s'" by (auto split: dial_event.splits)
      then show ?thesis
      proof (cases rule: dial_failed_cases)
        case Already
        with assms(1) show ?thesis by (simp add: quiet_call_def)
      next
        case (Closed t)
        from quiet_oclosed_by [OF assms(1) Closed(1)] Closed(2) show ?thesis by (simp add: quiet_call_def)
      qed
    next
      case (ODone err)
      with q have "err \<noteq> None" by (cases err) simp_all
      from ODone step have "dial_done env err s = Returns s'" by (auto split: dial_event.splits)
      with dial_done_shape [of env err s s'] \<open>err \<noteq> None\<close> obtain rp where
        s': "s' = ogoto (OExit err) ((on_omon CallEnd (ensureClosed env s))\<lparr>oc_reply := rp\<rparr>)" by auto
      from \<open>err \<noteq> None\<close> obtain e where "err = Some e" by auto
      with assms(1) show ?thesis by (simp add: s' quiet_call_def ensureClosed_def)
    qed (use step q in auto)
  qed
qed

lemma quiet_runs:
  assumes "runs ocall_step s es s'" and "quiet_call s" and "\<not> (\<exists>e\<in>set es. ok_event e)"
  shows "quiet_call s'"
  using assms by (induction rule: runs.induct) (auto intro: quiet_step)

lemma ready_quiet: "ready_call lid s \<Longrightarrow> quiet_call s"
  by (auto simp: ready_call_def quiet_call_def newOutbound_def Let_def)

section \<open>The leg of the call\<close>

text \<open>A leg that was made, perhaps sent its INVITE, and then did what a leg does.\<close>

definition invited :: "sip_outbound \<Rightarrow> sip_outbound \<Rightarrow> bool" where
  "invited leg0 c \<longleftrightarrow> c = leg0 \<or>
     (\<exists>env to user pass headers offer txs seen r.
        Invite env to user pass headers offer txs leg0 = Returns (c, seen, r))"

definition leg_from :: "sip_outbound \<Rightarrow> sip_outbound \<Rightarrow> bool" where
  "leg_from leg0 leg \<longleftrightarrow> (\<exists>c es. invited leg0 c \<and> runs out_step c es leg \<and> (\<forall>e\<in>set es. out_event_ok e))"

lemma leg_from_refl [simp]: "leg_from leg0 leg0"
  unfolding leg_from_def invited_def by (intro exI [of _ leg0] exI [of _ "[]"]) simp

lemma leg_from_invite: "Invite env to user pass headers offer txs leg0 = Returns (c, seen, r) \<Longrightarrow> leg_from leg0 c"
  unfolding leg_from_def invited_def by (intro exI [of _ c] exI [of _ "[]"]) auto

lemma leg_from_runs:
  assumes "leg_from leg0 leg" and "runs out_step leg fs leg'" and "\<forall>e\<in>set fs. out_event_ok e"
  shows "leg_from leg0 leg'"
proof -
  from assms(1) obtain c es where *: "invited leg0 c" "runs out_step c es leg" "\<forall>e\<in>set es. out_event_ok e"
    unfolding leg_from_def by blast
  from runs_append [OF *(2) assms(2)] *(3) assms(3)
  have "runs out_step c (es @ fs) leg' \<and> (\<forall>e\<in>set (es @ fs). out_event_ok e)" by auto
  with *(1) show ?thesis unfolding leg_from_def by blast
qed

lemma leg_from_step: "leg_from leg0 leg \<Longrightarrow> out_step e leg = Returns leg' \<Longrightarrow> out_event_ok e \<Longrightarrow> leg_from leg0 leg'"
  using leg_from_runs [of leg0 leg "[e]" leg'] runs_one [of out_step] by fastforce

lemma leg_from_reach: "leg_from leg0 leg \<Longrightarrow> oleg_reach leg leg' \<Longrightarrow> leg_from leg0 leg'"
  unfolding oleg_reach_def using leg_from_runs quiet_leg_event_ok by blast

lemma leg_from_inv:
  assumes "leg_from (newOutbound lid from contact dn) leg"
  shows "so_inv leg"
proof -
  have "so_inv (newOutbound lid from contact dn)"
    by (auto simp: so_inv_def newOutbound_def out_dropped_def Let_def intro: exI [of _ 1])
  then have "so_inv c" if "invited (newOutbound lid from contact dn) c" for c
    using that Invite_established(1) unfolding invited_def by blast
  with assms show ?thesis unfolding leg_from_def using outbound_leg.runs_inv by blast
qed

lemma close_drops:
  assumes "so_inv c" and "out_Close env tx c = Returns d" and "\<not> oe_closing env"
  shows "out_dropped d"
proof (cases "so_invite_ok c = None")
  case True
  with assms(2) show ?thesis by (auto simp: out_Close_def)
next
  case False
  with assms(1) have "so_invite c \<noteq> None" by (auto simp: so_inv_def out_dropped_def)
  with False assms(2) out_sendBye_cases [OF _ assms(3), of tx c d] show ?thesis by (auto simp: out_Close_def)
qed

text \<open>
  While the client is not shutting down: a call is not stopped while it is dialled, and the leg
  of a stopped call is dropped.
\<close>

definition leg_life :: "sip_outbound \<Rightarrow> ocall \<Rightarrow> bool" where
  "leg_life leg0 s \<longleftrightarrow>
     leg_from leg0 (oc_leg s)
     \<and> (oc_pc s = ODial \<or> oc_pc s = OInvite \<longrightarrow>
          oc_leg s = leg0 \<and> oc_closers s = [] \<and> oc_pending s = [])
     \<and> (oc_pc s = ODial \<or> dialling (oc_pc s) \<longrightarrow> \<not> oc_stopped s)
     \<and> (oc_stopped s \<longrightarrow> out_dropped (oc_leg s))"

fun calm_event :: "ocall_env \<times> ocall_event \<Rightarrow> bool" where
  "calm_event (env, Around YStop) = False"
| "calm_event (env, e) = (\<not> oe_closing (oe_leg env))"

text \<open>Before the INVITE nothing reaches the call: no BYE is routed to it and no transfer starts.\<close>

lemma refer_undialled:
  assumes "so_invite c = None" and "out_start_refer env to headers tx_err c = Returns (c', err)"
  shows "c' = c \<and> err \<noteq> None"
  using assms by (auto simp: out_start_refer_def)

lemma around_before_invite:
  assumes "around_step env e s = Returns s'" and "e \<noteq> YStop" and "so_invite (oc_leg s) = None"
    and "\<forall>t. oc_by_remote s t \<noteq> Some (so_id (oc_leg s))" and "oc_closers s = []" and "oc_pending s = []"
  shows "oc_leg s' = oc_leg s \<and> oc_closers s' = [] \<and> oc_pending s' = []"
proof (cases e)
  case YBye
  with assms show ?thesis by (auto simp: out_routed_def)
next
  case (YCloser c)
  with assms show ?thesis by (auto simp: run_closer_def)
next
  case (YDtmf tone)
  with assms show ?thesis
    by (auto simp: oc_handleDTMF_def bind_outcome_Returns split: option.splits if_splits)
next
  case (YTransfer tid to headers dialtone tx_err)
  with assms(1,6) have "oc_transfer_begin env tid to headers dialtone tx_err s = Returns s'" by (auto split: if_splits)
  then obtain st tid' where run:
    "oc_transfer_refer env tid' to headers tx_err (oc_transfer_mute env dialtone (s\<lparr>oc_state := st\<rparr>)) = Returns s'"
    by (auto simp: oc_transfer_begin_def bind_outcome_Returns)
  obtain t swapped where t: "oc_transfer_mute env dialtone (s\<lparr>oc_state := st\<rparr>) = (t, swapped)" by fastforce
  then have same: "oc_leg t = oc_leg s" "oc_closers t = []" "oc_pending t = []"
    using assms(5,6) by (auto simp: oc_transfer_mute_def split: if_splits)
  from run t obtain leg err where refer: "out_start_refer (out_env_of env t) to headers tx_err (oc_leg t) = Returns (leg, err)"
    and rest: "(case err of Some e \<Rightarrow> oc_transfer_finish env tid' swapped (Some e) (t\<lparr>oc_leg := leg\<rparr>)
       | None \<Rightarrow> Returns (t\<lparr>oc_leg := leg, oc_pending := oc_pending t @ [(tid', swapped)]\<rparr>)) = Returns s'"
    by (auto simp: oc_transfer_refer_def bind_outcome_Returns Let_def)
  from refer_undialled [OF _ refer] assms(3) same obtain e where e: "leg = oc_leg t" "err = Some e" by auto
  with rest have "oc_transfer_finish env tid' swapped (Some e) (t\<lparr>oc_leg := leg\<rparr>) = Returns s'" by simp
  then obtain u st' where u: "oc_transfer_restore swapped (Some e) (t\<lparr>oc_leg := leg\<rparr>) = Returns u"
    and s': "s' = u\<lparr>oc_state := st', oc_pending := filter (\<lambda>p. fst p \<noteq> tid') (oc_pending u)\<rparr>"
    by (auto simp: oc_transfer_finish_def bind_outcome_Returns)
  have "oc_leg u = leg \<and> oc_closers u = oc_closers t \<and> oc_pending u = oc_pending t"
    using u by (auto simp: oc_transfer_restore_def split: option.splits if_splits)
  with s' same e show ?thesis by simp
next
  case (YTransferResult tid result)
  with assms show ?thesis by auto
qed (use assms in \<open>auto split: option.splits if_splits\<close>)

lemma oclosed_by_leg:
  assumes "oclosed_by env s s'" and "\<not> oe_closing (oe_leg env)" and "leg_from (newOutbound lid from contact dn) (oc_leg s)"
  shows "leg_from (newOutbound lid from contact dn) (oc_leg s') \<and> out_dropped (oc_leg s')"
proof -
  from assms(1) obtain e where e: "oe_closing e = oe_closing (oe_leg env)"
    "out_step (e, OClose (oe_tx env)) (oc_leg s) = Returns (oc_leg s')" by (auto simp: oclosed_by_def)
  with assms(2) have "\<not> oe_closing e" "out_Close e (oe_tx env) (oc_leg s) = Returns (oc_leg s')" by simp_all
  with close_drops [OF leg_from_inv [OF assms(3)]] have "out_dropped (oc_leg s')" by blast
  moreover have "leg_from (newOutbound lid from contact dn) (oc_leg s')"
    using leg_from_step [OF assms(3) e(2)] e(1) assms(2) by simp
  ultimately show ?thesis by simp
qed

lemma around_leg_life:
  assumes "leg_life leg0 s" and "olife lid s" and leg0: "leg0 = newOutbound lid from contact dn"
    and "around_step env e s = Returns s'" and "e \<noteq> YStop" and "\<not> oe_closing (oe_leg env)"
  shows "leg_life leg0 s'"
  using assms(4)
proof (cases rule: around_step_cases)
  case (Closes c)
  have pc: "oc_pc s \<noteq> ODial" "\<not> dialling (oc_pc s)" "oc_pc s \<noteq> OInvite"
    using Closes(2,3) assms(1) by (auto simp: leg_life_def)
  from Closes(4) show ?thesis
  proof (cases rule: close_for_cases)
    case Already
    with assms(1) pc show ?thesis by (simp add: leg_life_def)
  next
    case Closed
    note pcs = oclosed_by_pc [OF Closed]
    have "leg_from (newOutbound lid from contact dn) (oc_leg (s\<lparr>oc_closers := remove1 c (oc_closers s)\<rparr>))"
      using assms(1) leg0 by (simp add: leg_life_def)
    from oclosed_by_leg [OF Closed assms(6) this] leg0 pc pcs show ?thesis by (simp add: leg_life_def)
  qed
next
  case Keeps
  then have pc: "oc_pc s' = oc_pc s" "oc_stopped s' = oc_stopped s" and reach: "oleg_reach (oc_leg s) (oc_leg s')"
    by (simp_all add: same_ocore_def)
  have before: "oc_leg s' = leg0 \<and> oc_closers s' = [] \<and> oc_pending s' = []" if "oc_pc s = ODial \<or> oc_pc s = OInvite"
  proof -
    from that assms(1) have s: "oc_leg s = leg0" "oc_closers s = []" "oc_pending s = []" by (auto simp: leg_life_def)
    have "\<forall>t. oc_by_remote s t \<noteq> Some (so_id (oc_leg s))" using assms(2) that by (auto simp: olife_def ocore_def)
    moreover have "so_invite (oc_leg s) = None" by (simp add: s leg0 newOutbound_def Let_def)
    ultimately show ?thesis using around_before_invite [OF assms(4,5)] s by simp
  qed
  have "leg_from leg0 (oc_leg s')" using assms(1) leg_from_reach [OF _ reach] by (simp add: leg_life_def)
  moreover have "oc_stopped s \<longrightarrow> out_dropped (oc_leg s')" using assms(1) oleg_reach_dropped [OF reach] by (simp add: leg_life_def)
  ultimately show ?thesis using before assms(1) pc by (auto simp: leg_life_def)
qed

lemma leg_life_stay:
  assumes "leg_from leg0 (oc_leg s')" and "oc_pc s' \<noteq> ODial" and "oc_pc s' \<noteq> OInvite" and "dialling (oc_pc s') \<Longrightarrow> \<not> oc_stopped s'"
    and "oc_stopped s' \<Longrightarrow> out_dropped (oc_leg s')"
  shows "leg_life leg0 s'"
  using assms by (auto simp: leg_life_def)

lemma dial_leg_life:
  assumes "leg_life leg0 s" and leg0: "leg0 = newOutbound lid from contact dn"
    and step: "dial_step env e (oc_pc s) s = Returns s'" and calm: "\<not> oe_closing (oe_leg env)"
  shows "leg_life leg0 s'"
proof -
  have lf: "leg_from leg0 (oc_leg s)" and drop: "oc_stopped s \<Longrightarrow> out_dropped (oc_leg s)"
    and nostop: "oc_pc s = ODial \<or> dialling (oc_pc s) \<Longrightarrow> \<not> oc_stopped s"
    using assms(1) by (simp_all add: leg_life_def)
  show ?thesis
  proof (cases "oc_pc s")
    case ODial
    with step have "dial_start s = Returns s'" by (auto split: dial_event.splits)
    then show ?thesis
    proof (cases rule: dial_start_cases)
      case (1 t)
      from 1(2) have "oc_leg t = oc_leg s \<and> oc_closers t = oc_closers s \<and> oc_pending t = oc_pending s \<and> oc_stopped t = oc_stopped s"
        by auto
      with 1(1) assms(1) ODial show ?thesis by (simp add: leg_life_def)
    qed
  next
    case OInvite
    with step obtain sg where sg: "signal_invite env sg s = Returns s'" by (auto split: dial_event.splits)
    have open': "\<not> oc_stopped s" "oc_leg s = leg0" using OInvite assms(1) by (auto simp: leg_life_def)
    from sg show ?thesis
    proof (cases rule: signal_invite_cases)
      case (NoOffer e)
      with lf open' show ?thesis by (intro leg_life_stay) simp_all
    next
      case (Sent leg seen r t pc to offer)
      have "leg_from leg0 leg" using leg_from_invite [OF Sent(1)] open' by simp
      moreover have "oc_leg t = leg" "oc_stopped t = oc_stopped s" using chats_fields(1,7) [OF Sent(2)] by simp_all
      moreover have "pc \<noteq> ODial" "pc \<noteq> OInvite" using Sent(4) by auto
      ultimately show ?thesis using Sent(3) open' by (intro leg_life_stay) simp_all
    qed
  next
    case (ORefused err)
    with step have "signal_refused env err s = Returns s'" by (auto split: dial_event.splits)
    then show ?thesis
    proof (cases rule: signal_refused_cases)
      case (1 mn st leg)
      have "leg_from leg0 leg"
        by (rule leg_from_step [OF lf 1(1)]) (use calm in \<open>simp add: out_env_of_def\<close>)
      with 1(2) nostop ORefused show ?thesis by (intro leg_life_stay) simp_all
    qed
  next
    case (OAnswer o' a)
    with step obtain sg where "signal_answer env sg o' a s = Returns s'" by (auto split: dial_event.splits)
    then show ?thesis
      by (cases rule: signal_answer_cases) (use lf nostop OAnswer in \<open>auto intro!: leg_life_stay\<close>)
  next
    case (OConfirm codec)
    with step obtain w where "signal_confirm w codec s = Returns s'" by (auto split: dial_event.splits)
    then show ?thesis
    proof (cases rule: signal_confirm_cases)
      case (1 pc)
      have ack: "out_step (undefined, OAck w) (oc_leg s) = Returns (fst (AckInviteOK w (oc_leg s)))" by simp
      have "leg_from leg0 (fst (AckInviteOK w (oc_leg s)))" by (rule leg_from_step [OF lf ack]) simp
      with 1 nostop OConfirm show ?thesis by (intro leg_life_stay) auto
    qed
  next
    case (OAnswered codec)
    with step obtain ts err old rs where "dial_answered env ts err old rs codec s = Returns s'"
      by (auto split: dial_event.splits)
    then show ?thesis
    proof (cases rule: dial_answered_cases)
      case (Failed t e u)
      have "oc_leg u = oc_leg s" "oc_stopped u = oc_stopped s"
        using chats_fields(1,7) [OF Failed(1)] chats_fields(1,7) [OF Failed(2)] by simp_all
      with Failed(3) lf nostop OAnswered show ?thesis by (intro leg_life_stay) auto
    next
      case (Active t u v x m m' r)
      have "oc_leg x = oc_leg s" "oc_stopped x = oc_stopped s"
        using chats_fields(1,7) [OF Active(1)] chats_fields(1,7) [OF Active(2)] chats_fields(1,7) [OF Active(4)] Active(3) by auto
      with Active(9) lf nostop OAnswered show ?thesis by (intro leg_life_stay) simp_all
    qed
  next
    case (OFail err)
    with step have "dial_failed env err s = Returns s'" by (auto split: dial_event.splits)
    then show ?thesis
    proof (cases rule: dial_failed_cases)
      case Already
      with lf drop show ?thesis by (intro leg_life_stay) simp_all
    next
      case (Closed t)
      from oclosed_by_leg [OF Closed(1) calm] lf leg0 Closed(2) show ?thesis by (intro leg_life_stay) simp_all
    qed
  next
    case OActive
    with step have "dial_active env s = Returns s'" by (auto split: dial_event.splits)
    then show ?thesis by (cases rule: dial_active_cases) (use lf drop in \<open>auto intro!: leg_life_stay\<close>)
  next
    case (ODone err)
    with step have "dial_done env err s = Returns s'" by (auto split: dial_event.splits)
    from dial_done_shape [OF this] lf drop show ?thesis
      by (cases err) (auto intro!: leg_life_stay simp: ensureClosed_def)
  next
    case OWait
    with step obtain ev where "wait_close env ev s = Returns s'" by (auto split: dial_event.splits)
    then show ?thesis
    proof (cases rule: wait_close_cases)
      case (Tick st)
      with lf drop OWait show ?thesis by (intro leg_life_stay) simp_all
    next
      case (Leaves err st t)
      from Leaves(2) show ?thesis
      proof
        assume "oc_stopped s \<and> t = s"
        with Leaves(1) lf drop show ?thesis by (intro leg_life_stay) simp_all
      next
        assume "oclosed_by env s t"
        from oclosed_by_leg [OF this calm] lf leg0 Leaves(1) show ?thesis by (intro leg_life_stay) simp_all
      qed
    qed
  next
    case (OLeave err)
    with step lf drop show ?thesis
      by (auto intro!: leg_life_stay simp: wait_leave_def ensureClosed_def split: dial_event.splits)
  qed (use step in simp)
qed

definition owned_leg :: "string \<Rightarrow> sip_outbound \<Rightarrow> ocall \<Rightarrow> bool" where
  "owned_leg lid leg0 s \<longleftrightarrow> olife lid s \<and> leg_life leg0 s \<and> (\<exists>from contact dn. leg0 = newOutbound lid from contact dn)"

lemma owned_leg_step:
  assumes "owned_leg lid leg0 s" and "calm_event e" and "ocall_step e s = Returns s'"
  shows "owned_leg lid leg0 s'"
proof -
  obtain env ev where e: "e = (env, ev)" by (cases e)
  from assms(1) obtain fr ct dn where leg0: "leg0 = newOutbound lid fr ct dn"
    and s: "olife lid s" "leg_life leg0 s" by (auto simp: owned_leg_def)
  have "leg_life leg0 s'"
  proof (cases ev)
    case (Around a)
    with e assms(2,3) have "around_step env a s = Returns s'" "a \<noteq> YStop" "\<not> oe_closing (oe_leg env)"
      by (cases a; simp)+
    with around_leg_life [OF s(2,1) leg0] show ?thesis by blast
  next
    case (Dialer d)
    with e assms(2,3) dial_leg_life [OF s(2) leg0] show ?thesis by simp
  qed
  with s ocall_step_life [OF s(1) assms(3)] leg0 show ?thesis by (auto simp: owned_leg_def)
qed

interpretation outbound_owned: outcome_system ocall_step "owned_leg lid leg0" calm_event
  by unfold_locales (rule owned_leg_step)

lemma ready_owned: "ready_call lid s \<Longrightarrow> owned_leg lid (oc_leg s) s"
  by (auto simp: ready_call_def owned_leg_def leg_life_def)

section \<open>What is reported\<close>

definition close_info :: "go_error option \<Rightarrow> disconnect_reason \<Rightarrow> sip_call_info \<Rightarrow> sip_call_info" where
  "close_info err reason info =
     (let info = (if err \<noteq> None \<and> ci_error info = None
                  then info\<lparr>ci_error := err, ci_status := SCS_ERROR\<rparr> else info)
      in info\<lparr>ci_disconnect_reason := reason\<rparr>)"

lemma oc_close_reports:
  assumes "oc_close env err status d reason s = Returns s'" and "\<not> oc_stopped s"
  shows "cs_info (oc_state s') = close_info err reason (cs_info (oc_state s))"
    and "\<exists>ys. oc_log s' = ys @ [OSessionEnd d]"
    and "\<And>r. oc_room s = Some r \<Longrightarrow> rm_joined r \<Longrightarrow>
           \<exists>r'. oc_room s' = Some r' \<and> DisconnectRoom (DisconnectReason status) \<in> set (rm_actions r')"
proof -
  define s0 where "s0 = oc_setStatus status (s\<lparr>oc_stopped := True\<rparr>)"
  have s0: "oc_media s0 = oc_media s" "oc_state s0 = oc_state s" "oc_room s0 = oc_room s"
    using oc_setStatus_cases [of status "s\<lparr>oc_stopped := True\<rparr>"] by (auto simp: s0_def)
  obtain m where m: "oc_media s = Some m"
  proof (cases "oc_media s")
    case None
    with s0(1) assms show ?thesis unfolding oc_close_def Let_def s0_def [symmetric] by simp
  qed
  define s2 where "s2 = s0\<lparr>oc_state := Update (oe_flush_ok env) (close_info err reason) (oc_state s0),
     oc_media := Some (media_Close (oe_old env) m), oc_timeout := timeout_step CallClose (oc_timeout s0),
     oc_room := map_option (\<lambda>r. CloseWithReason False (DisconnectReason status) (CloseOutput (oe_room_old env) r)) (oc_room s0),
     oc_room_in := False\<rparr>"
  from assms m s0(1) have close: "bind_outcome (stopSIP env d s2) (\<lambda>s.
                   let s = s\<lparr>oc_active := (oc_active s)(so_id (oc_leg s) := None)\<rparr>;
                       tag = so_tag (oc_leg s);
                       s = (if tag \<noteq> '''' then s\<lparr>oc_by_remote := (oc_by_remote s)(tag := None)\<rparr> else s);
                       s = olog (ODeregisterTransfer (so_id (oc_leg s))) s
                   in Returns (olog (OSessionEnd d) s)) = Returns s'"
    unfolding oc_close_def Let_def s0_def [symmetric] s2_def close_info_def by simp
  then have s': "oc_state s' = oc_state s2 \<and> oc_room s' = oc_room s2 \<and> (\<exists>ys. oc_log s' = ys @ [OSessionEnd d])"
    by (auto simp: stopSIP_def Let_def bind_outcome_Returns)
  then show "cs_info (oc_state s') = close_info err reason (cs_info (oc_state s))" "\<exists>ys. oc_log s' = ys @ [OSessionEnd d]"
    by (simp_all add: s2_def s0)
  have "DisconnectRoom rs \<in> set (rm_actions (CloseWithReason False rs (CloseOutput b r)))" if "rm_joined r" for rs b r
    using that by (simp add: CloseWithReason_def CloseOutput_def SetDTMFOutput_def room_act_def Let_def)
  then show "\<exists>r'. oc_room s' = Some r' \<and> DisconnectRoom (DisconnectReason status) \<in> set (rm_actions r')"
    if "oc_room s = Some r" "rm_joined r" for r
    using that s' by (simp add: s2_def s0)
qed

text \<open>The three ways an INVITE may be refused: unavailable, busy, or failed.\<close>

definition refusal :: "go_error \<Rightarrow> string \<times> disconnect_reason \<times> bool" where
  "refusal e =
     (case err_as_sip_status e of
        None \<Rightarrow> (''invite-failed'', UNKNOWN_REASON, True)
      | Some (code, text) \<Rightarrow>
          if code = 480 then (''unavailable'', USER_UNAVAILABLE, False)
          else if code = 486 then (''busy'', USER_REJECTED, False)
          else (''invite-failed'', UNKNOWN_REASON, True))"

lemma dial_failure_refusal:
  "\<exists>status. dial_failure e = (if snd (snd (refusal e)) then Some e else None, status, fst (refusal e), fst (snd (refusal e)))
     \<and> DisconnectReason status = fst (snd (refusal e)) \<and> status \<noteq> CallActive"
  by (auto simp: dial_failure_def refusal_def split: option.split prod.split)

section \<open>Properties\<close>

text \<open>
  C14. Nothing before the answer. As long as no 200 came for its INVITE, an outbound call sends
  no audio (the output of its media stays disabled), does not start, does not tell the room it
  is active and acknowledges nothing, whatever else happens in any order.
\<close>

theorem outbound_silent_before_answer:
  assumes "newCall env listen ja room (bare_call env contact draw mon lid conf st pid sync active by_remote) = Returns (s, None)"
    and "\<forall>t. by_remote t \<noteq> Some lid"
    and "runs ocall_step s es s'"
    and "oc_started s' \<or> (\<exists>m. oc_media s' = Some m \<and> mp_out_enabled m) \<or> OSetCallStatus ''active'' \<in> set (oc_log s')
       \<or> (\<exists>m\<in>set (so_out (oc_leg s')). is_out_ack m)"
  shows "\<exists>e\<in>set es. ok_event e"
proof (rule ccontr)
  assume "\<not> (\<exists>e\<in>set es. ok_event e)"
  with quiet_runs [OF assms(3)] ready_quiet [OF newCall_ready(1) [OF assms(1,2)]] have "quiet_call s'" by blast
  with assms(4) show False by (auto simp: quiet_call_def filter_empty_conv)
qed

text \<open>
  C15. The leg of an outbound call refines the leg by itself. In every run of the call, while
  the client is not shutting down, what its leg did is what a leg does after being made: an
  INVITE at most, then operations of the leg. So its requests are numbered upwards, there is at
  most one BYE, and when the call has ended the dialog is over.
\<close>

theorem outbound_call_refines_leg:
  assumes "newCall env listen ja room (bare_call env contact draw mon lid conf st pid sync active by_remote) = Returns (s, None)"
    and "\<forall>t. by_remote t \<noteq> Some lid"
    and "runs ocall_step s es s'" and "\<forall>e\<in>set es. calm_event e"
  shows "leg_from (oc_leg s) (oc_leg s')
     \<and> (\<exists>ns. out_cseqs (so_out (oc_leg s')) = map (\<lambda>n. Some (of_nat n)) ns \<and> sorted_wrt (<) ns)
     \<and> count_if is_out_bye (so_out (oc_leg s')) \<le> 1
     \<and> (oc_stopped s' \<longrightarrow> out_dropped (oc_leg s')) \<and> (\<forall>err. oc_pc s' = OExit err \<longrightarrow> out_dropped (oc_leg s'))"
proof -
  have "owned_leg lid (oc_leg s) s'"
    by (rule outbound_owned.runs_inv [OF assms(3) ready_owned [OF newCall_ready(1) [OF assms(1,2)]]])
      (use assms(4) in auto)
  then obtain fr ct dn where s': "olife lid s'" "leg_life (oc_leg s) s'" "oc_leg s = newOutbound lid fr ct dn"
    by (auto simp: owned_leg_def)
  have lf: "leg_from (oc_leg s) (oc_leg s')" and drop: "oc_stopped s' \<Longrightarrow> out_dropped (oc_leg s')"
    using s'(2) by (simp_all add: leg_life_def)
  from lf have "so_inv (oc_leg s')" unfolding s'(3) by (rule leg_from_inv)
  then have "(\<exists>ns. out_cseqs (so_out (oc_leg s')) = map (\<lambda>n. Some (of_nat n)) ns \<and> sorted_wrt (<) ns)
     \<and> count_if is_out_bye (so_out (oc_leg s')) \<le> 1"
    unfolding so_inv_def ascending_def by blast
  moreover have "\<forall>err. oc_pc s' = OExit err \<longrightarrow> oc_stopped s'" using s'(1) by (auto simp: olife_def)
  ultimately show ?thesis using lf drop by blast
qed

text \<open>The steps after a refusal: the leg is dropped, and the end of \<open>Dial\<close> finds the call closed.\<close>

lemma refused_first:
  assumes "olife lid s" and "\<not> oc_stopped s" and "so_invite_ok (oc_leg s) = None"
  obtains s1 st r where "signal_refused env1 e s = Returns s1" and "oc_pc s1 = OFail e" and "\<not> oc_stopped s1"
    and "oc_media s1 \<noteq> None" and "so_invite_ok (oc_leg s1) = None" and "oc_room s1 = Some r" and "rm_joined r"
    and "oc_state s1 = st" and "oc_sync s1 = oc_sync s"
    and "cs_info st = (case err_as_sip_status e of None \<Rightarrow> cs_info (oc_state s)
           | Some code \<Rightarrow> (cs_info (oc_state s))\<lparr>ci_status_code := Some code\<rparr>)"
proof -
  from assms(3) have "\<exists>s1. signal_refused env1 e s = Returns s1"
    by (simp add: signal_refused_def Let_def out_Close_def split: option.split)
  then obtain s1 where d1: "signal_refused env1 e s = Returns s1" by blast
  then obtain mn st where s1: "s1 = ogoto (OFail e) (s\<lparr>oc_monitor := mn, oc_state := st, oc_leg := out_drop (oc_leg s)\<rparr>)"
    and st: "cs_info st = (case err_as_sip_status e of None \<Rightarrow> cs_info (oc_state s)
           | Some code \<Rightarrow> (cs_info (oc_state s))\<lparr>ci_status_code := Some code\<rparr>)"
    by (rule signal_refused_cases) (use assms(3) in \<open>auto simp: out_Close_def\<close>)
  from assms(1,2) obtain m r where mr: "oc_media s = Some m" "oc_room s = Some r" "rm_joined r"
    by (auto simp: olife_def ocore_def)
  show thesis by (rule that [OF d1 _ _ _ _ _ mr(3) _ _ st]) (use s1 assms(2) mr in simp_all)
qed

lemma dial_done_reports:
  assumes "oc_pc s = ODone (Some e)"
  obtains s' where "ocall_step (env, Dialer DDone) s = Returns s'" and "oc_pc s' = OExit (Some e)" and "oc_room s' = oc_room s"
    and "cs_info (oc_state s') = closed_info env s (cs_info (oc_state s))" and "oc_sync s \<longrightarrow> oc_reply s' = Some (Some e)"
  using assms that by (auto simp: dial_done_def Let_def ensureClosed_def)

text \<open>
  C16. A refused INVITE is reported as what it was. When the INVITE of a call that was not
  closed fails with an error, the call ends with that error; the backend is told the SIP
  status of the refusal and the disconnect reason that belongs to it, and an error only where
  it is not 480 or 486; the room is left with the same reason. But when the request that made
  the call waits for the answer, its own last update puts an unknown reason and the error in
  their place.
\<close>

theorem refused_call_reported:
  assumes "olife lid s" and "oc_pc s = ORefused e" and "\<not> oc_stopped s" and "so_invite_ok (oc_leg s) = None"
    and "ci_error (cs_info (oc_state s)) = None" and "refusal e = (desc, reason, failed)"
  shows "\<exists>s1 s2 s3. ocall_step (env1, Dialer DRefused) s = Returns s1
     \<and> ocall_step (env2, Dialer DFailed) s1 = Returns s2 \<and> ocall_step (env3, Dialer DDone) s2 = Returns s3
     \<and> oc_pc s3 = OExit (Some e) \<and> last (oc_log s2) = OSessionEnd desc
     \<and> ci_disconnect_reason (cs_info (oc_state s3)) = reason
     \<and> ci_error (cs_info (oc_state s3)) = (if failed then Some e else None)
     \<and> ci_status (cs_info (oc_state s3)) = (if failed then SCS_ERROR else SCS_DISCONNECTED)
     \<and> ci_status_code (cs_info (oc_state s3)) =
          (case err_as_sip_status e of None \<Rightarrow> ci_status_code (cs_info (oc_state s)) | Some st \<Rightarrow> Some st)
     \<and> (\<exists>r. oc_room s3 = Some r \<and> DisconnectRoom reason \<in> set (rm_actions r))
     \<and> (oc_sync s \<longrightarrow> (\<exists>s4. ocall_step (env4, Around YReply) s3 = Returns s4
          \<and> cs_info (oc_state s4) = (cs_info (oc_state s3))\<lparr>ci_status := SCS_ERROR,
               ci_disconnect_reason := UNKNOWN_REASON, ci_error := Some e\<rparr>))"
proof -
  obtain s1 st r where d1: "signal_refused env1 e s = Returns s1"
    and f1: "oc_pc s1 = OFail e" "\<not> oc_stopped s1" "oc_media s1 \<noteq> None" "so_invite_ok (oc_leg s1) = None"
      "oc_room s1 = Some r" "oc_state s1 = st" "oc_sync s1 = oc_sync s" and joined: "rm_joined r"
    and st: "cs_info st = (case err_as_sip_status e of None \<Rightarrow> cs_info (oc_state s)
           | Some code \<Rightarrow> (cs_info (oc_state s))\<lparr>ci_status_code := Some code\<rparr>)"
    by (rule refused_first [OF assms(1,3,4), of env1 e]) blast
  obtain status where status: "dial_failure e = (if failed then Some e else None, status, desc, reason)"
    "DisconnectReason status = reason" "status \<noteq> CallActive"
    using dial_failure_refusal [of e] assms(6) by auto
  from oc_close_returns [OF f1(3,4)] obtain t where
    t: "oc_close env2 (if failed then Some e else None) status desc reason s1 = Returns t" by blast
  define s2 where "s2 = ogoto (ODone (Some e)) t"
  have d2: "ocall_step (env2, Dialer DFailed) s1 = Returns s2" using f1(1) status(1) t by (simp add: dial_failed_def s2_def)
  note rep = oc_close_reports [OF t f1(2)]
  from t status(3) have closed: "oclosed_by env2 s1 t" by (rule oc_close_cases) (use f1(2) in simp_all)
  have "oc_pc s2 = ODone (Some e)" by (simp add: s2_def)
  then obtain s3 where d3: "ocall_step (env3, Dialer DDone) s2 = Returns s3" "oc_pc s3 = OExit (Some e)" "oc_room s3 = oc_room s2"
      "cs_info (oc_state s3) = closed_info env3 s2 (cs_info (oc_state s2))" "oc_sync s2 \<longrightarrow> oc_reply s3 = Some (Some e)"
    by (rule dial_done_reports)
  have "ci_error (cs_info st) = None" using st assms(5) by (simp split: option.splits)
  then have info2: "ci_error (cs_info (oc_state s2)) = (if failed then Some e else None)"
    "ci_disconnect_reason (cs_info (oc_state s2)) = reason" "ci_status_code (cs_info (oc_state s2)) = ci_status_code (cs_info st)"
    using rep(1) f1(6) by (simp_all add: s2_def close_info_def Let_def)
  have info3: "ci_error (cs_info (oc_state s3)) = (if failed then Some e else None)"
    "ci_disconnect_reason (cs_info (oc_state s3)) = reason" "ci_status_code (cs_info (oc_state s3)) = ci_status_code (cs_info st)"
    "ci_status (cs_info (oc_state s3)) = (if failed then SCS_ERROR else SCS_DISCONNECTED)"
    using info2 by (simp_all add: d3(4) closed_info_def Let_def split: option.split)
  from rep(2) have log2: "last (oc_log s2) = OSessionEnd desc" by (auto simp: s2_def)
  from rep(3) [OF f1(5) joined] status(2) have room3: "\<exists>r. oc_room s3 = Some r \<and> DisconnectRoom reason \<in> set (rm_actions r)"
    by (simp add: d3(3) s2_def)
  have sync2: "oc_sync s2 = oc_sync s" using closed f1(7) by (simp add: s2_def oclosed_by_def)
  have reply: "oc_sync s \<longrightarrow> (\<exists>s4. ocall_step (env4, Around YReply) s3 = Returns s4
          \<and> cs_info (oc_state s4) = (cs_info (oc_state s3))\<lparr>ci_status := SCS_ERROR,
               ci_disconnect_reason := UNKNOWN_REASON, ci_error := Some e\<rparr>)"
    using d3(5) sync2 by (simp add: reply_info_def)
  have step1: "ocall_step (env1, Dialer DRefused) s = Returns s1" using assms(2) d1 by simp
  have code: "ci_status_code (cs_info (oc_state s3)) =
          (case err_as_sip_status e of None \<Rightarrow> ci_status_code (cs_info (oc_state s)) | Some st \<Rightarrow> Some st)"
    unfolding info3(3) st by (simp split: option.split)
  show ?thesis
    using step1 d2 d3(1,2) log2 info3(1,2,4) code room3 reply
    by (intro exI [of _ s1] exI [of _ s2] exI [of _ s3] conjI)
qed

text \<open>
  C18. A BYE of the remote ends an outbound call. When a BYE reaches a call that waits for its
  end, the call is closed for it and its goroutine ends without an error, without a BYE
  of its own; the backend is told that the client hung up, and when.
\<close>

theorem bye_ends_outbound_call:
  assumes "olife lid s" and "oc_pc s = OWait" and "\<not> oc_stopped s" and "out_routed s"
  shows "\<exists>s1 s2 s3 s4. ocall_step (env1, Around YBye) s = Returns s1
     \<and> ocall_step (env2, Around (YCloser CByBye)) s1 = Returns s2
     \<and> ocall_step (env3, Dialer (DWait OClosed)) s2 = Returns s3
     \<and> ocall_step (env4, Dialer DLeave) s3 = Returns s4
     \<and> oc_pc s4 = OExit None \<and> oc_stopped s4 \<and> out_dropped (oc_leg s4) \<and> out_said (oc_leg s4) = out_said (oc_leg s)
     \<and> ci_disconnect_reason (cs_info (oc_state s4)) = CLIENT_INITIATED
     \<and> ci_error (cs_info (oc_state s4)) = ci_error (cs_info (oc_state s))
     \<and> ci_status (cs_info (oc_state s4)) = (if ci_error (cs_info (oc_state s)) = None then SCS_DISCONNECTED else SCS_ERROR)
     \<and> ci_ended_at (cs_info (oc_state s4)) = oe_now env4"
proof -
  define s1 where "s1 = s\<lparr>oc_leg := out_AcceptBye (oc_leg s), oc_closers := oc_closers s @ [CByBye]\<rparr>"
  have d1: "ocall_step (env1, Around YBye) s = Returns s1" using assms(4) by (simp add: s1_def)
  define t where "t = s1\<lparr>oc_closers := remove1 CByBye (oc_closers s1)\<rparr>"
  have t: "\<not> oc_stopped t" "oc_media t \<noteq> None" "so_invite_ok (oc_leg t) = None" "oc_pc t = OWait" "oc_state t = oc_state s"
    "oc_leg t = out_AcceptBye (oc_leg s)"
    using assms(1-3) by (auto simp: t_def s1_def olife_def ocore_def out_AcceptBye_def)
  from oc_close_returns [OF t(2,3)] obtain s2 where
    c: "oc_close env2 None CallHangup ''bye'' CLIENT_INITIATED t = Returns s2" by blast
  have d2: "ocall_step (env2, Around (YCloser CByBye)) s1 = Returns s2"
    using c assms(2) by (simp add: run_closer_def s1_def t_def oc_CloseWithReason_def)
  from c have closed: "oclosed_by env2 t s2" by (rule oc_close_cases) (use t(1) in simp_all)
  then have s2: "oc_pc s2 = OWait" "oc_stopped s2" using t(4) by (auto simp: oclosed_by_def)
  have leg: "out_dropped (oc_leg s2)" "out_said (oc_leg s2) = out_said (oc_leg s)"
  proof -
    from closed obtain e where "out_step (e, OClose (oe_tx env2)) (oc_leg t) = Returns (oc_leg s2)"
      by (auto simp: oclosed_by_def)
    from out_dropped_step [OF _ this] t(6)
    show "out_dropped (oc_leg s2)" "out_said (oc_leg s2) = out_said (oc_leg s)"
      by (simp_all add: out_AcceptBye_def out_said_def)
  qed
  note info = oc_close_reports(1) [OF c t(1)]
  define s3 where "s3 = ogoto (OLeave None) s2"
  have d3: "ocall_step (env3, Dialer (DWait OClosed)) s2 = Returns s3" using s2 by (simp add: s3_def)
  define s4 where "s4 = ogoto (OExit None) (ensureClosed env4 s3)"
  have d4: "ocall_step (env4, Dialer DLeave) s3 = Returns s4" by (simp add: s3_def wait_leave_def s4_def)
  have i4: "cs_info (oc_state s4) = closed_info env4 s3 (close_info None CLIENT_INITIATED (cs_info (oc_state s)))"
    using info t(5) by (simp add: s4_def s3_def ensureClosed_def)
  have "ci_disconnect_reason (cs_info (oc_state s4)) = CLIENT_INITIATED"
    "ci_error (cs_info (oc_state s4)) = ci_error (cs_info (oc_state s))"
    "ci_status (cs_info (oc_state s4)) = (if ci_error (cs_info (oc_state s)) = None then SCS_DISCONNECTED else SCS_ERROR)"
    "ci_ended_at (cs_info (oc_state s4)) = oe_now env4"
    by (simp_all add: i4 closed_info_def close_info_def Let_def split: option.split)
  moreover have "oc_pc s4 = OExit None" "oc_stopped s4" "oc_leg s4 = oc_leg s2"
    using s2 by (simp_all add: s4_def s3_def ensureClosed_def)
  ultimately show ?thesis using d1 d2 d3 d4 leg
    by (intro exI [of _ s1] exI [of _ s2] exI [of _ s3] exI [of _ s4]) simp
qed

text \<open>
  C19. What the backend is told of an answered call. Once the media of an outbound call is
  connected, the call is reported active with its room; but \<open>Dial\<close> ends with the report that
  it is disconnected and with a time of end, and with the call taken out of the count of active
  calls, while it goes on; when the request waited for the answer, the status becomes
  that the participant joined, and the time of end stays.
\<close>

theorem answered_call_reported:
  assumes "olife lid s" and "oc_pc s = OActive" and "\<not> oc_stopped s" and "ci_error (cs_info (oc_state s)) = None"
  shows "\<exists>s1 s2. ocall_step (env1, Dialer DActive) s = Returns s1 \<and> ocall_step (env2, Dialer DDone) s1 = Returns s2
     \<and> ci_status (cs_info (oc_state s1)) = SCS_ACTIVE \<and> ci_room_id (cs_info (oc_state s1)) = oe_room_sid env1
     \<and> ci_started_at (cs_info (oc_state s1)) = oe_now env1
     \<and> oc_pc s2 = OWait \<and> \<not> oc_stopped s2 \<and> joined_room s2 \<noteq> None
     \<and> ci_status (cs_info (oc_state s2)) = SCS_DISCONNECTED \<and> ci_ended_at (cs_info (oc_state s2)) = oe_now env2
     \<and> \<not> cm_started (oc_cmon s2)
     \<and> mn_calls_active (oc_monitor s2) (labels_of (oc_cmon s) []) = mn_calls_active (oc_monitor s) (labels_of (oc_cmon s) []) - 1
     \<and> (oc_sync s \<longrightarrow> (\<exists>s3. ocall_step (env3, Around YReply) s2 = Returns s3
          \<and> ci_status (cs_info (oc_state s3)) = SCS_PARTICIPANT_JOINED \<and> ci_ended_at (cs_info (oc_state s3)) = oe_now env2))"
proof -
  from assms(1,3) obtain r where r: "oc_room s = Some r" "rm_joined r" by (auto simp: olife_def ocore_def)
  then have j: "joined_room s = Some r" by (simp add: joined_room_def)
  have started: "cm_started (oc_cmon s)" using assms(1,2) by (simp add: olife_def)
  define s1 where "s1 = ogoto (ODone None) (s\<lparr>oc_state := Update (oe_flush_ok env1) (\<lambda>info.
                 info\<lparr>ci_room_id := oe_room_sid env1, ci_started_at := oe_now env1, ci_status := SCS_ACTIVE\<rparr>)
                 (oc_state s)\<rparr>)"
  have d1: "ocall_step (env1, Dialer DActive) s = Returns s1" using assms(2) j by (simp add: dial_active_def s1_def)
  obtain s2 where d2: "dial_done env2 None s1 = Returns s2" by (simp add: dial_done_def Let_def)
  from dial_done_shape [OF d2] obtain rp where
    s2: "s2 = ogoto OWait ((on_omon CallEnd (ensureClosed env2 s1))\<lparr>oc_reply := rp\<rparr>)" by auto
  have rp: "oc_sync s \<longrightarrow> oc_reply s2 = Some None" using d2 by (auto simp: dial_done_def Let_def ensureClosed_def s1_def)
  have info2: "ci_status (cs_info (oc_state s2)) = SCS_DISCONNECTED" "ci_ended_at (cs_info (oc_state s2)) = oe_now env2"
    using assms(4) by (simp_all add: s2 s1_def ensureClosed_def closed_info_def Let_def split: option.split)
  have cm: "\<not> cm_started (oc_cmon s2)" by (simp add: s2 CallEnd_marks)
  have gauge: "mn_calls_active (oc_monitor s2) (labels_of (oc_cmon s) []) = mn_calls_active (oc_monitor s) (labels_of (oc_cmon s) []) - 1"
    using started by (simp add: s2 s1_def on_omon_def CallEnd_def ensureClosed_def ogoto_def)
  have more: "oc_pc s2 = OWait" "\<not> oc_stopped s2" "joined_room s2 \<noteq> None"
    using assms(3) r by (simp_all add: s2 s1_def ensureClosed_def joined_room_def)
  have step2: "ocall_step (env2, Dialer DDone) s1 = Returns s2" using d2 by (simp add: s1_def)
  show ?thesis
    using d1 step2 info2 cm gauge more rp
    by (intro exI [of _ s1] exI [of _ s2]) (simp add: s1_def reply_info_def)
qed

text \<open>Examples: a call put at a point of its life.\<close>

lemma example_ready:
  "\<exists>s. newCall example_oenv None example_join zero_room_config (example_bare mon) = Returns (s, None)
     \<and> ready_call ''SCL_1'' s \<and> oc_state s = NewCallState True None \<and> oc_sync s"
proof -
  obtain s where s: "newCall example_oenv None example_join zero_room_config (example_bare mon) = Returns (s, None)"
    using example_made by blast
  with newCall_ready [OF s] show ?thesis by auto
qed

definition put_at :: "ocall_pc \<Rightarrow> ocall \<Rightarrow> ocall" where
  "put_at pc s = s\<lparr>oc_pc := pc, oc_cmon := (oc_cmon s)\<lparr>cm_started := counted pc\<rparr>,
                   oc_by_remote := (if pc_unanswered pc then oc_by_remote s
                                    else (oc_by_remote s)(so_tag (oc_leg s) \<mapsto> so_id (oc_leg s)))\<rparr>"

lemma put_at_life:
  assumes "ready_call lid s" and "\<not> pc_stopped pc"
  shows "olife lid (put_at pc s)"
proof -
  from assms(1) have s: "olife lid s" "\<not> oc_stopped s" "oc_pc s = ODial" by (simp_all add: ready_call_def)
  then have "\<forall>t. oc_by_remote s t \<noteq> Some lid" by (simp add: olife_def)
  with s assms(2) show ?thesis by (auto simp: olife_def ocore_def put_at_def)
qed

theorem outbound_call_refines_leg_witness:
  "\<forall>mon. \<exists>s s'. newCall example_oenv None example_join zero_room_config (example_bare mon) = Returns (s, None)
     \<and> runs ocall_step s (map (\<lambda>e. (example_oenv, Dialer e)) [DStart, DInvite no_offer, DFailed, DDone]) s'
     \<and> leg_from (oc_leg s) (oc_leg s') \<and> out_dropped (oc_leg s')"
proof
  fix mon
  have "sg_offer no_offer EncryptionNone = Inl (PlainErr ''no offer'')" by (simp add: no_offer_def)
  from example_ends [OF this, of mon] obtain s s' where
    s: "newCall example_oenv None example_join zero_room_config (example_bare mon) = Returns (s, None)"
    "runs ocall_step s (map (\<lambda>e. (example_oenv, Dialer e)) [DStart, DInvite no_offer, DFailed, DDone]) s'"
    "oc_pc s' = OExit (Some (PlainErr ''no offer''))" by blast
  have "\<forall>e\<in>set (map (\<lambda>e. (example_oenv, Dialer e)) [DStart, DInvite no_offer, DFailed, DDone]). calm_event e"
    by (simp add: example_oenv_def example_out_env_def)
  from outbound_call_refines_leg [OF s(1) _ s(2) this] s
  show "\<exists>s s'. newCall example_oenv None example_join zero_room_config (example_bare mon) = Returns (s, None)
     \<and> runs ocall_step s (map (\<lambda>e. (example_oenv, Dialer e)) [DStart, DInvite no_offer, DFailed, DDone]) s'
     \<and> leg_from (oc_leg s) (oc_leg s') \<and> out_dropped (oc_leg s')"
    by (intro exI [of _ s] exI [of _ s']) simp
qed

theorem refused_call_reported_witness:
  "\<forall>mon. \<exists>s s0 s1 s2 s3. newCall example_oenv None example_join zero_room_config (example_bare mon) = Returns (s0, None)
     \<and> s = put_at (ORefused (SIPStatusErr 486 ''Busy'')) s0 \<and> ocall_step (example_oenv, Dialer DRefused) s = Returns s1
     \<and> ocall_step (example_oenv, Dialer DFailed) s1 = Returns s2 \<and> ocall_step (example_oenv, Dialer DDone) s2 = Returns s3
     \<and> ci_disconnect_reason (cs_info (oc_state s3)) = USER_REJECTED \<and> last (oc_log s2) = OSessionEnd ''busy''"
proof
  fix mon
  from example_ready [of mon] obtain s0 where
    s0: "newCall example_oenv None example_join zero_room_config (example_bare mon) = Returns (s0, None)"
      "ready_call ''SCL_1'' s0" "oc_state s0 = NewCallState True None" by blast
  define s where "s = put_at (ORefused (SIPStatusErr 486 ''Busy'')) s0"
  have life: "olife ''SCL_1'' s" unfolding s_def by (rule put_at_life [OF s0(2)]) simp
  have pc: "oc_pc s = ORefused (SIPStatusErr 486 ''Busy'')" "\<not> oc_stopped s" "so_invite_ok (oc_leg s) = None"
    "ci_error (cs_info (oc_state s)) = None"
    using s0(2,3) by (auto simp: s_def put_at_def ready_call_def newOutbound_def Let_def NewCallState_def empty_call_info_def)
  have "refusal (SIPStatusErr 486 ''Busy'') = (''busy'', USER_REJECTED, False)" by (simp add: refusal_def)
  from refused_call_reported [OF life pc this, of example_oenv example_oenv example_oenv example_oenv]
  obtain s1 s2 s3 where "ocall_step (example_oenv, Dialer DRefused) s = Returns s1"
    "ocall_step (example_oenv, Dialer DFailed) s1 = Returns s2" "ocall_step (example_oenv, Dialer DDone) s2 = Returns s3"
    "ci_disconnect_reason (cs_info (oc_state s3)) = USER_REJECTED" "last (oc_log s2) = OSessionEnd ''busy''" by blast
  with s0(1) s_def show "\<exists>s s0 s1 s2 s3. newCall example_oenv None example_join zero_room_config (example_bare mon) = Returns (s0, None)
     \<and> s = put_at (ORefused (SIPStatusErr 486 ''Busy'')) s0 \<and> ocall_step (example_oenv, Dialer DRefused) s = Returns s1
     \<and> ocall_step (example_oenv, Dialer DFailed) s1 = Returns s2 \<and> ocall_step (example_oenv, Dialer DDone) s2 = Returns s3
     \<and> ci_disconnect_reason (cs_info (oc_state s3)) = USER_REJECTED \<and> last (oc_log s2) = OSessionEnd ''busy''" by blast
qed

theorem bye_ends_outbound_call_witness:
  "\<forall>mon. \<exists>s s0 s1 s2 s3 s4. newCall example_oenv None example_join zero_room_config (example_bare mon) = Returns (s0, None)
     \<and> s = put_at OWait s0 \<and> ocall_step (example_oenv, Around YBye) s = Returns s1
     \<and> ocall_step (example_oenv, Around (YCloser CByBye)) s1 = Returns s2
     \<and> ocall_step (example_oenv, Dialer (DWait OClosed)) s2 = Returns s3
     \<and> ocall_step (example_oenv, Dialer DLeave) s3 = Returns s4 \<and> oc_pc s4 = OExit None"
proof
  fix mon
  from example_ready [of mon] obtain s0 where
    s0: "newCall example_oenv None example_join zero_room_config (example_bare mon) = Returns (s0, None)"
      "ready_call ''SCL_1'' s0" by blast
  define s where "s = put_at OWait s0"
  have life: "olife ''SCL_1'' s" unfolding s_def by (rule put_at_life [OF s0(2)]) simp
  have pc: "oc_pc s = OWait" "\<not> oc_stopped s" "out_routed s"
    using s0(2) by (simp_all add: s_def put_at_def ready_call_def out_routed_def)
  from bye_ends_outbound_call [OF life pc, of example_oenv example_oenv example_oenv example_oenv]
  obtain s1 s2 s3 s4 where "ocall_step (example_oenv, Around YBye) s = Returns s1"
    "ocall_step (example_oenv, Around (YCloser CByBye)) s1 = Returns s2"
    "ocall_step (example_oenv, Dialer (DWait OClosed)) s2 = Returns s3"
    "ocall_step (example_oenv, Dialer DLeave) s3 = Returns s4" "oc_pc s4 = OExit None" by blast
  with s0(1) s_def show "\<exists>s s0 s1 s2 s3 s4. newCall example_oenv None example_join zero_room_config (example_bare mon) = Returns (s0, None)
     \<and> s = put_at OWait s0 \<and> ocall_step (example_oenv, Around YBye) s = Returns s1
     \<and> ocall_step (example_oenv, Around (YCloser CByBye)) s1 = Returns s2
     \<and> ocall_step (example_oenv, Dialer (DWait OClosed)) s2 = Returns s3
     \<and> ocall_step (example_oenv, Dialer DLeave) s3 = Returns s4 \<and> oc_pc s4 = OExit None" by blast
qed

theorem answered_call_reported_witness:
  "\<forall>mon. \<exists>s s0 s1 s2. newCall example_oenv None example_join zero_room_config (example_bare mon) = Returns (s0, None)
     \<and> s = put_at OActive s0 \<and> ocall_step (example_oenv, Dialer DActive) s = Returns s1
     \<and> ocall_step (example_oenv, Dialer DDone) s1 = Returns s2
     \<and> ci_status (cs_info (oc_state s1)) = SCS_ACTIVE \<and> ci_status (cs_info (oc_state s2)) = SCS_DISCONNECTED
     \<and> oc_pc s2 = OWait \<and> \<not> oc_stopped s2"
proof
  fix mon
  from example_ready [of mon] obtain s0 where
    s0: "newCall example_oenv None example_join zero_room_config (example_bare mon) = Returns (s0, None)"
      "ready_call ''SCL_1'' s0" "oc_state s0 = NewCallState True None" by blast
  define s where "s = put_at OActive s0"
  have life: "olife ''SCL_1'' s" unfolding s_def by (rule put_at_life [OF s0(2)]) simp
  have pc: "oc_pc s = OActive" "\<not> oc_stopped s" "ci_error (cs_info (oc_state s)) = None"
    using s0(2,3) by (simp_all add: s_def put_at_def ready_call_def NewCallState_def empty_call_info_def)
  from answered_call_reported [OF life pc, of example_oenv example_oenv example_oenv]
  obtain s1 s2 where "ocall_step (example_oenv, Dialer DActive) s = Returns s1"
    "ocall_step (example_oenv, Dialer DDone) s1 = Returns s2"
    "ci_status (cs_info (oc_state s1)) = SCS_ACTIVE" "ci_status (cs_info (oc_state s2)) = SCS_DISCONNECTED"
    "oc_pc s2 = OWait" "\<not> oc_stopped s2" by blast
  with s0(1) s_def show "\<exists>s s0 s1 s2. newCall example_oenv None example_join zero_room_config (example_bare mon) = Returns (s0, None)
     \<and> s = put_at OActive s0 \<and> ocall_step (example_oenv, Dialer DActive) s = Returns s1
     \<and> ocall_step (example_oenv, Dialer DDone) s1 = Returns s2
     \<and> ci_status (cs_info (oc_state s1)) = SCS_ACTIVE \<and> ci_status (cs_info (oc_state s2)) = SCS_DISCONNECTED
     \<and> oc_pc s2 = OWait \<and> \<not> oc_stopped s2" by blast
qed

definition answering :: signal_env where
  "answering =
     \<lparr>sg_offer = (\<lambda>enc. Inr ''offer''), sg_marshal = Inr, sg_txs = [(None, [GotResponse (example_response 200)])],
      sg_parse = Inr, sg_apply = (\<lambda>answer off enc. Inr \<lparr>mc_remote = Some ''10.0.0.2:4000'', mc_crypto = False,
         mc_audio_type = 0, mc_audio_clock = 8000, mc_audio_name = ''PCMU/8000'', mc_dtmf_type = 101, mc_processor = False\<rparr>),
      sg_setup = \<lparr>se_session = None, se_stream = None, se_mixer = None, se_old = False, se_dtmf_rate = 8000\<rparr>,
      sg_processor = (\<lambda>fs. False)\<rparr>"

lemma example_200:
  "\<exists>c seen. Invite env to user pass headers data [(None, [GotResponse (example_response 200)])]
       (newOutbound lid uri contact dn) = Returns (c, seen, Inr ''sdp'')"
  by (simp add: Invite_def Let_def attemptInvite_def invite_request_def out_setCSeq_def maxInviteTries_def
      is_provisional_def example_response_def invite_answer_def accept_response_def getTagFrom_def newOutbound_def)

lemma example_answered:
  "\<exists>s s' m. newCall example_oenv None example_join zero_room_config (example_bare mon) = Returns (s, None)
     \<and> runs ocall_step s (map (\<lambda>e. (example_oenv, Dialer e)) [DStart, DInvite answering, DAnswer answering]) s'
     \<and> oc_media s' = Some m \<and> mp_out_enabled m"
proof -
  obtain s where s: "newCall example_oenv None example_join zero_room_config (example_bare mon) = Returns (s, None)"
    and ready: "ready_call ''SCL_1'' s" using example_ready by blast
  from ready obtain fr ct dn where leg: "oc_leg s = newOutbound ''SCL_1'' fr ct dn" and pc: "oc_pc s = ODial"
    by (auto simp: ready_call_def)
  obtain t where t: "dial_start s = Returns t" by (simp add: dial_start_def Let_def)
  from t have t': "oc_leg t = oc_leg s" "oc_pc t = OInvite" "oc_media t = oc_media s" "oc_stopped t = oc_stopped s"
    by (cases rule: dial_start_cases; auto)+
  have d1: "ocall_step (example_oenv, Dialer DStart) s = Returns t" using pc t by simp
  define t1 where "t1 = t\<lparr>oc_monitor := InviteReq (oc_cmon t) (oc_monitor t)\<rparr>"
  obtain c seen where inv: "Invite (out_env_of example_oenv t1)
      (CreateURIFromUserAndAddress (of_to (oc_conf t)) (of_address (oc_conf t)) (TransportFrom (of_transport (oc_conf t))))
      (of_user (oc_conf t)) (of_pass (oc_conf t)) (of_headers (oc_conf t)) ''offer'' (sg_txs answering) (oc_leg t)
      = Returns (c, seen, Inr ''sdp'')"
    using example_200 unfolding t'(1) leg answering_def by fastforce
  define u where "u = snd (fold (on_response example_oenv) seen (False, t1\<lparr>oc_leg := c\<rparr>))"
  have u: "oc_media u = oc_media s"
    using chats_fields(3) [OF chats_responses [of "t1\<lparr>oc_leg := c\<rparr>" example_oenv seen False]] t' by (simp add: u_def t1_def)
  have "signal_invite example_oenv answering t = Returns (ogoto (OAnswer ''offer'' ''sdp'') u)"
    using inv unfolding signal_invite_def Let_def t1_def [symmetric]
    by (simp add: answering_def u_def t1_def)
  then have d2: "ocall_step (example_oenv, Dialer (DInvite answering)) t = Returns (ogoto (OAnswer ''offer'' ''sdp'') u)"
    using t'(2) by simp
  from ready obtain m where m: "oc_media s = Some m" "\<not> mp_closed m"
    by (auto simp: ready_call_def olife_def ocore_def)
  define v where "v = ogoto (OAnswer ''offer'' ''sdp'') u"
  have v: "oc_media v = Some m" using m u by (simp add: v_def)
  obtain mc where mc: "SetAnswer (sg_parse answering) (sg_apply answering) ''offer'' ''sdp'' enc = Inr mc" for enc
    by (simp add: SetAnswer_def answering_def)
  define mc' where "mc' = mc\<lparr>mc_processor := sg_processor answering (of_features (oc_conf v))\<rparr>"
  have "snd (SetConfig (sg_setup answering) mc' m) = None"
    using m(2) by (simp add: SetConfig_def setupOutput_def answering_def act_def Let_def)
  then obtain m1 where m1: "SetConfig (sg_setup answering) mc' m = (m1, None)" by (cases "SetConfig (sg_setup answering) mc' m") simp
  obtain s' m' where d3: "signal_answer example_oenv answering ''offer'' ''sdp'' v = Returns s'"
    and m': "oc_media s' = Some m'" "mp_out_enabled m'"
    using v mc m1 by (simp add: signal_answer_def mc'_def EnableOut_def)
  have "ocall_step (example_oenv, Dialer (DAnswer answering)) (ogoto (OAnswer ''offer'' ''sdp'') u) = Returns s'"
    using d3 by (simp add: v_def)
  with d1 d2 have "runs ocall_step s (map (\<lambda>e. (example_oenv, Dialer e)) [DStart, DInvite answering, DAnswer answering]) s'"
    by (auto intro!: runs_Cons [where step = ocall_step, OF d1] runs_Cons [where step = ocall_step, OF d2] runs_one)
  with s m' show ?thesis by blast
qed

theorem outbound_silent_before_answer_witness:
  "\<forall>mon. \<exists>s s' m. newCall example_oenv None example_join zero_room_config (example_bare mon) = Returns (s, None)
     \<and> runs ocall_step s (map (\<lambda>e. (example_oenv, Dialer e)) [DStart, DInvite answering, DAnswer answering]) s'
     \<and> oc_media s' = Some m \<and> mp_out_enabled m
     \<and> (\<exists>e\<in>set (map (\<lambda>e. (example_oenv, Dialer e)) [DStart, DInvite answering, DAnswer answering]). ok_event e)"
proof
  fix mon
  obtain s s' m where s: "newCall example_oenv None example_join zero_room_config (example_bare mon) = Returns (s, None)"
    "runs ocall_step s (map (\<lambda>e. (example_oenv, Dialer e)) [DStart, DInvite answering, DAnswer answering]) s'"
    "oc_media s' = Some m" "mp_out_enabled m" using example_answered by blast
  have "\<forall>t. (Map.empty :: string \<rightharpoonup> string) t \<noteq> Some ''SCL_1''" by simp
  from outbound_silent_before_answer [OF s(1) this s(2)] s
  show "\<exists>s s' m. newCall example_oenv None example_join zero_room_config (example_bare mon) = Returns (s, None)
     \<and> runs ocall_step s (map (\<lambda>e. (example_oenv, Dialer e)) [DStart, DInvite answering, DAnswer answering]) s'
     \<and> oc_media s' = Some m \<and> mp_out_enabled m
     \<and> (\<exists>e\<in>set (map (\<lambda>e. (example_oenv, Dialer e)) [DStart, DInvite answering, DAnswer answering]). ok_event e)"
    by blast
qed

section \<open>Where the code fails\<close>

text \<open>A call closed between its answer and the report that it is active panics.\<close>

lemma closed_before_active_panics:
  assumes "olife lid s" and "oc_pc s = OActive" and "oc_stopped s"
  shows "ocall_step (env, Dialer DActive) s = Panics"
  using assms by (auto simp: olife_def ocore_def dial_active_def joined_room_def unjoined_closed_def)

text \<open>So does making a call when no media port can be opened.\<close>

lemma no_media_port_panics:
  "newCall env (Some e) ja room (bare_call env contact draw mon lid conf st pid sync active by_remote) = Panics"
proof -
  define s where "s = bare_call env contact draw mon lid conf st pid sync active by_remote"
  have s: "oc_media s = None" "\<not> oc_stopped s" by (simp_all add: s_def bare_call_def Let_def)
  have "oc_media (oc_setStatus v t) = oc_media t" for v t by simp
  with s show ?thesis
    unfolding s_def [symmetric] by (simp add: newCall_def NewMediaPort_def oc_close_def Let_def)
qed

text \<open>
  And a second transfer with a dial tone that succeeds while the first one has the output of
  the room taken off: the writer it closes is nil.
\<close>

lemma second_dialtone_panics:
  assumes "oc_started s" and "\<not> oc_stopped s" and "\<not> oe_room_old env"
    and "oc_transfer_mute env True s = (s', swapped)" and "oc_started s'"
  shows "oc_transfer_finish env' tid swapped None s' = Panics"
  using assms by (auto simp: oc_transfer_mute_def oc_transfer_finish_def oc_transfer_restore_def Let_def)

text \<open>A 200 whose answer is of no use is followed by closing the leg, without an ACK.\<close>

lemma unusable_answer_unacked:
  assumes "signal_answer env sg offer answer s = Returns s1" and "oc_pc s1 = OFail e" and "dial_failed env' e s1 = Returns s2"
  shows "filter is_out_ack (so_out (oc_leg s2)) = filter is_out_ack (so_out (oc_leg s))"
proof -
  have "oc_leg s1 = oc_leg s"
    using assms(1,2) by (cases rule: signal_answer_cases) auto
  from assms(3) show ?thesis
  proof (cases rule: dial_failed_cases)
    case Already
    with \<open>oc_leg s1 = oc_leg s\<close> show ?thesis by simp
  next
    case (Closed t)
    from Closed(1) obtain e where "out_step (e, OClose (oe_tx env')) (oc_leg s1) = Returns (oc_leg t)"
      by (auto simp: oclosed_by_def)
    from out_step_frame(3) [OF this] Closed(2) \<open>oc_leg s1 = oc_leg s\<close> show ?thesis by simp
  qed
qed

end
