(* ===== verification/Inbound_Leg.thy ===== *)
theory Inbound_Leg
  imports Call_State Invite_Auth
begin

text \<open>
  The SIP leg of an inbound call (\<open>sipInbound\<close> in \<open>pkg/sip/inbound.go\<close>). Its operations run
  under the mutex of the leg, so each is one step; the goroutine that repeats 180 Ringing
  and watches for CANCEL is a program counter moved by steps of its own. What the leg sends is
  appended to a trace. The SIP library's constructors of messages are arguments.
\<close>

section \<open>State\<close>

text \<open>
  Messages on the wire: \<open>LegRespond\<close> answers the INVITE (the request answered, status, reason,
  body and the headers added); the 200 answers to a CANCEL and to a BYE; the end of the
  INVITE transaction; requests within the dialog and the ACK for a 200 answer to one.
\<close>

datatype leg_out =
    LegRespond sip_request int string string "hdr_op list"
  | LegCancelOK
  | LegByeOK
  | LegTerminate
  | LegBye out_request
  | LegRefer out_request
  | LegAck out_request

datatype ringer_pc = RWaiting | RTicked | RCancelling | RExited

record ringer =
  rg_stop :: bool
  rg_pc :: ringer_pc

record sip_inbound =
  sl_id :: string
  sl_tag :: string
  sl_call_id :: string
  sl_invite :: "sip_request option"
  sl_invite_tx :: bool
  sl_contact :: sip_uri
  sl_cancelled :: bool
  sl_from :: "addr_header option"
  sl_to :: "addr_header option"
  sl_leg_tr :: transport
  sl_invite_ok :: "sip_response option"
  sl_next_cseq :: "32 word"
  sl_refer_cseq :: "32 word"
  sl_ringing :: "nat option"
  sl_ringers :: "ringer list"
  sl_acked :: bool
  sl_out :: "leg_out list"

text \<open>
  The surroundings of an operation: the SIP library's \<open>NewResponseFromRequest\<close> and
  \<open>NewByeRequest\<close>, the configuration, and the current result of the \<open>setHeaders\<close> callback.
\<close>

record leg_env =
  le_new_response :: "sip_request \<Rightarrow> int \<Rightarrow> string \<Rightarrow> string \<Rightarrow> sip_response"
  le_new_bye :: "sip_request \<Rightarrow> sip_response \<Rightarrow> out_request"
  le_conf :: config
  le_signaling_ip :: ip_addr
  le_set_headers :: "((string \<times> string) list \<Rightarrow> (string \<times> string) list) option"

definition emit :: "leg_out \<Rightarrow> sip_inbound \<Rightarrow> sip_inbound" where
  "emit m s = s\<lparr>sl_out := sl_out s @ [m]\<rparr>"

definition newInbound :: "string \<Rightarrow> URI \<Rightarrow> sip_request \<Rightarrow> sip_inbound" where
  "newInbound lid contact invite =
     \<lparr>sl_id = lid,
      sl_tag = (case req_from invite of None \<Rightarrow> ''''
                | Some from \<Rightarrow> (case getTagFrom (ah_params from) of None \<Rightarrow> '''' | Some t \<Rightarrow> t)),
      sl_call_id = (case req_call_id invite of None \<Rightarrow> '''' | Some v \<Rightarrow> v),
      sl_invite = Some invite, sl_invite_tx = True,
      sl_contact = GetContactURI contact, sl_cancelled = False,
      sl_from = req_from invite, sl_to = req_to invite,
      sl_leg_tr = legTransportFromReq invite,
      sl_invite_ok = None,
      sl_next_cseq = (case req_cseq invite of None \<Rightarrow> 0 | Some n \<Rightarrow> n + 1),
      sl_refer_cseq = 0, sl_ringing = None, sl_ringers = [], sl_acked = False, sl_out = []\<rparr>"

definition ValidateInvite :: "sip_inbound \<Rightarrow> go_error option" where
  "ValidateInvite c =
     (if sl_call_id c = '''' then Some (PlainErr ''no Call-ID header in INVITE'')
      else if sl_from c = None then Some (PlainErr ''no From header in INVITE'')
      else if sl_to c = None then Some (PlainErr ''no To header in INVITE'')
      else if sl_tag c = '''' then Some (PlainErr ''no tag in From in INVITE'')
      else None)"

definition leg_Address :: "sip_inbound \<Rightarrow> sip_uri" where
  "leg_Address c = (case sl_invite c of None \<Rightarrow> empty_uri | Some r \<Rightarrow> req_recipient r)"

definition leg_From :: "sip_inbound \<Rightarrow> sip_uri" where
  "leg_From c = (case sl_from c of None \<Rightarrow> empty_uri | Some h \<Rightarrow> ah_address h)"

definition leg_To :: "sip_inbound \<Rightarrow> sip_uri" where
  "leg_To c = (case sl_to c of None \<Rightarrow> empty_uri | Some h \<Rightarrow> ah_address h)"

definition RemoteHeaders :: "sip_inbound \<Rightarrow> sip_header list" where
  "RemoteHeaders c = (case sl_invite c of None \<Rightarrow> [] | Some r \<Rightarrow> req_headers r)"

section \<open>Responding and dropping\<close>

definition stopRinging :: "sip_inbound \<Rightarrow> sip_inbound" where
  "stopRinging c =
     (case sl_ringing c of
        None \<Rightarrow> c
      | Some i \<Rightarrow> c\<lparr>sl_ringers := (sl_ringers c)[i := (sl_ringers c ! i)\<lparr>rg_stop := True\<rparr>],
                    sl_ringing := None\<rparr>)"

definition drop_leg :: "sip_inbound \<Rightarrow> sip_inbound" where
  "drop_leg c =
     (let c = stopRinging c;
          c = (if sl_invite_tx c then emit LegTerminate c else c)
      in c\<lparr>sl_invite_tx := False, sl_invite := None, sl_invite_ok := None, sl_next_cseq := 0\<rparr>)"

definition addExtraHeaders :: "leg_env \<Rightarrow> sip_inbound \<Rightarrow> hdr_op list" where
  "addExtraHeaders env c =
     (if cf_add_record_route (le_conf env)
      then let rr = sl_contact c;
               ps = (case uri_params rr of None \<Rightarrow> Map.empty | Some m \<Rightarrow> m)
           in [PrependRecordRoute (rr\<lparr>uri_params := Some (ps(''lr'' \<mapsto> ''''))\<rparr>)]
      else [])"

text \<open>A response is made from the INVITE, so answering without one would be a nil dereference.\<close>

definition respond :: "leg_env \<Rightarrow> int \<Rightarrow> string \<Rightarrow> sip_inbound \<Rightarrow> sip_inbound outcome" where
  "respond env status reason c =
     (if \<not> sl_invite_tx c then Returns c
      else case sl_invite c of
             None \<Rightarrow> Panics
           | Some invite \<Rightarrow>
               Returns (emit (LegRespond invite status reason ''''
                               (AppendHeader ''Allow'' allow_value # addExtraHeaders env c)) c))"

definition RespondAndDrop :: "leg_env \<Rightarrow> int \<Rightarrow> string \<Rightarrow> sip_inbound \<Rightarrow> sip_inbound outcome" where
  "RespondAndDrop env status reason c =
     bind_outcome (respond env status reason (stopRinging c)) (\<lambda>c. Returns (drop_leg c))"

definition Processing :: "leg_env \<Rightarrow> sip_inbound \<Rightarrow> sip_inbound outcome" where
  "Processing env c = respond env 100 ''Processing'' c"

definition sendRinging :: "leg_env \<Rightarrow> sip_inbound \<Rightarrow> sip_inbound outcome" where
  "sendRinging env c = respond env 180 ''Ringing'' c"

section \<open>Ringing\<close>

text \<open>
  The To header is the one of the INVITE itself, so setting its tag shows in both; a missing
  header or parameter map is written to all the same.
\<close>

definition set_tag :: "string \<Rightarrow> addr_header \<Rightarrow> addr_header option" where
  "set_tag t h = (case ah_params h of None \<Rightarrow> None
                  | Some m \<Rightarrow> Some (h\<lparr>ah_params := Some (m(''tag'' \<mapsto> t))\<rparr>))"

definition attachTag :: "sip_inbound \<Rightarrow> sip_inbound outcome" where
  "attachTag c =
     (case Option.bind (sl_to c) (set_tag (sl_id c)) of
        None \<Rightarrow> Panics
      | Some h \<Rightarrow> Returns (c\<lparr>sl_to := Some h,
                             sl_invite := map_option (\<lambda>r. r\<lparr>req_to := Some h\<rparr>) (sl_invite c)\<rparr>))"

definition StartRinging :: "leg_env \<Rightarrow> sip_inbound \<Rightarrow> sip_inbound outcome" where
  "StartRinging env c =
     bind_outcome (attachTag c) (\<lambda>c.
     bind_outcome (sendRinging env c) (\<lambda>c.
       if \<not> sl_invite_tx c then Panics
       else Returns (c\<lparr>sl_ringing := Some (length (sl_ringers c)),
                       sl_ringers := sl_ringers c @ [\<lparr>rg_stop = False, rg_pc = RWaiting\<rparr>]\<rparr>)))"

text \<open>
  The steps of the ringing goroutine. Its \<open>select\<close> may take a tick or a CANCEL even when the
  stop channel is closed; the mutex is taken only after, so those branches are two steps.
\<close>

datatype ring_event = RingStop | RingTick | RingSend | RingCancel | RingDrop

definition set_pc :: "nat \<Rightarrow> ringer_pc \<Rightarrow> sip_inbound \<Rightarrow> sip_inbound" where
  "set_pc i pc c = c\<lparr>sl_ringers := (sl_ringers c)[i := (sl_ringers c ! i)\<lparr>rg_pc := pc\<rparr>]\<rparr>"

fun ring_step :: "leg_env \<Rightarrow> nat \<Rightarrow> ring_event \<Rightarrow> ringer \<Rightarrow> sip_inbound \<Rightarrow> sip_inbound outcome" where
  "ring_step env i RingStop g c =
     (if rg_pc g = RWaiting \<and> rg_stop g then Returns (set_pc i RExited c) else Blocked)"
| "ring_step env i RingTick g c =
     (if rg_pc g = RWaiting then Returns (set_pc i RTicked c) else Blocked)"
| "ring_step env i RingSend g c =
     (if rg_pc g = RTicked then sendRinging env (set_pc i RWaiting c) else Blocked)"
| "ring_step env i RingCancel g c =
     (if rg_pc g = RWaiting
      then if sl_cancelled c then Panics
           else Returns (emit LegCancelOK ((set_pc i RCancelling c)\<lparr>sl_cancelled := True\<rparr>))
      else Blocked)"
| "ring_step env i RingDrop g c =
     (if rg_pc g = RCancelling then RespondAndDrop env 487 ''Request Terminated'' (set_pc i RExited c)
      else Blocked)"

section \<open>Accepting\<close>

definition inviteOkRetryInterval :: duration where "inviteOkRetryInterval = 250 * Millisecond"
definition inviteOkRetryIntervalMax :: duration where "inviteOkRetryIntervalMax = 3 * Second"
definition inviteOKRetryAttempts :: nat where "inviteOKRetryAttempts = 5"
definition inviteOKRetryAttemptsNoACK :: nat where "inviteOKRetryAttemptsNoACK = 2"
definition inviteOkAckLateTimeout :: duration where "inviteOkAckLateTimeout = inviteOkRetryIntervalMax"

lemmas retry_defs = inviteOkRetryInterval_def inviteOkRetryIntervalMax_def
  inviteOKRetryAttempts_def inviteOKRetryAttemptsNoACK_def inviteOkAckLateTimeout_def
  Millisecond_def Second_def

definition errNoACK :: go_error where
  "errNoACK = Sentinel ''errNoACK''"

text \<open>
  One try: the error of sending the response, and what ended the wait after it: an ACK on the
  transaction, an ACK routed to the call (\<open>AcceptAck\<close>, which breaks the fuse), or the timer.
\<close>

datatype ack_wait = AckOnTx | AckFuse | AckTimer

record accept_result =
  ar_sent :: nat
  ar_waits :: "duration list"
  ar_fuse :: bool
  ar_end :: "(go_error + go_error option) outcome"

fun accept_loop ::
  "bool \<Rightarrow> bool \<Rightarrow> nat \<Rightarrow> nat \<Rightarrow> duration \<Rightarrow> (go_error option \<times> ack_wait) list \<Rightarrow> accept_result" where
  "accept_loop udp wait_ack maxRetries try retryAfter [] =
     \<lparr>ar_sent = 0, ar_waits = [], ar_fuse = False, ar_end = Blocked\<rparr>"
| "accept_loop udp wait_ack maxRetries try retryAfter ((send_err, w) # tries) =
     (case send_err of
        Some e \<Rightarrow> \<lparr>ar_sent = 0, ar_waits = [], ar_fuse = False, ar_end = Returns (Inl e)\<rparr>
      | None \<Rightarrow>
          if \<not> udp \<and> \<not> wait_ack
          then \<lparr>ar_sent = 1, ar_waits = [], ar_fuse = False, ar_end = Returns (Inr None)\<rparr>
          else
            (case w of
               AckOnTx \<Rightarrow>
                 \<lparr>ar_sent = 1, ar_waits = [retryAfter], ar_fuse = False, ar_end = Returns (Inr None)\<rparr>
             | AckFuse \<Rightarrow>
                 \<lparr>ar_sent = 1, ar_waits = [retryAfter], ar_fuse = True, ar_end = Returns (Inr None)\<rparr>
             | AckTimer \<Rightarrow>
                 if maxRetries < try
                 then \<lparr>ar_sent = 1, ar_waits = [retryAfter], ar_fuse = False,
                       ar_end = Returns (Inr (if wait_ack then Some errNoACK else None))\<rparr>
                 else
                   (let r = accept_loop udp wait_ack maxRetries (Suc try)
                              (min (retryAfter * 2) inviteOkRetryIntervalMax) tries
                    in r\<lparr>ar_sent := Suc (ar_sent r), ar_waits := retryAfter # ar_waits r\<rparr>)))"

definition accept_tries :: "bool \<Rightarrow> transport \<Rightarrow> (go_error option \<times> ack_wait) list \<Rightarrow> accept_result" where
  "accept_tries wait_ack tr tries =
     (let maxRetries = (if wait_ack then inviteOKRetryAttempts else inviteOKRetryAttemptsNoACK);
          udp = (tr = TransportUDP)
      in accept_loop udp wait_ack (if udp then maxRetries else 1) 1
           (if udp then inviteOkRetryInterval else inviteOkRetryIntervalMax) tries)"

text \<open>
  \<open>Accept\<close> returns the new state and the error. Where the first part of the tries has gone out
  and a later one fails to be sent, the call is left as not accepted.
\<close>

definition Accept ::
  "leg_env \<Rightarrow> string \<Rightarrow> (string \<times> string) list \<Rightarrow> (go_error option \<times> ack_wait) list
    \<Rightarrow> sip_inbound \<Rightarrow> (sip_inbound \<times> go_error option) outcome" where
  "Accept env sdp headers tries c =
     (if \<not> sl_invite_tx c then Returns (c, Some (PlainErr ''call already rejected''))
      else case sl_invite c of
             None \<Rightarrow> Panics
           | Some invite \<Rightarrow>
               (let r = LegRespond invite 200 ''OK'' sdp
                          (AppendContact (sl_contact c) # addExtraHeaders env c @
                           [AppendHeader ''Content-Type'' ''application/sdp''] @
                           map (\<lambda>(k, v). AppendHeader k v) headers);
                    c = stopRinging c;
                    res = accept_tries (cf_inbound_wait_ack (le_conf env)) (sl_leg_tr c) tries;
                    c = c\<lparr>sl_out := sl_out c @ replicate (ar_sent res) r,
                          sl_acked := sl_acked c \<or> ar_fuse res\<rparr>
                in case ar_end res of
                     Returns (Inl e) \<Rightarrow> Returns (c, Some e)
                   | Returns (Inr err) \<Rightarrow>
                       Returns (c\<lparr>sl_invite_ok := Some (le_new_response env invite 200 ''OK'' sdp),
                                  sl_invite_tx := False\<rparr>, err)
                   | Panics \<Rightarrow> Panics
                   | Blocked \<Rightarrow> Blocked))"

definition AcceptAck :: "sip_inbound \<Rightarrow> sip_inbound" where
  "AcceptAck c = c\<lparr>sl_acked := True\<rparr>"

definition AcceptBye :: "sip_inbound \<Rightarrow> sip_inbound" where
  "AcceptBye c = drop_leg (emit LegByeOK c)"

section \<open>Requests within the dialog\<close>

definition generateViaHeader :: "leg_env \<Rightarrow> out_request \<Rightarrow> hdr_op" where
  "generateViaHeader env req =
     PrependVia (or_transport req) (addr_string (le_signaling_ip env)) (cf_sip_port (le_conf env))"

definition swapSrcDst :: "leg_env \<Rightarrow> out_request \<Rightarrow> sip_inbound \<Rightarrow> out_request outcome" where
  "swapSrcDst env req c =
     (case (sl_invite_ok c, sl_invite c) of
        (Some ok, Some invite) \<Rightarrow>
          (let dest = resp_destination ok;
               target = (case req_contact invite of
                           Some contact \<Rightarrow>
                             Some (ah_address contact, GetDest (ConvertURI (ah_address contact)))
                         | None \<Rightarrow> map_option (\<lambda>from. (ah_address from, dest)) (sl_from c))
           in case target of
                None \<Rightarrow> Panics
              | Some (recipient, dest) \<Rightarrow>
                  (let dest = (case req_record_route invite of
                                 Some route \<Rightarrow> GetDest (ConvertURI (ah_address route))
                               | None \<Rightarrow> dest)
                   in Returns (req\<lparr>
                        or_recipient := recipient,
                        or_source := resp_source ok,
                        or_destination := dest,
                        or_ops := or_ops req @
                          [RemoveHeader ''From'', AppendFrom (sl_to c),
                           RemoveHeader ''To'', AppendTo (sl_from c),
                           RemoveAll ''Via'', generateViaHeader env req,
                           RoutesFromRecordRoutes, RemoveAll ''Record-Route'']\<rparr>)))
      | _ \<Rightarrow> Panics)"

text \<open>The number is taken from the leg, which counts on.\<close>

definition leg_setCSeq :: "out_request \<Rightarrow> sip_inbound \<Rightarrow> sip_inbound \<times> out_request" where
  "leg_setCSeq req c =
     (c\<lparr>sl_next_cseq := sl_next_cseq c + 1\<rparr>, setCSeq req (sl_next_cseq c))"

text \<open>
  \<open>sendBye\<close> waits for the answer with the mutex held: \<open>Blocked\<close> where it never comes.
  \<open>tx\<close> is the error of opening the transaction and what its wait sees.
\<close>

definition sendBye :: "leg_env \<Rightarrow> go_error option \<times> resp_event list \<Rightarrow> sip_inbound \<Rightarrow> sip_inbound outcome" where
  "sendBye env tx c =
     (case (sl_invite_ok c, sl_invite c) of
        (Some ok, Some invite) \<Rightarrow>
          (let r = le_new_bye env invite ok;
               hs = (case le_set_headers env of None \<Rightarrow> [] | Some f \<Rightarrow> f []);
               r = r\<lparr>or_ops := or_ops r @ map (\<lambda>(k, v). AppendHeader k v) hs\<rparr>;
               (c, r) = leg_setCSeq r c
           in bind_outcome (swapSrcDst env r c) (\<lambda>r.
              bind_outcome (sendAndACK (fst tx) (snd tx)) (\<lambda>ack.
                let c = drop_leg c;
                    c = (if fst tx = None then emit (LegBye r) c else c)
                in Returns (if ack then emit (LegAck r) c else c))))
      | _ \<Rightarrow> Returns c)"

definition sendStatus :: "leg_env \<Rightarrow> int \<Rightarrow> string \<Rightarrow> sip_inbound \<Rightarrow> sip_inbound outcome" where
  "sendStatus env code status c =
     (if sl_invite_ok c \<noteq> None then Returns c
      else if \<not> sl_invite_tx c then Returns c
      else case sl_invite c of
             None \<Rightarrow> Panics
           | Some invite \<Rightarrow>
               (let status = (if status = '''' then sipStatus code else status);
                    hs = (case le_set_headers env of None \<Rightarrow> [] | Some f \<Rightarrow> f [])
                in Returns (drop_leg (emit (LegRespond invite code status ''''
                               (map (\<lambda>(k, v). AppendHeader k v) hs)) c))))"

definition CloseWithStatus ::
  "leg_env \<Rightarrow> int \<Rightarrow> string \<Rightarrow> go_error option \<times> resp_event list \<Rightarrow> sip_inbound \<Rightarrow> sip_inbound outcome" where
  "CloseWithStatus env code status tx c =
     (if sl_invite_ok c \<noteq> None then sendBye env tx c
      else if sl_invite_tx c then sendStatus env code status c
      else Returns (drop_leg c))"

definition leg_Close :: "leg_env \<Rightarrow> go_error option \<times> resp_event list \<Rightarrow> sip_inbound \<Rightarrow> sip_inbound outcome" where
  "leg_Close env tx c = CloseWithStatus env 486 ''Rejected'' tx c"

text \<open>
  \<open>newReferReq\<close>. \<open>headers\<close> are in the order the map is visited. The CSeq header set last is
  always there, so the check for it never fails.
\<close>

definition newReferReq ::
  "leg_env \<Rightarrow> string \<Rightarrow> (string \<times> string) list \<Rightarrow> sip_inbound
    \<Rightarrow> (sip_inbound \<times> (go_error + out_request)) outcome" where
  "newReferReq env transferTo headers c =
     (case (sl_invite c, sl_invite_ok c) of
        (Some invite, Some ok) \<Rightarrow>
          (case req_from invite of
             None \<Rightarrow> Returns (c, Inl (PsrpcErr InvalidArgument ''no From URI in invite'' None))
           | Some from \<Rightarrow>
               (let headers = (case le_set_headers env of None \<Rightarrow> headers | Some f \<Rightarrow> f headers)
                in bind_outcome (NewReferRequest invite ok (sl_contact c) transferTo headers) (\<lambda>req.
                   let (c, req) = leg_setCSeq req c
                   in bind_outcome (swapSrcDst env req c) (\<lambda>req.
                      case or_cseq req of
                        None \<Rightarrow> Returns (c, Inl (PsrpcErr Internal ''missing CSeq header in REFER request'' None))
                      | Some n \<Rightarrow> Returns (c\<lparr>sl_refer_cseq := n\<rparr>, Inr req)))))
      | _ \<Rightarrow> Returns (c, Inl (PsrpcErr FailedPrecondition ''can't transfer non established call'' None)))"

text \<open>
  \<open>TransferCall\<close>: the answer to the REFER, then the result a NOTIFY offers, unless the
  context ends first (no event: still waiting).
\<close>

datatype refer_wait = ReferCtxDone | ReferDone "go_error option"

definition start_refer ::
  "leg_env \<Rightarrow> string \<Rightarrow> (string \<times> string) list \<Rightarrow> go_error option \<Rightarrow> sip_inbound
    \<Rightarrow> (sip_inbound \<times> go_error option) outcome" where
  "start_refer env transferTo headers tx_err c =
     bind_outcome (newReferReq env transferTo headers c) (\<lambda>(c, req).
       case (req, tx_err) of
         (Inl e, _) \<Rightarrow> Returns (c, Some e)
       | (Inr req, Some e) \<Rightarrow> Returns (c, Some e)
       | (Inr req, None) \<Rightarrow> Returns (emit (LegRefer req) c, None))"

definition TransferCall ::
  "leg_env \<Rightarrow> string \<Rightarrow> (string \<times> string) list \<Rightarrow> go_error option \<times> resp_event list
    \<Rightarrow> refer_wait option \<Rightarrow> sip_inbound \<Rightarrow> (sip_inbound \<times> go_error option) outcome" where
  "TransferCall env transferTo headers tx wait c =
     bind_outcome (start_refer env transferTo headers (fst tx) c) (\<lambda>(c, err).
       case err of
         Some e \<Rightarrow> Returns (c, Some e)
       | None \<Rightarrow>
           bind_outcome (sendRefer None (snd tx)) (\<lambda>(resp, err).
              case err of
                Some e \<Rightarrow> Returns (c, Some e)
              | None \<Rightarrow>
                  (case wait of
                     None \<Rightarrow> Blocked
                   | Some ReferCtxDone \<Rightarrow> Returns (c, Some (PsrpcErr Canceled ''refer canceled'' None))
                   | Some (ReferDone result) \<Rightarrow> Returns (c, result))))"

text \<open>
  \<open>handleNotify\<close> of the leg: what the NOTIFY is answered with, and what is offered to a
  pending transfer.
\<close>

definition leg_handleNotify ::
  "sip_request \<Rightarrow> 32 word \<Rightarrow> go_error option \<times> go_error option option" where
  "leg_handleNotify req referCseq =
     (case handleNotify req of
        Inl e \<Rightarrow> (Some e, None)
      | Inr n \<Rightarrow>
          if ni_method n = ''REFER''
          then (None, handleReferNotify (ni_cseq n) (ni_status n) (ni_reason n) referCseq)
          else (None, None))"

section \<open>The leg as an event-driven component\<close>

datatype leg_event =
    EvProcessing
  | EvRespondAndDrop int string
  | EvDrop
  | EvStartRinging
  | EvRing nat ring_event
  | EvAccept string "(string \<times> string) list" "(go_error option \<times> ack_wait) list"
  | EvAck
  | EvBye
  | EvRefer string "(string \<times> string) list" "go_error option"
  | EvClose int string "go_error option \<times> resp_event list"

fun leg_step :: "leg_env \<times> leg_event \<Rightarrow> sip_inbound \<Rightarrow> sip_inbound outcome" where
  "leg_step (env, EvProcessing) c = Processing env c"
| "leg_step (env, EvRespondAndDrop status reason) c = RespondAndDrop env status reason c"
| "leg_step (env, EvDrop) c = Returns (drop_leg c)"
| "leg_step (env, EvStartRinging) c = StartRinging env c"
| "leg_step (env, EvRing i ev) c =
     (if i < length (sl_ringers c) then ring_step env i ev (sl_ringers c ! i) c else Blocked)"
| "leg_step (env, EvAccept sdp headers tries) c =
     bind_outcome (Accept env sdp headers tries c) (\<lambda>(c, err). Returns c)"
| "leg_step (env, EvAck) c = Returns (AcceptAck c)"
| "leg_step (env, EvBye) c = Returns (AcceptBye c)"
| "leg_step (env, EvRefer to headers tx_err) c =
     bind_outcome (start_refer env to headers tx_err c) (\<lambda>(c, err). Returns c)"
| "leg_step (env, EvClose code status tx) c = CloseWithStatus env code status tx c"

subsection \<open>What the trace may hold\<close>

fun is_resp :: "leg_out \<Rightarrow> bool" where
  "is_resp (LegRespond r st why b hs) = True"
| "is_resp _ = False"

fun is_final :: "leg_out \<Rightarrow> bool" where
  "is_final (LegRespond r st why b hs) = (200 \<le> st)"
| "is_final _ = False"

fun is_ok :: "leg_out \<Rightarrow> bool" where
  "is_ok (LegRespond r st why b hs) = (st = 200)"
| "is_ok _ = False"

fun is_bye :: "leg_out \<Rightarrow> bool" where
  "is_bye (LegBye r) = True"
| "is_bye _ = False"

fun dialog_cseq :: "leg_out \<Rightarrow> 32 word option list" where
  "dialog_cseq (LegBye r) = [or_cseq r]"
| "dialog_cseq (LegRefer r) = [or_cseq r]"
| "dialog_cseq _ = []"

definition cseqs :: "leg_out list \<Rightarrow> 32 word option list" where
  "cseqs out = concat (map dialog_cseq out)"

text \<open>What the remote and the INVITE transaction get to see of the leg's own doing.\<close>

definition said :: "sip_inbound \<Rightarrow> leg_out list" where
  "said c = filter (\<lambda>m. is_resp m \<or> dialog_cseq m \<noteq> []) (sl_out c)"

text \<open>Provisional responses, then one final response, perhaps repeated as it is.\<close>

definition one_final :: "leg_out list \<Rightarrow> bool" where
  "one_final out \<longleftrightarrow>
     (\<exists>ps n f. filter is_resp out = ps @ replicate n f \<and> (\<forall>p\<in>set ps. \<not> is_final p) \<and> is_final f)"

text \<open>Numbers of the requests: the first is at least \<open>c0\<close>, each is above the one before, all below \<open>c0 + k\<close>.\<close>

definition numbered :: "32 word \<Rightarrow> nat \<Rightarrow> leg_out list \<Rightarrow> bool" where
  "numbered c0 k out \<longleftrightarrow>
     (\<exists>ns. cseqs out = map (\<lambda>n. Some (c0 + of_nat n)) ns \<and> sorted_wrt (<) ns \<and> (\<forall>n\<in>set ns. n < k))"

definition leg_opened :: "32 word \<Rightarrow> sip_inbound \<Rightarrow> bool" where
  "leg_opened c0 c \<longleftrightarrow>
     sl_invite_tx c \<and> sl_invite c \<noteq> None \<and> sl_invite_ok c = None \<and> sl_next_cseq c = c0
     \<and> (\<forall>m\<in>set (sl_out c). \<not> is_final m) \<and> cseqs (sl_out c) = []"

definition leg_established :: "32 word \<Rightarrow> sip_inbound \<Rightarrow> bool" where
  "leg_established c0 c \<longleftrightarrow>
     \<not> sl_invite_tx c \<and> sl_invite c \<noteq> None \<and> sl_invite_ok c \<noteq> None
     \<and> one_final (sl_out c) \<and> (\<exists>m\<in>set (sl_out c). is_ok m)
     \<and> (\<exists>k. sl_next_cseq c = c0 + of_nat k \<and> numbered c0 k (sl_out c))
     \<and> count_if is_bye (sl_out c) = 0"

definition leg_closed :: "sip_inbound \<Rightarrow> bool" where
  "leg_closed c \<longleftrightarrow> \<not> sl_invite_tx c \<and> sl_invite c = None \<and> sl_invite_ok c = None"

definition trace_ok :: "32 word \<Rightarrow> leg_out list \<Rightarrow> bool" where
  "trace_ok c0 out \<longleftrightarrow>
     one_final out \<and> (\<exists>k. numbered c0 k out) \<and> count_if is_bye out \<le> 1
     \<and> (cseqs out \<noteq> [] \<longrightarrow> (\<exists>m\<in>set out. is_ok m))"

definition leg_inv :: "32 word \<Rightarrow> sip_inbound \<Rightarrow> bool" where
  "leg_inv c0 c \<longleftrightarrow>
     leg_opened c0 c \<or> leg_established c0 c \<or> (leg_closed c \<and> trace_ok c0 (sl_out c))"

text \<open>
  The events a call is made of: final statuses for a rejection, and no sending of the 200
  fails after an earlier one went out.
\<close>

fun leg_event_ok :: "leg_env \<times> leg_event \<Rightarrow> bool" where
  "leg_event_ok (env, EvRespondAndDrop status reason) = (200 < status)"
| "leg_event_ok (env, EvClose status reason tx) = (200 < status)"
| "leg_event_ok (env, EvAccept sdp hs tries) = (\<forall>t\<in>set (tl tries). fst t = None)"
| "leg_event_ok (env, _) = True"

section \<open>Facts: Accept\<close>

lemma accept_loop_sent:
  "ar_end (accept_loop udp w m i d tries) = Returns (Inr err) \<Longrightarrow> 0 < ar_sent (accept_loop udp w m i d tries)"
  by (induction udp w m i d tries rule: accept_loop.induct)
    (auto simp: Let_def split: option.splits ack_wait.splits if_splits)

lemma accept_loop_no_panic: "ar_end (accept_loop udp w m i d tries) \<noteq> Panics"
  by (induction udp w m i d tries rule: accept_loop.induct)
    (auto simp: Let_def split: option.splits ack_wait.splits if_splits)

lemma accept_loop_bound:
  "i \<le> Suc m \<Longrightarrow> ar_sent (accept_loop udp w m i d tries) \<le> Suc m - i + 1"
  by (induction udp w m i d tries rule: accept_loop.induct)
    (auto simp: Let_def split: option.splits ack_wait.splits if_splits)

lemma accept_loop_no_error:
  "\<forall>t\<in>set tries. fst t = None \<Longrightarrow> ar_end (accept_loop udp w m i d tries) \<noteq> Returns (Inl e)"
  by (induction udp w m i d tries rule: accept_loop.induct)
    (auto simp: Let_def split: option.splits ack_wait.splits if_splits)

lemma accept_loop_send_failed:
  assumes "\<forall>t\<in>set (tl tries). fst t = None"
    and "ar_end (accept_loop udp w m i d tries) = Returns (Inl e)"
  shows "ar_sent (accept_loop udp w m i d tries) = 0"
proof (cases tries)
  case (Cons t rest)
  obtain err wait where t: "t = (err, wait)" by (cases t)
  with assms Cons accept_loop_no_error [of rest]
  show ?thesis by (auto simp: Let_def split: option.splits ack_wait.splits if_splits)
qed simp

lemma accept_loop_timers:
  "\<not> udp \<and> \<not> w \<or>
   ar_end (accept_loop udp w m i d (replicate n (None, AckTimer))) = Blocked \<or>
   ar_end (accept_loop udp w m i d (replicate n (None, AckTimer))) = Returns (Inr (if w then Some errNoACK else None))"
proof (induction n arbitrary: i d)
  case (Suc n)
  from Suc [of "Suc i" "min (d * 2) inviteOkRetryIntervalMax"] show ?case by (auto simp: Let_def)
qed simp

section \<open>Facts: each operation keeps the invariant\<close>

lemma stopRinging_frame [simp]:
  "sl_invite (stopRinging c) = sl_invite c" "sl_invite_tx (stopRinging c) = sl_invite_tx c"
  "sl_invite_ok (stopRinging c) = sl_invite_ok c" "sl_out (stopRinging c) = sl_out c"
  "sl_next_cseq (stopRinging c) = sl_next_cseq c" "sl_from (stopRinging c) = sl_from c"
  "sl_to (stopRinging c) = sl_to c" "sl_id (stopRinging c) = sl_id c"
  "sl_tag (stopRinging c) = sl_tag c" "sl_cancelled (stopRinging c) = sl_cancelled c"
  "sl_acked (stopRinging c) = sl_acked c" "length (sl_ringers (stopRinging c)) = length (sl_ringers c)"
  by (simp_all add: stopRinging_def split: option.split)

lemma emit_simps [simp]:
  "sl_invite (emit m c) = sl_invite c" "sl_invite_tx (emit m c) = sl_invite_tx c"
  "sl_invite_ok (emit m c) = sl_invite_ok c" "sl_out (emit m c) = sl_out c @ [m]"
  "sl_next_cseq (emit m c) = sl_next_cseq c" "sl_from (emit m c) = sl_from c"
  "sl_to (emit m c) = sl_to c" "sl_id (emit m c) = sl_id c" "sl_cancelled (emit m c) = sl_cancelled c"
  "sl_ringers (emit m c) = sl_ringers c" "sl_tag (emit m c) = sl_tag c"
  by (simp_all add: emit_def)

lemma set_pc_frame [simp]:
  "sl_invite (set_pc i pc c) = sl_invite c" "sl_invite_tx (set_pc i pc c) = sl_invite_tx c"
  "sl_invite_ok (set_pc i pc c) = sl_invite_ok c" "sl_out (set_pc i pc c) = sl_out c"
  "sl_next_cseq (set_pc i pc c) = sl_next_cseq c" "sl_cancelled (set_pc i pc c) = sl_cancelled c"
  "length (sl_ringers (set_pc i pc c)) = length (sl_ringers c)"
  by (simp_all add: set_pc_def)

lemma drop_leg_simps [simp]:
  "sl_invite (drop_leg c) = None" "sl_invite_tx (drop_leg c) = False"
  "sl_invite_ok (drop_leg c) = None"
  "sl_out (drop_leg c) = sl_out c @ (if sl_invite_tx c then [LegTerminate] else [])"
  "sl_tag (drop_leg c) = sl_tag c" "sl_id (drop_leg c) = sl_id c"
  by (simp_all add: drop_leg_def Let_def)

lemma cseqs_append [simp]: "cseqs (xs @ ys) = cseqs xs @ cseqs ys"
  by (simp add: cseqs_def)

lemma cseqs_Nil [simp]: "cseqs [] = []"
  by (simp add: cseqs_def)

lemma cseqs_Cons [simp]: "cseqs (m # ms) = dialog_cseq m @ cseqs ms"
  by (simp add: cseqs_def)

lemma cseqs_no_bye: "cseqs out = [] \<Longrightarrow> count_if is_bye out = 0"
proof (induction out)
  case (Cons m out)
  then show ?case by (cases m) auto
qed simp

text \<open>An entry of the trace that is neither a response to the INVITE nor a request.\<close>

definition quiet :: "leg_out \<Rightarrow> bool" where
  "quiet m \<longleftrightarrow> \<not> is_resp m \<and> dialog_cseq m = []"

lemma quiet_simps [simp]: "quiet LegCancelOK" "quiet LegByeOK" "quiet LegTerminate" "quiet (LegAck r)"
  by (simp_all add: quiet_def)

lemma quiet_resp: "quiet m \<Longrightarrow> \<not> is_resp m \<and> \<not> is_final m \<and> \<not> is_ok m \<and> \<not> is_bye m \<and> dialog_cseq m = []"
  by (cases m) (simp_all add: quiet_def)

lemma numbered_Nil: "numbered c0 k out \<longleftrightarrow> True" if "cseqs out = []"
  using that by (simp add: numbered_def)

lemma numbered_quiet [simp]: "quiet m \<Longrightarrow> numbered c0 k (out @ [m]) \<longleftrightarrow> numbered c0 k out"
  by (simp add: numbered_def quiet_def)

lemma numbered_mono: "numbered c0 k out \<Longrightarrow> k \<le> j \<Longrightarrow> numbered c0 j out"
  by (fastforce simp: numbered_def)

lemma numbered_next:
  assumes "numbered c0 k out" and "dialog_cseq m = [Some (c0 + of_nat k)]"
  shows "numbered c0 (Suc k) (out @ [m])"
proof -
  from assms obtain ns where "cseqs out = map (\<lambda>n. Some (c0 + of_nat n)) ns"
    "sorted_wrt (<) ns" "\<forall>n\<in>set ns. n < k"
    by (auto simp: numbered_def)
  with assms(2) show ?thesis
    by (auto simp: numbered_def sorted_wrt_append less_Suc_eq intro!: exI [of _ "ns @ [k]"])
qed

lemma one_final_quiet [simp]: "\<not> is_resp m \<Longrightarrow> one_final (out @ [m]) \<longleftrightarrow> one_final out"
  by (simp add: one_final_def)

lemma one_final_prov:
  assumes "\<forall>m\<in>set out. \<not> is_final m"
  shows "one_final out"
proof -
  have "is_final (LegRespond undefined 200 [] [] [])" by simp
  with assms show ?thesis
    unfolding one_final_def
    by (intro exI [of _ "filter is_resp out"] exI [of _ 0] exI [of _ "LegRespond undefined 200 [] [] []"]) simp
qed

lemma one_final_repeat:
  assumes "\<forall>m\<in>set out. \<not> is_final m" and "is_final f"
  shows "one_final (out @ replicate n f)"
proof -
  have "is_resp f" using assms(2) by (cases f) auto
  with assms show ?thesis
    unfolding one_final_def
    by (intro exI [of _ "filter is_resp out"] exI [of _ n] exI [of _ f]) simp
qed

lemmas leg_phases = leg_inv_def leg_opened_def leg_established_def leg_closed_def trace_ok_def

lemma newInbound_inv: "leg_inv (case req_cseq r of None \<Rightarrow> 0 | Some n \<Rightarrow> n + 1) (newInbound lid uri r)"
  by (simp add: leg_inv_def leg_opened_def newInbound_def)

lemma established_closed: "leg_established c0 c \<Longrightarrow> trace_ok c0 (sl_out c)"
  by (auto simp: leg_established_def trace_ok_def)

lemma opened_trace: "leg_opened c0 c \<Longrightarrow> trace_ok c0 (sl_out c)"
  by (auto simp: leg_opened_def trace_ok_def one_final_prov numbered_Nil cseqs_no_bye)

lemma inv_trace: "leg_inv c0 c \<Longrightarrow> trace_ok c0 (sl_out c)"
  by (auto simp: leg_inv_def established_closed opened_trace)

lemma trace_ok_quiet: "quiet m \<Longrightarrow> trace_ok c0 (out @ [m]) \<longleftrightarrow> trace_ok c0 out"
  by (auto simp: trace_ok_def dest: quiet_resp)

lemma drop_inv: "leg_inv c0 c \<Longrightarrow> leg_inv c0 (drop_leg c)"
  using inv_trace [of c0 c] by (simp add: leg_inv_def leg_closed_def trace_ok_quiet)

lemma leg_inv_cong:
  assumes "sl_invite_tx d = sl_invite_tx c" "(sl_invite d = None) = (sl_invite c = None)"
    "(sl_invite_ok d = None) = (sl_invite_ok c = None)" "sl_next_cseq d = sl_next_cseq c"
    "sl_out d = sl_out c"
  shows "leg_inv c0 d = leg_inv c0 c"
  using assms by (simp add: leg_phases)

lemma leg_inv_quiet:
  assumes "sl_invite_tx d = sl_invite_tx c" "(sl_invite d = None) = (sl_invite c = None)"
    "(sl_invite_ok d = None) = (sl_invite_ok c = None)" "sl_next_cseq d = sl_next_cseq c"
    "sl_out d = sl_out c @ [m]" and q: "quiet m" and "leg_inv c0 c"
  shows "leg_inv c0 d"
proof -
  note m = quiet_resp [OF q]
  have "leg_opened c0 c \<Longrightarrow> leg_opened c0 d" using assms(1-5) m by (simp add: leg_opened_def)
  moreover have "leg_established c0 c \<Longrightarrow> leg_established c0 d"
    using assms(1-5) m q by (auto simp: leg_established_def)
  moreover have "leg_closed c \<and> trace_ok c0 (sl_out c) \<Longrightarrow> leg_closed d \<and> trace_ok c0 (sl_out d)"
    using assms(1-5) q by (simp add: leg_closed_def trace_ok_quiet)
  ultimately show ?thesis using assms(7) unfolding leg_inv_def by blast
qed

lemma stopRinging_inv: "leg_inv c0 c \<Longrightarrow> leg_inv c0 (stopRinging c)"
  by (subst leg_inv_cong [of _ c]) simp_all

lemma set_pc_inv: "leg_inv c0 c \<Longrightarrow> leg_inv c0 (set_pc i pc c)"
  by (subst leg_inv_cong [of _ c]) simp_all

lemma leg_inv_tx: "leg_inv c0 c \<Longrightarrow> sl_invite_tx c \<Longrightarrow> leg_opened c0 c"
  by (auto simp: leg_phases)

lemma respond_cases:
  assumes "leg_inv c0 c"
  shows "(\<not> sl_invite_tx c \<and> respond env st why c = Returns c) \<or>
         (\<exists>r. sl_invite_tx c \<and> sl_invite c = Some r \<and> respond env st why c =
            Returns (emit (LegRespond r st why '''' (AppendHeader ''Allow'' allow_value # addExtraHeaders env c)) c))"
  using assms by (auto simp: respond_def leg_phases)

lemma opened_prov: "leg_opened c0 c \<Longrightarrow> st < 200 \<Longrightarrow> leg_opened c0 (emit (LegRespond r st why b hs) c)"
  by (auto simp: leg_opened_def)

lemma respond_prov_inv:
  assumes "leg_inv c0 c" and "respond env st why c = Returns d" and "st < 200"
  shows "leg_inv c0 d"
  using respond_cases [OF assms(1), of env st why]
proof
  assume "\<not> sl_invite_tx c \<and> respond env st why c = Returns c"
  with assms show ?thesis by simp
next
  assume "\<exists>r. sl_invite_tx c \<and> sl_invite c = Some r \<and> respond env st why c =
    Returns (emit (LegRespond r st why '''' (AppendHeader ''Allow'' allow_value # addExtraHeaders env c)) c)"
  then obtain r hs where "sl_invite_tx c" "d = emit (LegRespond r st why '''' hs) c"
    using assms(2) by auto
  with leg_inv_tx [OF assms(1)] opened_prov [OF _ assms(3)] show ?thesis
    by (auto simp: leg_inv_def)
qed

lemma final_drop_inv:
  assumes "leg_opened c0 c" and "is_final m" and "\<not> is_ok m"
  shows "leg_inv c0 (drop_leg (emit m c))"
proof -
  have m: "is_resp m" "dialog_cseq m = []" using assms(2) by (cases m; simp)+
  from assms have "one_final (sl_out c @ replicate 1 m)"
    by (intro one_final_repeat) (simp_all add: leg_opened_def)
  with assms m have "trace_ok c0 (sl_out c @ [m])"
    by (auto simp: trace_ok_def leg_opened_def numbered_Nil cseqs_no_bye)
  then have "trace_ok c0 ((sl_out c @ [m]) @ [LegTerminate])"
    by (simp only: trace_ok_quiet quiet_simps)
  then show ?thesis using assms(1) by (simp add: leg_inv_def leg_closed_def leg_opened_def)
qed

lemma RespondAndDrop_inv:
  assumes "leg_inv c0 c" and "200 < st" and "RespondAndDrop env st why c = Returns d"
  shows "leg_inv c0 d"
proof -
  have inv: "leg_inv c0 (stopRinging c)" using assms(1) by (rule stopRinging_inv)
  from respond_cases [OF this, of env st why] show ?thesis
  proof
    assume "\<not> sl_invite_tx (stopRinging c) \<and> respond env st why (stopRinging c) = Returns (stopRinging c)"
    with assms(3) inv show ?thesis by (auto simp: RespondAndDrop_def drop_inv)
  next
    assume "\<exists>r. sl_invite_tx (stopRinging c) \<and> sl_invite (stopRinging c) = Some r \<and>
      respond env st why (stopRinging c) =
        Returns (emit (LegRespond r st why '''' (AppendHeader ''Allow'' allow_value # addExtraHeaders env (stopRinging c))) (stopRinging c))"
    then obtain r hs where tx: "sl_invite_tx (stopRinging c)"
      and r: "respond env st why (stopRinging c) = Returns (emit (LegRespond r st why '''' hs) (stopRinging c))"
      by blast
    from assms(3) r have d: "d = drop_leg (emit (LegRespond r st why '''' hs) (stopRinging c))"
      by (simp add: RespondAndDrop_def)
    show ?thesis unfolding d
      by (rule final_drop_inv [OF leg_inv_tx [OF inv tx]]) (use assms(2) in simp_all)
  qed
qed

lemma StartRinging_inv:
  assumes "leg_inv c0 c" and "StartRinging env c = Returns d"
  shows "leg_inv c0 d"
proof -
  from assms(2) obtain h c1 c2 where c1: "attachTag c = Returns c1"
    and c2: "sendRinging env c1 = Returns c2"
    and d: "d = c2\<lparr>sl_ringing := Some (length (sl_ringers c2)),
                   sl_ringers := sl_ringers c2 @ [\<lparr>rg_stop = False, rg_pc = RWaiting\<rparr>]\<rparr>"
    by (auto simp: StartRinging_def bind_outcome_Returns split: if_splits)
  have "leg_inv c0 c1" using assms(1) c1
    by (subst leg_inv_cong [of _ c]) (auto simp: attachTag_def split: option.splits)
  then have "leg_inv c0 c2"
    using c2 unfolding sendRinging_def by (rule respond_prov_inv) simp
  then show ?thesis unfolding d by (subst leg_inv_cong [of _ c2]) simp_all
qed

lemma ring_step_inv:
  assumes "leg_inv c0 c" and "ring_step env i ev g c = Returns d"
  shows "leg_inv c0 d"
proof (cases ev)
  case RingCancel
  with assms have d: "d = emit LegCancelOK ((set_pc i RCancelling c)\<lparr>sl_cancelled := True\<rparr>)"
    by (simp split: if_splits)
  show ?thesis
    by (rule leg_inv_quiet [where c = c and m = LegCancelOK]) (simp_all add: d assms(1))
next
  case RingSend
  with assms(2) have "respond env 180 ''Ringing'' (set_pc i RWaiting c) = Returns d"
    by (simp add: sendRinging_def split: if_splits)
  then show ?thesis by (rule respond_prov_inv [OF set_pc_inv [OF assms(1)]]) simp
next
  case RingDrop
  with assms(2) have "RespondAndDrop env 487 ''Request Terminated'' (set_pc i RExited c) = Returns d"
    by (simp split: if_splits)
  then show ?thesis by (rule RespondAndDrop_inv [OF set_pc_inv [OF assms(1)], rotated]) simp
qed (use assms in \<open>auto simp: set_pc_inv split: if_splits\<close>)

lemma Accept_inv:
  assumes "leg_inv c0 c" and "\<forall>t\<in>set (tl tries). fst t = None"
    and "Accept env sdp hs tries c = Returns (d, err)"
  shows "leg_inv c0 d"
proof (cases "sl_invite_tx c")
  case False
  with assms show ?thesis by (simp add: Accept_def)
next
  case True
  from leg_inv_tx [OF assms(1) True] have o: "leg_opened c0 c" .
  then obtain invite where invite: "sl_invite c = Some invite" by (auto simp: leg_opened_def)
  define res where "res = accept_tries (cf_inbound_wait_ack (le_conf env)) (sl_leg_tr (stopRinging c)) tries"
  define m where "m = LegRespond invite 200 ''OK'' sdp
    (AppendContact (sl_contact c) # addExtraHeaders env c @
      [AppendHeader ''Content-Type'' ''application/sdp''] @ map (\<lambda>(k, v). AppendHeader k v) hs)"
  have m: "is_final m" "is_ok m" "is_resp m" "dialog_cseq m = []" by (simp_all add: m_def)
  have out: "sl_out d = sl_out c @ replicate (ar_sent res) m"
    and invite': "sl_invite d = sl_invite c" "sl_next_cseq d = sl_next_cseq c"
    and fail: "(\<exists>e. ar_end res = Returns (Inl e)) \<and> sl_invite_tx d \<and> sl_invite_ok d = None
          \<or> (\<exists>e. ar_end res = Returns (Inr e)) \<and> \<not> sl_invite_tx d \<and> sl_invite_ok d \<noteq> None"
    using assms(3) True o invite
    by (auto simp: Accept_def Let_def res_def leg_opened_def m_def split: outcome.splits sum.splits)
  have cs: "cseqs (replicate n m) = []" for n
    using m(4) by (simp add: cseqs_def)
  from fail show ?thesis
  proof
    assume f: "(\<exists>e. ar_end res = Returns (Inl e)) \<and> sl_invite_tx d \<and> sl_invite_ok d = None"
    then have "ar_sent res = 0" using accept_loop_send_failed [OF assms(2)]
      by (auto simp: res_def accept_tries_def Let_def)
    with o f out invite' show ?thesis by (simp add: leg_inv_def leg_opened_def)
  next
    assume f: "(\<exists>e. ar_end res = Returns (Inr e)) \<and> \<not> sl_invite_tx d \<and> sl_invite_ok d \<noteq> None"
    then have pos: "0 < ar_sent res" using accept_loop_sent
      by (auto simp: res_def accept_tries_def Let_def)
    have "one_final (sl_out d)" unfolding out
      by (rule one_final_repeat) (use o m in \<open>simp_all add: leg_opened_def\<close>)
    moreover have "\<exists>m\<in>set (sl_out d). is_ok m" using out pos m by auto
    moreover have "cseqs (sl_out d) = []" using o out cs by (simp add: leg_opened_def)
    moreover from this have "numbered c0 0 (sl_out d)" by (simp add: numbered_Nil)
    ultimately show ?thesis using f o invite invite'
      by (auto simp: leg_inv_def leg_established_def leg_opened_def cseqs_no_bye intro!: exI [of _ 0])
  qed
qed

lemma AcceptBye_inv: "leg_inv c0 c \<Longrightarrow> leg_inv c0 (AcceptBye c)"
  unfolding AcceptBye_def
  by (rule drop_inv, rule leg_inv_quiet [where m = LegByeOK and c = c]) simp_all

lemma leg_setCSeq_simps [simp]:
  "sl_out (fst (leg_setCSeq r c)) = sl_out c" "sl_invite (fst (leg_setCSeq r c)) = sl_invite c"
  "sl_invite_ok (fst (leg_setCSeq r c)) = sl_invite_ok c"
  "sl_invite_tx (fst (leg_setCSeq r c)) = sl_invite_tx c"
  "sl_next_cseq (fst (leg_setCSeq r c)) = sl_next_cseq c + 1"
  "or_cseq (snd (leg_setCSeq r c)) = Some (sl_next_cseq c)"
  by (simp_all add: leg_setCSeq_def setCSeq_def)

lemma swapSrcDst_cseq: "swapSrcDst env r c = Returns r' \<Longrightarrow> or_cseq r' = or_cseq r"
  by (auto simp: swapSrcDst_def Let_def split: option.splits)

lemma leg_inv_ok: "leg_inv c0 c \<Longrightarrow> sl_invite_ok c \<noteq> None \<Longrightarrow> leg_established c0 c"
  by (auto simp: leg_phases)

text \<open>A request numbered by the leg, from a leg that is established.\<close>

lemma established_request:
  assumes "leg_established c0 c" and "dialog_cseq m = [Some (sl_next_cseq c)]"
  shows "one_final (sl_out c @ [m])" and "\<exists>m\<in>set (sl_out c @ [m]). is_ok m"
    and "\<exists>k. sl_next_cseq c + 1 = c0 + of_nat k \<and> numbered c0 k (sl_out c @ [m])"
proof -
  have "\<not> is_resp m" using assms(2) by (cases m) auto
  with assms(1) show "one_final (sl_out c @ [m])" by (simp add: leg_established_def)
  from assms(1) show "\<exists>m\<in>set (sl_out c @ [m]). is_ok m" by (auto simp: leg_established_def)
  from assms(1) obtain k where k: "sl_next_cseq c = c0 + of_nat k" "numbered c0 k (sl_out c)"
    by (auto simp: leg_established_def)
  from numbered_next [OF k(2), of m] assms(2) k(1)
  have "numbered c0 (Suc k) (sl_out c @ [m])" by simp
  with k(1) show "\<exists>k. sl_next_cseq c + 1 = c0 + of_nat k \<and> numbered c0 k (sl_out c @ [m])"
    by (intro exI [of _ "Suc k"]) simp
qed

lemma sendBye_inv:
  assumes "leg_inv c0 c" and "sendBye env tx c = Returns d"
  shows "leg_inv c0 d"
proof (cases "sl_invite_ok c")
  case None
  with assms show ?thesis by (simp add: sendBye_def)
next
  case (Some ok)
  with leg_inv_ok [OF assms(1)] have est: "leg_established c0 c" by simp
  then obtain invite where invite: "sl_invite c = Some invite"
    by (auto simp: leg_established_def)
  define r where "r = (le_new_bye env invite ok)\<lparr>or_ops := or_ops (le_new_bye env invite ok) @
    map (\<lambda>(k, v). AppendHeader k v) (case le_set_headers env of None \<Rightarrow> [] | Some f \<Rightarrow> f [])\<rparr>"
  define c1 where "c1 = drop_leg (fst (leg_setCSeq r c))"
  have c1: "leg_closed c1" "sl_out c1 = sl_out c"
    using est by (simp_all add: c1_def leg_closed_def leg_established_def)
  from assms(2) Some invite obtain r' ack where
    sw: "swapSrcDst env (snd (leg_setCSeq r c)) (fst (leg_setCSeq r c)) = Returns r'"
    and ack: "sendAndACK (fst tx) (snd tx) = Returns ack"
    and d: "d = (let c = (if fst tx = None then emit (LegBye r') c1 else c1)
                 in if ack then emit (LegAck r') c else c)"
    by (auto simp: sendBye_def Let_def r_def c1_def bind_outcome_Returns case_prod_beta)
  have cs: "dialog_cseq (LegBye r') = [Some (sl_next_cseq c)]"
    using swapSrcDst_cseq [OF sw] by simp
  have "trace_ok c0 (sl_out c @ [LegBye r'])"
    using established_request [OF est cs] est by (auto simp: trace_ok_def leg_established_def)
  with c1 established_closed [OF est]
  have "leg_inv c0 (if fst tx = None then emit (LegBye r') c1 else c1)" (is "leg_inv c0 ?c2")
    by (simp add: leg_inv_def leg_closed_def)
  moreover have "leg_inv c0 (emit (LegAck r') ?c2)"
    by (rule leg_inv_quiet [OF _ _ _ _ _ _ calculation, where m = "LegAck r'"]) simp_all
  ultimately show ?thesis unfolding d by (simp add: Let_def)
qed

lemma sendStatus_inv:
  assumes "leg_inv c0 c" and "200 < code" and "sendStatus env code status c = Returns d"
  shows "leg_inv c0 d"
proof (cases "sl_invite_ok c = None \<and> sl_invite_tx c")
  case False
  with assms show ?thesis by (auto simp: sendStatus_def split: if_splits)
next
  case True
  with leg_inv_tx [OF assms(1)] have o: "leg_opened c0 c" by simp
  with assms(3) True obtain r why hs where d: "d = drop_leg (emit (LegRespond r code why '''' hs) c)"
    by (auto simp: sendStatus_def leg_opened_def Let_def)
  show ?thesis unfolding d by (rule final_drop_inv [OF o]) (use assms(2) in simp_all)
qed

lemma CloseWithStatus_inv:
  assumes "leg_inv c0 c" and "200 < code" and "CloseWithStatus env code status tx c = Returns d"
  shows "leg_inv c0 d"
  using assms
  by (auto simp: CloseWithStatus_def drop_inv split: if_splits intro: sendBye_inv sendStatus_inv)

lemma newReferReq_cases:
  assumes "newReferReq env to hs c = Returns (d, r)"
  shows "(\<exists>e. r = Inl e) \<and> d = c \<or>
         (\<exists>r'. r = Inr r' \<and> or_cseq r' = Some (sl_next_cseq c) \<and> sl_invite_ok c \<noteq> None
            \<and> d = c\<lparr>sl_next_cseq := sl_next_cseq c + 1, sl_refer_cseq := sl_next_cseq c\<rparr>)"
proof (cases "sl_invite c \<noteq> None \<and> sl_invite_ok c \<noteq> None")
  case False
  with assms show ?thesis by (auto simp: newReferReq_def split: option.splits)
next
  case True
  then obtain invite ok where s: "sl_invite c = Some invite" "sl_invite_ok c = Some ok" by auto
  show ?thesis
  proof (cases "req_from invite")
    case None
    with s assms show ?thesis by (auto simp: newReferReq_def)
  next
    case (Some frm)
    with s assms obtain req req' where
      sw: "swapSrcDst env (snd (leg_setCSeq req c)) (fst (leg_setCSeq req c)) = Returns req'"
      and res: "(case or_cseq req' of
          None \<Rightarrow> Returns (fst (leg_setCSeq req c), Inl (PsrpcErr Internal ''missing CSeq header in REFER request'' None))
        | Some n \<Rightarrow> Returns ((fst (leg_setCSeq req c))\<lparr>sl_refer_cseq := n\<rparr>, Inr req')) = Returns (d, r)"
      by (auto simp: newReferReq_def bind_outcome_Returns case_prod_beta Let_def)
    with s swapSrcDst_cseq [OF sw] show ?thesis by (auto simp: leg_setCSeq_def setCSeq_def)
  qed
qed

lemma start_refer_inv:
  assumes "leg_inv c0 c" and "start_refer env to hs tx_err c = Returns (d, err)"
  shows "leg_inv c0 d"
proof -
  from assms(2) obtain c' r where r: "newReferReq env to hs c = Returns (c', r)"
    and res: "(case (r, tx_err) of
         (Inl e, _) \<Rightarrow> Returns (c', Some e)
       | (Inr req, Some e) \<Rightarrow> Returns (c', Some e)
       | (Inr req, None) \<Rightarrow> Returns (emit (LegRefer req) c', None)) = Returns (d, err)"
    by (auto simp: start_refer_def bind_outcome_Returns)
  have d: "d = (case r of Inl e \<Rightarrow> c' | Inr req \<Rightarrow> if tx_err = None then emit (LegRefer req) c' else c')"
    using res by (cases r; cases tx_err) auto
  from newReferReq_cases [OF r] show ?thesis
  proof
    assume "(\<exists>e. r = Inl e) \<and> c' = c"
    with d assms(1) show ?thesis by auto
  next
    assume "\<exists>r'. r = Inr r' \<and> or_cseq r' = Some (sl_next_cseq c) \<and> sl_invite_ok c \<noteq> None
      \<and> c' = c\<lparr>sl_next_cseq := sl_next_cseq c + 1, sl_refer_cseq := sl_next_cseq c\<rparr>"
    then obtain r' where r': "r = Inr r'" "dialog_cseq (LegRefer r') = [Some (sl_next_cseq c)]"
      and ok: "sl_invite_ok c \<noteq> None"
      and c': "c' = c\<lparr>sl_next_cseq := sl_next_cseq c + 1, sl_refer_cseq := sl_next_cseq c\<rparr>"
      by auto
    note est = leg_inv_ok [OF assms(1) ok]
    obtain k where k: "sl_next_cseq c = c0 + of_nat k" "numbered c0 k (sl_out c)"
      using est by (auto simp: leg_established_def)
    then have "sl_next_cseq c + 1 = c0 + of_nat (Suc k) \<and> numbered c0 (Suc k) (sl_out c)"
      by (auto intro: numbered_mono)
    then have "\<exists>k. sl_next_cseq c + 1 = c0 + of_nat k \<and> numbered c0 k (sl_out c)" by blast
    with est established_request [OF est r'(2)] show ?thesis
      unfolding d c' r' by (auto simp: leg_inv_def leg_established_def)
  qed
qed

lemma leg_step_inv:
  assumes "leg_inv c0 c" and "leg_event_ok e" and "leg_step e c = Returns d"
  shows "leg_inv c0 d"
proof -
  obtain env ev where e: "e = (env, ev)" by (cases e)
  show ?thesis
  proof (cases ev)
    case EvProcessing
    with assms(3) e have "respond env 100 ''Processing'' c = Returns d" by (simp add: Processing_def)
    then show ?thesis by (rule respond_prov_inv [OF assms(1)]) simp
  next
    case EvAck
    with assms e show ?thesis
      by (auto simp: AcceptAck_def intro: leg_inv_cong [THEN iffD2, OF _ _ _ _ _ assms(1)])
  next
    case (EvAccept sdp hs tries)
    with assms e show ?thesis by (auto simp: bind_outcome_Returns intro: Accept_inv)
  next
    case (EvRefer to hs tx_err)
    with assms e show ?thesis by (auto simp: bind_outcome_Returns intro: start_refer_inv)
  next
    case (EvRing i re)
    with assms e show ?thesis by (auto intro: ring_step_inv split: if_splits)
  qed (use assms e in \<open>auto intro: RespondAndDrop_inv drop_inv StartRinging_inv AcceptBye_inv
        CloseWithStatus_inv\<close>)
qed

interpretation inbound_leg: outcome_system leg_step "leg_inv c0" leg_event_ok for c0
  by unfold_locales (rule leg_step_inv)

section \<open>Facts: a closed leg is silent\<close>

lemma said_append_quiet: "quiet m \<Longrightarrow> said (emit m c) = said c"
  by (simp add: said_def quiet_def)

lemma said_cong: "sl_out d = sl_out c \<Longrightarrow> said d = said c"
  by (simp add: said_def)

lemma closed_simps:
  assumes "leg_closed c"
  shows "respond env st why c = Returns c"
    and "RespondAndDrop env st why c = Returns (drop_leg (stopRinging c))"
    and "sendBye env tx c = Returns c" and "sendStatus env st why c = Returns c"
    and "CloseWithStatus env st why tx c = Returns (drop_leg c)"
    and "Accept env sdp hs tries c = Returns (c, Some (PlainErr ''call already rejected''))"
    and "sl_invite_tx c = False"
  using assms
  by (simp_all add: leg_closed_def respond_def RespondAndDrop_def sendBye_def sendStatus_def
      CloseWithStatus_def Accept_def)

lemma closed_frame [simp]:
  "leg_closed (drop_leg c)" "leg_closed (stopRinging c) = leg_closed c"
  "leg_closed (set_pc i pc c) = leg_closed c" "leg_closed (emit m c) = leg_closed c"
  "leg_closed (c\<lparr>sl_cancelled := b\<rparr>) = leg_closed c" "leg_closed (c\<lparr>sl_acked := b\<rparr>) = leg_closed c"
  by (simp_all add: leg_closed_def)

lemma said_frame [simp]:
  "said (stopRinging c) = said c" "said (set_pc i pc c) = said c"
  "said (c\<lparr>sl_cancelled := b\<rparr>) = said c" "said (c\<lparr>sl_acked := b\<rparr>) = said c"
  by (simp_all add: said_def)

lemma closed_drop: "leg_closed c \<Longrightarrow> said (drop_leg c) = said c"
  by (simp add: said_def leg_closed_def)

lemma closed_ring:
  assumes "leg_closed c" and "ring_step env i ev g c = Returns d"
  shows "leg_closed d \<and> said d = said c"
  using assms
  by (cases ev) (auto simp: sendRinging_def closed_simps said_append_quiet closed_drop split: if_splits)

lemma closed_refer:
  assumes "leg_closed c" and "start_refer env to hs tx_err c = Returns (d, err)"
  shows "d = c"
  using assms by (auto simp: leg_closed_def start_refer_def newReferReq_def)

lemma leg_closed_step:
  assumes "leg_closed c" and "leg_step e c = Returns d"
  shows "leg_closed d \<and> said d = said c"
proof -
  obtain env ev where e: "e = (env, ev)" by (cases e)
  show ?thesis
  proof (cases ev)
    case EvStartRinging
    with assms e show ?thesis
      by (auto simp: StartRinging_def sendRinging_def attachTag_def leg_closed_def respond_def
          split: option.splits)
  next
    case (EvRefer to hs tx_err)
    with assms e obtain err where "start_refer env to hs tx_err c = Returns (d, err)"
      by (auto simp: bind_outcome_Returns)
    from closed_refer [OF assms(1) this] assms(1) show ?thesis by simp
  next
    case (EvRing i re)
    with assms e closed_ring [OF assms(1)] show ?thesis by (auto split: if_splits)
  next
    case EvBye
    with assms e show ?thesis by (auto simp: AcceptBye_def closed_drop said_append_quiet)
  qed (use assms e in \<open>auto simp: Processing_def AcceptAck_def closed_simps closed_drop\<close>)
qed

interpretation inbound_closing: closing_system leg_step leg_closed said
  by unfold_locales (auto dest: leg_closed_step)

text \<open>Dropping, a BYE from the remote, a rejection or a close that returns all end the leg.\<close>

lemma ends_closed:
  assumes "leg_inv c0 c"
  shows "leg_closed (drop_leg c)" and "leg_closed (AcceptBye c)"
    and "RespondAndDrop env st why c = Returns d \<Longrightarrow> leg_closed d"
    and "CloseWithStatus env st why tx c = Returns e \<Longrightarrow> leg_closed e"
proof -
  show "CloseWithStatus env st why tx c = Returns e \<Longrightarrow> leg_closed e"
    using assms
    by (auto simp: CloseWithStatus_def sendBye_def sendStatus_def leg_phases Let_def
        bind_outcome_Returns case_prod_beta split: if_splits option.splits)
qed (auto simp: AcceptBye_def RespondAndDrop_def bind_outcome_Returns)

section \<open>Properties\<close>

definition first_cseq :: "sip_request \<Rightarrow> 32 word" where
  "first_cseq invite = (case req_cseq invite of None \<Rightarrow> 0 | Some n \<Rightarrow> n + 1)"

text \<open>
  C27. Whatever happens to the leg of an INVITE (ringing, CANCEL, rejection, acceptance with
  retries, BYE, transfers, closing, in any order), as long as sending a 200 again does not fail and no
  rejection has a status up to 200 (\<open>leg_event_ok\<close>): it answers the INVITE with provisional responses
  and then with one final response, perhaps repeated unchanged; it sends requests of its own only after
  a 200, at most one BYE, and numbers them in increasing order above the number of the INVITE.
  Without the first condition this is not so: where a 200 cannot be sent again, a 486 may follow it
  (\<open>accept_send_error_then_reject\<close>).
\<close>

theorem inbound_leg_conduct:
  assumes "runs leg_step (newInbound lid uri invite) es c"
    and "\<forall>e\<in>set es. leg_event_ok e"
  shows "one_final (sl_out c)
     \<and> (\<exists>k. numbered (first_cseq invite) k (sl_out c))
     \<and> count_if is_bye (sl_out c) \<le> 1
     \<and> (cseqs (sl_out c) \<noteq> [] \<longrightarrow> (\<exists>m\<in>set (sl_out c). is_ok m))"
proof -
  have "leg_inv (first_cseq invite) (newInbound lid uri invite)"
    unfolding first_cseq_def by (rule newInbound_inv)
  with assms have "leg_inv (first_cseq invite) c" by (intro inbound_leg.runs_inv [OF assms(1)]) auto
  from inv_trace [OF this] show ?thesis by (simp add: trace_ok_def)
qed

definition example_leg_env :: leg_env where
  "example_leg_env =
     \<lparr>le_new_response = (\<lambda>r st why b.
        \<lparr>resp_status = st, resp_reason = why, resp_source = '''', resp_destination = '''',
         resp_to = req_to r, resp_contact = None, resp_record_routes = [], resp_headers = [], resp_body = b\<rparr>),
      le_new_bye = (\<lambda>r resp. \<lparr>or_method = ''BYE'', or_recipient = req_recipient r, or_ops = [], or_cseq = None,
         or_source = '''', or_destination = '''', or_transport = ''UDP''\<rparr>),
      le_conf = zero_config, le_signaling_ip = Some ''10.0.0.1'', le_set_headers = None\<rparr>"

definition example_invite :: sip_request where
  "example_invite =
     (bare_request ''INVITE'')\<lparr>
        req_from := Some \<lparr>ah_address = empty_uri, ah_params = Some (Map.empty(''tag'' \<mapsto> ''t1''))\<rparr>,
        req_to := Some \<lparr>ah_address = empty_uri, ah_params = Some Map.empty\<rparr>,
        req_via := Some \<lparr>via_transport = ''UDP'', via_host = ''10.0.0.2'', via_port = 5060\<rparr>,
        req_call_id := Some ''c1'', req_cseq := Some 7\<rparr>"

lemmas example_leg_defs = example_leg_env_def example_invite_def bare_request_def empty_uri_def zero_config_def

theorem inbound_leg_conduct_witness:
  "\<exists>c. runs leg_step (newInbound ''SCL_1'' (getContactURI zero_config None TransportUDP) example_invite)
          [(example_leg_env, EvProcessing), (example_leg_env, EvRespondAndDrop 404 ''no trunk'')] c
     \<and> sl_out c \<noteq> [] \<and> one_final (sl_out c)"
proof -
  let ?c0 = "newInbound ''SCL_1'' (getContactURI zero_config None TransportUDP) example_invite"
  obtain c1 where c1: "leg_step (example_leg_env, EvProcessing) ?c0 = Returns c1"
    "sl_invite_tx c1" "sl_invite c1 = Some example_invite"
    by (simp add: Processing_def respond_def newInbound_def)
  obtain c2 where c2: "leg_step (example_leg_env, EvRespondAndDrop 404 ''no trunk'') c1 = Returns c2"
    "sl_out c2 \<noteq> []"
    using c1(2,3) by (simp add: RespondAndDrop_def respond_def)
  have run: "runs leg_step ?c0 [(example_leg_env, EvProcessing), (example_leg_env, EvRespondAndDrop 404 ''no trunk'')] c2"
    by (rule runs_Cons [where step = leg_step, OF c1(1)], rule runs_one) (rule c2(1))
  from inbound_leg_conduct [OF run] run c2(2) show ?thesis by auto
qed

text \<open>
  C28. Once the leg is dropped, by a BYE of the remote, a rejection or its own close, it
  answers the INVITE no more and sends no more requests, whatever is still done to it.
\<close>

theorem inbound_leg_closed_silent:
  assumes "leg_inv c0 c"
    and "d = drop_leg c \<or> d = AcceptBye c \<or> RespondAndDrop env st why c = Returns d
           \<or> CloseWithStatus env st why tx c = Returns d"
    and "runs leg_step d es e"
  shows "leg_closed e \<and> said e = said d"
proof -
  have "leg_closed d" using assms(2) ends_closed [OF assms(1)] by blast
  with assms(3) show ?thesis using inbound_closing.runs_closed inbound_closing.runs_silent by blast
qed

theorem inbound_leg_closed_silent_witness:
  "\<exists>d e. RespondAndDrop example_leg_env 404 ''no trunk''
           (newInbound ''SCL_1'' (getContactURI zero_config None TransportUDP) example_invite) = Returns d
     \<and> runs leg_step d [(example_leg_env, EvClose 486 ''Rejected'' (None, []))] e
     \<and> leg_closed e \<and> said e = said d"
proof -
  let ?c = "newInbound ''SCL_1'' (getContactURI zero_config None TransportUDP) example_invite"
  have inv: "leg_inv (first_cseq example_invite) ?c"
    unfolding first_cseq_def by (rule newInbound_inv)
  obtain d where d: "RespondAndDrop example_leg_env 404 ''no trunk'' ?c = Returns d"
    "\<not> sl_invite_tx d" "sl_invite_ok d = None"
    by (simp add: RespondAndDrop_def respond_def newInbound_def)
  then have "leg_step (example_leg_env, EvClose 486 ''Rejected'' (None, [])) d = Returns (drop_leg d)"
    by (simp add: CloseWithStatus_def)
  then have run: "runs leg_step d [(example_leg_env, EvClose 486 ''Rejected'' (None, []))] (drop_leg d)"
    by (rule runs_one)
  from inbound_leg_closed_silent [OF inv _ run] d(1) run show ?thesis by blast
qed

text \<open>
  C31. When no ACK comes and sending works, the 200 goes out six times over 9.75 s on UDP if an
  ACK is waited for, and then the missing ACK is an error; three times over 1.75 s on UDP
  otherwise, without an error; on other transports twice over 6 s, with an error, if an ACK is
  waited for, and once without waiting otherwise. In no case is it sent more than six times.
\<close>

theorem accept_retries:
  "(6 \<le> n \<longrightarrow>
     (let r = accept_tries wait_ack tr (replicate n (None, AckTimer)) in
        ar_end r = Returns (Inr (if wait_ack then Some errNoACK else None)) \<and>
        (ar_sent r, sum_list (ar_waits r)) =
          (if tr = TransportUDP then (if wait_ack then (6, 9750 * Millisecond) else (3, 1750 * Millisecond))
           else (if wait_ack then (2, 6 * Second) else (1, 0)))))
   \<and> ar_sent (accept_tries wait_ack tr tries) \<le> 6"
proof -
  have bound: "ar_sent (accept_tries wait_ack tr tries) \<le> 6"
    using accept_loop_bound [of 1 5 True True inviteOkRetryInterval tries]
      accept_loop_bound [of 1 2 True False inviteOkRetryInterval tries]
      accept_loop_bound [of 1 1 False wait_ack inviteOkRetryIntervalMax tries]
    by (cases wait_ack) (auto simp: accept_tries_def Let_def inviteOKRetryAttempts_def inviteOKRetryAttemptsNoACK_def)
  moreover have "let r = accept_tries wait_ack tr (replicate n (None, AckTimer)) in
        ar_end r = Returns (Inr (if wait_ack then Some errNoACK else None)) \<and>
        (ar_sent r, sum_list (ar_waits r)) =
          (if tr = TransportUDP then (if wait_ack then (6, 9750 * Millisecond) else (3, 1750 * Millisecond))
           else (if wait_ack then (2, 6 * Second) else (1, 0)))" if "6 \<le> n"
  proof -
    define m where "m = n - 6"
    with that have "n = Suc (Suc (Suc (Suc (Suc (Suc m)))))" by simp
    then show ?thesis by (simp add: accept_tries_def Let_def retry_defs)
  qed
  ultimately show ?thesis by blast
qed

theorem accept_retries_witness:
  "ar_sent (accept_tries True TransportUDP (replicate 6 (None, AckTimer))) = 6"
  using accept_retries [of 6 True TransportUDP "[]"] by (simp add: Let_def)

text \<open>
  C32. A transfer is reported as successful only if the call was established, the REFER was
  sent and answered with 200 or 202 and its result is a success; and a NOTIFY gives that
  result just if it is about a REFER, its body says 200, and it is for the last REFER (or names none).
\<close>

theorem transfer_success_only_if_notified:
  "(TransferCall env to headers tx wait c = Returns (d, None) \<longrightarrow>
      sl_invite_ok c \<noteq> None \<and> wait = Some (ReferDone None) \<and>
      (\<exists>req r. sl_out d = sl_out c @ [LegRefer req] \<and> or_cseq req = Some (sl_refer_cseq d)
          \<and> rw_result (sipResponse [] (filter (\<lambda>e. e \<noteq> CtxDone) (snd tx))) = Returns (Inr r)
          \<and> (resp_status r = 200 \<or> resp_status r = 202)))
   \<and> (snd (leg_handleNotify notify referCseq) = Some None \<longleftrightarrow>
        (\<exists>n. handleNotify notify = Inr n \<and> ni_method n = ''REFER'' \<and> ni_status n = 200
           \<and> (ni_cseq n = 0 \<or> ni_cseq n = referCseq)))"
proof -
  have "sl_invite_ok c \<noteq> None \<and> wait = Some (ReferDone None) \<and>
      (\<exists>req r. sl_out d = sl_out c @ [LegRefer req] \<and> or_cseq req = Some (sl_refer_cseq d)
          \<and> rw_result (sipResponse [] (filter (\<lambda>e. e \<noteq> CtxDone) (snd tx))) = Returns (Inr r)
          \<and> (resp_status r = 200 \<or> resp_status r = 202))"
    if res: "TransferCall env to headers tx wait c = Returns (d, None)"
  proof -
    from res obtain c' resp where c': "start_refer env to headers (fst tx) c = Returns (c', None)"
      and refer: "sendRefer None (snd tx) = Returns (resp, None)"
      and wait: "wait = Some (ReferDone None)" and d: "d = c'"
      by (auto simp: TransferCall_def bind_outcome_Returns split: option.splits refer_wait.splits)
    from refer obtain r where r: "rw_result (sipResponse [] (filter (\<lambda>e. e \<noteq> CtxDone) (snd tx))) = Returns (Inr r)"
      "resp_status r = 200 \<or> resp_status r = 202"
      by (auto simp: sendRefer_def split: outcome.splits sum.splits if_splits)
    from c' obtain c1 x where x: "newReferReq env to headers c = Returns (c1, x)"
      and cs: "(case (x, fst tx) of
         (Inl e, _) \<Rightarrow> Returns (c1, Some e)
       | (Inr req, Some e) \<Rightarrow> Returns (c1, Some e)
       | (Inr req, None) \<Rightarrow> Returns (emit (LegRefer req) c1, None)) = Returns (c', None)"
      by (auto simp: start_refer_def bind_outcome_Returns)
    from cs obtain req where req: "x = Inr req" "c' = emit (LegRefer req) c1"
      by (cases x; cases "fst tx") auto
    from newReferReq_cases [OF x] req(1) have "sl_invite_ok c \<noteq> None" "or_cseq req = Some (sl_next_cseq c)"
      "c1 = c\<lparr>sl_next_cseq := sl_next_cseq c + 1, sl_refer_cseq := sl_next_cseq c\<rparr>"
      by auto
    with wait r req(2) d show ?thesis by (auto simp: emit_def)
  qed
  moreover have "snd (leg_handleNotify notify referCseq) = Some None \<longleftrightarrow>
      (\<exists>n. handleNotify notify = Inr n \<and> ni_method n = ''REFER'' \<and> ni_status n = 200 \<and> (ni_cseq n = 0 \<or> ni_cseq n = referCseq))"
    by (auto simp: leg_handleNotify_def handleReferNotify_cases split: sum.splits)
  ultimately show ?thesis by blast
qed

text \<open>
  A call that was answered; a REFER in it, accepted with 202; the NOTIFY that the transfer was
  done, or was declined.
\<close>

definition example_answered_leg :: sip_inbound where
  "example_answered_leg =
     (newInbound ''SCL_1'' (getContactURI zero_config None TransportUDP) example_invite)
        \<lparr>sl_invite_ok := Some (le_new_response example_leg_env example_invite 200 ''OK'' '''')\<rparr>"

definition example_notify :: "string \<Rightarrow> sip_request" where
  "example_notify body =
     (bare_request ''NOTIFY'')\<lparr>req_headers := [\<lparr>hdr_name = ''Event'', hdr_value = ''refer;id=8''\<rparr>], req_body := body\<rparr>"

lemma example_notify_info:
  "handleNotify (example_notify ''SIP/2.0 200 OK'') =
     Inr \<lparr>ni_method = ''REFER'', ni_cseq = 8, ni_status = 200, ni_reason = ''OK''\<rparr>"
  "handleNotify (example_notify ''SIP/2.0 603 Declined'') =
     Inr \<lparr>ni_method = ''REFER'', ni_cseq = 8, ni_status = 603, ni_reason = ''Declined''\<rparr>"
proof -
  have "split_n 3 (CHR '' '') ''SIP/2.0 200 OK'' = [''SIP/2.0'', ''200'', ''OK'']"
    "split_n 3 (CHR '' '') ''SIP/2.0 603 Declined'' = [''SIP/2.0'', ''603'', ''Declined'']"
    "to_upper ''SIP/2.0'' = ''SIP/2.0''" "refer_id_match (to_lower ''refer;id=8'') = Some ''8''" "show_nat 8 = ''8''"
    by code_simp+
  moreover from this(5) have "parse_uint 32 ''8'' = (8, None)" using parse_uint_show [of 8 32] by simp
  moreover have "itoa 200 = ''200''" "itoa 603 = ''603''" by code_simp+
  then have "atoi ''200'' = (200, None)" "atoi ''603'' = (603, None)" using atoi_itoa [of 200] atoi_itoa [of 603] by simp_all
  ultimately show "handleNotify (example_notify ''SIP/2.0 200 OK'') =
     Inr \<lparr>ni_method = ''REFER'', ni_cseq = 8, ni_status = 200, ni_reason = ''OK''\<rparr>"
    "handleNotify (example_notify ''SIP/2.0 603 Declined'') =
     Inr \<lparr>ni_method = ''REFER'', ni_cseq = 8, ni_status = 603, ni_reason = ''Declined''\<rparr>"
    by (simp_all add: handleNotify_def GetHeader_def parseNotifyBody_def example_notify_def bare_request_def)
qed

lemma example_transfer_call:
  assumes "resp_status r = 202"
  shows "\<exists>d. TransferCall example_leg_env ''tel:1'' [] (None, [GotResponse r]) (Some (ReferDone None)) example_answered_leg
     = Returns (d, None) \<and> sl_refer_cseq d = 8 \<and> sl_out example_answered_leg = []"
  using assms
  by (simp add: TransferCall_def start_refer_def newReferReq_def NewReferRequest_def leg_setCSeq_def setCSeq_def swapSrcDst_def
      sendRefer_def is_provisional_def emit_def example_answered_leg_def newInbound_def example_leg_defs)

theorem transfer_success_only_if_notified_witness:
  "\<exists>d r req. TransferCall example_leg_env ''tel:1'' [] (None, [GotResponse r]) (Some (ReferDone None)) example_answered_leg
       = Returns (d, None)
     \<and> sl_out d = [LegRefer req] \<and> or_cseq req = Some 8
     \<and> snd (leg_handleNotify (example_notify ''SIP/2.0 200 OK'') (sl_refer_cseq d)) = Some None
     \<and> snd (leg_handleNotify (example_notify ''SIP/2.0 603 Declined'') (sl_refer_cseq d)) \<noteq> Some None"
proof -
  define r where "r = le_new_response example_leg_env example_invite 202 ''Accepted'' ''''"
  have "resp_status r = 202" by (simp add: r_def example_leg_env_def)
  from example_transfer_call [OF this] obtain d where
    d: "TransferCall example_leg_env ''tel:1'' [] (None, [GotResponse r]) (Some (ReferDone None)) example_answered_leg = Returns (d, None)"
    "sl_refer_cseq d = 8" "sl_out example_answered_leg = []" by blast
  note success = transfer_success_only_if_notified
    [of example_leg_env "''tel:1''" "[]" "(None, [GotResponse r])" "Some (ReferDone None)" example_answered_leg d _ "sl_refer_cseq d"]
  from success d obtain req where "sl_out d = [LegRefer req] \<and> or_cseq req = Some 8" by auto
  moreover from success [of "example_notify ''SIP/2.0 200 OK''"] d(2)
  have "snd (leg_handleNotify (example_notify ''SIP/2.0 200 OK'') (sl_refer_cseq d)) = Some None"
    by (simp add: example_notify_info)
  moreover from success [of "example_notify ''SIP/2.0 603 Declined''"]
  have "snd (leg_handleNotify (example_notify ''SIP/2.0 603 Declined'') (sl_refer_cseq d)) \<noteq> Some None"
    by (simp add: example_notify_info)
  ultimately show ?thesis using d(1) by blast
qed

text \<open>
  The exception that \<open>leg_event_ok\<close> leaves out: when the second sending of the 200 fails, the
  call counts as not accepted, and closing it then rejects the INVITE that was answered 200.
\<close>

lemma accept_send_error_then_reject:
  assumes "leg_opened c0 c" and "sl_leg_tr c = TransportUDP"
  shows "\<exists>d e invite hs hs'. Accept env sdp h [(None, AckTimer), (Some err, w)] c = Returns (d, Some err)
           \<and> CloseWithStatus env 486 ''Rejected'' tx d = Returns e
           \<and> sl_out e = sl_out c @ [LegRespond invite 200 ''OK'' sdp hs,
                LegRespond invite 486 ''Rejected'' '''' hs', LegTerminate]"
proof -
  from assms(1) obtain invite where s: "sl_invite c = Some invite" "sl_invite_tx c" "sl_invite_ok c = None"
    by (auto simp: leg_opened_def)
  have tr: "sl_leg_tr (stopRinging c) = TransportUDP"
    using assms(2) by (simp add: stopRinging_def split: option.split)
  show ?thesis
    using s by (simp add: Accept_def tr accept_tries_def Let_def retry_defs CloseWithStatus_def sendStatus_def)
qed

end
