(* ===== verification/Inbound_Call.thy ===== *)
theory Inbound_Call
  imports Inbound_Leg Call_Parts
begin

text \<open>
  An inbound call (\<open>inboundCall\<close>, \<open>handleInvite\<close> and the handlers of in-dialog requests in
  \<open>pkg/sip/inbound.go\<close>). The goroutine that handles the INVITE is a program counter moved from
  one waiting point to the next; what the remote, the room, the media and the ringing
  goroutine do in between are events of their own, so every interleaving of them is a run.
\<close>

section \<open>State\<close>

datatype call_act =
    Dispatched CallInfo
  | DispatchResult CallDispatch
  | SetCallStatus string
  | PlayPrompt string
  | RegisterTransfer string
  | DeregisterTransfer string
  | HangupAfterTransfer
  | SessionEnd string

text \<open>
  Where the handler of the INVITE is: at which waiting point, or between two operations that
  others may interleave with. What is still needed later is carried along: the dispatch result,
  the SDP answer, whether a pin was asked for, the digits so far. In \<open>PLoop\<close>: a missing ACK was
  noticed, the ACK is watched for, its timer runs. \<open>PClosing\<close> is a return with an error or
  none, its deferred calls still to run; \<open>PExit\<close> is over.
\<close>

datatype call_pc =
    PStart
  | PDispatch
  | PMedia CallDispatch bool
  | PAccept CallDispatch string bool
  | PWaitMedia bool
  | PPin string
  | PPinCheck string
  | PJoin CallDispatch string bool
  | PPublish CallDispatch string bool
  | PWaitSub CallDispatch string
  | PActivate
  | PLoop bool bool bool
  | PClosing "go_error option"
  | PExit "go_error option"

text \<open>
  The \<open>inboundCall\<close> with the parts of the server it uses: its own metrics, state, leg, media
  port and room; why its context is over, if it is (\<open>ic_ctx_err\<close>), and the time limit of the
  context; the digits buffered for the pin prompt; the calls registered at the server, by
  remote tag and by local identifier; and a log of what it does to the backend and the room.
  \<open>ic_req\<close> and \<open>ic_trunk_id\<close> are arguments of \<open>handleInvite\<close>, \<open>ic_watch_ack\<close> says whether
  its two ACK channels are set, \<open>ic_pending\<close> holds the transfers in progress, each with
  whether the audio to the remote was muted and an output taken off.
\<close>

record icall =
  ic_leg :: sip_inbound
  ic_cmon :: call_monitor
  ic_monitor :: monitor
  ic_state :: CallState
  ic_ctx_err :: "go_error option"
  ic_time_limit :: "duration option"
  ic_close_reason :: "ReasonHeader option"
  ic_call :: sip_call
  ic_trunk_id :: string
  ic_req :: sip_request
  ic_media :: "media_port option"
  ic_timeout :: media_timeout
  ic_room :: room
  ic_dtmf :: string
  ic_forward_dtmf :: bool
  ic_done :: bool
  ic_started :: bool
  ic_extra_attrs :: "string \<rightharpoonup> string"
  ic_attrs_to_hdr :: "(string \<times> string) list"
  ic_jitter :: bool
  ic_project_id :: string
  ic_watch_ack :: bool
  ic_pending :: "(string \<times> bool option) list"
  ic_active :: "string \<rightharpoonup> string"
  ic_by_local :: "string \<rightharpoonup> string"
  ic_log :: "call_act list"
  ic_pc :: call_pc

text \<open>
  The surroundings of a step: those of the leg (less the header callback, which the call
  gives), what a BYE of ours meets, what swapping writers returned, the time, the outcome of
  the state RPC, the room's identifier and name and the attributes of our participant in it,
  the order a map of headers is visited in, and the names of attributes.
\<close>

record call_env =
  ce_leg :: leg_env
  ce_tx :: "go_error option \<times> resp_event list"
  ce_old :: "bool \<times> bool"
  ce_room_old :: bool
  ce_now :: int
  ce_flush_ok :: bool
  ce_room_sid :: string
  ce_room_name :: string
  ce_room_attrs :: "string \<rightharpoonup> string"
  ce_visit :: "(string \<rightharpoonup> string) option \<Rightarrow> (string \<times> string) list"
  ce_pre :: string
  ce_hpre :: string
  ce_keys :: "string list"
  ce_status_attr :: string

abbreviation ce_conf :: "call_env \<Rightarrow> config" where
  "ce_conf env \<equiv> le_conf (ce_leg env)"

definition log :: "call_act \<Rightarrow> icall \<Rightarrow> icall" where
  "log a s = s\<lparr>ic_log := ic_log s @ [a]\<rparr>"

definition on_mon :: "(call_monitor \<times> monitor \<Rightarrow> call_monitor \<times> monitor) \<Rightarrow> icall \<Rightarrow> icall" where
  "on_mon f s = (case f (ic_cmon s, ic_monitor s) of (c, m) \<Rightarrow> s\<lparr>ic_cmon := c, ic_monitor := m\<rparr>)"

definition goto :: "call_pc \<Rightarrow> icall \<Rightarrow> icall" where
  "goto pc s = s\<lparr>ic_pc := pc\<rparr>"

section \<open>Making the call\<close>

definition leg_view :: "sip_inbound \<Rightarrow> signaling_view" where
  "leg_view l = \<lparr>sv_remote_headers = RemoteHeaders l, sv_tag = sl_tag l, sv_call_id = sl_call_id l\<rparr>"

definition newInboundCall ::
  "call_env \<Rightarrow> bool \<Rightarrow> call_monitor \<Rightarrow> monitor \<Rightarrow> sip_inbound \<Rightarrow> sip_call \<Rightarrow> CallState \<Rightarrow> sip_request \<Rightarrow> string
    \<Rightarrow> (string \<rightharpoonup> string) \<Rightarrow> (string \<rightharpoonup> string) \<Rightarrow> icall" where
  "newInboundCall env jitter cmon mon leg call st req trunkID active by_local =
     \<lparr>ic_leg = leg, ic_cmon = cmon, ic_monitor = mon, ic_state = st, ic_ctx_err = None,
      ic_time_limit = None, ic_close_reason = None, ic_call = call, ic_trunk_id = trunkID,
      ic_req = req, ic_media = None, ic_timeout = new_media_timeout 0 0, ic_room = NewRoom,
      ic_dtmf = '''', ic_forward_dtmf = False, ic_done = False, ic_started = False,
      ic_extra_attrs = HeadersToAttrs (ce_pre env) (ce_hpre env) None [] SIP_NO_HEADERS (Some (leg_view leg)) [],
      ic_attrs_to_hdr = [], ic_jitter = jitter, ic_project_id = '''', ic_watch_ack = False, ic_pending = [],
      ic_active = active(sl_tag leg \<mapsto> sl_id leg), ic_by_local = by_local(sl_id leg \<mapsto> sl_id leg),
      ic_log = [], ic_pc = PStart\<rparr>"

text \<open>
  The header callback given to the leg: once the call has a mapping of attributes and a room,
  the attributes of our participant are mapped to headers.
\<close>

definition call_headers :: "call_env \<Rightarrow> icall \<Rightarrow> (string \<times> string) list \<Rightarrow> (string \<times> string) list" where
  "call_headers env s headers =
     (if ic_attrs_to_hdr s = [] then headers
      else if \<not> rm_joined (ic_room s) then headers
      else ce_visit env (AttrsToHeaders (ce_room_attrs env) (ic_attrs_to_hdr s) (Some (map_of headers))))"

definition leg_env_of :: "call_env \<Rightarrow> icall \<Rightarrow> leg_env" where
  "leg_env_of env s = (ce_leg env)\<lparr>le_set_headers := Some (call_headers env s)\<rparr>"

definition cancel :: "go_error \<Rightarrow> icall \<Rightarrow> icall" where
  "cancel e s = (if ic_ctx_err s = None then s\<lparr>ic_ctx_err := Some e\<rparr> else s)"

definition ctxCanceled :: go_error where
  "ctxCanceled = Sentinel ''context canceled''"

definition ctxDeadline :: go_error where
  "ctxDeadline = Sentinel ''context deadline exceeded''"

section \<open>Closing\<close>

definition ic_setStatus :: "call_status \<Rightarrow> icall \<Rightarrow> icall" where
  "ic_setStatus v s =
     (let attr = Attribute v
      in if attr = '''' then s
         else if \<not> rm_joined (ic_room s) then s
         else log (SetCallStatus attr) s)"

definition closeMedia :: "call_env \<Rightarrow> icall \<Rightarrow> icall" where
  "closeMedia env s =
     (let s = s\<lparr>ic_room := room_Close (ce_room_old env) (ic_room s)\<rparr>
      in case ic_media s of
           None \<Rightarrow> s
         | Some m \<Rightarrow> s\<lparr>ic_media := Some (media_Close (ce_old env) m),
                       ic_timeout := timeout_step CallClose (ic_timeout s)\<rparr>)"

text \<open>\<open>close\<close>; the flag \<open>error\<close> of the code only selects a log level.\<close>

definition call_close :: "call_env \<Rightarrow> call_status \<Rightarrow> string \<Rightarrow> icall \<Rightarrow> icall outcome" where
  "call_close env status reason s =
     (if ic_done s then Returns s
      else
        let s = s\<lparr>ic_done := True\<rparr>;
            s = ic_setStatus status s;
            s = on_mon (CallTerminate reason) s;
            (sipCode, sipStatus) = SIPStatus status;
            s = closeMedia env s
        in bind_outcome (CloseWithStatus (leg_env_of env s) sipCode sipStatus (ce_tx env) (ic_leg s)) (\<lambda>leg.
           let s = s\<lparr>ic_leg := leg\<rparr>;
               s = s\<lparr>ic_active := (ic_active s)(sl_tag leg := None),
                     ic_by_local := (ic_by_local s)(sl_id leg := None)\<rparr>;
               s = log (DeregisterTransfer (sl_id leg)) s;
               s = log (SessionEnd reason) s
           in Returns (cancel ctxCanceled s)))"

definition closeWithTimeout :: "call_env \<Rightarrow> icall \<Rightarrow> icall outcome" where
  "closeWithTimeout env s = call_close env callDropped ''media-timeout'' s"

definition closeWithNoACK :: "call_env \<Rightarrow> icall \<Rightarrow> icall outcome" where
  "closeWithNoACK env s = call_close env callNoACK ''no-ack'' s"

definition closeWithReason :: "call_env \<Rightarrow> call_status \<Rightarrow> string \<Rightarrow> ReasonHeader \<Rightarrow> icall \<Rightarrow> icall outcome" where
  "closeWithReason env status reasonName reason s =
     (let s = s\<lparr>ic_state := DeferUpdate (\<lambda>info.
                  let info = info\<lparr>ci_disconnect_reason := CLIENT_INITIATED\<rparr>
                  in if ci_error info = None \<and> \<not> IsNormal reason
                     then info\<lparr>ci_error := Some (PlainErr (reason_string reason))\<rparr> else info) (ic_state s)\<rparr>;
          reasonName = (if rh_type reason \<noteq> '''' \<and> \<not> IsNormal reason
                        then ''bye-'' @ to_lower (rh_type reason) @ ''-'' @ itoa (rh_cause reason)
                        else reasonName)
      in call_close env status reasonName s)"

definition loaded_reason :: "icall \<Rightarrow> ReasonHeader" where
  "loaded_reason s = (case ic_close_reason s of None \<Rightarrow> zero_reason | Some r \<Rightarrow> r)"

definition closeWithCancelled :: "call_env \<Rightarrow> icall \<Rightarrow> icall outcome" where
  "closeWithCancelled env s = closeWithReason env CallHangup ''cancelled'' (loaded_reason s) s"

definition closeWithHangup :: "call_env \<Rightarrow> icall \<Rightarrow> icall outcome" where
  "closeWithHangup env s = closeWithReason env CallHangup ''hangup'' (loaded_reason s) s"

definition ic_Close :: "icall \<Rightarrow> icall" where
  "ic_Close s = cancel ctxCanceled s"

definition ic_Bye :: "ReasonHeader \<Rightarrow> icall \<Rightarrow> icall" where
  "ic_Bye reason s = ic_Close (s\<lparr>ic_close_reason := Some reason\<rparr>)"

text \<open>The handler returns: the deferred calls are still to run.\<close>

definition finish :: "go_error option \<Rightarrow> icall outcome \<Rightarrow> icall outcome" where
  "finish err m = bind_outcome m (\<lambda>s. Returns (goto (PClosing err) s))"

section \<open>The steps of handleInvite\<close>

subsection \<open>Dispatching\<close>

definition count_call :: "icall \<Rightarrow> icall" where
  "count_call s = on_mon CallStart (s\<lparr>ic_monitor := InviteAccept (ic_cmon s) (ic_monitor s)\<rparr>)"

definition set_sip_call_id :: "icall \<Rightarrow> icall" where
  "set_sip_call_id s =
     (case req_call_id (ic_req s) of
        None \<Rightarrow> s
      | Some v \<Rightarrow> s\<lparr>ic_call := (ic_call s)\<lparr>sc_sip_call_id := v\<rparr>\<rparr>)"

definition handle_start :: "call_env \<Rightarrow> icall \<Rightarrow> icall outcome" where
  "handle_start env s =
     (let s = set_sip_call_id (count_call s)
      in bind_outcome (StartRinging (leg_env_of env s) (ic_leg s)) (\<lambda>leg.
           Returns (goto PDispatch
             (log (Dispatched \<lparr>cinfo_trunk_id = ic_trunk_id s, cinfo_call = ic_call s,
                               cinfo_pin = '''', cinfo_no_pin = False\<rparr>) (s\<lparr>ic_leg := leg\<rparr>)))))"

definition take_project :: "CallDispatch \<Rightarrow> icall \<Rightarrow> icall" where
  "take_project disp s = (if cd_project_id disp \<noteq> '''' then s\<lparr>ic_project_id := cd_project_id disp\<rparr> else s)"

definition dispatched_info :: "CallDispatch \<Rightarrow> sip_call_info \<Rightarrow> sip_call_info" where
  "dispatched_info disp info =
     info\<lparr>ci_trunk_id := cd_trunk_id disp, ci_dispatch_rule_id := cd_dispatch_rule_id disp,
          ci_room_name := rc_room_name (cd_room disp),
          ci_participant_identity := pc_identity (rc_participant (cd_room disp)),
          ci_participant_attributes := room_attrs (rc_participant (cd_room disp))\<rparr>"

definition handle_dispatch :: "call_env \<Rightarrow> CallDispatch \<Rightarrow> icall \<Rightarrow> icall outcome" where
  "handle_dispatch env disp s =
     (let s = log (DispatchResult disp) s;
          s = take_project disp s;
          s = s\<lparr>ic_state := Update (ce_flush_ok env) (dispatched_info disp) (ic_state s)\<rparr>
      in case cd_result disp of
           DispatchAccept \<Rightarrow> Returns (goto (PMedia disp False) s)
         | DispatchRequestPin \<Rightarrow> Returns (goto (PMedia disp True) s)
         | DispatchNoRuleDrop \<Rightarrow>
             finish (Some (PsrpcErr PermissionDenied ''call was not authorized by trunk configuration'' None))
               (call_close env callFlood ''flood'' (s\<lparr>ic_leg := drop_leg (ic_leg s)\<rparr>))
         | DispatchNoRuleReject \<Rightarrow>
             bind_outcome (RespondAndDrop (leg_env_of env s) 404 ''Does not match Trunks or Dispatch Rules'' (ic_leg s)) (\<lambda>leg.
             finish (Some (PsrpcErr NotFound ''no trunk configuration for call'' None))
               (call_close env callDropped ''no-dispatch'' (s\<lparr>ic_leg := leg\<rparr>)))
         | DispatchOther n \<Rightarrow>
             bind_outcome (RespondAndDrop (leg_env_of env s) 501 '''' (ic_leg s)) (\<lambda>leg.
             finish (Some (PsrpcErr Unimplemented ''''
                        (Some (PlainErr (''unexpected dispatch result: '' @ itoa n)))))
               (call_close env callDropped ''unexpected-result'' (s\<lparr>ic_leg := leg\<rparr>))))"

subsection \<open>Media\<close>

text \<open>
  What the libraries answer while the media is started: opening the port, parsing the offer,
  making and marshalling the answer, applying the configuration; and which features come
  with a processor.
\<close>

record media_env =
  me_listen :: "go_error option"
  me_parse :: "string \<Rightarrow> go_error + string"
  me_answer :: "string \<Rightarrow> sdp_encryption \<Rightarrow> go_error + string \<times> media_conf"
  me_marshal :: "string \<Rightarrow> go_error + string"
  me_processor :: "string list \<Rightarrow> bool"
  me_setup :: setup_env

definition runMediaConn ::
  "call_env \<Rightarrow> media_env \<Rightarrow> string \<Rightarrow> sip_media_encryption \<Rightarrow> string list \<Rightarrow> icall \<Rightarrow> icall \<times> (go_error + string)" where
  "runMediaConn env me offerData enc features s =
     (case sdpEncryption enc of
        (e, Some err) \<Rightarrow> (s, Inl err)
      | (e, None) \<Rightarrow>
          (case NewMediaPort (me_listen me)
                  \<lparr>mo_initial = cf_media_timeout_initial (ce_conf env), mo_general = cf_media_timeout (ce_conf env),
                   mo_jitter = ic_jitter s\<rparr> of
             Inl err \<Rightarrow> (s, Inl err)
           | Inr (mp, mt) \<Rightarrow>
               (let mt = EnableTimeout (ce_now env) False mt;
                    mp = SetDTMFAudio (cf_audio_dtmf (ce_conf env)) (DisableOut mp);
                    s = s\<lparr>ic_media := Some mp, ic_timeout := mt\<rparr>
                in case SetOffer (me_parse me) (me_answer me) offerData e of
                     Inl err \<Rightarrow> (s, Inl err)
                   | Inr (answer, mconf) \<Rightarrow>
                       (case me_marshal me answer of
                          Inl err \<Rightarrow> (s, Inl err)
                        | Inr answerData \<Rightarrow>
                            (let mconf = mconf\<lparr>mc_processor := me_processor me features\<rparr>;
                                 (mp, err) = SetConfig (me_setup me) mconf mp;
                                 s = s\<lparr>ic_media := Some mp\<rparr>
                             in case err of
                                  Some err \<Rightarrow> (s, Inl err)
                                | None \<Rightarrow>
                                    (let with_dtmf = (mc_dtmf_type mconf \<noteq> 0);
                                         mp = (if with_dtmf then HandleDTMF True mp else mp);
                                         r = SwapOutput True (ic_room s);
                                         r = (if ce_room_old env then room_act [CloseRoomOutput] r else r);
                                         r = (if with_dtmf then SetDTMFOutput True r else r);
                                         s = s\<lparr>ic_media := Some mp, ic_room := r,
                                               ic_state := DeferUpdate
                                                 (\<lambda>info. info\<lparr>ci_audio_codec := mc_audio_name mconf\<rparr>) (ic_state s)\<rparr>
                                     in (s, Inr answerData)))))))"

definition media_failure :: "go_error \<Rightarrow> call_status \<times> string" where
  "media_failure err =
     (if err_is err ''ErrNoCommonMedia'' then (callMediaFailed, ''no-common-codec'')
      else if err_is err ''ErrNoCommonCrypto'' then (callMediaFailed, ''no-common-crypto'')
      else (callDropped, ''media-failed''))"

text \<open>The closure \<open>runMedia\<close> and what follows it on either path.\<close>

definition handle_media :: "call_env \<Rightarrow> media_env \<Rightarrow> CallDispatch \<Rightarrow> bool \<Rightarrow> icall \<Rightarrow> icall outcome" where
  "handle_media env me disp pin s =
     (case runMediaConn env me (req_body (ic_req s)) (cd_media_encryption disp) (cd_enabled_features disp) s of
        (s, Inl err) \<Rightarrow>
          (case media_failure err of (status, reason) \<Rightarrow>
             bind_outcome (RespondAndDrop (leg_env_of env s) 500 '''' (ic_leg s)) (\<lambda>leg.
             finish (Some err) (call_close env status reason (s\<lparr>ic_leg := leg\<rparr>))))
      | (s, Inr answerData) \<Rightarrow>
          Returns (goto (if pin then PAccept disp answerData True else PJoin disp answerData False) s))"

subsection \<open>Accepting and waiting\<close>

definition call_accepted :: "call_env \<Rightarrow> bool \<Rightarrow> go_error option \<Rightarrow> icall \<Rightarrow> icall outcome" where
  "call_accepted env pin err s =
     (case err of
        Some e \<Rightarrow>
          if err_is e ''errNoACK'' then finish (Some e) (closeWithNoACK env s)
          else finish (Some e) (call_close env callAcceptFailed ''accept-failed'' s)
      | None \<Rightarrow>
          (let s = s\<lparr>ic_watch_ack := \<not> cf_inbound_wait_ack (ce_conf env)\<rparr>
           in case ic_media s of
                None \<Rightarrow> Panics
              | Some m \<Rightarrow>
                  Returns (goto (PWaitMedia pin)
                    (s\<lparr>ic_timeout := EnableTimeout (ce_now env) True (ic_timeout s),
                       ic_media := Some (EnableOut m)\<rparr>))))"

definition acceptCall ::
  "call_env \<Rightarrow> (go_error option \<times> ack_wait) list \<Rightarrow> CallDispatch \<Rightarrow> string \<Rightarrow> bool \<Rightarrow> icall \<Rightarrow> icall outcome" where
  "acceptCall env tries disp answerData pin s =
     (let s = s\<lparr>ic_attrs_to_hdr := cd_attributes_to_headers disp\<rparr>;
          headers = (if rm_joined (ic_room s)
                     then ce_visit env (AttrsToHeaders (ce_room_attrs env) (ic_attrs_to_hdr s)
                                          (Some (map_of (cd_headers disp))))
                     else cd_headers disp)
      in bind_outcome (Accept (leg_env_of env s) answerData headers tries (ic_leg s)) (\<lambda>(leg, err).
           call_accepted env pin err (s\<lparr>ic_leg := leg\<rparr>)))"

text \<open>
  The branches of the selects that wait for media and for a subscription; \<open>ready\<close> says whether
  what is waited for is there. A timer may run out at any time.
\<close>

datatype wait_event = WCancelled | WCtx | WRoomClosed | WMediaTimeout | WReady | WTimer

fun wait_enabled :: "bool \<Rightarrow> wait_event \<Rightarrow> icall \<Rightarrow> bool" where
  "wait_enabled ready WCancelled s = sl_cancelled (ic_leg s)"
| "wait_enabled ready WCtx s = (ic_ctx_err s \<noteq> None)"
| "wait_enabled ready WRoomClosed s = rm_stopped (ic_room s)"
| "wait_enabled ready WMediaTimeout s = mt_fired (ic_timeout s)"
| "wait_enabled ready WReady s = ready"
| "wait_enabled ready WTimer s = True"

text \<open>The four branches the two selects have in common; the others are given.\<close>

fun wait_branch :: "call_env \<Rightarrow> wait_event \<Rightarrow> (icall \<Rightarrow> icall outcome) \<Rightarrow> (icall \<Rightarrow> icall outcome) \<Rightarrow> icall \<Rightarrow> icall outcome" where
  "wait_branch env WCancelled on_timer on_ready s = finish None (closeWithCancelled env s)"
| "wait_branch env WCtx on_timer on_ready s = finish None (closeWithHangup env s)"
| "wait_branch env WRoomClosed on_timer on_ready s =
     finish (Some (PsrpcErr Canceled ''room closed'' None)) (closeWithHangup env s)"
| "wait_branch env WMediaTimeout on_timer on_ready s =
     finish (Some (PsrpcErr DeadlineExceeded ''media timed out'' None)) (closeWithTimeout env s)"
| "wait_branch env WTimer on_timer on_ready s = on_timer s"
| "wait_branch env WReady on_timer on_ready s = on_ready s"

definition media_received :: "icall \<Rightarrow> bool" where
  "media_received s = (case ic_media s of None \<Rightarrow> False | Some m \<Rightarrow> mp_received m)"

text \<open>\<open>waitMedia\<close> and the rest of \<open>acceptCall\<close>; a prompt is played before the pin is asked for.\<close>

definition after_media :: "bool \<Rightarrow> icall \<Rightarrow> icall outcome" where
  "after_media pin s =
     (let s = ic_setStatus CallActive s
      in Returns (if pin then goto (PPin '''') (log (PlayPrompt ''enter_pin'') s) else goto PActivate s))"

definition waitMedia :: "call_env \<Rightarrow> wait_event \<Rightarrow> bool \<Rightarrow> icall \<Rightarrow> icall outcome" where
  "waitMedia env ev pin s =
     (if \<not> wait_enabled (media_received s) ev s then Blocked
      else wait_branch env ev (after_media pin) (after_media pin) s)"

definition waitSubscribe :: "call_env \<Rightarrow> wait_event \<Rightarrow> CallDispatch \<Rightarrow> string \<Rightarrow> icall \<Rightarrow> icall outcome" where
  "waitSubscribe env ev disp answerData s =
     (if \<not> wait_enabled (rm_subscribed (ic_room s)) ev s then Blocked
      else wait_branch env ev
             (\<lambda>s. finish (Some (PsrpcErr DeadlineExceeded ''room subscription timed out'' None))
                    (call_close env callDropped ''cannot-subscribe'' s))
             (\<lambda>s. Returns (goto (PAccept disp answerData False) s)) s)"

subsection \<open>The pin\<close>

definition pinLimit :: nat where
  "pinLimit = 16"

text \<open>
  A byte turned into a string is the UTF-8 encoding of that code point. The channel of digits
  is never closed, so the branch for a closed channel does not appear.
\<close>

definition digit_string :: "char \<Rightarrow> string" where
  "digit_string c = utf8_encode (of_char c)"

datatype pin_event = PinCancelled | PinCtx | PinMediaTimeout | PinDigit

definition wrong_pin :: "call_env \<Rightarrow> icall \<Rightarrow> icall outcome" where
  "wrong_pin env s =
     finish (Some (PsrpcErr PermissionDenied ''wrong pin'' None))
       (call_close env callDropped ''wrong-pin'' (log (PlayPrompt ''wrong_pin'') s))"

fun pinPrompt :: "call_env \<Rightarrow> pin_event \<Rightarrow> string \<Rightarrow> icall \<Rightarrow> icall outcome" where
  "pinPrompt env PinCancelled pin s =
     (if sl_cancelled (ic_leg s) then finish None (closeWithCancelled env s) else Blocked)"
| "pinPrompt env PinCtx pin s =
     (if ic_ctx_err s \<noteq> None then finish None (closeWithHangup env s) else Blocked)"
| "pinPrompt env PinMediaTimeout pin s =
     (if mt_fired (ic_timeout s)
      then finish (Some (PsrpcErr DeadlineExceeded ''media timeout'' None)) (closeWithTimeout env s)
      else Blocked)"
| "pinPrompt env PinDigit pin s =
     (case ic_dtmf s of
        [] \<Rightarrow> Blocked
      | b # rest \<Rightarrow>
          (let s = s\<lparr>ic_dtmf := rest\<rparr>
           in if of_char b = (0 :: nat) then Returns s
              else if b = CHR ''#''
              then Returns (goto (PPinCheck pin)
                     (log (Dispatched \<lparr>cinfo_trunk_id = ic_trunk_id s, cinfo_call = ic_call s,
                                       cinfo_pin = pin, cinfo_no_pin = (pin = '''')\<rparr>) s))
              else
                (let pin = pin @ digit_string b
                 in if pinLimit < length pin then wrong_pin env s else Returns (goto (PPin pin) s))))"

definition checkPin :: "call_env \<Rightarrow> CallDispatch \<Rightarrow> icall \<Rightarrow> icall outcome" where
  "checkPin env disp s =
     (let s = log (DispatchResult disp) s;
          s = take_project disp s
      in if cd_result disp \<noteq> DispatchAccept \<or> rc_room_name (cd_room disp) = '''' then wrong_pin env s
         else Returns (goto (PJoin disp '''' True) (log (PlayPrompt ''room_join'') s)))"

subsection \<open>Joining the room\<close>

text \<open>What the room SDK and the backend answer: registering for transfers, signing, joining.\<close>

record join_env =
  je_register :: "go_error option"
  je_sign :: "room_config \<Rightarrow> (string \<rightharpoonup> string) \<Rightarrow> go_error + string"
  je_join :: "string \<Rightarrow> string \<Rightarrow> go_error + (string \<times> string)"

definition createLiveKitParticipant ::
  "call_env \<Rightarrow> join_env \<Rightarrow> room_config \<Rightarrow> call_status \<Rightarrow> icall \<Rightarrow> icall \<times> go_error option" where
  "createLiveKitParticipant env je rconf status s =
     (let part = rc_participant rconf;
          attrs = room_attrs part ++ ic_extra_attrs s;
          attrs = attrs(ce_status_attr env \<mapsto> Attribute status);
          rconf = rconf\<lparr>rc_participant := part\<lparr>pc_attributes := Some attrs\<rparr>\<rparr>;
          s = s\<lparr>ic_forward_dtmf := True\<rparr>
      in case ic_ctx_err s of
           Some e \<Rightarrow> (s, Some e)
         | None \<Rightarrow>
             (let s = log (RegisterTransfer (sl_id (ic_leg s))) s
              in case je_register je of
                   Some e \<Rightarrow> (s, Some e)
                 | None \<Rightarrow>
                     (case Connect (ce_keys env) (ce_conf env) (je_sign je) (je_join je) rconf (ic_room s) of
                        (r, err) \<Rightarrow> (s\<lparr>ic_room := r\<rparr>, err))))"

text \<open>What is set in the dispatch result before joining: attributes, limits, jitter buffer.\<close>

definition prepare_join :: "call_env \<Rightarrow> CallDispatch \<Rightarrow> icall \<Rightarrow> CallDispatch" where
  "prepare_join env disp s =
     (let room = cd_room disp;
          part = rc_participant room;
          attrs = HeadersToAttrs (ce_pre env) (ce_hpre env) (pc_attributes part)
                    (cd_headers_to_attributes disp) (cd_include_headers disp) (Some (leg_view (ic_leg s))) [];
          maxDur = cd_max_call_duration disp
      in disp\<lparr>
           cd_room := room\<lparr>rc_participant := part\<lparr>pc_attributes := Some attrs\<rparr>, rc_jitter_buf := ic_jitter s\<rparr>,
           cd_max_call_duration := (if maxDur \<le> 0 \<or> maxCallDuration < maxDur then maxCallDuration else maxDur),
           cd_ringing_timeout := (if cd_ringing_timeout disp \<le> 0 then defaultRingingTimeout
                                  else cd_ringing_timeout disp)\<rparr>)"

definition joinRoom :: "call_env \<Rightarrow> join_env \<Rightarrow> CallDispatch \<Rightarrow> string \<Rightarrow> bool \<Rightarrow> icall \<Rightarrow> icall outcome" where
  "joinRoom env je disp answerData pin s =
     (let disp = prepare_join env disp s;
          s = s\<lparr>ic_time_limit := Some (cd_max_call_duration disp)\<rparr>;
          status = (if pin then CallActive else CallRinging)
      in case createLiveKitParticipant env je (cd_room disp) status s of
           (s, Some e) \<Rightarrow>
             finish (Some (WrapErr ''failed joining room'' (WrapErr ''cannot create LiveKit participant'' e)))
               (call_close env callDropped ''participant-failed'' s)
         | (s, None) \<Rightarrow> Returns (goto (PPublish disp answerData pin) s))"

text \<open>Publishing our track, then subscribing; \<open>old\<close> is whether there was a writer for the audio before.\<close>

definition publishTrack ::
  "call_env \<Rightarrow> track_env \<Rightarrow> bool \<Rightarrow> icall \<Rightarrow> (icall \<times> go_error option) outcome" where
  "publishTrack env te old s =
     bind_outcome (NewParticipantTrack te (ic_room s)) (\<lambda>(r, err).
       case err of
         Some e \<Rightarrow> Returns (s\<lparr>ic_room := room_Close (ce_room_old env) r\<rparr>, Some e)
       | None \<Rightarrow>
           (case ic_media s of
              None \<Rightarrow> Panics
            | Some m \<Rightarrow>
                bind_outcome (WriteAudioTo old m) (\<lambda>m.
                  Returns (s\<lparr>ic_room := r, ic_media := Some m\<rparr>, None))))"

definition handle_publish ::
  "call_env \<Rightarrow> track_env \<Rightarrow> bool \<Rightarrow> remote_participant list \<Rightarrow> CallDispatch \<Rightarrow> string \<Rightarrow> bool \<Rightarrow> icall \<Rightarrow> icall outcome" where
  "handle_publish env te old remotes disp answerData pin s =
     bind_outcome (publishTrack env te old s) (\<lambda>(s, err).
       case err of
         Some e \<Rightarrow>
           finish (Some (WrapErr ''publishing track to room failed'' e))
             (call_close env callDropped ''publish-failed'' s)
       | None \<Rightarrow>
           (let s = s\<lparr>ic_room := Subscribe remotes (ic_room s)\<rparr>
            in Returns (goto (if pin then PActivate else PWaitSub disp answerData) s)))"

subsection \<open>The active call\<close>

definition handle_activate :: "call_env \<Rightarrow> icall \<Rightarrow> icall outcome" where
  "handle_activate env s =
     (let s = s\<lparr>ic_state := Update (ce_flush_ok env) (\<lambda>info.
                  let info = info\<lparr>ci_started_at := ce_now env, ci_status := SCS_ACTIVE\<rparr>
                  in if rm_joined (ic_room s)
                     then info\<lparr>ci_room_id := ce_room_sid env, ci_room_name := ce_room_name env,
                               ci_participant_attributes := ce_room_attrs env\<rparr>
                     else info) (ic_state s)\<rparr>;
          s = s\<lparr>ic_started := True\<rparr>
      in Returns (goto (PLoop False (ic_watch_ack s) (ic_watch_ack s)) s))"

datatype loop_event = LTick | LCtx | LRoomClosed | LMediaTimeout | LAck | LAckTimer

fun call_loop :: "call_env \<Rightarrow> loop_event \<Rightarrow> bool \<Rightarrow> bool \<Rightarrow> bool \<Rightarrow> icall \<Rightarrow> icall outcome" where
  "call_loop env LTick noAck watch timer s =
     Returns (s\<lparr>ic_state := ForceFlush (ce_flush_ok env) (ic_state s)\<rparr>)"
| "call_loop env LCtx noAck watch timer s =
     (if ic_ctx_err s \<noteq> None then finish None (closeWithHangup env s) else Blocked)"
| "call_loop env LRoomClosed noAck watch timer s =
     (if rm_stopped (ic_room s)
      then finish None (call_close env callDropped ''removed''
             (s\<lparr>ic_state := DeferUpdate (\<lambda>info. info\<lparr>ci_disconnect_reason := CLIENT_INITIATED\<rparr>) (ic_state s)\<rparr>))
      else Blocked)"
| "call_loop env LMediaTimeout noAck watch timer s =
     (if mt_fired (ic_timeout s)
      then if noAck
           then finish (Some (PsrpcErr DeadlineExceeded '''' (Some errNoACK))) (closeWithNoACK env s)
           else finish (Some (PsrpcErr DeadlineExceeded ''media timeout'' None)) (closeWithTimeout env s)
      else Blocked)"
| "call_loop env LAck noAck watch timer s =
     (if watch \<and> sl_acked (ic_leg s) then Returns (goto (PLoop noAck False False) s) else Blocked)"
| "call_loop env LAckTimer noAck watch timer s =
     (if timer
      then Returns (goto (PLoop True watch False)
             (s\<lparr>ic_timeout := SetTimeout (ce_now env)
                  (min inviteOkAckLateTimeout (cf_media_timeout_initial (ce_conf env)))
                  (cf_media_timeout (ce_conf env)) (ic_timeout s)\<rparr>))
      else Blocked)"

text \<open>
  The deferred calls: of \<open>handleInvite\<close> (close, end of the call in the metrics), then the
  last update of \<open>processInvite\<close>.
\<close>

definition ended_info :: "int \<Rightarrow> go_error option \<Rightarrow> sip_call_info \<Rightarrow> sip_call_info" where
  "ended_info now err info =
     (let info = (if err \<noteq> None \<and> ci_error info = None
                  then info\<lparr>ci_status := SCS_ERROR, ci_error := err\<rparr>
                  else info\<lparr>ci_status := SCS_DISCONNECTED\<rparr>)
      in info\<lparr>ci_ended_at := now\<rparr>)"

definition handle_finish :: "call_env \<Rightarrow> go_error option \<Rightarrow> icall \<Rightarrow> icall outcome" where
  "handle_finish env err s =
     bind_outcome (call_close env callDropped ''other'' s) (\<lambda>s.
       let s = on_mon CallEnd s;
           s = s\<lparr>ic_state := Update (ce_flush_ok env) (ended_info (ce_now env) err) (ic_state s)\<rparr>
       in Returns (goto (PExit err) s))"

section \<open>What happens to the call from outside\<close>

definition handleDTMF :: "char \<Rightarrow> icall \<Rightarrow> icall outcome" where
  "handleDTMF tone s =
     (if ic_forward_dtmf s
      then bind_outcome (SendData [tone] (ic_room s)) (\<lambda>r. Returns (s\<lparr>ic_room := r\<rparr>))
      else Returns (if length (ic_dtmf s) < 10 then s\<lparr>ic_dtmf := ic_dtmf s @ [tone]\<rparr> else s))"

text \<open>
  \<open>transferCall\<close> in two parts: up to sending the REFER, and from its result on. For the dial
  tone the output of the room is taken off; what is remembered is whether there was one. It is
  restored, or closed, before the end of the transfer is reported, as the deferred calls run in
  reverse order.
\<close>

definition transfer_mute :: "call_env \<Rightarrow> bool \<Rightarrow> icall \<Rightarrow> icall \<times> bool option" where
  "transfer_mute env dialtone s =
     (if dialtone \<and> ic_started s \<and> \<not> ic_done s
      then (s\<lparr>ic_room := SwapOutput False (ic_room s)\<rparr>, Some (ce_room_old env))
      else (s, None))"

definition transfer_restore :: "bool option \<Rightarrow> go_error option \<Rightarrow> icall \<Rightarrow> icall" where
  "transfer_restore swapped retErr s =
     (case swapped of
        None \<Rightarrow> s
      | Some w \<Rightarrow>
          if retErr \<noteq> None \<and> \<not> ic_done s then s\<lparr>ic_room := SwapOutput w (ic_room s)\<rparr>
          else if w then s\<lparr>ic_room := room_act [CloseRoomOutput] (ic_room s)\<rparr>
          else s)"

definition transfer_finish ::
  "call_env \<Rightarrow> string \<Rightarrow> bool option \<Rightarrow> go_error option \<Rightarrow> icall \<Rightarrow> icall outcome" where
  "transfer_finish env tid swapped retErr s =
     (let s = (if retErr = None then log HangupAfterTransfer s else s);
          s = transfer_restore swapped retErr s
      in bind_outcome (EndTransfer (ce_now env) (ce_flush_ok env) tid retErr (ic_state s)) (\<lambda>st.
           Returns (s\<lparr>ic_state := st, ic_pending := filter (\<lambda>p. fst p \<noteq> tid) (ic_pending s)\<rparr>)))"

definition transfer_refer ::
  "call_env \<Rightarrow> string \<Rightarrow> string \<Rightarrow> (string \<times> string) list \<Rightarrow> go_error option \<Rightarrow> icall \<times> bool option \<Rightarrow> icall outcome" where
  "transfer_refer env tid transferTo headers tx_err muted = (case muted of (s, swapped) \<Rightarrow>
     bind_outcome (start_refer (leg_env_of env s) transferTo headers tx_err (ic_leg s)) (\<lambda>(leg, err).
       let s = s\<lparr>ic_leg := leg\<rparr>
       in case err of
            Some e \<Rightarrow> transfer_finish env tid swapped (Some e) s
          | None \<Rightarrow> Returns (s\<lparr>ic_pending := ic_pending s @ [(tid, swapped)]\<rparr>)))"

definition transfer_begin ::
  "call_env \<Rightarrow> string \<Rightarrow> string \<Rightarrow> (string \<times> string) list \<Rightarrow> bool \<Rightarrow> go_error option \<Rightarrow> icall \<Rightarrow> icall outcome" where
  "transfer_begin env tid transferTo headers dialtone tx_err s =
     bind_outcome (StartTransfer tid (ce_now env) (ce_flush_ok env) transferTo (ic_state s)) (\<lambda>(st, tid).
       transfer_refer env tid transferTo headers tx_err (transfer_mute env dialtone (s\<lparr>ic_state := st\<rparr>)))"

section \<open>The call as a state machine\<close>

text \<open>
  Events of the handler, each at the point it waits at, and events from outside: requests in
  the dialog that the server routes by the remote tag, the ringing goroutine, the media port,
  the room, transfers, the end of the time limit, a hangup of ours (the server stops or a
  transfer is through), and another call registered or removed at the server.
\<close>

datatype handler_event =
    HStart
  | HDispatch CallDispatch
  | HMedia media_env
  | HAccept "(go_error option \<times> ack_wait) list"
  | HWait wait_event
  | HPin pin_event
  | HJoin join_env
  | HPublish track_env bool "remote_participant list"
  | HActivate
  | HLoop loop_event
  | HFinish

datatype outside_event =
    XAck
  | XBye ReasonHeader
  | XRing nat ring_event
  | XClose
  | XTimeLimit
  | XDtmf char
  | XMedia media_event
  | XStream
  | XRoom room_event
  | XTransfer string string "(string \<times> string) list" bool "go_error option"
  | XTransferResult string "go_error option"
  | XOtherCall string string
  | XOtherGone string string

datatype call_event = Handler handler_event | Outside outside_event

text \<open>The server finds the call by the tag of the request.\<close>

definition routed :: "icall \<Rightarrow> bool" where
  "routed s \<longleftrightarrow> ic_active s (sl_tag (ic_leg s)) = Some (sl_id (ic_leg s))"

fun handler_step :: "call_env \<Rightarrow> handler_event \<Rightarrow> call_pc \<Rightarrow> icall \<Rightarrow> icall outcome" where
  "handler_step env e PStart s = (case e of HStart \<Rightarrow> handle_start env s | _ \<Rightarrow> Blocked)"
| "handler_step env e PDispatch s = (case e of HDispatch disp \<Rightarrow> handle_dispatch env disp s | _ \<Rightarrow> Blocked)"
| "handler_step env e (PMedia disp pin) s =
     (case e of HMedia me \<Rightarrow> handle_media env me disp pin s | _ \<Rightarrow> Blocked)"
| "handler_step env e (PAccept disp answer pin) s =
     (case e of HAccept tries \<Rightarrow> acceptCall env tries disp answer pin s | _ \<Rightarrow> Blocked)"
| "handler_step env e (PWaitMedia pin) s = (case e of HWait ev \<Rightarrow> waitMedia env ev pin s | _ \<Rightarrow> Blocked)"
| "handler_step env e (PPin pin) s = (case e of HPin ev \<Rightarrow> pinPrompt env ev pin s | _ \<Rightarrow> Blocked)"
| "handler_step env e (PPinCheck pin) s = (case e of HDispatch disp \<Rightarrow> checkPin env disp s | _ \<Rightarrow> Blocked)"
| "handler_step env e (PJoin disp answer pin) s =
     (case e of HJoin je \<Rightarrow> joinRoom env je disp answer pin s | _ \<Rightarrow> Blocked)"
| "handler_step env e (PPublish disp answer pin) s =
     (case e of HPublish te old remotes \<Rightarrow> handle_publish env te old remotes disp answer pin s | _ \<Rightarrow> Blocked)"
| "handler_step env e (PWaitSub disp answer) s =
     (case e of HWait ev \<Rightarrow> waitSubscribe env ev disp answer s | _ \<Rightarrow> Blocked)"
| "handler_step env e PActivate s = (case e of HActivate \<Rightarrow> handle_activate env s | _ \<Rightarrow> Blocked)"
| "handler_step env e (PLoop noAck watch timer) s =
     (case e of HLoop ev \<Rightarrow> call_loop env ev noAck watch timer s | _ \<Rightarrow> Blocked)"
| "handler_step env e (PClosing err) s = (case e of HFinish \<Rightarrow> handle_finish env err s | _ \<Rightarrow> Blocked)"
| "handler_step env e (PExit err) s = Blocked"

fun outside_step :: "call_env \<Rightarrow> outside_event \<Rightarrow> icall \<Rightarrow> icall outcome" where
  "outside_step env XAck s =
     (if routed s then Returns (s\<lparr>ic_leg := AcceptAck (ic_leg s)\<rparr>) else Blocked)"
| "outside_step env (XBye reason) s =
     (if routed s then Returns (ic_Bye reason (s\<lparr>ic_leg := AcceptBye (ic_leg s)\<rparr>)) else Blocked)"
| "outside_step env (XRing i ev) s =
     bind_outcome (leg_step (leg_env_of env s, EvRing i ev) (ic_leg s)) (\<lambda>leg. Returns (s\<lparr>ic_leg := leg\<rparr>))"
| "outside_step env XClose s = Returns (ic_Close s)"
| "outside_step env XTimeLimit s =
     (if ic_time_limit s \<noteq> None then Returns (cancel ctxDeadline s) else Blocked)"
| "outside_step env (XDtmf tone) s =
     (case ic_media s of
        Some m \<Rightarrow> if mp_dtmf_in m then handleDTMF tone s else Blocked
      | None \<Rightarrow> Blocked)"
| "outside_step env (XMedia ev) s =
     (if own_media_event ev then Returns (s\<lparr>ic_timeout := timeout_step ev (ic_timeout s)\<rparr>) else Blocked)"
| "outside_step env XStream s =
     (case ic_media s of
        Some m \<Rightarrow> if mp_sess m \<and> \<not> mp_closed m then Returns (s\<lparr>ic_media := Some (m\<lparr>mp_received := True\<rparr>)\<rparr>) else Blocked
      | None \<Rightarrow> Blocked)"
| "outside_step env (XRoom ev) s =
     (if remote_room_event ev then Returns (s\<lparr>ic_room := room_step ev (ic_room s)\<rparr>) else Blocked)"
| "outside_step env (XTransfer tid to headers dialtone tx_err) s =
     (if tid \<in> fst ` set (ic_pending s) then Blocked
      else transfer_begin env tid to headers dialtone tx_err s)"
| "outside_step env (XTransferResult tid result) s =
     (case map_of (ic_pending s) tid of
        None \<Rightarrow> Blocked
      | Some swapped \<Rightarrow> transfer_finish env tid swapped result s)"
| "outside_step env (XOtherCall tag lid) s =
     (if lid = sl_id (ic_leg s) then Blocked
      else Returns (s\<lparr>ic_active := (ic_active s)(tag \<mapsto> lid), ic_by_local := (ic_by_local s)(lid \<mapsto> lid)\<rparr>))"
| "outside_step env (XOtherGone tag lid) s =
     (if lid = sl_id (ic_leg s) then Blocked
      else Returns (s\<lparr>ic_active := (ic_active s)(tag := None), ic_by_local := (ic_by_local s)(lid := None)\<rparr>))"

fun call_step :: "call_env \<times> call_event \<Rightarrow> icall \<Rightarrow> icall outcome" where
  "call_step (env, Handler e) s = handler_step env e (ic_pc s) s"
| "call_step (env, Outside e) s = outside_step env e s"

end
