(* ===== verification/Inbound_Life.thy ===== *)
theory Inbound_Life
  imports Inbound_Call
begin

text \<open>
  The life of an inbound call: every step makes only operations of the leg on the leg, an open
  call is closed exactly once, and a call whose handler has returned is shut and stays shut.
  One lemma for each operation of the handler says that it goes on or closes the call; one for
  all events from outside says what they leave alone.
\<close>

section \<open>The leg of a call\<close>

text \<open>
  Whatever the call does to its leg is a run of operations of the leg, so what holds of every
  leg holds of the leg of a call.
\<close>

fun is_accept :: "leg_env \<times> leg_event \<Rightarrow> bool" where
  "is_accept (env, EvAccept sdp headers tries) = True"
| "is_accept (env, ev) = False"

definition leg_reach :: "bool \<Rightarrow> sip_inbound \<Rightarrow> sip_inbound \<Rightarrow> bool" where
  "leg_reach acc c d \<longleftrightarrow>
     (\<exists>es. runs leg_step c es d \<and> (\<forall>e\<in>set es. leg_event_ok e \<and> (is_accept e \<longrightarrow> acc)))"

lemma leg_reach_refl [simp, intro]: "leg_reach acc c c"
  by (auto simp: leg_reach_def intro: exI [of _ "[]"])

lemma leg_reach_step: "leg_step e c = Returns d \<Longrightarrow> leg_event_ok e \<Longrightarrow> (is_accept e \<longrightarrow> acc) \<Longrightarrow> leg_reach acc c d"
  unfolding leg_reach_def by (rule exI [of _ "[e]"]) (simp add: runs_one)

lemma leg_reach_trans:
  assumes "leg_reach acc c d" and "leg_reach acc d e"
  shows "leg_reach acc c e"
proof -
  from assms obtain es fs where "runs leg_step c es d" "\<forall>e\<in>set es. leg_event_ok e \<and> (is_accept e \<longrightarrow> acc)"
    "runs leg_step d fs e" "\<forall>e\<in>set fs. leg_event_ok e \<and> (is_accept e \<longrightarrow> acc)"
    by (auto simp: leg_reach_def)
  then have "runs leg_step c (es @ fs) e" "\<forall>e\<in>set (es @ fs). leg_event_ok e \<and> (is_accept e \<longrightarrow> acc)"
    by (auto intro: runs_append)
  then show ?thesis unfolding leg_reach_def by blast
qed

lemma leg_reach_mono: "leg_reach False c d \<Longrightarrow> leg_reach acc c d"
  by (auto simp: leg_reach_def)

lemma leg_reach_inv: "leg_reach acc c d \<Longrightarrow> leg_inv c0 c \<Longrightarrow> leg_inv c0 d"
  unfolding leg_reach_def using inbound_leg.runs_inv by blast

lemma leg_reach_closed: "leg_reach acc c d \<Longrightarrow> leg_closed c \<Longrightarrow> leg_closed d"
  unfolding leg_reach_def using inbound_closing.runs_closed by blast

lemma leg_step_ids: "leg_step e c = Returns d \<Longrightarrow> sl_id d = sl_id c \<and> sl_tag d = sl_tag c"
proof -
  assume step: "leg_step e c = Returns d"
  obtain env ev where e: "e = (env, ev)" by (cases e)
  have ring: "ring_step env i re g c = Returns d \<Longrightarrow> sl_id d = sl_id c \<and> sl_tag d = sl_tag c" for i re g
    by (cases re) (auto simp: set_pc_def sendRinging_def respond_def RespondAndDrop_def bind_outcome_Returns
        split: if_splits option.splits)
  have refer: "sl_id d = sl_id c \<and> sl_tag d = sl_tag c"
    if start: "start_refer env to hs te c = Returns (d, err)" for to hs te err
  proof -
    from start obtain a r where r: "newReferReq env to hs c = Returns (a, r)"
      and res: "(case (r, te) of (Inl e, _) \<Rightarrow> Returns (a, Some e) | (Inr req, Some e) \<Rightarrow> Returns (a, Some e)
        | (Inr req, None) \<Rightarrow> Returns (emit (LegRefer req) a, None)) = Returns (d, err)"
      by (auto simp: start_refer_def bind_outcome_Returns)
    have "sl_id d = sl_id a \<and> sl_tag d = sl_tag a" using res by (cases r; cases te) auto
    moreover have "sl_id a = sl_id c \<and> sl_tag a = sl_tag c" using newReferReq_cases [OF r] by auto
    ultimately show ?thesis by simp
  qed
  show ?thesis
    using step ring refer unfolding e
    by (cases ev) (auto simp: Processing_def respond_def RespondAndDrop_def bind_outcome_Returns StartRinging_def
        attachTag_def sendRinging_def Accept_def Let_def AcceptAck_def AcceptBye_def CloseWithStatus_def
        sendBye_def leg_setCSeq_def sendStatus_def split: if_splits option.splits outcome.splits sum.splits)
qed

lemma leg_reach_ids: "leg_reach acc c d \<Longrightarrow> sl_id d = sl_id c \<and> sl_tag d = sl_tag c"
proof -
  have "runs leg_step c es d \<Longrightarrow> sl_id d = sl_id c \<and> sl_tag d = sl_tag c" for es
    by (induction rule: runs.induct) (auto dest: leg_step_ids)
  then show "leg_reach acc c d \<Longrightarrow> sl_id d = sl_id c \<and> sl_tag d = sl_tag c"
    by (auto simp: leg_reach_def)
qed

text \<open>The operations of the leg that the call makes.\<close>

lemma reach_ops:
  "StartRinging env c = Returns d \<Longrightarrow> leg_reach acc c d"
  "200 < st \<Longrightarrow> RespondAndDrop env st why c = Returns d \<Longrightarrow> leg_reach acc c d"
  "leg_reach acc c (drop_leg c)"
  "leg_reach acc c (AcceptAck c)"
  "leg_reach acc c (AcceptBye c)"
  "200 < st \<Longrightarrow> CloseWithStatus env st why tx c = Returns d \<Longrightarrow> leg_reach acc c d"
  "leg_step (env, EvRing i ev) c = Returns d \<Longrightarrow> leg_reach acc c d"
  "\<forall>t\<in>set (tl tries). fst t = None \<Longrightarrow> Accept env sdp hs tries c = Returns (d, err) \<Longrightarrow> leg_reach True c d"
  "start_refer env to hs2 tx_err c = Returns (d, err) \<Longrightarrow> leg_reach acc c d"
  by (rule leg_reach_step [where e = "(env, EvStartRinging)"], simp_all)
    (rule leg_reach_step [where e = "(env, EvRespondAndDrop st why)"]
      leg_reach_step [where e = "(undefined, EvDrop)"] leg_reach_step [where e = "(undefined, EvAck)"]
      leg_reach_step [where e = "(undefined, EvBye)"] leg_reach_step [where e = "(env, EvClose st why tx)"]
      leg_reach_step [where e = "(env, EvRing i ev)"] leg_reach_step [where e = "(env, EvAccept sdp hs tries)"]
      leg_reach_step [where e = "(env, EvRefer to hs2 tx_err)"]; simp)+

section \<open>What closing does\<close>

fun is_session_end :: "call_act \<Rightarrow> bool" where
  "is_session_end (SessionEnd reason) = True"
| "is_session_end _ = False"

fun is_dispatch :: "call_act \<Rightarrow> bool" where
  "is_dispatch (Dispatched info) = True"
| "is_dispatch (DispatchResult disp) = True"
| "is_dispatch _ = False"

lemma on_mon_frame [simp]:
  "ic_leg (on_mon f s) = ic_leg s" "ic_room (on_mon f s) = ic_room s" "ic_media (on_mon f s) = ic_media s"
  "ic_done (on_mon f s) = ic_done s" "ic_log (on_mon f s) = ic_log s" "ic_pc (on_mon f s) = ic_pc s"
  "ic_state (on_mon f s) = ic_state s" "ic_ctx_err (on_mon f s) = ic_ctx_err s"
  "ic_by_local (on_mon f s) = ic_by_local s" "ic_active (on_mon f s) = ic_active s"
  "ic_timeout (on_mon f s) = ic_timeout s" "ic_attrs_to_hdr (on_mon f s) = ic_attrs_to_hdr s"
  "ic_dtmf (on_mon f s) = ic_dtmf s" "ic_req (on_mon f s) = ic_req s" "ic_call (on_mon f s) = ic_call s"
  "ic_trunk_id (on_mon f s) = ic_trunk_id s" "ic_started (on_mon f s) = ic_started s"
  "ic_cmon (on_mon f s) = fst (f (ic_cmon s, ic_monitor s))"
  "ic_monitor (on_mon f s) = snd (f (ic_cmon s, ic_monitor s))"
  by (simp_all add: on_mon_def split: prod.split)

lemma cancel_frame [simp]:
  "ic_leg (cancel e s) = ic_leg s" "ic_room (cancel e s) = ic_room s" "ic_media (cancel e s) = ic_media s"
  "ic_done (cancel e s) = ic_done s" "ic_log (cancel e s) = ic_log s" "ic_pc (cancel e s) = ic_pc s"
  "ic_state (cancel e s) = ic_state s" "ic_by_local (cancel e s) = ic_by_local s"
  "ic_active (cancel e s) = ic_active s" "ic_cmon (cancel e s) = ic_cmon s"
  "ic_monitor (cancel e s) = ic_monitor s" "ic_timeout (cancel e s) = ic_timeout s"
  "ic_ctx_err (cancel e s) \<noteq> None"
  by (simp_all add: cancel_def)

lemma set_status_cases: "ic_setStatus v s = s \<or> ic_setStatus v s = log (SetCallStatus (Attribute v)) s"
  by (simp add: ic_setStatus_def Let_def)

text \<open>
  The effect of \<open>close\<close> the first time, with whatever status and reason: what is common to all
  the ways a call is closed.
\<close>

definition closed_by :: "icall \<Rightarrow> icall \<Rightarrow> bool" where
  "closed_by s s' \<longleftrightarrow>
     (\<exists>env st why tx xs reason room_old old.
        400 \<le> st \<and> CloseWithStatus env st why tx (ic_leg s) = Returns (ic_leg s')
      \<and> ic_done s' \<and> ic_ctx_err s' \<noteq> None
      \<and> ic_room s' = room_Close room_old (ic_room s)
      \<and> ic_media s' = map_option (media_Close old) (ic_media s)
      \<and> ic_cmon s' = fst (CallTerminate reason (ic_cmon s, ic_monitor s))
      \<and> ic_monitor s' = snd (CallTerminate reason (ic_cmon s, ic_monitor s))
      \<and> ic_by_local s' = (ic_by_local s)(sl_id (ic_leg s') := None)
      \<and> ic_active s' = (ic_active s)(sl_tag (ic_leg s') := None)
      \<and> ic_log s' = ic_log s @ xs @ [DeregisterTransfer (sl_id (ic_leg s')), SessionEnd reason]
      \<and> (\<forall>x\<in>set xs. \<not> is_session_end x \<and> \<not> is_dispatch x))"

lemma call_close_first:
  assumes "call_close env status reason s = Returns s'" and "\<not> ic_done s"
  shows "closed_by s s' \<and> ic_pc s' = ic_pc s \<and> ic_state s' = ic_state s"
proof -
  define s1 where "s1 = on_mon (CallTerminate reason) (ic_setStatus status (s\<lparr>ic_done := True\<rparr>))"
  define s2 where "s2 = closeMedia env s1"
  obtain code why where st: "SIPStatus status = (code, why)" by (cases "SIPStatus status")
  with SIPStatus_final [of status] have code: "400 \<le> code" by simp
  from assms st obtain leg where leg: "CloseWithStatus (leg_env_of env s2) code why (ce_tx env) (ic_leg s2) = Returns leg"
    and s': "s' = cancel ctxCanceled (log (SessionEnd reason) (log (DeregisterTransfer (sl_id leg))
      (s2\<lparr>ic_leg := leg, ic_active := (ic_active s2)(sl_tag leg := None),
          ic_by_local := (ic_by_local s2)(sl_id leg := None)\<rparr>)))"
    by (auto simp: call_close_def Let_def s1_def s2_def bind_outcome_Returns)
  have s1: "ic_leg s1 = ic_leg s" "ic_room s1 = ic_room s" "ic_media s1 = ic_media s" "ic_done s1"
    "ic_by_local s1 = ic_by_local s" "ic_active s1 = ic_active s" "ic_pc s1 = ic_pc s" "ic_state s1 = ic_state s"
    "ic_cmon s1 = fst (CallTerminate reason (ic_cmon s, ic_monitor s))"
    "ic_monitor s1 = snd (CallTerminate reason (ic_cmon s, ic_monitor s))"
    "\<exists>xs. ic_log s1 = ic_log s @ xs \<and> (\<forall>x\<in>set xs. \<not> is_session_end x \<and> \<not> is_dispatch x)"
    by (auto simp: s1_def ic_setStatus_def log_def Let_def)
  have s2: "ic_leg s2 = ic_leg s1" "ic_room s2 = room_Close (ce_room_old env) (ic_room s1)"
    "ic_media s2 = map_option (media_Close (ce_old env)) (ic_media s1)" "ic_done s2 = ic_done s1"
    "ic_by_local s2 = ic_by_local s1" "ic_active s2 = ic_active s1" "ic_pc s2 = ic_pc s1"
    "ic_state s2 = ic_state s1" "ic_cmon s2 = ic_cmon s1" "ic_monitor s2 = ic_monitor s1" "ic_log s2 = ic_log s1"
    by (auto simp: s2_def closeMedia_def Let_def split: option.split)
  obtain xs where xs: "ic_log s1 = ic_log s @ xs" "\<forall>x\<in>set xs. \<not> is_session_end x \<and> \<not> is_dispatch x"
    using s1 by blast
  have "ic_pc s' = ic_pc s \<and> ic_state s' = ic_state s" using s1 s2 by (simp add: s' log_def)
  moreover have "closed_by s s'"
    unfolding closed_by_def
    by (rule exI [of _ "leg_env_of env s2"], rule exI [of _ code], rule exI [of _ why], rule exI [of _ "ce_tx env"],
        rule exI [of _ xs], rule exI [of _ reason], rule exI [of _ "ce_room_old env"], rule exI [of _ "ce_old env"])
      (use leg code s1 s2 xs in \<open>simp add: s' log_def\<close>)
  ultimately show ?thesis by simp
qed

lemma call_close_done: "ic_done s \<Longrightarrow> call_close env status reason s = Returns s"
  by (simp add: call_close_def)

text \<open>The handler returns after closing the call, its deferred calls still to run.\<close>

definition ends_from :: "icall \<Rightarrow> icall \<Rightarrow> bool" where
  "ends_from s s' \<longleftrightarrow>
     (\<exists>err s1. s' = goto (PClosing err) s1 \<and> closed_by s s1)"

lemma closed_by_state [simp]: "closed_by (s\<lparr>ic_state := st\<rparr>) s' = closed_by s s'"
  by (simp add: closed_by_def)

lemma finish_Returns: "finish err m = Returns s' \<longleftrightarrow> (\<exists>s. m = Returns s \<and> s' = goto (PClosing err) s)"
  by (auto simp: finish_def bind_outcome_Returns)

lemma finish_close:
  assumes "\<not> ic_done s"
  shows "finish err (call_close env status reason s) = Returns s' \<Longrightarrow> ends_from s s'"
    "finish err (closeWithTimeout env s) = Returns s' \<Longrightarrow> ends_from s s'"
    "finish err (closeWithNoACK env s) = Returns s' \<Longrightarrow> ends_from s s'"
    "finish err (closeWithReason env status reason rh s) = Returns s' \<Longrightarrow> ends_from s s'"
    "finish err (closeWithCancelled env s) = Returns s' \<Longrightarrow> ends_from s s'"
    "finish err (closeWithHangup env s) = Returns s' \<Longrightarrow> ends_from s s'"
proof -
  have a: "finish err (call_close env status reason s) = Returns s' \<Longrightarrow> \<not> ic_done s \<Longrightarrow> ends_from s s'"
    for status reason s
    by (auto simp: ends_from_def finish_Returns dest: call_close_first)
  have b: "finish err (closeWithReason env status reason rh s) = Returns s' \<Longrightarrow> ends_from s s'" for status reason rh
    unfolding closeWithReason_def Let_def by (drule a) (use assms in \<open>simp_all add: ends_from_def\<close>)
  show "finish err (call_close env status reason s) = Returns s' \<Longrightarrow> ends_from s s'"
    "finish err (closeWithTimeout env s) = Returns s' \<Longrightarrow> ends_from s s'"
    "finish err (closeWithNoACK env s) = Returns s' \<Longrightarrow> ends_from s s'"
    using a assms by (simp_all add: closeWithTimeout_def closeWithNoACK_def)
  show "finish err (closeWithReason env status reason rh s) = Returns s' \<Longrightarrow> ends_from s s'"
    "finish err (closeWithCancelled env s) = Returns s' \<Longrightarrow> ends_from s s'"
    "finish err (closeWithHangup env s) = Returns s' \<Longrightarrow> ends_from s s'"
    using b by (simp_all add: closeWithCancelled_def closeWithHangup_def)
qed

section \<open>The life of a call\<close>

definition open_call :: "icall \<Rightarrow> bool" where
  "open_call s \<longleftrightarrow> \<not> ic_done s \<and> cm_started (ic_cmon s) \<and> (\<forall>x\<in>set (ic_log s). \<not> is_session_end x)"

definition shut_call :: "icall \<Rightarrow> bool" where
  "shut_call s \<longleftrightarrow>
     ic_done s \<and> leg_closed (ic_leg s) \<and> unjoined_closed (ic_room s)
     \<and> (case ic_media s of None \<Rightarrow> True | Some m \<Rightarrow> mp_closed m)
     \<and> ic_ctx_err s \<noteq> None \<and> ic_by_local s (sl_id (ic_leg s)) = None
     \<and> cm_terminated (ic_cmon s) \<and> count_if is_session_end (ic_log s) = 1"

definition ended_call :: "icall \<Rightarrow> bool" where
  "ended_call s \<longleftrightarrow> \<not> cm_started (ic_cmon s)
     \<and> ci_status (cs_info (ic_state s)) \<in> {SCS_ERROR, SCS_DISCONNECTED}"

fun running_pc :: "call_pc \<Rightarrow> bool" where
  "running_pc PStart = False"
| "running_pc (PClosing err) = False"
| "running_pc (PExit err) = False"
| "running_pc _ = True"

definition life_inv :: "32 word \<Rightarrow> icall \<Rightarrow> bool" where
  "life_inv c0 s \<longleftrightarrow> leg_inv c0 (ic_leg s) \<and>
     (case ic_pc s of
        PStart \<Rightarrow> \<not> ic_done s \<and> (\<forall>x\<in>set (ic_log s). \<not> is_session_end x)
      | PClosing err \<Rightarrow> shut_call s \<and> cm_started (ic_cmon s)
      | PExit err \<Rightarrow> shut_call s \<and> ended_call s
      | _ \<Rightarrow> open_call s)"

text \<open>
  One step of the handler of an open call: it goes on, or it closes the call; \<open>acc\<close> says
  whether the leg may have been accepted in it.
\<close>

definition same_tables :: "icall \<Rightarrow> icall \<Rightarrow> bool" where
  "same_tables s s' \<longleftrightarrow> ic_active s' = ic_active s \<and> ic_by_local s' = ic_by_local s"

declare same_tables_def [simp]

definition goes_on :: "bool \<Rightarrow> icall \<Rightarrow> icall \<Rightarrow> bool" where
  "goes_on acc s s' \<longleftrightarrow>
     leg_reach acc (ic_leg s) (ic_leg s') \<and> same_tables s s' \<and> open_call s' \<and> running_pc (ic_pc s')"

definition closes :: "bool \<Rightarrow> icall \<Rightarrow> icall \<Rightarrow> bool" where
  "closes acc s s' \<longleftrightarrow>
     (\<exists>s1. leg_reach acc (ic_leg s) (ic_leg s1) \<and> same_tables s s1 \<and> open_call s1 \<and> ends_from s1 s')"

lemma closesI:
  "ends_from s1 s' \<Longrightarrow> open_call s1 \<Longrightarrow> leg_reach acc (ic_leg s) (ic_leg s1) \<Longrightarrow> same_tables s s1 \<Longrightarrow> closes acc s s'"
  unfolding closes_def by blast

lemma log_frame [simp]:
  "ic_leg (log a s) = ic_leg s" "ic_room (log a s) = ic_room s" "ic_media (log a s) = ic_media s"
  "ic_done (log a s) = ic_done s" "ic_log (log a s) = ic_log s @ [a]" "ic_pc (log a s) = ic_pc s"
  "ic_state (log a s) = ic_state s" "ic_by_local (log a s) = ic_by_local s"
  "ic_active (log a s) = ic_active s" "ic_cmon (log a s) = ic_cmon s" "ic_ctx_err (log a s) = ic_ctx_err s"
  "ic_monitor (log a s) = ic_monitor s" "ic_timeout (log a s) = ic_timeout s"
  by (simp_all add: log_def)

lemma goto_frame [simp]:
  "ic_leg (goto pc s) = ic_leg s" "ic_room (goto pc s) = ic_room s" "ic_media (goto pc s) = ic_media s"
  "ic_done (goto pc s) = ic_done s" "ic_log (goto pc s) = ic_log s" "ic_pc (goto pc s) = pc"
  "ic_state (goto pc s) = ic_state s" "ic_by_local (goto pc s) = ic_by_local s"
  "ic_active (goto pc s) = ic_active s" "ic_cmon (goto pc s) = ic_cmon s" "ic_ctx_err (goto pc s) = ic_ctx_err s"
  "ic_monitor (goto pc s) = ic_monitor s" "ic_timeout (goto pc s) = ic_timeout s"
  by (simp_all add: goto_def)

lemma take_project_frame [simp]:
  "ic_leg (take_project d s) = ic_leg s" "ic_room (take_project d s) = ic_room s"
  "ic_media (take_project d s) = ic_media s" "ic_done (take_project d s) = ic_done s"
  "ic_log (take_project d s) = ic_log s" "ic_pc (take_project d s) = ic_pc s"
  "ic_state (take_project d s) = ic_state s" "ic_cmon (take_project d s) = ic_cmon s"
  "ic_by_local (take_project d s) = ic_by_local s" "ic_active (take_project d s) = ic_active s" "ic_ctx_err (take_project d s) = ic_ctx_err s"
  by (simp_all add: take_project_def)

lemma setStatus_frame [simp]:
  "ic_leg (ic_setStatus v s) = ic_leg s" "ic_room (ic_setStatus v s) = ic_room s"
  "ic_media (ic_setStatus v s) = ic_media s" "ic_done (ic_setStatus v s) = ic_done s"
  "ic_pc (ic_setStatus v s) = ic_pc s" "ic_state (ic_setStatus v s) = ic_state s"
  "ic_cmon (ic_setStatus v s) = ic_cmon s" "ic_by_local (ic_setStatus v s) = ic_by_local s"
  "ic_active (ic_setStatus v s) = ic_active s"
  "ic_ctx_err (ic_setStatus v s) = ic_ctx_err s"
  "set (ic_log (ic_setStatus v s)) = set (ic_log s) \<union>
     (if Attribute v \<noteq> '''' \<and> rm_joined (ic_room s) then {SetCallStatus (Attribute v)} else {})"
  by (auto simp: ic_setStatus_def Let_def)

lemma runMediaConn_frame:
  assumes "runMediaConn env me offer enc fs s = (s', r)"
  shows "ic_leg s' = ic_leg s" "ic_done s' = ic_done s" "ic_log s' = ic_log s" "ic_cmon s' = ic_cmon s"
    "ic_pc s' = ic_pc s" "rm_joined (ic_room s') = rm_joined (ic_room s)"
    "rm_p (ic_room s') = rm_p (ic_room s)" "ic_req s' = ic_req s" "same_tables s s'"
  using assms
  by (auto simp: runMediaConn_def Let_def SwapOutput_def SetDTMFOutput_def
      split: prod.splits option.splits sum.splits if_splits)

lemma finish_closes:
  assumes "open_call s1" and "leg_reach acc (ic_leg s) (ic_leg s1)" and "same_tables s s1"
  shows "finish err (call_close env status reason s1) = Returns s' \<Longrightarrow> closes acc s s'"
    "finish err (closeWithTimeout env s1) = Returns s' \<Longrightarrow> closes acc s s'"
    "finish err (closeWithNoACK env s1) = Returns s' \<Longrightarrow> closes acc s s'"
    "finish err (closeWithCancelled env s1) = Returns s' \<Longrightarrow> closes acc s s'"
    "finish err (closeWithHangup env s1) = Returns s' \<Longrightarrow> closes acc s s'"
  using closesI [OF _ assms] finish_close [of s1] assms(1) by (simp_all add: open_call_def)

lemma rejected_closes:
  assumes "open_call s1" and "ic_leg s1 = ic_leg s" and "same_tables s s1" and "200 < st"
    and "RespondAndDrop e st why (ic_leg s1) = Returns leg"
    and "finish err (call_close env status reason (s1\<lparr>ic_leg := leg\<rparr>)) = Returns s'"
  shows "closes False s s'"
  by (rule finish_closes(1) [OF _ _ _ assms(6)])
    (use assms reach_ops(2) [OF assms(4,5)] in \<open>simp_all add: open_call_def\<close>)

lemma handle_start_life:
  assumes "ic_pc s = PStart" and "\<not> ic_done s" and "\<forall>x\<in>set (ic_log s). \<not> is_session_end x"
    and "handle_start env s = Returns s'"
  shows "goes_on False s s'"
  using assms reach_ops(1)
  by (auto simp: handle_start_def Let_def bind_outcome_Returns goes_on_def open_call_def CallStart_def
      set_sip_call_id_def count_call_def split: option.splits prod.splits)

lemma same_tables_refl [simp, intro]: "same_tables s s"
  by simp

lemma handle_dispatch_life:
  assumes "open_call s" and "handle_dispatch env disp s = Returns s'"
  shows "goes_on False s s' \<or> closes False s s'"
proof -
  define s1 where "s1 = (take_project disp (log (DispatchResult disp) s))
    \<lparr>ic_state := Update (ce_flush_ok env) (dispatched_info disp) (ic_state (take_project disp (log (DispatchResult disp) s)))\<rparr>"
  have s1: "open_call s1" "ic_leg s1 = ic_leg s" "same_tables s s1" using assms(1) by (auto simp: s1_def open_call_def)
  have s2: "open_call (s1\<lparr>ic_leg := l\<rparr>)" for l using s1 by (simp add: open_call_def)
  note res = assms(2) [unfolded handle_dispatch_def Let_def, folded s1_def]
  show ?thesis
  proof (cases "cd_result disp")
    case DispatchNoRuleReject
    with res obtain leg where "RespondAndDrop (leg_env_of env s1) 404 ''Does not match Trunks or Dispatch Rules'' (ic_leg s1) = Returns leg"
      "finish (Some (PsrpcErr NotFound ''no trunk configuration for call'' None))
         (call_close env callDropped ''no-dispatch'' (s1\<lparr>ic_leg := leg\<rparr>)) = Returns s'"
      by (auto simp: bind_outcome_Returns)
    with rejected_closes [OF s1, of 404] show ?thesis by simp
  next
    case (DispatchOther n)
    with res obtain leg err where "RespondAndDrop (leg_env_of env s1) 501 '''' (ic_leg s1) = Returns leg"
      "finish err (call_close env callDropped ''unexpected-result'' (s1\<lparr>ic_leg := leg\<rparr>)) = Returns s'"
      by (auto simp: bind_outcome_Returns)
    with rejected_closes [OF s1, of 501] show ?thesis by simp
  next
    case DispatchNoRuleDrop
    with res finish_closes(1) [OF s2, where s = s] reach_ops(3) s1 show ?thesis by fastforce
  qed (use res s1 in \<open>auto simp: goes_on_def open_call_def\<close>)
qed

lemma handle_media_life:
  assumes "open_call s" and "handle_media env me disp pin s = Returns s'"
  shows "goes_on False s s' \<or> closes False s s'"
proof -
  obtain s1 r where run: "runMediaConn env me (req_body (ic_req s)) (cd_media_encryption disp) (cd_enabled_features disp) s = (s1, r)"
    by fastforce
  note f = runMediaConn_frame [OF run]
  have s1: "open_call s1" "ic_leg s1 = ic_leg s" "same_tables s s1" using f assms(1) by (simp_all add: open_call_def)
  show ?thesis
  proof (cases r)
    case (Inl err)
    with assms(2) run obtain leg status reason where
      "RespondAndDrop (leg_env_of env s1) 500 '''' (ic_leg s1) = Returns leg"
      "finish (Some err) (call_close env status reason (s1\<lparr>ic_leg := leg\<rparr>)) = Returns s'"
      by (auto simp: handle_media_def bind_outcome_Returns split: prod.splits)
    with rejected_closes [OF s1, of 500] show ?thesis by simp
  next
    case (Inr data)
    with assms run f show ?thesis by (auto simp: handle_media_def goes_on_def open_call_def)
  qed
qed

lemma acceptCall_life:
  assumes "open_call s" and "\<forall>t\<in>set (tl tries). fst t = None"
    and "acceptCall env tries disp answer pin s = Returns s'"
  shows "goes_on True s s' \<or> closes True s s'"
proof -
  define s1 where "s1 = s\<lparr>ic_attrs_to_hdr := cd_attributes_to_headers disp\<rparr>"
  have s1: "open_call (s1\<lparr>ic_leg := l\<rparr>)" "ic_leg s1 = ic_leg s" "same_tables s s1" for l
    using assms(1) by (auto simp: s1_def open_call_def)
  from assms(3) obtain leg err hs where leg: "Accept (leg_env_of env s1) answer hs tries (ic_leg s1) = Returns (leg, err)"
    and res: "call_accepted env pin err (s1\<lparr>ic_leg := leg\<rparr>) = Returns s'"
    unfolding acceptCall_def Let_def s1_def [symmetric] by (auto simp: bind_outcome_Returns)
  have r: "leg_reach True (ic_leg s) leg" using reach_ops(8) [OF assms(2) leg] s1(2) by simp
  show ?thesis
  proof (cases err)
    case None
    with res r s1 show ?thesis by (auto simp: call_accepted_def goes_on_def open_call_def Let_def split: option.splits)
  next
    case (Some e)
    have fc: "leg_reach True (ic_leg s) (ic_leg (s1\<lparr>ic_leg := leg\<rparr>))" "same_tables s (s1\<lparr>ic_leg := leg\<rparr>)"
      using r by (simp_all add: s1_def)
    from Some res finish_closes(1,3) [OF s1(1) fc] show ?thesis
      by (auto simp: call_accepted_def split: if_splits)
  qed
qed

lemma goes_on_goto: "open_call s1 \<Longrightarrow> ic_leg s1 = ic_leg s \<Longrightarrow> same_tables s s1 \<Longrightarrow> running_pc pc \<Longrightarrow> goes_on acc s (goto pc s1)"
  by (simp add: goes_on_def open_call_def)

lemma wait_branch_life:
  assumes "open_call s" and "wait_branch env ev on_timer on_ready s = Returns s'"
    and "on_timer s = Returns s' \<Longrightarrow> goes_on False s s' \<or> closes False s s'"
    and "on_ready s = Returns s' \<Longrightarrow> goes_on False s s' \<or> closes False s s'"
  shows "goes_on False s s' \<or> closes False s s'"
  using assms finish_closes [OF assms(1) leg_reach_refl same_tables_refl] by (cases ev) auto

lemma after_media_life: "open_call s \<Longrightarrow> after_media pin s = Returns s' \<Longrightarrow> goes_on False s s'"
  by (auto simp: after_media_def Let_def goes_on_def open_call_def split: if_splits)

lemma waitMedia_life:
  "open_call s \<Longrightarrow> waitMedia env ev pin s = Returns s' \<Longrightarrow> goes_on False s s' \<or> closes False s s'"
  unfolding waitMedia_def
  by (rule wait_branch_life [of s env ev "after_media pin" "after_media pin"])
    (auto split: if_splits dest: after_media_life)

lemma waitSubscribe_life:
  "open_call s \<Longrightarrow> waitSubscribe env ev disp answer s = Returns s' \<Longrightarrow> goes_on False s s' \<or> closes False s s'"
  unfolding waitSubscribe_def
  by (rule wait_branch_life [of s env ev
        "\<lambda>s. finish (Some (PsrpcErr DeadlineExceeded ''room subscription timed out'' None))
               (call_close env callDropped ''cannot-subscribe'' s)"
        "\<lambda>s. Returns (goto (PAccept disp answer False) s)"])
    (auto split: if_splits intro: finish_closes(1) [OF _ leg_reach_refl same_tables_refl] goes_on_goto)

lemma wrong_pin_life:
  "open_call s1 \<Longrightarrow> ic_leg s1 = ic_leg s \<Longrightarrow> same_tables s s1 \<Longrightarrow> wrong_pin env s1 = Returns s' \<Longrightarrow> closes False s s'"
  unfolding wrong_pin_def
  by (rule finish_closes(1)) (auto simp: open_call_def)

lemma pinPrompt_life:
  assumes "open_call s" and "ic_pc s = PPin pin" and "pinPrompt env ev pin s = Returns s'"
  shows "goes_on False s s' \<or> closes False s s'"
proof (cases ev)
  case PinDigit
  with assms obtain b rest where b: "ic_dtmf s = b # rest" by (auto split: list.splits)
  define s1 where "s1 = s\<lparr>ic_dtmf := rest\<rparr>"
  have s1: "open_call s1" "ic_leg s1 = ic_leg s" "same_tables s s1" "ic_pc s1 = PPin pin"
    using assms by (auto simp: s1_def open_call_def)
  from assms(3) PinDigit b have "s' = s1 \<or> (\<exists>info. s' = goto (PPinCheck pin) (log (Dispatched info) s1))
     \<or> wrong_pin env s1 = Returns s' \<or> (\<exists>p. s' = goto (PPin p) s1)"
    by (auto simp: Let_def s1_def split: if_splits)
  then consider "s' = s1" | "\<exists>info. s' = goto (PPinCheck pin) (log (Dispatched info) s1)"
    | "wrong_pin env s1 = Returns s'" | "\<exists>p. s' = goto (PPin p) s1" by blast
  then show ?thesis
  proof cases
    case 1
    with s1 show ?thesis by (simp add: goes_on_def)
  next
    case 2
    with s1 show ?thesis by (auto simp: goes_on_def open_call_def)
  next
    case 3
    with wrong_pin_life [OF s1(1-3)] show ?thesis by simp
  next
    case 4
    with s1 show ?thesis by (auto simp: goes_on_def open_call_def)
  qed
qed (use assms finish_closes [OF assms(1) leg_reach_refl same_tables_refl] in \<open>auto split: if_splits\<close>)

lemma checkPin_life:
  assumes "open_call s" and "checkPin env disp s = Returns s'"
  shows "goes_on False s s' \<or> closes False s s'"
proof -
  have "open_call (take_project disp (log (DispatchResult disp) s))" using assms(1) by (auto simp: open_call_def)
  with assms(2) wrong_pin_life [of "take_project disp (log (DispatchResult disp) s)" s] show ?thesis
    by (auto simp: checkPin_def Let_def goes_on_def open_call_def split: if_splits)
qed

lemma createLiveKitParticipant_frame:
  assumes "createLiveKitParticipant env je rconf status s = (s', r)"
  shows "ic_leg s' = ic_leg s" "ic_done s' = ic_done s" "ic_cmon s' = ic_cmon s"
    "\<forall>x\<in>set (ic_log s') - set (ic_log s). \<not> is_session_end x \<and> \<not> is_dispatch x"
    "set (ic_log s) \<subseteq> set (ic_log s')"
    "ic_media s' = ic_media s" "same_tables s s'"
  using assms
  by (auto simp: createLiveKitParticipant_def Let_def split: option.splits prod.splits)

lemma joinRoom_life:
  assumes "open_call s" and "joinRoom env je disp answer pin s = Returns s'"
  shows "goes_on False s s' \<or> closes False s s'"
proof -
  define d where "d = prepare_join env disp s"
  obtain s1 r where run: "createLiveKitParticipant env je (cd_room d) (if pin then CallActive else CallRinging)
      (s\<lparr>ic_time_limit := Some (cd_max_call_duration d)\<rparr>) = (s1, r)"
    by fastforce
  note f = createLiveKitParticipant_frame [OF run]
  have s1: "open_call s1" "ic_leg s1 = ic_leg s" "same_tables s s1" using f assms(1) by (fastforce simp: open_call_def)+
  from assms(2) run have "case r of
      None \<Rightarrow> s' = goto (PPublish d answer pin) s1
    | Some e \<Rightarrow> finish (Some (WrapErr ''failed joining room'' (WrapErr ''cannot create LiveKit participant'' e)))
        (call_close env callDropped ''participant-failed'' s1) = Returns s'"
    by (auto simp: joinRoom_def Let_def d_def split: option.splits)
  with s1 finish_closes(1) [OF s1(1), where s = s] show ?thesis by (cases r) (auto intro: goes_on_goto)
qed

lemma publishTrack_cases:
  assumes "publishTrack env te old s = Returns (s', err)"
  shows "\<exists>r. NewParticipantTrack te (ic_room s) = Returns (r, err) \<and>
           (case err of
              Some e \<Rightarrow> s' = s\<lparr>ic_room := room_Close (ce_room_old env) r\<rparr>
            | None \<Rightarrow> \<exists>m m'. ic_media s = Some m \<and> WriteAudioTo old m = Returns m'
                        \<and> s' = s\<lparr>ic_room := r, ic_media := Some m'\<rparr>)"
proof -
  from assms obtain q where q: "NewParticipantTrack te (ic_room s) = Returns q"
    and res: "(case q of (r, err) \<Rightarrow> case err of
         Some e \<Rightarrow> Returns (s\<lparr>ic_room := room_Close (ce_room_old env) r\<rparr>, Some e)
       | None \<Rightarrow>
           (case ic_media s of
              None \<Rightarrow> Panics
            | Some m \<Rightarrow>
                bind_outcome (WriteAudioTo old m) (\<lambda>m.
                  Returns (s\<lparr>ic_room := r, ic_media := Some m\<rparr>, None)))) = Returns (s', err)"
    unfolding publishTrack_def bind_outcome_Returns by blast
  obtain r e where q': "q = (r, e)" by (cases q)
  show ?thesis
  proof (cases e)
    case None
    with res q' obtain m where m: "ic_media s = Some m" by (cases "ic_media s") auto
    with res q' None obtain m' where "WriteAudioTo old m = Returns m'" by (cases "WriteAudioTo old m") auto
    with res q q' None m show ?thesis by auto
  next
    case (Some e)
    with res q q' show ?thesis by auto
  qed
qed

lemma publishTrack_frame:
  assumes "publishTrack env te old s = Returns (s', r)"
  shows "ic_leg s' = ic_leg s" "ic_done s' = ic_done s" "ic_cmon s' = ic_cmon s" "ic_log s' = ic_log s" "same_tables s s'"
  using publishTrack_cases [OF assms] by (cases r; clarsimp)+

lemma handle_publish_life:
  assumes "open_call s" and "handle_publish env te old remotes disp answer pin s = Returns s'"
  shows "goes_on False s s' \<or> closes False s s'"
proof -
  from assms(2) obtain p where p: "publishTrack env te old s = Returns p"
    and res: "(case p of (s, err) \<Rightarrow>
       case err of
         Some e \<Rightarrow>
           finish (Some (WrapErr ''publishing track to room failed'' e))
             (call_close env callDropped ''publish-failed'' s)
       | None \<Rightarrow>
           (let s = s\<lparr>ic_room := Subscribe remotes (ic_room s)\<rparr>
            in Returns (goto (if pin then PActivate else PWaitSub disp answer) s))) = Returns s'"
    unfolding handle_publish_def bind_outcome_Returns by blast
  obtain s1 r where p': "p = (s1, r)" by (cases p)
  note run = p [unfolded p']
  note f = publishTrack_frame [OF run]
  have s1: "open_call s1" "ic_leg s1 = ic_leg s" "same_tables s s1" using f assms(1) by (auto simp: open_call_def)
  with res p' finish_closes(1) [OF s1(1), where s = s] show ?thesis
    by (cases r) (auto simp: goes_on_def open_call_def Let_def)
qed

lemma call_loop_life:
  assumes "open_call s" and "ic_pc s = PLoop noAck watch timer"
    and "call_loop env ev noAck watch timer s = Returns s'"
  shows "goes_on False s s' \<or> closes False s s'"
proof (cases ev)
  case LRoomClosed
  define s1 where "s1 = s\<lparr>ic_state := DeferUpdate (\<lambda>info. info\<lparr>ci_disconnect_reason := CLIENT_INITIATED\<rparr>) (ic_state s)\<rparr>"
  have "open_call s1" "leg_reach False (ic_leg s) (ic_leg s1)" "same_tables s s1"
    using assms(1) by (auto simp: s1_def open_call_def)
  from finish_closes(1) [OF this] assms(3) LRoomClosed show ?thesis
    unfolding s1_def by (auto split: if_splits)
qed (use assms finish_closes [OF assms(1) leg_reach_refl same_tables_refl] in
    \<open>auto simp: goes_on_def open_call_def split: if_splits\<close>)

fun accepting :: "call_pc \<Rightarrow> bool" where
  "accepting (PAccept disp answer pin) = True"
| "accepting _ = False"

lemma running_step_life:
  assumes "open_call s" and "running_pc (ic_pc s)"
    and "\<forall>tries. e = HAccept tries \<longrightarrow> (\<forall>t\<in>set (tl tries). fst t = None)"
    and "handler_step env e (ic_pc s) s = Returns s'"
  shows "goes_on (accepting (ic_pc s)) s s' \<or> closes (accepting (ic_pc s)) s s'"
proof (cases "ic_pc s")
  case PDispatch
  with assms handle_dispatch_life show ?thesis by (auto split: handler_event.splits)
next
  case (PMedia disp pin)
  with assms handle_media_life show ?thesis by (auto split: handler_event.splits)
next
  case (PAccept disp answer pin)
  with assms acceptCall_life show ?thesis by (auto split: handler_event.splits)
next
  case (PWaitMedia pin)
  with assms waitMedia_life show ?thesis by (auto split: handler_event.splits)
next
  case (PPin pin)
  with assms pinPrompt_life [OF assms(1) PPin] show ?thesis by (auto split: handler_event.splits)
next
  case (PPinCheck pin)
  with assms checkPin_life show ?thesis by (auto split: handler_event.splits)
next
  case (PJoin disp answer pin)
  with assms joinRoom_life show ?thesis by (auto split: handler_event.splits)
next
  case (PPublish disp answer pin)
  with assms handle_publish_life show ?thesis by (auto split: handler_event.splits)
next
  case (PWaitSub disp answer)
  with assms waitSubscribe_life show ?thesis by (auto split: handler_event.splits)
next
  case PActivate
  with assms have "s' = goto (ic_pc s') s' \<and> ic_leg s' = ic_leg s \<and> same_tables s s' \<and> open_call s' \<and> running_pc (ic_pc s')"
    by (auto simp: handle_activate_def Let_def open_call_def goto_def split: handler_event.splits)
  then show ?thesis by (simp add: goes_on_def)
next
  case (PLoop noAck watch timer)
  with assms call_loop_life [OF assms(1) PLoop] show ?thesis by (auto split: handler_event.splits)
qed (use assms in simp_all)

text \<open>An open call that is closed is shut.\<close>

lemma closed_by_shut:
  assumes "open_call s" and "leg_inv c0 (ic_leg s)" and "closed_by s s'"
  shows "leg_inv c0 (ic_leg s') \<and> shut_call s' \<and> cm_started (ic_cmon s')"
proof -
  from assms(3) obtain env st why tx where st: "400 \<le> st"
    and leg: "CloseWithStatus env st why tx (ic_leg s) = Returns (ic_leg s')"
    by (auto simp: closed_by_def)
  have "leg_closed (ic_leg s')" by (rule ends_closed(4) [OF assms(2) leg])
  moreover have "leg_inv c0 (ic_leg s')" by (rule CloseWithStatus_inv [OF assms(2) _ leg]) (use st in simp)
  moreover have "count_if is_session_end (ic_log s) = 0"
    using assms(1) by (simp add: open_call_def count_if_zero)
  ultimately show ?thesis
    using assms(1,3)
    by (auto simp: closed_by_def shut_call_def open_call_def unjoined_closed_def room_Close_def
        count_if_zero)
qed

lemma closes_shut:
  assumes "closes acc s s'" and "leg_inv c0 (ic_leg s)"
  shows "(\<exists>err. ic_pc s' = PClosing err) \<and> leg_inv c0 (ic_leg s') \<and> shut_call s' \<and> cm_started (ic_cmon s')"
proof -
  from assms(1) obtain s1 s2 err where "leg_reach acc (ic_leg s) (ic_leg s1)" "open_call s1"
    and s2: "closed_by s1 s2" "s' = goto (PClosing err) s2"
    by (auto simp: closes_def ends_from_def)
  with leg_reach_inv assms(2) closed_by_shut have "leg_inv c0 (ic_leg s2) \<and> shut_call s2 \<and> cm_started (ic_cmon s2)"
    by blast
  with s2(2) show ?thesis by (auto simp: shut_call_def)
qed

lemma handle_finish_life:
  assumes "shut_call s" and "handle_finish env err s = Returns s'"
  shows "ic_pc s' = PExit err \<and> ic_leg s' = ic_leg s \<and> shut_call s' \<and> ended_call s'"
proof -
  have "call_close env callDropped ''other'' s = Returns s"
    using assms(1) by (intro call_close_done) (simp add: shut_call_def)
  with assms show ?thesis
    by (auto simp: handle_finish_def Let_def shut_call_def ended_call_def ended_info_def CallEnd_def
        split: prod.splits if_splits)
qed

text \<open>What events from outside leave alone.\<close>

definition same_core :: "icall \<Rightarrow> icall \<Rightarrow> bool" where
  "same_core s s' \<longleftrightarrow>
     leg_reach False (ic_leg s) (ic_leg s') \<and> ic_pc s' = ic_pc s \<and> ic_done s' = ic_done s \<and> ic_cmon s' = ic_cmon s
     \<and> filter (\<lambda>x. is_session_end x \<or> is_dispatch x) (ic_log s') = filter (\<lambda>x. is_session_end x \<or> is_dispatch x) (ic_log s)
     \<and> cs_info (ic_state s') = cs_info (ic_state s)
     \<and> (ic_ctx_err s \<noteq> None \<longrightarrow> ic_ctx_err s' \<noteq> None)
     \<and> (ic_by_local s (sl_id (ic_leg s)) = None \<longrightarrow> ic_by_local s' (sl_id (ic_leg s)) = None)
     \<and> (unjoined_closed (ic_room s) \<longrightarrow> unjoined_closed (ic_room s'))
     \<and> map_option mp_closed (ic_media s') = map_option mp_closed (ic_media s)
     \<and> map_option mp_out_enabled (ic_media s') = map_option mp_out_enabled (ic_media s)
     \<and> rm_joined (ic_room s') = rm_joined (ic_room s) \<and> rm_p (ic_room s') = rm_p (ic_room s)"

lemma same_core_refl: "same_core s s"
  by (simp add: same_core_def)

lemma same_core_trans:
  assumes st: "same_core s t" and tu: "same_core t u"
  shows "same_core s u"
proof -
  have reach: "leg_reach False (ic_leg s) (ic_leg t)" using st by (simp add: same_core_def)
  then have "leg_reach False (ic_leg s) (ic_leg u)" using tu leg_reach_trans by (simp add: same_core_def)
  with leg_reach_ids [OF reach] st tu show ?thesis unfolding same_core_def by simp
qed

lemma transfer_restore_core: "same_core s (transfer_restore swapped retErr s)"
  by (auto simp: transfer_restore_def same_core_def split: option.split)

lemma transfer_finish_core:
  assumes "transfer_finish env tid swapped retErr s = Returns s'"
  shows "same_core s s'"
proof -
  define s1 where "s1 = transfer_restore swapped retErr (if retErr = None then log HangupAfterTransfer s else s)"
  from assms obtain st where st: "EndTransfer (ce_now env) (ce_flush_ok env) tid retErr (ic_state s1) = Returns st"
    and s': "s' = s1\<lparr>ic_state := st, ic_pending := filter (\<lambda>p. fst p \<noteq> tid) (ic_pending s1)\<rparr>"
    unfolding transfer_finish_def Let_def s1_def [symmetric] bind_outcome_Returns by auto
  have "same_core s (if retErr = None then log HangupAfterTransfer s else s)"
    by (simp add: same_core_def)
  then have "same_core s s1" unfolding s1_def by (rule same_core_trans) (rule transfer_restore_core)
  moreover have "same_core s1 s'" using EndTransfer_info [OF st] by (simp add: s' same_core_def)
  ultimately show ?thesis by (rule same_core_trans)
qed

lemma transfer_refer_core:
  assumes "transfer_refer env tid to hs tx_err (s, swapped) = Returns s'"
  shows "same_core s s'"
proof -
  from assms obtain q where q: "start_refer (leg_env_of env s) to hs tx_err (ic_leg s) = Returns q"
    and res: "(case q of (leg, err) \<Rightarrow>
       let s = s\<lparr>ic_leg := leg\<rparr>
       in case err of
            Some e \<Rightarrow> transfer_finish env tid swapped (Some e) s
          | None \<Rightarrow> Returns (s\<lparr>ic_pending := ic_pending s @ [(tid, swapped)]\<rparr>)) = Returns s'"
    unfolding transfer_refer_def prod.case bind_outcome_Returns by blast
  obtain leg err where q': "q = (leg, err)" by (cases q)
  have "same_core s (s\<lparr>ic_leg := leg\<rparr>)" using reach_ops(9) [OF q [unfolded q']] by (simp add: same_core_def)
  moreover have "same_core (s\<lparr>ic_leg := leg\<rparr>) s'"
    using res unfolding q' prod.case Let_def
    by (cases err) (auto simp: same_core_def dest: transfer_finish_core)
  ultimately show ?thesis by (rule same_core_trans)
qed

lemma transfer_begin_core:
  assumes "transfer_begin env tid to hs dialtone tx_err s = Returns s'"
  shows "same_core s s'"
proof -
  from assms obtain p where p: "StartTransfer tid (ce_now env) (ce_flush_ok env) to (ic_state s) = Returns p"
    and res: "transfer_refer env (snd p) to hs tx_err (transfer_mute env dialtone (s\<lparr>ic_state := fst p\<rparr>)) = Returns s'"
    unfolding transfer_begin_def bind_outcome_Returns case_prod_beta by blast
  obtain s1 swapped where m: "transfer_mute env dialtone (s\<lparr>ic_state := fst p\<rparr>) = (s1, swapped)" by fastforce
  have "StartTransfer tid (ce_now env) (ce_flush_ok env) to (ic_state s) = Returns (fst p, snd p)"
    using p by simp
  from StartTransfer_info [OF this] m have "same_core s s1"
    by (auto simp: transfer_mute_def same_core_def split: if_splits)
  moreover have "same_core s1 s'" using res m transfer_refer_core by simp
  ultimately show ?thesis by (rule same_core_trans)
qed

lemma outside_step_core:
  assumes "outside_step env e s = Returns s'"
  shows "same_core s s'"
proof (cases e)
  case (XRing i ev)
  with assms reach_ops(7) show ?thesis
    by (auto simp: bind_outcome_Returns same_core_def simp del: leg_step.simps)
next
  case (XTransfer tid to hs dialtone tx_err)
  with assms transfer_begin_core show ?thesis by (auto split: if_splits)
next
  case (XTransferResult tid result)
  with assms transfer_finish_core show ?thesis by (auto split: option.splits)
next
  case (XRoom ev)
  with assms room_step_remote room_remote_closed show ?thesis by (auto simp: same_core_def split: if_splits)
next
  case (XDtmf tone)
  with assms SendData_frame show ?thesis
    by (auto simp: same_core_def handleDTMF_def bind_outcome_Returns split: option.splits if_splits)
qed (use assms reach_ops(4,5) in
    \<open>auto simp: same_core_def ic_Bye_def ic_Close_def cancel_def split: if_splits option.splits\<close>)

text \<open>Nothing from outside that is not another call of the server touches its tables.\<close>

fun other_call :: "outside_event \<Rightarrow> bool" where
  "other_call (XOtherCall tag lid) = True"
| "other_call (XOtherGone tag lid) = True"
| "other_call _ = False"

lemma transfer_finish_tables: "transfer_finish env tid swapped retErr s = Returns s' \<Longrightarrow> same_tables s s'"
  by (auto simp: transfer_finish_def transfer_restore_def Let_def bind_outcome_Returns split: option.splits if_splits)

lemma transfer_refer_tables: "transfer_refer env tid to hs tx_err (s, swapped) = Returns s' \<Longrightarrow> same_tables s s'"
  unfolding transfer_refer_def prod.case bind_outcome_Returns Let_def
  by (elim exE conjE) (auto dest!: transfer_finish_tables split: prod.splits option.splits)

lemma transfer_begin_tables: "transfer_begin env tid to hs dialtone tx_err s = Returns s' \<Longrightarrow> same_tables s s'"
  unfolding transfer_begin_def bind_outcome_Returns transfer_mute_def Let_def
  by (elim exE conjE) (auto dest!: transfer_refer_tables split: prod.splits if_splits)

lemma outside_step_tables:
  assumes "outside_step env e s = Returns s'" and "\<not> other_call e"
  shows "same_tables s s'"
proof (cases e)
  case (XRing i ev)
  with assms show ?thesis by (auto simp: bind_outcome_Returns simp del: leg_step.simps)
next
  case (XTransfer tid to hs dialtone tx_err)
  with assms transfer_begin_tables show ?thesis by (auto split: if_splits)
next
  case (XTransferResult tid result)
  with assms transfer_finish_tables show ?thesis by (auto split: option.splits)
next
  case (XDtmf tone)
  with assms show ?thesis
    by (auto simp: handleDTMF_def bind_outcome_Returns split: option.splits if_splits)
qed (use assms in \<open>auto simp: ic_Bye_def ic_Close_def cancel_def split: if_splits option.splits\<close>)

text \<open>
  The events a call is made of: as for the leg, no sending of the 200 fails after an earlier
  one went out.
\<close>

fun call_event_ok :: "call_env \<times> call_event \<Rightarrow> bool" where
  "call_event_ok (env, Handler (HAccept tries)) = (\<forall>t\<in>set (tl tries). fst t = None)"
| "call_event_ok (env, e) = True"

lemma same_core_shut: "same_core s s' \<Longrightarrow> shut_call s \<Longrightarrow> shut_call s'"
proof -
  assume c: "same_core s s'" and shut: "shut_call s"
  have "map_option mp_closed (ic_media s') = map_option mp_closed (ic_media s)"
    using c by (simp add: same_core_def)
  then have media: "case ic_media s' of None \<Rightarrow> True | Some m \<Rightarrow> mp_closed m"
    using shut by (cases "ic_media s"; cases "ic_media s'") (auto simp: shut_call_def)
  have count: "count_if is_session_end (ic_log t) = length (filter is_session_end
      (filter (\<lambda>x. is_session_end x \<or> is_dispatch x) (ic_log t)))" for t
    by (auto simp: count_if_def intro!: arg_cong [of _ _ length] filter_cong)
  have reach: "leg_reach False (ic_leg s) (ic_leg s')" using c by (simp add: same_core_def)
  show ?thesis
    using c shut media leg_reach_ids [OF reach] leg_reach_closed [OF reach]
    by (auto simp: shut_call_def same_core_def count)
qed

lemma same_core_log:
  assumes "same_core s s'"
  shows "(\<forall>x\<in>set (ic_log s'). \<not> is_session_end x) \<longleftrightarrow> (\<forall>x\<in>set (ic_log s). \<not> is_session_end x)"
    and "is_dispatch x \<Longrightarrow> x \<in> set (ic_log s') \<longleftrightarrow> x \<in> set (ic_log s)"
proof -
  have eq: "{x \<in> set (ic_log s'). is_session_end x \<or> is_dispatch x} = {x \<in> set (ic_log s). is_session_end x \<or> is_dispatch x}"
    using assms unfolding same_core_def by (metis set_filter)
  from eq show "(\<forall>x\<in>set (ic_log s'). \<not> is_session_end x) \<longleftrightarrow> (\<forall>x\<in>set (ic_log s). \<not> is_session_end x)" by blast
  from eq show "is_dispatch x \<Longrightarrow> x \<in> set (ic_log s') \<longleftrightarrow> x \<in> set (ic_log s)" by blast
qed

lemma same_core_frame:
  "same_core s s' \<Longrightarrow> leg_reach False (ic_leg s) (ic_leg s')" "same_core s s' \<Longrightarrow> ic_pc s' = ic_pc s"
  "same_core s s' \<Longrightarrow> ic_done s' = ic_done s" "same_core s s' \<Longrightarrow> ic_cmon s' = ic_cmon s"
  "same_core s s' \<Longrightarrow> cs_info (ic_state s') = cs_info (ic_state s)"
  "same_core s s' \<Longrightarrow> rm_joined (ic_room s') = rm_joined (ic_room s)"
  "same_core s s' \<Longrightarrow> rm_p (ic_room s') = rm_p (ic_room s)"
  "same_core s s' \<Longrightarrow> map_option mp_out_enabled (ic_media s') = map_option mp_out_enabled (ic_media s)"
  by (simp_all add: same_core_def)

lemma same_core_open: "same_core s s' \<Longrightarrow> open_call s \<Longrightarrow> open_call s'"
  by (simp add: open_call_def same_core_frame same_core_log)

lemma same_core_life: "same_core s s' \<Longrightarrow> life_inv c0 s \<Longrightarrow> life_inv c0 s'"
proof -
  assume c: "same_core s s'" and inv: "life_inv c0 s"
  have leg: "leg_inv c0 (ic_leg s')"
    using leg_reach_inv [OF same_core_frame(1) [OF c]] inv by (simp add: life_inv_def)
  note pc = same_core_frame(2-5) [OF c] and start = same_core_log(1) [OF c]
  show ?thesis
    using inv leg start same_core_open [OF c] same_core_shut [OF c]
    unfolding life_inv_def pc ended_call_def by (cases "ic_pc s") auto
qed

text \<open>Every step is an event from outside, a step of an open call, or the deferred calls.\<close>

lemma call_step_cases:
  assumes "life_inv c0 s" and "call_event_ok e" and "call_step e s = Returns s'"
  obtains (Outside) o' where "snd e = Outside o'" and "outside_step (fst e) o' s = Returns s'"
  | (Goes_on) acc where "\<not> ic_done s" and "goes_on acc s s'"
  | (Closes) acc where "\<not> ic_done s" and "closes acc s s'"
  | (Finish) err where "ic_pc s = PClosing err" and "handle_finish (fst e) err s = Returns s'"
proof -
  obtain env ev where e: "e = (env, ev)" by (cases e)
  show ?thesis
  proof (cases ev)
    case (Outside o')
    with assms(3) e show ?thesis by (intro that(1)) simp_all
  next
    case (Handler h)
    with assms(3) e have step: "handler_step env h (ic_pc s) s = Returns s'" by simp
    have tries: "\<forall>tries. h = HAccept tries \<longrightarrow> (\<forall>t\<in>set (tl tries). fst t = None)"
      using assms(2) unfolding e Handler by (cases h) simp_all
    show ?thesis
    proof (cases "running_pc (ic_pc s)")
      case True
      with assms(1) have o: "open_call s" by (cases "ic_pc s") (simp_all add: life_inv_def)
      with running_step_life [OF o True tries step] that(2,3) show ?thesis by (auto simp: open_call_def)
    next
      case False
      then consider "ic_pc s = PStart" | err where "ic_pc s = PClosing err" | err where "ic_pc s = PExit err"
        by (cases "ic_pc s") auto
      then show ?thesis
      proof cases
        case 1
        with step have "handle_start env s = Returns s'" by (auto split: handler_event.splits)
        with handle_start_life [OF 1] assms(1) 1 that(2) [of False] show ?thesis by (simp add: life_inv_def)
      next
        case (2 err)
        with step e that(4) show ?thesis by (auto split: handler_event.splits)
      qed (use step in simp)
    qed
  qed
qed

lemma call_step_life:
  assumes "life_inv c0 s" and "call_event_ok e" and "call_step e s = Returns s'"
  shows "life_inv c0 s'"
proof -
  have inv: "leg_inv c0 (ic_leg s)" using assms(1) by (simp add: life_inv_def)
  show ?thesis using assms
  proof (cases rule: call_step_cases)
    case (Outside o')
    from same_core_life [OF outside_step_core [OF this(2)] assms(1)] show ?thesis .
  next
    case (Goes_on acc)
    with leg_reach_inv [OF _ inv] show ?thesis
      by (cases "ic_pc s'") (auto simp: goes_on_def life_inv_def)
  next
    case (Closes acc)
    from closes_shut [OF this(2) inv] show ?thesis by (auto simp: life_inv_def)
  next
    case (Finish err)
    with handle_finish_life [OF _ Finish(2)] assms(1) show ?thesis by (auto simp: life_inv_def)
  qed
qed

interpretation inbound_call: outcome_system call_step "life_inv c0" call_event_ok
  by unfold_locales (rule call_step_life)

lemma newInboundCall_life:
  "leg_inv c0 leg \<Longrightarrow> life_inv c0 (newInboundCall env jitter cmon mon leg call st req trunkID active by_local)"
  by (simp add: life_inv_def newInboundCall_def)

section \<open>Properties\<close>

lemma closed_by_reach: "closed_by s s' \<Longrightarrow> leg_reach acc (ic_leg s) (ic_leg s')"
  unfolding closed_by_def by (elim exE conjE, rule reach_ops(6)) simp_all

lemma call_step_reach:
  assumes "life_inv c0 s" and "call_event_ok e" and "call_step e s = Returns s'"
  shows "leg_reach True (ic_leg s) (ic_leg s')"
proof -
  have mono: "leg_reach acc c d \<Longrightarrow> leg_reach True c d" for acc c d by (auto simp: leg_reach_def)
  show ?thesis using assms
  proof (cases rule: call_step_cases)
    case (Outside o')
    from same_core_frame(1) [OF outside_step_core [OF this(2)]] show ?thesis by (rule leg_reach_mono)
  next
    case (Closes acc)
    then show ?thesis
      by (auto simp: closes_def ends_from_def intro: mono leg_reach_trans [OF mono closed_by_reach])
  next
    case (Finish err)
    with handle_finish_life [OF _ Finish(2)] assms(1) show ?thesis by (auto simp: life_inv_def)
  qed (auto simp: goes_on_def intro: mono)
qed

text \<open>
  What a step does to the tables of the server: nothing, unless it closes the call, which
  removes its identifier and whatever is registered under the tag of its remote.
\<close>

definition unregistered :: "icall \<Rightarrow> icall \<Rightarrow> bool" where
  "unregistered s s' \<longleftrightarrow> \<not> ic_done s \<and> ic_done s'
     \<and> ic_by_local s' = (ic_by_local s)(sl_id (ic_leg s) := None)
     \<and> ic_active s' = (ic_active s)(sl_tag (ic_leg s) := None)"

lemma handle_finish_tables:
  "ic_done s \<Longrightarrow> handle_finish env err s = Returns s' \<Longrightarrow> same_tables s s' \<and> ic_done s' = ic_done s"
  by (auto simp: handle_finish_def call_close_done Let_def)

lemma call_step_tables:
  assumes "life_inv c0 s" and "call_event_ok e" and "call_step e s = Returns s'"
    and other: "\<And>o'. snd e = Outside o' \<Longrightarrow> \<not> other_call o'"
  shows "same_tables s s' \<and> ic_done s' = ic_done s \<or> unregistered s s'"
  using assms(1-3)
proof (cases rule: call_step_cases)
  case (Outside o')
  with outside_step_tables [OF Outside(2) other] same_core_frame(3) [OF outside_step_core [OF Outside(2)]]
  show ?thesis by blast
next
  case (Goes_on acc)
  then show ?thesis by (simp add: goes_on_def open_call_def)
next
  case (Closes acc)
  then obtain s1 s2 err where s1: "leg_reach acc (ic_leg s) (ic_leg s1)" "same_tables s s1" "open_call s1"
    and s2: "closed_by s1 s2" "s' = goto (PClosing err) s2"
    by (auto simp: closes_def ends_from_def)
  have "leg_reach acc (ic_leg s) (ic_leg s2)" by (rule leg_reach_trans [OF s1(1) closed_by_reach [OF s2(1)]])
  from leg_reach_ids [OF this] s1 s2 Closes(1) show ?thesis
    by (auto simp: closed_by_def unregistered_def open_call_def)
next
  case (Finish err)
  with assms(1) handle_finish_tables [OF _ Finish(2)] show ?thesis by (simp add: life_inv_def shut_call_def)
qed

lemma call_runs_reach:
  "runs call_step s es s' \<Longrightarrow> life_inv c0 s \<Longrightarrow> (\<And>e. e \<in> set es \<Longrightarrow> call_event_ok e)
     \<Longrightarrow> leg_reach True (ic_leg s) (ic_leg s')"
proof (induction rule: runs.induct)
  case (runs_snoc s es s' e s'')
  have "life_inv c0 s'" by (rule inbound_call.runs_inv [OF runs_snoc.hyps(1)]) (use runs_snoc.prems in auto)
  from call_step_reach [OF this _ runs_snoc.hyps(2)] runs_snoc leg_reach_trans show ?case by auto
qed simp

text \<open>A call as \<open>processInvite\<close> makes it: a leg for the INVITE, and a call on it.\<close>

definition new_call ::
  "call_env \<Rightarrow> bool \<Rightarrow> call_monitor \<Rightarrow> monitor \<Rightarrow> string \<Rightarrow> URI \<Rightarrow> sip_request \<Rightarrow> sip_call \<Rightarrow> CallState \<Rightarrow> string
    \<Rightarrow> (string \<rightharpoonup> string) \<Rightarrow> (string \<rightharpoonup> string) \<Rightarrow> icall" where
  "new_call env jitter cmon mon lid uri invite call st trunkID active by_local =
     newInboundCall env jitter cmon mon (newInbound lid uri invite) call st invite trunkID active by_local"

lemma new_call_life: "life_inv (first_cseq invite) (new_call env jitter cmon mon lid uri invite call st trunkID active by_local)"
  unfolding new_call_def by (rule newInboundCall_life) (simp add: first_cseq_def newInbound_inv)

lemma new_call_leg [simp]:
  "ic_leg (new_call env jitter cmon mon lid uri invite call st trunkID active by_local) = newInbound lid uri invite"
  by (simp add: new_call_def newInboundCall_def)

text \<open>
  C1. However the handling of an INVITE, requests of the remote, the ringing goroutine, the
  media, the room and transfers interleave, as long as sending a 200 again does not fail
  (\<open>call_event_ok\<close>; where it fails a 486 may follow the 200, \<open>accept_send_error_then_reject\<close>): once
  the handler has returned, the leg is closed
  and its conversation was correct, the room is left, the media is closed, the context is over,
  the call is no longer registered under its identifier, it was counted as terminated and is
  no longer counted as active, the end of the session was reported once, and the state reported
  last is an error or a disconnect.
\<close>

theorem inbound_call_ends_clean:
  assumes "runs call_step (new_call env jitter cmon mon lid uri invite call st trunkID active by_local) es s"
    and "\<forall>e\<in>set es. call_event_ok e" and "ic_pc s = PExit err"
  shows "leg_closed (ic_leg s) \<and> trace_ok (first_cseq invite) (sl_out (ic_leg s))
     \<and> rm_closed (ic_room s) \<and> \<not> rm_joined (ic_room s)
     \<and> (case ic_media s of None \<Rightarrow> True | Some m \<Rightarrow> mp_closed m)
     \<and> ic_ctx_err s \<noteq> None \<and> ic_by_local s lid = None
     \<and> cm_terminated (ic_cmon s) \<and> \<not> cm_started (ic_cmon s)
     \<and> count_if is_session_end (ic_log s) = 1
     \<and> ci_status (cs_info (ic_state s)) \<in> {SCS_ERROR, SCS_DISCONNECTED}"
proof -
  note life0 = new_call_life [of invite env jitter cmon mon lid uri call st trunkID active by_local]
  have life: "life_inv (first_cseq invite) s"
    by (rule inbound_call.runs_inv [OF assms(1) life0]) (use assms(2) in auto)
  have "leg_reach True (newInbound lid uri invite) (ic_leg s)"
    using call_runs_reach [OF assms(1) life0] assms(2) by simp
  from leg_reach_ids [OF this] have "sl_id (ic_leg s) = lid" by (simp add: newInbound_def)
  with life assms(3) show ?thesis
    by (auto simp: life_inv_def shut_call_def ended_call_def unjoined_closed_def inv_trace)
qed

text \<open>
  C7. The call uses its leg only through the leg's operations: every run of a call, with all
  its interleavings, in which sending a 200 again does not fail (\<open>call_event_ok\<close>), is a run of the leg
  alone in which it does not fail either and no rejection has a status up to 200
  (\<open>leg_event_ok\<close>). So what is proved of every such run of a leg (one final response, numbering,
  silence after its end) holds of the leg of the call in every such run.
\<close>

theorem inbound_call_refines_leg:
  assumes "runs call_step (new_call env jitter cmon mon lid uri invite call st trunkID active by_local) es s"
    and "\<forall>e\<in>set es. call_event_ok e"
  shows "\<exists>les. runs leg_step (newInbound lid uri invite) les (ic_leg s) \<and> (\<forall>e\<in>set les. leg_event_ok e)"
  using call_runs_reach [OF assms(1) new_call_life] assms(2) by (auto simp: leg_reach_def)

fun waits :: "call_pc \<Rightarrow> bool" where
  "waits (PWaitMedia pin) = True"
| "waits (PPin pin) = True"
| "waits (PWaitSub disp answer) = True"
| "waits (PLoop noAck watch timer) = True"
| "waits pc = False"

definition ctx_branch :: "call_pc \<Rightarrow> handler_event" where
  "ctx_branch pc = (case pc of PPin pin \<Rightarrow> HPin PinCtx | PLoop noAck watch timer \<Rightarrow> HLoop LCtx | _ \<Rightarrow> HWait WCtx)"

lemma close_on_closed_leg:
  assumes "leg_closed (ic_leg s)" and "\<not> ic_done s"
  shows "\<exists>s'. call_close env status reason s = Returns s' \<and> ic_done s' \<and> ic_leg s' = drop_leg (ic_leg s)
           \<and> ic_state s' = ic_state s"
proof -
  define s1 where "s1 = on_mon (CallTerminate reason) (ic_setStatus status (s\<lparr>ic_done := True\<rparr>))"
  define s2 where "s2 = closeMedia env s1"
  obtain code why where st: "SIPStatus status = (code, why)" by (cases "SIPStatus status")
  have s2: "ic_leg s2 = ic_leg s" "ic_done s2" "ic_state s2 = ic_state s"
    by (auto simp: s2_def s1_def closeMedia_def Let_def split: option.split)
  then have "CloseWithStatus (leg_env_of env s2) code why (ce_tx env) (ic_leg s2) = Returns (drop_leg (ic_leg s))"
    using assms(1) by (simp add: CloseWithStatus_def leg_closed_def)
  with st assms(2) s2 show ?thesis
    by (simp add: call_close_def Let_def s1_def [symmetric] s2_def [symmetric])
qed

lemma hangup_on_closed_leg:
  assumes "leg_closed (ic_leg s)" and "\<not> ic_done s"
  shows "\<exists>s'. finish None (closeWithHangup env s) = Returns s' \<and> ic_done s' \<and> ic_leg s' = drop_leg (ic_leg s)
           \<and> ic_pc s' = PClosing None \<and> ci_disconnect_reason (cs_info (ic_state s')) = CLIENT_INITIATED"
proof -
  define s1 where "s1 = s\<lparr>ic_state := DeferUpdate (\<lambda>info.
                  let info = info\<lparr>ci_disconnect_reason := CLIENT_INITIATED\<rparr>
                  in if ci_error info = None \<and> \<not> IsNormal (loaded_reason s)
                     then info\<lparr>ci_error := Some (PlainErr (reason_string (loaded_reason s)))\<rparr> else info) (ic_state s)\<rparr>"
  obtain reason where r: "closeWithHangup env s = call_close env CallHangup reason s1"
    by (auto simp: closeWithHangup_def closeWithReason_def Let_def s1_def)
  have "leg_closed (ic_leg s1)" "\<not> ic_done s1" "ic_leg s1 = ic_leg s"
    "ci_disconnect_reason (cs_info (ic_state s1)) = CLIENT_INITIATED"
    using assms by (simp_all add: s1_def Let_def)
  with close_on_closed_leg [OF this(1,2), of env CallHangup reason] r show ?thesis
    by (auto simp: finish_Returns)
qed

text \<open>
  C8. When the remote hangs up, a call that waits anywhere (for media, a pin, a subscription, or
  in its main loop) gets to its end: the branch for the ended context is open, it closes the
  call without blocking or panicking and without sending anything more, and the deferred calls
  finish it, without an error and reported as ended by the client.
\<close>

theorem hangup_ends_call:
  assumes "life_inv c0 s" and "waits (ic_pc s)" and "routed s"
  shows "\<exists>s1 s2 s3. call_step (env, Outside (XBye reason)) s = Returns s1
     \<and> call_step (env, Handler (ctx_branch (ic_pc s))) s1 = Returns s2
     \<and> call_step (env, Handler HFinish) s2 = Returns s3
     \<and> ic_pc s3 = PExit None \<and> said (ic_leg s3) = said (ic_leg s)
     \<and> ci_disconnect_reason (cs_info (ic_state s3)) = CLIENT_INITIATED"
proof -
  define s1 where "s1 = ic_Bye reason (s\<lparr>ic_leg := AcceptBye (ic_leg s)\<rparr>)"
  have leg: "leg_inv c0 (ic_leg s)" and nd: "\<not> ic_done s"
    using assms(1,2) by (cases "ic_pc s"; simp add: life_inv_def open_call_def)+
  have s1: "leg_closed (ic_leg s1)" "\<not> ic_done s1" "ic_ctx_err s1 \<noteq> None" "ic_pc s1 = ic_pc s"
    "ic_leg s1 = AcceptBye (ic_leg s)"
    using ends_closed(2) [OF leg] nd by (simp_all add: s1_def ic_Bye_def ic_Close_def)
  from hangup_on_closed_leg [OF s1(1,2)] obtain s2 where s2: "finish None (closeWithHangup env s1) = Returns s2"
    "ic_done s2" "ic_leg s2 = drop_leg (ic_leg s1)" "ic_pc s2 = PClosing None"
    "ci_disconnect_reason (cs_info (ic_state s2)) = CLIENT_INITIATED" by blast
  define s3 where "s3 = goto (PExit None) ((on_mon CallEnd s2)
      \<lparr>ic_state := Update (ce_flush_ok env) (ended_info (ce_now env) None) (ic_state (on_mon CallEnd s2))\<rparr>)"
  have s3: "handle_finish env None s2 = Returns s3"
    by (simp add: handle_finish_def call_close_done [OF s2(2)] s3_def Let_def)
  have bye: "call_step (env, Outside (XBye reason)) s = Returns s1" using assms(3) by (simp add: s1_def)
  have branch: "call_step (env, Handler (ctx_branch (ic_pc s))) s1 = Returns s2"
    using assms(2) s1 s2(1)
    by (cases "ic_pc s") (auto simp: ctx_branch_def waitMedia_def waitSubscribe_def)
  have "said (ic_leg s3) = said (ic_leg s)"
    using s1 s2(3) by (simp add: s3_def said_def AcceptBye_def leg_closed_def)
  then show ?thesis using bye branch s3 s2(4,5)
    by (intro exI [of _ s1] exI [of _ s2] exI [of _ s3]) (simp add: s3_def ended_info_def Let_def)
qed

definition example_call_env :: call_env where
  "example_call_env =
     \<lparr>ce_leg = example_leg_env, ce_tx = (None, []), ce_old = (False, False), ce_room_old = False,
      ce_now = 0, ce_flush_ok = True, ce_room_sid = ''RM_1'', ce_room_name = ''room'',
      ce_room_attrs = Map.empty, ce_visit = (\<lambda>m. []), ce_pre = ''sip.'', ce_hpre = ''sip.h.'',
      ce_keys = [], ce_status_attr = ''sip.callStatus''\<rparr>"

definition example_sip_call :: sip_call where
  "example_sip_call =
     \<lparr>sc_lk_call_id = ''SCL_1'', sc_sip_call_id = '''', sc_source_ip = ''10.0.0.2'',
      sc_address = ToSIPUri '''' empty_uri, sc_from = ToSIPUri '''' empty_uri,
      sc_to = ToSIPUri '''' empty_uri, sc_via = []\<rparr>"

abbreviation example_call :: "monitor \<Rightarrow> icall" where
  "example_call mon \<equiv> new_call example_call_env False (NewCall Inbound ''a'' ''b'') mon ''SCL_1''
     (getContactURI zero_config None TransportUDP) example_invite example_sip_call (NewCallState True None) ''ST_1''
     Map.empty Map.empty"

definition no_rule :: CallDispatch where
  "no_rule = zero_dispatch\<lparr>cd_result := DispatchNoRuleDrop\<rparr>"

abbreviation example_events :: "(call_env \<times> call_event) list" where
  "example_events \<equiv> [(example_call_env, Handler HStart), (example_call_env, Handler (HDispatch no_rule)),
     (example_call_env, Handler HFinish)]"

text \<open>A call that is dropped after its dispatch, to its end.\<close>

lemma example_start:
  "\<exists>s. call_step (example_call_env, Handler HStart) (example_call mon) = Returns s
     \<and> ic_pc s = PDispatch \<and> sl_invite_ok (ic_leg s) = None \<and> \<not> ic_done s \<and> sl_invite_tx (ic_leg s)"
  by (simp add: new_call_def newInboundCall_def handle_start_def set_sip_call_id_def count_call_def on_mon_def
      CallStart_def NewCall_def newInbound_def example_invite_def bare_request_def StartRinging_def attachTag_def
      set_tag_def sendRinging_def respond_def Let_def goto_def log_def)

lemma drop_dispatch:
  assumes "ic_pc s = PDispatch" and "sl_invite_ok (ic_leg s) = None" and "\<not> ic_done s" and "cd_result disp = DispatchNoRuleDrop"
  shows "\<exists>s' err. call_step (env, Handler (HDispatch disp)) s = Returns s' \<and> ic_pc s' = PClosing err
     \<and> ic_done s' \<and> ic_leg s' = drop_leg (drop_leg (ic_leg s))"
proof -
  define s1 where "s1 = (take_project disp (log (DispatchResult disp) s))
    \<lparr>ic_state := Update (ce_flush_ok env) (dispatched_info disp) (ic_state (take_project disp (log (DispatchResult disp) s)))\<rparr>"
  define s2 where "s2 = s1\<lparr>ic_leg := drop_leg (ic_leg s1)\<rparr>"
  have s2: "leg_closed (ic_leg s2)" "\<not> ic_done s2" "ic_leg s2 = drop_leg (ic_leg s)"
    using assms(3) by (simp_all add: s2_def s1_def leg_closed_def)
  from close_on_closed_leg [OF s2(1,2), of env callFlood "''flood''"] obtain s3 where
    "call_close env callFlood ''flood'' s2 = Returns s3" "ic_done s3" "ic_leg s3 = drop_leg (ic_leg s2)" by blast
  moreover have "handle_dispatch env disp s =
      finish (Some (PsrpcErr PermissionDenied ''call was not authorized by trunk configuration'' None))
        (call_close env callFlood ''flood'' s2)"
    by (simp add: handle_dispatch_def Let_def s2_def s1_def assms(4))
  ultimately show ?thesis using assms(1) s2 by (simp add: finish_def)
qed

lemma finish_done:
  "ic_done s \<Longrightarrow> ic_pc s = PClosing err \<Longrightarrow>
     \<exists>s'. call_step (env, Handler HFinish) s = Returns s' \<and> ic_pc s' = PExit err"
  by (simp add: handle_finish_def call_close_done Let_def)

lemma example_run: "\<exists>s err. runs call_step (example_call mon) example_events s \<and> ic_pc s = PExit err"
proof -
  obtain s1 where s1: "call_step (example_call_env, Handler HStart) (example_call mon) = Returns s1"
    "ic_pc s1 = PDispatch" "sl_invite_ok (ic_leg s1) = None" "\<not> ic_done s1"
    using example_start by blast
  have "cd_result no_rule = DispatchNoRuleDrop" by (simp add: no_rule_def)
  from drop_dispatch [OF s1(2-4) this] obtain s2 err where
    s2: "call_step (example_call_env, Handler (HDispatch no_rule)) s1 = Returns s2" "ic_pc s2 = PClosing err" "ic_done s2"
    by blast
  from finish_done [OF s2(3,2)] obtain s3 where
    s3: "call_step (example_call_env, Handler HFinish) s2 = Returns s3" "ic_pc s3 = PExit err" by blast
  have "runs call_step (example_call mon) example_events s3"
    by (rule runs_Cons [where step = call_step, OF s1(1)], rule runs_Cons [where step = call_step, OF s2(1)],
        rule runs_one [where step = call_step, OF s3(1)])
  with s3(2) show ?thesis by blast
qed

theorem inbound_call_ends_clean_witness:
  "\<forall>mon. \<exists>s err. runs call_step (example_call mon) example_events s \<and> ic_pc s = PExit err
     \<and> leg_closed (ic_leg s) \<and> ic_by_local s ''SCL_1'' = None \<and> count_if is_session_end (ic_log s) = 1"
proof
  fix mon
  obtain s err where s: "runs call_step (example_call mon) example_events s" "ic_pc s = PExit err"
    using example_run by blast
  from inbound_call_ends_clean [OF s(1) _ s(2)] s
  show "\<exists>s err. runs call_step (example_call mon) example_events s \<and> ic_pc s = PExit err
     \<and> leg_closed (ic_leg s) \<and> ic_by_local s ''SCL_1'' = None \<and> count_if is_session_end (ic_log s) = 1"
    by (intro exI [of _ s] exI [of _ err]) simp
qed

theorem inbound_call_refines_leg_witness:
  "\<forall>mon. \<exists>s les. runs call_step (example_call mon) example_events s
     \<and> runs leg_step (newInbound ''SCL_1'' (getContactURI zero_config None TransportUDP) example_invite) les (ic_leg s)"
proof
  fix mon
  obtain s where s: "runs call_step (example_call mon) example_events s"
    using example_run by blast
  from inbound_call_refines_leg [OF s] s show "\<exists>s les. runs call_step (example_call mon) example_events s
     \<and> runs leg_step (newInbound ''SCL_1'' (getContactURI zero_config None TransportUDP) example_invite) les (ic_leg s)"
    by auto
qed

theorem hangup_ends_call_witness:
  "\<forall>mon. \<exists>s1 s2 s3.
     (let s = (example_call mon)\<lparr>ic_pc := PPin ''12'', ic_cmon := (NewCall Inbound ''a'' ''b'')\<lparr>cm_started := True\<rparr>\<rparr>
      in call_step (example_call_env, Outside (XBye zero_reason)) s = Returns s1
       \<and> call_step (example_call_env, Handler (HPin PinCtx)) s1 = Returns s2
       \<and> call_step (example_call_env, Handler HFinish) s2 = Returns s3 \<and> ic_pc s3 = PExit None)"
proof
  fix mon
  define s where "s = (example_call mon)\<lparr>ic_pc := PPin ''12'', ic_cmon := (NewCall Inbound ''a'' ''b'')\<lparr>cm_started := True\<rparr>\<rparr>"
  have life: "life_inv (first_cseq example_invite) s"
    using new_call_life [of example_invite example_call_env False "NewCall Inbound ''a'' ''b''" mon]
    by (auto simp: life_inv_def s_def new_call_def newInboundCall_def open_call_def)
  have pc: "ic_pc s = PPin ''12''" "waits (ic_pc s)" "routed s"
    by (simp_all add: s_def routed_def new_call_def newInboundCall_def)
  from hangup_ends_call [OF life pc(2,3), of example_call_env zero_reason]
  obtain s1 s2 s3 where "call_step (example_call_env, Outside (XBye zero_reason)) s = Returns s1"
    "call_step (example_call_env, Handler (HPin PinCtx)) s1 = Returns s2"
    "call_step (example_call_env, Handler HFinish) s2 = Returns s3" "ic_pc s3 = PExit None"
    unfolding ctx_branch_def pc(1) by auto
  then show "\<exists>s1 s2 s3.
     (let s = (example_call mon)\<lparr>ic_pc := PPin ''12'', ic_cmon := (NewCall Inbound ''a'' ''b'')\<lparr>cm_started := True\<rparr>\<rparr>
      in call_step (example_call_env, Outside (XBye zero_reason)) s = Returns s1
       \<and> call_step (example_call_env, Handler (HPin PinCtx)) s1 = Returns s2
       \<and> call_step (example_call_env, Handler HFinish) s2 = Returns s3 \<and> ic_pc s3 = PExit None)"
    unfolding s_def [symmetric] Let_def by blast
qed

end
