(* ===== verification/Inbound_Permission.thy ===== *)
theory Inbound_Permission
  imports Inbound_Life
begin

text \<open>
  What the backend allows is what an inbound call does: it is answered, joins a room and sends
  audio only after a dispatch result that says so, and the pins it submits are bounded.
\<close>

section \<open>What the backend allows\<close>

definition ok_sent :: "sip_inbound \<Rightarrow> bool" where
  "ok_sent l \<longleftrightarrow> (\<exists>m\<in>set (sl_out l). is_ok m)"

lemma respond_no_ok:
  "respond env st why c = Returns d \<Longrightarrow> st \<noteq> 200 \<Longrightarrow> \<exists>xs. sl_out d = sl_out c @ xs \<and> (\<forall>x\<in>set xs. \<not> is_ok x)"
  by (auto simp: respond_def split: if_splits option.splits)

lemma drop_no_ok: "\<exists>xs. sl_out (drop_leg c) = sl_out c @ xs \<and> (\<forall>x\<in>set xs. \<not> is_ok x)"
  by simp

lemma RespondAndDrop_no_ok:
  "RespondAndDrop env st why c = Returns d \<Longrightarrow> st \<noteq> 200 \<Longrightarrow> \<exists>xs. sl_out d = sl_out c @ xs \<and> (\<forall>x\<in>set xs. \<not> is_ok x)"
  by (auto simp: RespondAndDrop_def bind_outcome_Returns dest!: respond_no_ok)

lemma sendBye_no_ok:
  assumes "sendBye env tx c = Returns d"
  shows "\<exists>xs. sl_out d = sl_out c @ xs \<and> (\<forall>x\<in>set xs. \<not> is_ok x)"
proof (cases "sl_invite_ok c \<noteq> None \<and> sl_invite c \<noteq> None")
  case False
  with assms show ?thesis by (auto simp: sendBye_def split: option.splits)
next
  case True
  with assms show ?thesis
    by (auto simp: sendBye_def Let_def leg_setCSeq_def bind_outcome_Returns split: if_splits)
qed

lemma leg_step_out:
  assumes "leg_step e c = Returns d" and "leg_event_ok e" and "\<not> is_accept e"
  shows "\<exists>xs. sl_out d = sl_out c @ xs \<and> (\<forall>x\<in>set xs. \<not> is_ok x)"
proof -
  obtain env ev where e: "e = (env, ev)" by (cases e)
  have refer: "\<exists>xs. sl_out d = sl_out c @ xs \<and> (\<forall>x\<in>set xs. \<not> is_ok x)"
    if start: "start_refer env to hs te c = Returns (d, err)" for to hs te err
  proof -
    from start obtain a r where r: "newReferReq env to hs c = Returns (a, r)"
      and res: "(case (r, te) of (Inl e, _) \<Rightarrow> Returns (a, Some e) | (Inr req, Some e) \<Rightarrow> Returns (a, Some e)
        | (Inr req, None) \<Rightarrow> Returns (emit (LegRefer req) a, None)) = Returns (d, err)"
      by (auto simp: start_refer_def bind_outcome_Returns)
    have "sl_out a = sl_out c" using newReferReq_cases [OF r] by auto
    with res show ?thesis by (cases r; cases te) auto
  qed
  have ring: "\<exists>xs. sl_out d = sl_out c @ xs \<and> (\<forall>x\<in>set xs. \<not> is_ok x)"
    if "ring_step env i re g c = Returns d" for i re g
    using that
    by (cases re) (auto simp: sendRinging_def split: if_splits dest!: respond_no_ok RespondAndDrop_no_ok)
  show ?thesis
  proof (cases ev)
    case (EvClose st why tx)
    with assms e show ?thesis
      by (auto simp: CloseWithStatus_def sendStatus_def Let_def split: if_splits option.splits dest: sendBye_no_ok)
  next
    case EvStartRinging
    with assms(1) e show ?thesis
      by (auto simp: StartRinging_def sendRinging_def bind_outcome_Returns attachTag_def split: if_splits option.splits
          dest!: respond_no_ok)
  next
    case (EvRefer to hs te)
    with assms(1) e refer show ?thesis by (auto simp: bind_outcome_Returns)
  next
    case (EvRing i re)
    with assms(1) e ring show ?thesis by (auto split: if_splits)
  qed (use assms e in \<open>auto simp: Processing_def AcceptAck_def AcceptBye_def
      dest!: respond_no_ok RespondAndDrop_no_ok\<close>)
qed

lemma Accept_out: "Accept env sdp hs tries c = Returns (d, err) \<Longrightarrow> \<exists>xs. sl_out d = sl_out c @ xs"
  by (auto simp: Accept_def Let_def split: if_splits option.splits outcome.splits sum.splits)

lemma leg_reach_out:
  assumes "leg_reach acc c d"
  shows "\<exists>xs. sl_out d = sl_out c @ xs \<and> (\<not> acc \<longrightarrow> (\<forall>x\<in>set xs. \<not> is_ok x))"
proof -
  from assms obtain es where "runs leg_step c es d" "\<forall>e\<in>set es. leg_event_ok e \<and> (is_accept e \<longrightarrow> acc)"
    by (auto simp: leg_reach_def)
  then show ?thesis
  proof (induction rule: runs.induct)
    case (runs_snoc c es d e d')
    then obtain xs where xs: "sl_out d = sl_out c @ xs" "\<not> acc \<longrightarrow> (\<forall>x\<in>set xs. \<not> is_ok x)" by auto
    have "\<exists>ys. sl_out d' = sl_out d @ ys \<and> (\<not> acc \<longrightarrow> (\<forall>x\<in>set ys. \<not> is_ok x))"
    proof (cases "is_accept e")
      case True
      then obtain env sdp hs tries where "e = (env, EvAccept sdp hs tries)" by (cases e rule: is_accept.cases) auto
      with runs_snoc.hyps(2) have "\<exists>ys. sl_out d' = sl_out d @ ys"
        by (auto simp: bind_outcome_Returns dest: Accept_out)
      with runs_snoc.prems True show ?thesis by auto
    next
      case False
      from runs_snoc.prems have "leg_event_ok e" by simp
      from leg_step_out [OF runs_snoc.hyps(2) this False] show ?thesis by blast
    qed
    then obtain ys where "sl_out d' = sl_out d @ ys" "\<not> acc \<longrightarrow> (\<forall>x\<in>set ys. \<not> is_ok x)" by blast
    with xs show ?case by (intro exI [of _ "xs @ ys"]) auto
  qed simp
qed

lemma leg_reach_ok: "leg_reach acc c d \<Longrightarrow> ok_sent c \<Longrightarrow> ok_sent d"
  and leg_reach_not_ok: "leg_reach False c d \<Longrightarrow> ok_sent d \<longleftrightarrow> ok_sent c"
  using leg_reach_out [of acc c d] leg_reach_out [of False c d] by (auto simp: ok_sent_def)

fun accepts :: "dispatch_result \<Rightarrow> bool" where
  "accepts DispatchAccept = True"
| "accepts DispatchRequestPin = True"
| "accepts _ = False"

text \<open>The call was dispatched with a result that lets it be answered.\<close>

definition may_answer :: "icall \<Rightarrow> bool" where
  "may_answer s \<longleftrightarrow> (\<exists>d. DispatchResult d \<in> set (ic_log s) \<and> accepts (cd_result d))"

definition may_join :: "string \<Rightarrow> icall \<Rightarrow> bool" where
  "may_join name s \<longleftrightarrow> (\<exists>d. DispatchResult d \<in> set (ic_log s) \<and> cd_result d = DispatchAccept
     \<and> rc_room_name (cd_room d) = name)"

definition allowed_core :: "icall \<Rightarrow> bool" where
  "allowed_core s \<longleftrightarrow>
     (ok_sent (ic_leg s) \<longrightarrow> may_answer s)
     \<and> (rm_joined (ic_room s) \<longrightarrow> may_join (pi_room_name (rm_p (ic_room s))) s)
     \<and> (map_option mp_out_enabled (ic_media s) = Some True \<longrightarrow> ok_sent (ic_leg s))
     \<and> (\<forall>info. Dispatched info \<in> set (ic_log s) \<longrightarrow> length (cinfo_pin info) \<le> pinLimit)"

fun allowed_pc :: "call_pc \<Rightarrow> icall \<Rightarrow> bool" where
  "allowed_pc (PMedia d pin) s = (DispatchResult d \<in> set (ic_log s)
     \<and> cd_result d = (if pin then DispatchRequestPin else DispatchAccept))"
| "allowed_pc (PAccept d answer pin) s = may_answer s"
| "allowed_pc (PWaitSub d answer) s = may_answer s"
| "allowed_pc (PPublish d answer pin) s = may_answer s"
| "allowed_pc (PJoin d answer pin) s = (DispatchResult d \<in> set (ic_log s) \<and> cd_result d = DispatchAccept)"
| "allowed_pc (PPin pin) s = (length pin \<le> pinLimit)"
| "allowed_pc (PPinCheck pin) s = (length pin \<le> pinLimit)"
| "allowed_pc pc s = True"

definition allowed_inv :: "icall \<Rightarrow> bool" where
  "allowed_inv s \<longleftrightarrow> allowed_core s \<and> allowed_pc (ic_pc s) s"

lemma may_answer_mono: "may_answer s \<Longrightarrow> set (ic_log s) \<subseteq> set (ic_log t) \<Longrightarrow> may_answer t"
  by (auto simp: may_answer_def)

lemma may_join_mono: "may_join n s \<Longrightarrow> set (ic_log s) \<subseteq> set (ic_log t) \<Longrightarrow> may_join n t"
  by (auto simp: may_join_def)

text \<open>Steps that leave the log, the room's identity and the answer alone.\<close>

lemma allowed_core_cong:
  assumes "allowed_core s" and "ok_sent (ic_leg t) \<longleftrightarrow> ok_sent (ic_leg s)"
    and "rm_joined (ic_room t) \<longrightarrow> rm_joined (ic_room s) \<and> rm_p (ic_room t) = rm_p (ic_room s)"
    and "map_option mp_out_enabled (ic_media t) = Some True \<longrightarrow>
           map_option mp_out_enabled (ic_media s) = Some True \<or> ok_sent (ic_leg s)"
    and "set (ic_log s) \<subseteq> set (ic_log t)"
    and "\<forall>info. Dispatched info \<in> set (ic_log t) \<longrightarrow> Dispatched info \<in> set (ic_log s) \<or> length (cinfo_pin info) \<le> pinLimit"
  shows "allowed_core t"
  using assms unfolding allowed_core_def
  by (auto intro: may_answer_mono may_join_mono)

lemma allowed_goto [simp]: "allowed_core (goto pc s) = allowed_core s" "allowed_pc pc' (goto pc s) = allowed_pc pc' s"
  by (simp_all add: goto_def allowed_core_def may_answer_def may_join_def)
    (cases pc'; simp add: may_answer_def)

lemma closed_by_allowed:
  assumes "closed_by s s'" and "allowed_core s"
  shows "allowed_core s'"
proof -
  from assms(1) obtain env st why tx xs reason old where st: "400 \<le> st"
    and leg: "CloseWithStatus env st why tx (ic_leg s) = Returns (ic_leg s')"
    and log: "ic_log s' = ic_log s @ xs @ [DeregisterTransfer (sl_id (ic_leg s')), SessionEnd reason]"
    "\<forall>x\<in>set xs. \<not> is_session_end x \<and> \<not> is_dispatch x"
    and rest: "ic_room s' = room_Close old (ic_room s)"
    and media: "\<exists>old. ic_media s' = map_option (media_Close old) (ic_media s)"
    unfolding closed_by_def by blast
  have "leg_reach False (ic_leg s) (ic_leg s')" by (rule reach_ops(6) [OF _ leg]) (use st in simp)
  note ok = leg_reach_not_ok [OF this]
  show ?thesis
  proof (rule allowed_core_cong [OF assms(2) ok])
    show "map_option mp_out_enabled (ic_media s') = Some True \<longrightarrow>
           map_option mp_out_enabled (ic_media s) = Some True \<or> ok_sent (ic_leg s)"
      using media by (cases "ic_media s") auto
    show "\<forall>info. Dispatched info \<in> set (ic_log s') \<longrightarrow> Dispatched info \<in> set (ic_log s) \<or> length (cinfo_pin info) \<le> pinLimit"
      using log by auto
  qed (use log rest in \<open>auto simp: room_Close_def\<close>)
qed

lemma ends_allowed: "ends_from s s' \<Longrightarrow> allowed_core s \<Longrightarrow> allowed_inv s'"
  using closed_by_allowed by (auto simp: ends_from_def allowed_inv_def)

lemma finish_allowed:
  assumes "allowed_core s" and "\<not> ic_done s"
  shows "finish err (call_close env status reason s) = Returns s' \<Longrightarrow> allowed_inv s'"
    "finish err (closeWithTimeout env s) = Returns s' \<Longrightarrow> allowed_inv s'"
    "finish err (closeWithNoACK env s) = Returns s' \<Longrightarrow> allowed_inv s'"
    "finish err (closeWithCancelled env s) = Returns s' \<Longrightarrow> allowed_inv s'"
    "finish err (closeWithHangup env s) = Returns s' \<Longrightarrow> allowed_inv s'"
  by (auto intro: ends_allowed [OF _ assms(1)] finish_close [OF assms(2)])

lemma allowed_same_core:
  assumes "same_core s s'" and "allowed_inv s"
  shows "allowed_inv s'"
proof -
  have log: "is_dispatch x \<Longrightarrow> x \<in> set (ic_log s') \<longleftrightarrow> x \<in> set (ic_log s)" for x
    by (rule same_core_log(2) [OF assms(1)])
  have may: "may_answer s' = may_answer s" "may_join n s' = may_join n s" for n
    using log by (auto simp: may_answer_def may_join_def)
  have "allowed_core s'"
    using assms(2) log leg_reach_not_ok [OF same_core_frame(1) [OF assms(1)]]
    by (auto simp: allowed_inv_def allowed_core_def may same_core_frame [OF assms(1)])
  moreover have "allowed_pc (ic_pc s') s'"
    using assms(2) log by (cases "ic_pc s") (auto simp: allowed_inv_def may same_core_frame [OF assms(1)])
  ultimately show ?thesis by (simp add: allowed_inv_def)
qed

text \<open>The handler, operation by operation.\<close>

lemma core_leg:
  "allowed_core s \<Longrightarrow> leg_reach False (ic_leg s) l \<Longrightarrow> allowed_core (s\<lparr>ic_leg := l\<rparr>)"
  by (rule allowed_core_cong [of s]) (auto simp: leg_reach_not_ok)

lemma handle_start_allowed:
  assumes "allowed_core s" and "handle_start env s = Returns s'"
  shows "allowed_inv s'"
proof -
  define s2 where "s2 = set_sip_call_id (count_call s)"
  from assms(2) obtain leg info where leg: "StartRinging (leg_env_of env s2) (ic_leg s2) = Returns leg"
    and s': "s' = goto PDispatch (log (Dispatched info) (s2\<lparr>ic_leg := leg\<rparr>))" "cinfo_pin info = ''''"
    by (auto simp: handle_start_def Let_def s2_def bind_outcome_Returns)
  have "ic_leg s2 = ic_leg s \<and> ic_room s2 = ic_room s \<and> ic_media s2 = ic_media s \<and> ic_log s2 = ic_log s"
    by (auto simp: s2_def set_sip_call_id_def count_call_def split: option.split)
  moreover from this reach_ops(1) [OF leg] have "leg_reach False (ic_leg s) leg" by simp
  ultimately have "allowed_core s'" unfolding s'(1)
    by (intro allowed_core_cong [OF assms(1)]) (auto simp: leg_reach_not_ok s'(2))
  then show ?thesis by (simp add: allowed_inv_def s'(1))
qed

lemma rejected_allowed:
  assumes "allowed_core s" and "\<not> ic_done s" and "200 < st"
    and "RespondAndDrop e st why (ic_leg s) = Returns leg"
    and "finish err (call_close env status reason (s\<lparr>ic_leg := leg\<rparr>)) = Returns s'"
  shows "allowed_inv s'"
  by (rule finish_allowed(1) [OF core_leg [OF assms(1) reach_ops(2) [OF assms(3,4)]] _ assms(5)])
    (use assms(2) in simp)

lemma handle_dispatch_allowed:
  assumes "allowed_core s" and "\<not> ic_done s" and "handle_dispatch env disp s = Returns s'"
  shows "allowed_inv s'"
proof -
  define s1 where "s1 = (take_project disp (log (DispatchResult disp) s))
    \<lparr>ic_state := Update (ce_flush_ok env) (dispatched_info disp) (ic_state (take_project disp (log (DispatchResult disp) s)))\<rparr>"
  have core: "allowed_core s1"
    by (rule allowed_core_cong [OF assms(1)]) (auto simp: s1_def)
  have s1: "\<not> ic_done s1" "DispatchResult disp \<in> set (ic_log s1)" using assms(2) by (simp_all add: s1_def)
  note res = assms(3) [unfolded handle_dispatch_def Let_def, folded s1_def]
  show ?thesis
  proof (cases "cd_result disp")
    case DispatchAccept
    with res core s1 show ?thesis by (auto simp: allowed_inv_def)
  next
    case DispatchRequestPin
    with res core s1 show ?thesis by (auto simp: allowed_inv_def)
  next
    case DispatchNoRuleReject
    with res obtain leg where "RespondAndDrop (leg_env_of env s1) 404 ''Does not match Trunks or Dispatch Rules'' (ic_leg s1) = Returns leg"
      "finish (Some (PsrpcErr NotFound ''no trunk configuration for call'' None))
         (call_close env callDropped ''no-dispatch'' (s1\<lparr>ic_leg := leg\<rparr>)) = Returns s'"
      by (auto simp: bind_outcome_Returns)
    with rejected_allowed [OF core s1(1), of 404] show ?thesis by simp
  next
    case (DispatchOther n)
    with res obtain leg err where "RespondAndDrop (leg_env_of env s1) 501 '''' (ic_leg s1) = Returns leg"
      "finish err (call_close env callDropped ''unexpected-result'' (s1\<lparr>ic_leg := leg\<rparr>)) = Returns s'"
      by (auto simp: bind_outcome_Returns)
    with rejected_allowed [OF core s1(1), of 501] show ?thesis by simp
  next
    case DispatchNoRuleDrop
    have "allowed_core (s1\<lparr>ic_leg := drop_leg (ic_leg s1)\<rparr>)" by (rule core_leg [OF core reach_ops(3)])
    from finish_allowed(1) [OF this] DispatchNoRuleDrop res s1(1) show ?thesis by auto
  qed
qed

lemma runMediaConn_media:
  assumes "runMediaConn env me offer enc fs s = (s', r)"
  shows "ic_media s' = ic_media s \<or> (\<exists>m. ic_media s' = Some m \<and> \<not> mp_out_enabled m)"
proof -
  have "mp_out_enabled p = False" if "SetConfig e c (SetDTMFAudio b (DisableOut q)) = (p, x)" for e c b q p x
    using SetConfig_enabled [of e c "SetDTMFAudio b (DisableOut q)"] that
    by (simp add: SetDTMFAudio_def DisableOut_def)
  with assms show ?thesis
    by (auto simp: runMediaConn_def Let_def HandleDTMF_def SetDTMFAudio_def DisableOut_def
        split: prod.splits option.splits sum.splits if_splits)
qed

lemma handle_media_allowed:
  assumes "allowed_inv s" and "\<not> ic_done s" and "ic_pc s = PMedia disp pin"
    and "handle_media env me disp pin s = Returns s'"
  shows "allowed_inv s'"
proof -
  obtain s1 r where run: "runMediaConn env me (req_body (ic_req s)) (cd_media_encryption disp) (cd_enabled_features disp) s = (s1, r)"
    by fastforce
  note f = runMediaConn_frame [OF run]
  have core: "allowed_core s1"
    by (rule allowed_core_cong [of s])
      (use assms(1) f runMediaConn_media [OF run] in \<open>auto simp: allowed_inv_def\<close>)
  have pc: "DispatchResult disp \<in> set (ic_log s1)" "cd_result disp = (if pin then DispatchRequestPin else DispatchAccept)"
    using assms(1,3) f by (auto simp: allowed_inv_def)
  have may: "may_answer s1" unfolding may_answer_def by (rule exI [of _ disp]) (use pc in auto)
  show ?thesis
  proof (cases r)
    case (Inl err)
    with assms(4) run obtain leg status reason where
      "RespondAndDrop (leg_env_of env s1) 500 '''' (ic_leg s1) = Returns leg"
      "finish (Some err) (call_close env status reason (s1\<lparr>ic_leg := leg\<rparr>)) = Returns s'"
      by (auto simp: handle_media_def bind_outcome_Returns split: prod.splits)
    with rejected_allowed [OF core, of 500] assms(2) f show ?thesis by simp
  next
    case (Inr data)
    with assms(4) run have "s' = goto (if pin then PAccept disp data True else PJoin disp data False) s1"
      by (simp add: handle_media_def)
    with core may pc show ?thesis by (simp add: allowed_inv_def)
  qed
qed

lemma Accept_answers:
  assumes "Accept env sdp hs tries c = Returns (d, None)"
  shows "ok_sent d"
proof -
  have tx: "sl_invite_tx c" using assms by (auto simp: Accept_def split: if_splits)
  with assms obtain invite where invite: "sl_invite c = Some invite"
    by (auto simp: Accept_def split: option.splits)
  define res where "res = accept_tries (cf_inbound_wait_ack (le_conf env)) (sl_leg_tr (stopRinging c)) tries"
  define m where "m = LegRespond invite 200 ''OK'' sdp
    (AppendContact (sl_contact c) # addExtraHeaders env c @
      [AppendHeader ''Content-Type'' ''application/sdp''] @ map (\<lambda>(k, v). AppendHeader k v) hs)"
  have "sl_out d = sl_out c @ replicate (ar_sent res) m \<and> (\<exists>e. ar_end res = Returns (Inr e))"
    using assms tx invite
    by (auto simp: Accept_def Let_def res_def m_def split: outcome.splits sum.splits)
  moreover from this have "0 < ar_sent res" using accept_loop_sent by (auto simp: res_def accept_tries_def Let_def)
  ultimately show ?thesis by (auto simp: ok_sent_def m_def)
qed

lemma acceptCall_allowed:
  assumes "allowed_inv s" and "\<not> ic_done s" and "ic_pc s = PAccept disp answer pin"
    and ok: "\<forall>t\<in>set (tl tries). fst t = None"
    and "acceptCall env tries disp answer pin s = Returns s'"
  shows "allowed_inv s'"
proof -
  define s1 where "s1 = s\<lparr>ic_attrs_to_hdr := cd_attributes_to_headers disp\<rparr>"
  from assms(5) obtain leg err hs where leg: "Accept (leg_env_of env s1) answer hs tries (ic_leg s1) = Returns (leg, err)"
    and res: "call_accepted env pin err (s1\<lparr>ic_leg := leg\<rparr>) = Returns s'"
    unfolding acceptCall_def Let_def s1_def [symmetric] by (auto simp: bind_outcome_Returns)
  have may: "may_answer s" using assms(1,3) by (simp add: allowed_inv_def)
  have keeps: "ok_sent (ic_leg s) \<Longrightarrow> ok_sent leg"
    using leg_reach_ok [OF reach_ops(8) [OF ok leg]] by (simp add: s1_def)
  have core: "allowed_core (s1\<lparr>ic_leg := leg\<rparr>)"
    using assms(1) may keeps by (auto simp: allowed_inv_def allowed_core_def s1_def may_answer_def may_join_def)
  have sent: "ok_sent leg" if "err = None" using Accept_answers leg that by blast
  show ?thesis
  proof (cases err)
    case None
    with res obtain m where m: "ic_media s1 = Some m"
      and s': "s' = goto (PWaitMedia pin) (s1\<lparr>ic_leg := leg, ic_watch_ack := \<not> cf_inbound_wait_ack (ce_conf env),
         ic_timeout := EnableTimeout (ce_now env) True (ic_timeout s1), ic_media := Some (EnableOut m)\<rparr>)"
      by (auto simp: call_accepted_def Let_def split: option.splits)
    have "allowed_core s'" unfolding s'
      using core sent [OF None] by (auto simp: allowed_core_def may_answer_def may_join_def goto_def)
    then show ?thesis by (simp add: allowed_inv_def s')
  next
    case (Some e)
    have "\<not> ic_done (s1\<lparr>ic_leg := leg\<rparr>)" using assms(2) by (simp add: s1_def)
    from Some res finish_allowed(1,3) [OF core this] show ?thesis
      by (auto simp: call_accepted_def split: if_splits)
  qed
qed

lemma core_log:
  "allowed_core s \<Longrightarrow> (\<forall>info. a = Dispatched info \<longrightarrow> length (cinfo_pin info) \<le> pinLimit) \<Longrightarrow> allowed_core (log a s)"
  by (rule allowed_core_cong [of s]) auto

lemma core_setStatus: "allowed_core s \<Longrightarrow> allowed_core (ic_setStatus v s)"
  using set_status_cases [of v s] core_log [of s "SetCallStatus (Attribute v)"] by auto

lemma after_media_allowed: "allowed_core s \<Longrightarrow> after_media pin s = Returns s' \<Longrightarrow> allowed_inv s'"
  by (auto simp: after_media_def Let_def allowed_inv_def core_setStatus core_log split: if_splits)

lemma wait_branch_allowed:
  assumes "allowed_core s" and "\<not> ic_done s" and "wait_branch env ev on_timer on_ready s = Returns s'"
    and "on_timer s = Returns s' \<Longrightarrow> allowed_inv s'" and "on_ready s = Returns s' \<Longrightarrow> allowed_inv s'"
  shows "allowed_inv s'"
  using assms finish_allowed [OF assms(1,2)] by (cases ev) auto

lemma waitMedia_allowed:
  "allowed_core s \<Longrightarrow> \<not> ic_done s \<Longrightarrow> waitMedia env ev pin s = Returns s' \<Longrightarrow> allowed_inv s'"
  unfolding waitMedia_def
  by (rule wait_branch_allowed [of s env ev "after_media pin" "after_media pin"])
    (auto split: if_splits dest: after_media_allowed)

lemma waitSubscribe_allowed:
  assumes "allowed_inv s" and "\<not> ic_done s" and "ic_pc s = PWaitSub disp answer"
    and "waitSubscribe env ev disp answer s = Returns s'"
  shows "allowed_inv s'"
proof (rule wait_branch_allowed [where s = s and env = env and ev = ev and s' = s'])
  show core: "allowed_core s" using assms(1) by (simp add: allowed_inv_def)
  show "\<not> ic_done s" by (rule assms(2))
  show "wait_branch env ev
             (\<lambda>s. finish (Some (PsrpcErr DeadlineExceeded ''room subscription timed out'' None))
                    (call_close env callDropped ''cannot-subscribe'' s))
             (\<lambda>s. Returns (goto (PAccept disp answer False) s)) s = Returns s'"
    using assms(4) by (auto simp: waitSubscribe_def split: if_splits)
  show "finish (Some (PsrpcErr DeadlineExceeded ''room subscription timed out'' None))
          (call_close env callDropped ''cannot-subscribe'' s) = Returns s' \<Longrightarrow> allowed_inv s'"
    by (rule finish_allowed(1) [OF core assms(2)])
  show "Returns (goto (PAccept disp answer False) s) = Returns s' \<Longrightarrow> allowed_inv s'"
    using assms(1,3) by (auto simp: allowed_inv_def)
qed

lemma wrong_pin_allowed: "allowed_core s \<Longrightarrow> \<not> ic_done s \<Longrightarrow> wrong_pin env s = Returns s' \<Longrightarrow> allowed_inv s'"
  unfolding wrong_pin_def by (rule finish_allowed(1)) (auto intro: core_log)

lemma pinPrompt_allowed:
  assumes "allowed_inv s" and "\<not> ic_done s" and "ic_pc s = PPin pin" and "pinPrompt env ev pin s = Returns s'"
  shows "allowed_inv s'"
proof -
  have core: "allowed_core s" and len: "length pin \<le> pinLimit" using assms(1,3) by (simp_all add: allowed_inv_def)
  show ?thesis
  proof (cases ev)
    case PinDigit
    with assms obtain b rest where b: "ic_dtmf s = b # rest" by (auto split: list.splits)
    define s1 where "s1 = s\<lparr>ic_dtmf := rest\<rparr>"
    have s1: "allowed_core s1" "\<not> ic_done s1" "ic_pc s1 = PPin pin"
      using core assms(2,3) by (auto simp: s1_def allowed_core_def may_answer_def may_join_def)
    from assms(4) PinDigit b have "s' = s1
      \<or> (\<exists>info. s' = goto (PPinCheck pin) (log (Dispatched info) s1) \<and> cinfo_pin info = pin)
      \<or> wrong_pin env s1 = Returns s' \<or> (\<exists>p. s' = goto (PPin p) s1 \<and> length p \<le> pinLimit)"
      by (auto simp: Let_def s1_def split: if_splits)
    then consider "s' = s1"
      | info where "s' = goto (PPinCheck pin) (log (Dispatched info) s1)" "cinfo_pin info = pin"
      | "wrong_pin env s1 = Returns s'" | p where "s' = goto (PPin p) s1" "length p \<le> pinLimit"
      by blast
    then show ?thesis
    proof cases
      case 1
      with s1 len show ?thesis by (simp add: allowed_inv_def)
    next
      case (2 info)
      with s1 len show ?thesis by (auto simp: allowed_inv_def intro: core_log)
    next
      case 3
      with wrong_pin_allowed s1 show ?thesis by blast
    next
      case (4 p)
      with s1 show ?thesis by (simp add: allowed_inv_def)
    qed
  qed (use assms finish_allowed [OF core assms(2)] in \<open>auto split: if_splits\<close>)
qed

lemma checkPin_allowed:
  assumes "allowed_core s" and "\<not> ic_done s" and "checkPin env disp s = Returns s'"
  shows "allowed_inv s'"
proof -
  define s1 where "s1 = take_project disp (log (DispatchResult disp) s)"
  have s1: "allowed_core s1" by (rule allowed_core_cong [OF assms(1)]) (auto simp: s1_def)
  have "\<not> ic_done s1" using assms(2) by (simp add: s1_def)
  with assms(3) wrong_pin_allowed [OF s1] show ?thesis
    by (auto simp: checkPin_def Let_def s1_def [symmetric] allowed_inv_def split: if_splits intro: core_log [OF s1])
      (simp add: s1_def)
qed

lemma createLiveKitParticipant_room:
  assumes "createLiveKitParticipant env je rconf status s = (s', r)"
  shows "ic_room s' = ic_room s \<or> pi_room_name (rm_p (ic_room s')) = rc_room_name rconf"
  using assms
  by (auto simp: createLiveKitParticipant_def Let_def split: option.splits prod.splits dest: Connect_name)

lemma joinRoom_allowed:
  assumes "allowed_inv s" and "\<not> ic_done s" and "ic_pc s = PJoin disp answer pin"
    and "joinRoom env je disp answer pin s = Returns s'"
  shows "allowed_inv s'"
proof -
  define d where "d = prepare_join env disp s"
  have name: "rc_room_name (cd_room d) = rc_room_name (cd_room disp)" by (simp add: d_def prepare_join_def Let_def)
  have core: "allowed_core s" and disp: "DispatchResult disp \<in> set (ic_log s)" "cd_result disp = DispatchAccept"
    using assms(1,3) by (simp_all add: allowed_inv_def)
  obtain s1 r where run: "createLiveKitParticipant env je (cd_room d) (if pin then CallActive else CallRinging)
      (s\<lparr>ic_time_limit := Some (cd_max_call_duration d)\<rparr>) = (s1, r)"
    by fastforce
  note f = createLiveKitParticipant_frame [OF run] and room = createLiveKitParticipant_room [OF run]
  have sub: "set (ic_log s) \<subseteq> set (ic_log s1)" using f by simp
  have "may_join (rc_room_name (cd_room d)) s1" unfolding may_join_def
    by (rule exI [of _ disp]) (use disp sub name in auto)
  moreover have "may_answer s1" unfolding may_answer_def
    by (rule exI [of _ disp]) (use disp sub in auto)
  moreover have "\<forall>info. Dispatched info \<in> set (ic_log s1) \<longrightarrow> Dispatched info \<in> set (ic_log s)"
  proof (intro allI impI)
    fix info
    assume "Dispatched info \<in> set (ic_log s1)"
    with bspec [OF f(4), of "Dispatched info"] show "Dispatched info \<in> set (ic_log s)" by auto
  qed
  ultimately have core1: "allowed_core s1" and may: "may_answer s1"
    using core f room by (auto simp: allowed_core_def intro: may_join_mono [OF _ sub])
  have "\<not> ic_done s1" using f assms(2) by simp
  from assms(4) run have "case r of
      None \<Rightarrow> s' = goto (PPublish d answer pin) s1
    | Some e \<Rightarrow> finish (Some (WrapErr ''failed joining room'' (WrapErr ''cannot create LiveKit participant'' e)))
        (call_close env callDropped ''participant-failed'' s1) = Returns s'"
    by (auto simp: joinRoom_def Let_def d_def split: option.splits)
  with core1 may finish_allowed(1) [OF core1 \<open>\<not> ic_done s1\<close>] show ?thesis
    by (cases r) (auto simp: allowed_inv_def)
qed

lemma publishTrack_room:
  assumes "publishTrack env te old s = Returns (s', err)"
  shows "rm_joined (ic_room s') \<longrightarrow> rm_joined (ic_room s) \<and> rm_p (ic_room s') = rm_p (ic_room s)"
    and "map_option mp_out_enabled (ic_media s') = map_option mp_out_enabled (ic_media s)"
proof -
  from publishTrack_cases [OF assms] obtain r where r: "NewParticipantTrack te (ic_room s) = Returns (r, err)"
    and s': "case err of
              Some e \<Rightarrow> s' = s\<lparr>ic_room := room_Close (ce_room_old env) r\<rparr>
            | None \<Rightarrow> \<exists>m m'. ic_media s = Some m \<and> WriteAudioTo old m = Returns m'
                        \<and> s' = s\<lparr>ic_room := r, ic_media := Some m'\<rparr>" by blast
  note f = NewParticipantTrack_frame [OF r]
  from s' f show "rm_joined (ic_room s') \<longrightarrow> rm_joined (ic_room s) \<and> rm_p (ic_room s') = rm_p (ic_room s)"
    by (cases err) (auto simp: room_Close_def)
  from s' show "map_option mp_out_enabled (ic_media s') = map_option mp_out_enabled (ic_media s)"
    by (cases err) (auto dest: WriteAudioTo_enabled)
qed

lemma handle_publish_allowed:
  assumes "allowed_inv s" and "\<not> ic_done s" and "ic_pc s = PPublish disp answer pin"
    and "handle_publish env te old remotes disp answer pin s = Returns s'"
  shows "allowed_inv s'"
proof -
  have core: "allowed_core s" and may: "may_answer s" using assms(1,3) by (simp_all add: allowed_inv_def)
  from assms(4) obtain p where p: "publishTrack env te old s = Returns p"
    and res: "(case p of (s, err) \<Rightarrow>
       case err of
         Some e \<Rightarrow>
           finish (Some (WrapErr ''publishing track to room failed'' e))
             (call_close env callDropped ''publish-failed'' s)
       | None \<Rightarrow>
           (let s = s\<lparr>ic_room := Subscribe remotes (ic_room s)\<rparr>
            in Returns (goto (if pin then PActivate else PWaitSub disp answer) s))) = Returns s'"
    unfolding handle_publish_def bind_outcome_Returns by blast
  obtain s1 e where p': "p = (s1, e)" by (cases p)
  note f = publishTrack_frame [OF p [unfolded p']]
  have core1: "allowed_core s1"
    by (rule allowed_core_cong [OF core]) (simp_all add: publishTrack_room [OF p [unfolded p']] f)
  have open0: "\<not> ic_done s1" using f assms(2) by simp
  have may1: "may_answer s1" using may f(4) by (simp add: may_answer_def)
  show ?thesis
  proof (cases e)
    case None
    have "allowed_core (s1\<lparr>ic_room := Subscribe remotes (ic_room s1)\<rparr>)"
      by (rule allowed_core_cong [OF core1]) (simp_all add: Subscribe_frame)
    with None res p' may1 show ?thesis by (auto simp: allowed_inv_def Let_def may_answer_def)
  next
    case (Some x)
    with res p' finish_allowed(1) [OF core1 open0] show ?thesis by auto
  qed
qed

lemma call_loop_allowed:
  assumes core: "allowed_core s" and open0: "\<not> ic_done s" and pc: "ic_pc s = PLoop noAck watch timer"
    and "call_loop env ev noAck watch timer s = Returns s'"
  shows "allowed_inv s'"
proof (cases ev)
  case LTick
  with assms show ?thesis by (auto simp: allowed_inv_def allowed_core_def may_answer_def may_join_def)
next
  case LRoomClosed
  define s1 where "s1 = s\<lparr>ic_state := DeferUpdate (\<lambda>info. info\<lparr>ci_disconnect_reason := CLIENT_INITIATED\<rparr>) (ic_state s)\<rparr>"
  have "allowed_core s1" using core by (auto simp: s1_def allowed_core_def may_answer_def may_join_def)
  moreover have "\<not> ic_done s1" using open0 by (simp add: s1_def)
  ultimately show ?thesis
    using assms(4) LRoomClosed finish_allowed(1) [of s1] unfolding s1_def by (auto split: if_splits)
next
  case LAckTimer
  with assms show ?thesis by (auto simp: allowed_inv_def allowed_core_def may_answer_def may_join_def split: if_splits)
qed (use assms finish_allowed [OF core open0] in \<open>auto simp: allowed_inv_def split: if_splits\<close>)

lemma handle_finish_allowed:
  assumes "allowed_core s" and "ic_done s" and "handle_finish env err s = Returns s'"
  shows "allowed_inv s'"
proof -
  from assms have "s' = goto (PExit err) ((on_mon CallEnd s)
      \<lparr>ic_state := Update (ce_flush_ok env) (ended_info (ce_now env) err) (ic_state (on_mon CallEnd s))\<rparr>)"
    by (simp add: handle_finish_def Let_def call_close_done)
  with assms(1) show ?thesis
    by (auto simp: allowed_inv_def allowed_core_def may_answer_def may_join_def)
qed

lemma call_step_allowed:
  assumes life: "life_inv c0 s" and inv: "allowed_inv s" and "call_event_ok e" and "call_step e s = Returns s'"
  shows "allowed_inv s'"
proof -
  obtain env ev where e: "e = (env, ev)" by (cases e)
  show ?thesis
  proof (cases ev)
    case (Outside o')
    with assms(4) e have "outside_step env o' s = Returns s'" by simp
    from allowed_same_core [OF outside_step_core [OF this] inv] show ?thesis .
  next
    case (Handler h)
    with assms(4) e have step: "handler_step env h (ic_pc s) s = Returns s'" by simp
    have tries: "h = HAccept tries \<Longrightarrow> \<forall>t\<in>set (tl tries). fst t = None" for tries
      using assms(3) unfolding e Handler by (cases h) simp_all
    have core: "allowed_core s" using inv by (simp add: allowed_inv_def)
    have open0: "running_pc (ic_pc s) \<Longrightarrow> \<not> ic_done s" "\<And>err. ic_pc s = PClosing err \<Longrightarrow> ic_done s"
      using life by (cases "ic_pc s"; simp add: life_inv_def open_call_def shut_call_def)+
    show ?thesis
    proof (cases "ic_pc s")
      case PStart
      with step core handle_start_allowed show ?thesis by (auto split: handler_event.splits)
    next
      case PDispatch
      with step core open0 handle_dispatch_allowed show ?thesis by (auto split: handler_event.splits)
    next
      case (PMedia disp pin)
      with step open0 handle_media_allowed [OF inv _ PMedia] show ?thesis by (auto split: handler_event.splits)
    next
      case (PAccept disp answer pin)
      with step open0 acceptCall_allowed [OF inv _ PAccept tries] show ?thesis by (auto split: handler_event.splits)
    next
      case (PWaitMedia pin)
      with step core open0 waitMedia_allowed show ?thesis by (auto split: handler_event.splits)
    next
      case (PPin pin)
      with step open0 pinPrompt_allowed [OF inv _ PPin] show ?thesis by (auto split: handler_event.splits)
    next
      case (PPinCheck pin)
      with step core open0 checkPin_allowed show ?thesis by (auto split: handler_event.splits)
    next
      case (PJoin disp answer pin)
      with step open0 joinRoom_allowed [OF inv _ PJoin] show ?thesis by (auto split: handler_event.splits)
    next
      case (PPublish disp answer pin)
      with step open0 handle_publish_allowed [OF inv _ PPublish] show ?thesis by (auto split: handler_event.splits)
    next
      case (PWaitSub disp answer)
      with step open0 waitSubscribe_allowed [OF inv _ PWaitSub] show ?thesis by (auto split: handler_event.splits)
    next
      case PActivate
      with step core show ?thesis
        by (auto simp: handle_activate_def Let_def allowed_inv_def allowed_core_def may_answer_def may_join_def
            split: handler_event.splits)
    next
      case (PLoop noAck watch timer)
      with step core open0 call_loop_allowed [OF core _ PLoop] show ?thesis by (auto split: handler_event.splits)
    next
      case (PClosing err)
      with step core open0 handle_finish_allowed show ?thesis by (auto split: handler_event.splits)
    next
      case (PExit err)
      with step show ?thesis by simp
    qed
  qed
qed

interpretation inbound_permission: outcome_system call_step "\<lambda>s. life_inv c0 s \<and> allowed_inv s" call_event_ok
  by unfold_locales (auto dest: call_step_life call_step_allowed)

section \<open>Properties\<close>

lemma new_call_allowed: "allowed_inv (new_call env jitter cmon mon lid uri invite call st trunkID active by_local)"
  by (auto simp: allowed_inv_def allowed_core_def new_call_def newInboundCall_def ok_sent_def newInbound_def NewRoom_def)

lemma call_runs_allowed:
  assumes "runs call_step (new_call env jitter cmon mon lid uri invite call st trunkID active by_local) es s"
    and "\<forall>e\<in>set es. call_event_ok e"
  shows "allowed_inv s"
proof -
  have "life_inv (first_cseq invite) s \<and> allowed_inv s"
    by (rule inbound_permission.runs_inv [OF assms(1)]) (use assms(2) new_call_life new_call_allowed in auto)
  then show ?thesis ..
qed

text \<open>
  C2. As long as sending a 200 again does not fail (\<open>call_event_ok\<close>): a caller gets a 200 only after the backend answered a dispatch of this call with an accept
  or a request for a pin; the call is in a room only if a dispatch was accepted with the name of
  that very room; and audio is let out to the caller only after the 200.
\<close>

theorem inbound_needs_dispatch:
  assumes "runs call_step (new_call env jitter cmon mon lid uri invite call st trunkID active by_local) es s"
    and "\<forall>e\<in>set es. call_event_ok e"
  shows "((\<exists>m\<in>set (sl_out (ic_leg s)). is_ok m) \<longrightarrow>
            (\<exists>d. DispatchResult d \<in> set (ic_log s) \<and> (cd_result d = DispatchAccept \<or> cd_result d = DispatchRequestPin)))
     \<and> (rm_joined (ic_room s) \<longrightarrow>
            (\<exists>d. DispatchResult d \<in> set (ic_log s) \<and> cd_result d = DispatchAccept
               \<and> rc_room_name (cd_room d) = pi_room_name (rm_p (ic_room s))))
     \<and> (\<forall>m. ic_media s = Some m \<longrightarrow> mp_out_enabled m \<longrightarrow> (\<exists>m\<in>set (sl_out (ic_leg s)). is_ok m))"
proof -
  have core: "allowed_core s" using call_runs_allowed [OF assms] by (simp add: allowed_inv_def)
  have "accepts r \<longleftrightarrow> r = DispatchAccept \<or> r = DispatchRequestPin" for r by (cases r) auto
  with core show ?thesis
    by (auto simp: allowed_core_def ok_sent_def may_answer_def may_join_def)
qed

theorem inbound_needs_dispatch_witness:
  "\<forall>mon. \<exists>s. runs call_step (example_call mon) example_events s
     \<and> \<not> (rm_joined (ic_room s) \<and> (\<forall>d. DispatchResult d \<in> set (ic_log s) \<longrightarrow> cd_result d = DispatchNoRuleDrop))"
proof
  fix mon
  obtain s where s: "runs call_step (example_call mon) example_events s"
    using example_run by blast
  from inbound_needs_dispatch [OF s] s show "\<exists>s. runs call_step (example_call mon) example_events s
     \<and> \<not> (rm_joined (ic_room s) \<and> (\<forall>d. DispatchResult d \<in> set (ic_log s) \<longrightarrow> cd_result d = DispatchNoRuleDrop))"
    by (intro exI [of _ s]) fastforce
qed

text \<open>
  C9. Whatever a caller keys in (and as long as sending a 200 again does not fail, \<open>call_event_ok\<close>), the pin that is submitted to the backend is never longer than
  16 bytes, and while digits are gathered the pin kept never is either.
\<close>

theorem pins_bounded:
  assumes "runs call_step (new_call env jitter cmon mon lid uri invite call st trunkID active by_local) es s"
    and "\<forall>e\<in>set es. call_event_ok e"
  shows "(\<forall>info. Dispatched info \<in> set (ic_log s) \<longrightarrow> length (cinfo_pin info) \<le> 16)
     \<and> (\<forall>pin. ic_pc s = PPin pin \<or> ic_pc s = PPinCheck pin \<longrightarrow> length pin \<le> 16)"
  using call_runs_allowed [OF assms] by (auto simp: allowed_inv_def allowed_core_def pinLimit_def)

theorem pins_bounded_witness:
  "\<forall>mon. \<exists>s. runs call_step (example_call mon) example_events s
     \<and> (\<forall>info. Dispatched info \<in> set (ic_log s) \<longrightarrow> length (cinfo_pin info) \<le> 16)"
proof
  fix mon
  obtain s where s: "runs call_step (example_call mon) example_events s"
    using example_run by blast
  from pins_bounded [OF s] s show "\<exists>s. runs call_step (example_call mon) example_events s
     \<and> (\<forall>info. Dispatched info \<in> set (ic_log s) \<longrightarrow> length (cinfo_pin info) \<le> 16)"
    by (intro exI [of _ s]) simp
qed

text \<open>
  A call that no dispatch rule fits is not answered: where the backend says drop, nothing
  more is sent for it at all; where it says reject and the INVITE is still unanswered, exactly
  one response, a 404, is sent. Either way the call is closed, without blocking or panicking.
\<close>

theorem no_rule_outcomes:
  assumes "life_inv c0 s" and "ic_pc s = PDispatch" and "sl_invite_tx (ic_leg s)"
  shows "(cd_result disp = DispatchNoRuleDrop \<longrightarrow>
            (\<exists>s' err. call_step (env, Handler (HDispatch disp)) s = Returns s' \<and> ic_pc s' = PClosing err
               \<and> ic_done s' \<and> said (ic_leg s') = said (ic_leg s)))
     \<and> (cd_result disp = DispatchNoRuleReject \<longrightarrow>
            (\<exists>s' err invite hs. call_step (env, Handler (HDispatch disp)) s = Returns s' \<and> ic_pc s' = PClosing err
               \<and> ic_done s'
               \<and> said (ic_leg s') = said (ic_leg s) @
                   [LegRespond invite 404 ''Does not match Trunks or Dispatch Rules'' '''' hs]))"
proof -
  have leg: "leg_inv c0 (ic_leg s)" and nd: "\<not> ic_done s"
    using assms(1,2) by (simp_all add: life_inv_def open_call_def)
  note opened = leg_inv_tx [OF leg assms(3)]
  then have ok: "sl_invite_ok (ic_leg s) = None" by (simp add: leg_opened_def)
  have "\<exists>s' err. call_step (env, Handler (HDispatch disp)) s = Returns s' \<and> ic_pc s' = PClosing err
               \<and> ic_done s' \<and> said (ic_leg s') = said (ic_leg s)" if "cd_result disp = DispatchNoRuleDrop"
    using drop_dispatch [OF assms(2) ok nd that, of env] by (fastforce simp: said_def)
  moreover have "\<exists>s' err invite hs. call_step (env, Handler (HDispatch disp)) s = Returns s' \<and> ic_pc s' = PClosing err
      \<and> ic_done s' \<and> said (ic_leg s') = said (ic_leg s) @
          [LegRespond invite 404 ''Does not match Trunks or Dispatch Rules'' '''' hs]"
    if r: "cd_result disp = DispatchNoRuleReject"
  proof -
    define s1 where "s1 = (take_project disp (log (DispatchResult disp) s))
      \<lparr>ic_state := Update (ce_flush_ok env) (dispatched_info disp) (ic_state (take_project disp (log (DispatchResult disp) s)))\<rparr>"
    have s1: "ic_leg s1 = ic_leg s" "\<not> ic_done s1" using nd by (simp_all add: s1_def)
    obtain invite where invite: "sl_invite (ic_leg s) = Some invite" using opened by (auto simp: leg_opened_def)
    obtain leg2 hs where leg2: "RespondAndDrop (leg_env_of env s1) 404 ''Does not match Trunks or Dispatch Rules'' (ic_leg s1) = Returns leg2"
      and out: "leg_closed leg2" "sl_out leg2 = sl_out (ic_leg s) @
          [LegRespond invite 404 ''Does not match Trunks or Dispatch Rules'' '''' hs, LegTerminate]"
      using invite assms(3) by (simp add: RespondAndDrop_def respond_def s1(1) leg_closed_def)
    have c: "leg_closed (ic_leg (s1\<lparr>ic_leg := leg2\<rparr>))" "\<not> ic_done (s1\<lparr>ic_leg := leg2\<rparr>)" using out s1 by simp_all
    from close_on_closed_leg [OF c, of env callDropped "''no-dispatch''"] obtain s3 where
      s3: "call_close env callDropped ''no-dispatch'' (s1\<lparr>ic_leg := leg2\<rparr>) = Returns s3" "ic_done s3"
      "ic_leg s3 = drop_leg leg2" by auto
    have "said (ic_leg s3) = said (ic_leg s) @
          [LegRespond invite 404 ''Does not match Trunks or Dispatch Rules'' '''' hs]"
      using out by (simp add: s3(3) said_def leg_closed_def)
    moreover have "handle_dispatch env disp s = finish (Some (PsrpcErr NotFound ''no trunk configuration for call'' None)) (Returns s3)"
    proof -
      have "handle_dispatch env disp s =
          bind_outcome (RespondAndDrop (leg_env_of env s1) 404 ''Does not match Trunks or Dispatch Rules'' (ic_leg s1)) (\<lambda>leg.
             finish (Some (PsrpcErr NotFound ''no trunk configuration for call'' None))
               (call_close env callDropped ''no-dispatch'' (s1\<lparr>ic_leg := leg\<rparr>)))"
        by (simp add: handle_dispatch_def Let_def r s1_def)
      with leg2 s3(1) show ?thesis by simp
    qed
    ultimately show ?thesis using assms(2) s3(2) by (auto simp: finish_def)
  qed
  ultimately show ?thesis by blast
qed

theorem no_rule_outcomes_witness:
  "\<forall>mon. \<exists>s s' err. call_step (example_call_env, Handler HStart) (example_call mon) = Returns s
     \<and> call_step (example_call_env, Handler (HDispatch no_rule)) s = Returns s' \<and> ic_pc s' = PClosing err
     \<and> said (ic_leg s') = said (ic_leg s)"
proof
  fix mon
  obtain s where s: "call_step (example_call_env, Handler HStart) (example_call mon) = Returns s"
    "ic_pc s = PDispatch" "sl_invite_tx (ic_leg s)"
    using example_start by blast
  have "life_inv (first_cseq example_invite) s" by (rule call_step_life [OF new_call_life _ s(1)]) simp
  moreover have "cd_result no_rule = DispatchNoRuleDrop" by (simp add: no_rule_def)
  ultimately show "\<exists>s s' err. call_step (example_call_env, Handler HStart) (example_call mon) = Returns s
     \<and> call_step (example_call_env, Handler (HDispatch no_rule)) s = Returns s' \<and> ic_pc s' = PClosing err
     \<and> said (ic_leg s') = said (ic_leg s)"
    using no_rule_outcomes [OF _ s(2,3), of _ no_rule example_call_env] s(1) by blast
qed

end
