(* ===== verification/Inbound_Server.thy ===== *)
theory Inbound_Server
  imports Inbound_Permission
begin

text \<open>
  The server of inbound calls (\<open>Server\<close> in \<open>pkg/sip/server.go\<close>, its request handlers in
  \<open>inbound.go\<close>): screening an INVITE until a call is made of it, and routing the requests of a
  dialog to the calls. The calls are the machines of \<open>Inbound_Call\<close>, which share the tables of
  the server and its metrics.
\<close>

section \<open>State\<close>

text \<open>
  Every call made so far by its local identifier, ended ones too; the two tables of the server,
  the metrics and the state of the authentication.
\<close>

record 'c server =
  sv_calls :: "string \<rightharpoonup> icall"
  sv_active :: "string \<rightharpoonup> string"
  sv_by_local :: "string \<rightharpoonup> string"
  sv_monitor :: monitor
  sv_auth :: "'c auth_state"

definition NewServer :: "'c \<Rightarrow> monitor \<Rightarrow> 'c server" where
  "NewServer cache mon =
     \<lparr>sv_calls = Map.empty, sv_active = Map.empty, sv_by_local = Map.empty, sv_monitor = mon,
      sv_auth = \<lparr>as_infos = \<lparr>ic_cache = cache, ic_store = (\<lambda>_. new_call_info), ic_next = 0\<rparr>, as_invites = []\<rparr>\<rparr>"

text \<open>A call works on the tables and metrics of the server.\<close>

definition load :: "'c server \<Rightarrow> icall \<Rightarrow> icall" where
  "load s c = c\<lparr>ic_active := sv_active s, ic_by_local := sv_by_local s, ic_monitor := sv_monitor s\<rparr>"

definition store :: "string \<Rightarrow> icall \<Rightarrow> 'c server \<Rightarrow> 'c server" where
  "store lid c s =
     s\<lparr>sv_calls := (sv_calls s)(lid \<mapsto> c), sv_active := ic_active c, sv_by_local := ic_by_local c,
       sv_monitor := ic_monitor c\<rparr>"

definition server_call :: "string \<Rightarrow> call_env \<times> call_event \<Rightarrow> 'c server \<Rightarrow> 'c server outcome" where
  "server_call lid e s =
     (case sv_calls s lid of
        None \<Rightarrow> Blocked
      | Some c \<Rightarrow> bind_outcome (call_step e (load s c)) (\<lambda>c. Returns (store lid c s)))"

section \<open>Screening an INVITE\<close>

text \<open>
  What the libraries and the backend answer: parsing the source address (address, and address
  with port), the identifier made, our contact, the Via headers of a request, the credentials
  RPC, whether a project has a client for state reports; the random draw for the jitter buffer,
  the time, and what authentication needs.
\<close>

record 'c invite_env =
  pe_call :: call_env
  pe_parse_source :: "string \<Rightarrow> go_error + string \<times> string"
  pe_call_id :: string
  pe_contact :: "transport \<Rightarrow> URI"
  pe_via :: "sip_request \<Rightarrow> via_header list"
  pe_rpc :: "auth_request \<Rightarrow> go_error + auth_response"
  pe_io_client :: "string \<Rightarrow> bool"
  pe_region :: string
  pe_draw :: real
  pe_now_us :: int
  pe_get :: "'c \<Rightarrow> string \<Rightarrow> nat option"
  pe_add :: "'c \<Rightarrow> string \<Rightarrow> nat \<Rightarrow> 'c"
  pe_credentials :: "string \<Rightarrow> go_error + credentials"
  pe_digest :: "challenge \<Rightarrow> digest_options \<Rightarrow> go_error + string"

abbreviation pe_conf :: "'c invite_env \<Rightarrow> config" where
  "pe_conf pe \<equiv> ce_conf (pe_call pe)"

text \<open>
  How the screening ends: with an error (the leg as it was left, the state reported, where they
  exist already, and the replies of the authentication), or with a call to be handled.
\<close>

record rejection =
  rj_leg :: "sip_inbound option"
  rj_state :: "CallState option"
  rj_replies :: "auth_reply list"
  rj_error :: go_error

datatype screening = Rejected rejection | Taken icall "auth_reply list"

definition invite_call :: "'c invite_env \<Rightarrow> string \<Rightarrow> sip_request \<Rightarrow> sip_inbound \<Rightarrow> sip_call" where
  "invite_call pe ip req leg =
     \<lparr>sc_lk_call_id = pe_call_id pe,
      sc_sip_call_id = (case req_call_id req of None \<Rightarrow> '''' | Some v \<Rightarrow> v),
      sc_source_ip = ip,
      sc_address = ToSIPUri '''' (leg_Address leg),
      sc_from = ToSIPUri '''' (leg_From leg),
      sc_to = ToSIPUri '''' (leg_To leg),
      sc_via = map (\<lambda>h. \<lparr>lk_user = '''', lk_host = via_host h, lk_ip = '''', lk_port = word_of_int (via_port h),
                         lk_transport = SIPTransportFrom (via_transport h)\<rparr>) (pe_via pe req)\<rparr>"

definition invite_info :: "'c invite_env \<Rightarrow> string \<Rightarrow> sip_request \<Rightarrow> AuthInfo \<Rightarrow> sip_inbound \<Rightarrow> sip_call_info" where
  "invite_info pe src req r leg =
     empty_call_info\<lparr>
       ci_call_id := sl_id leg,
       ci_region := pe_region pe,
       ci_from_uri := Some (URI_ToSIPUri (CreateURIFromUserAndAddress (uri_user (leg_From leg)) src (callTransportFromReq req))),
       ci_to_uri := Some (URI_ToSIPUri (CreateURIFromUserAndAddress (uri_user (leg_To leg)) (uri_host (leg_To leg))
                                          (callTransportFromReq req))),
       ci_status := SCS_CALL_INCOMING,
       ci_direction := SCD_INBOUND,
       ci_created_at := ce_now (pe_call pe),
       ci_trunk_id := ai_trunk_id r\<rparr>"

text \<open>A rejection; the deferred update of a state that is there already reports the error.\<close>

definition reject ::
  "'c invite_env \<Rightarrow> sip_inbound option \<Rightarrow> CallState option \<Rightarrow> auth_reply list \<Rightarrow> go_error \<Rightarrow> screening" where
  "reject pe leg st replies e =
     Rejected \<lparr>rj_leg = leg,
               rj_state = map_option (Update (ce_flush_ok (pe_call pe)) (ended_info (ce_now (pe_call pe)) (Some e))) st,
               rj_replies = replies, rj_error = e\<rparr>"

text \<open>The switch over the result of the credentials check, with the state already reported.\<close>

definition screen_auth ::
  "'c invite_env \<Rightarrow> sip_request \<Rightarrow> sip_call \<Rightarrow> call_monitor \<Rightarrow> AuthInfo \<Rightarrow> CallState \<Rightarrow> sip_inbound \<Rightarrow> 'c server
    \<Rightarrow> ('c server \<times> screening) outcome" where
  "screen_auth pe req call cmon r st leg s =
     (let lenv = ce_leg (pe_call pe);
          take = (\<lambda>s leg replies.
            let c = newInboundCall (pe_call pe)
                      (SelectValueBool (cf_enable_jitter_buffer (pe_conf pe)) (cf_enable_jitter_buffer_prob (pe_conf pe))
                        (pe_draw pe))
                      cmon (sv_monitor s) leg call st req (ai_trunk_id r) (sv_active s) (sv_by_local s)
            in Returns (store (sl_id leg) c s, Taken c replies))
      in case ai_result r of
           AuthDrop \<Rightarrow>
             Returns (s\<lparr>sv_monitor := InviteErrorShort ''flood'' cmon (sv_monitor s)\<rparr>,
               reject pe (Some (drop_leg leg)) (Some st) []
                 (PsrpcErr PermissionDenied ''call was not authorized by trunk configuration'' None))
         | AuthNotFound \<Rightarrow>
             bind_outcome (RespondAndDrop lenv 404 ''Does not match any SIP Trunks'' leg) (\<lambda>leg.
               Returns (s\<lparr>sv_monitor := InviteErrorShort ''no-rule'' cmon (sv_monitor s)\<rparr>,
                 reject pe (Some leg) (Some st) [] (PsrpcErr NotFound ''no trunk configuration for call'' None)))
         | AuthPassword \<Rightarrow>
             bind_outcome (if cf_hide_inbound_port (pe_conf pe) then Processing lenv leg else Returns leg) (\<lambda>leg.
               case handleInviteAuth (pe_get pe) (pe_add pe) (pe_credentials pe) (pe_digest pe)
                      (cf_hide_inbound_port (pe_conf pe)) (pe_now_us pe) req (ai_username r) (ai_password r) (sv_auth s) of
                 (auth, res) \<Rightarrow>
                   let s = s\<lparr>sv_auth := auth\<rparr>
                   in if \<not> ao_ok res
                      then Returns (s\<lparr>sv_monitor := InviteErrorShort ''unauthorized'' cmon (sv_monitor s)\<rparr>,
                             reject pe (Some leg) (Some st) (ao_replies res)
                               (PsrpcErr PermissionDenied ''invalid credentials were provided'' None))
                      else take s leg (ao_replies res))
         | AuthAccept \<Rightarrow> take s leg [])"

definition processInvite ::
  "'c invite_env \<Rightarrow> sip_request \<Rightarrow> 'c server \<Rightarrow> ('c server \<times> screening) outcome" where
  "processInvite pe req s =
     (let s = s\<lparr>sv_monitor := InviteReqRaw (sv_monitor s)\<rparr>;
          lenv = ce_leg (pe_call pe)
      in case pe_parse_source pe (req_source req) of
           Inl e \<Rightarrow>
             Returns (s, reject pe None None []
                           (PsrpcErr MalformedRequest '''' (Some (WrapErr ''cannot parse source IP'' e))))
         | Inr (ip, src) \<Rightarrow>
             (let leg = newInbound (pe_call_id pe) (pe_contact pe (legTransportFromReq req)) req
              in case ValidateInvite leg of
                   Some e \<Rightarrow>
                     bind_outcome (if cf_hide_inbound_port (pe_conf pe) then Returns (drop_leg leg)
                                   else RespondAndDrop lenv 400 ''Bad request'' leg) (\<lambda>leg.
                       Returns (s, reject pe (Some leg) None []
                                     (PsrpcErr InvalidArgument '''' (Some (WrapErr ''invite validation failed'' e)))))
                 | None \<Rightarrow>
                     (let cmon = NewCall Inbound (uri_host (leg_From leg)) (uri_host (leg_To leg));
                          s = s\<lparr>sv_monitor := InviteReq cmon (sv_monitor s)\<rparr>
                      in bind_outcome (if cf_hide_inbound_port (pe_conf pe) then Returns leg else Processing lenv leg) (\<lambda>leg.
                         let call = invite_call pe ip req leg
                         in case GetAuthCredentials (pe_rpc pe) call of
                              Inl e \<Rightarrow>
                                bind_outcome (RespondAndDrop lenv 503 ''Try again later'' leg) (\<lambda>leg.
                                  Returns (s\<lparr>sv_monitor := InviteErrorShort ''auth-error'' cmon (sv_monitor s)\<rparr>,
                                    reject pe (Some leg) None []
                                      (PsrpcErr PermissionDenied ''''
                                        (Some (WrapErr ''rejecting inbound, auth check failed'' e)))))
                            | Inr r \<Rightarrow>
                                (let st = Flush (ce_flush_ok (pe_call pe))
                                            (NewCallState (pe_io_client pe (ai_project_id r)) (Some (invite_info pe src req r leg)))
                                 in screen_auth pe req call cmon r st leg s)))))"

section \<open>Requests outside the handler of the INVITE\<close>

text \<open>The status and text a request is answered with by the handler itself; \<open>None\<close> where the leg answers.\<close>

definition onOptions :: "int \<times> string" where
  "onOptions = (200, ''OK'')"

definition OnNoRoute :: "int \<times> string" where
  "OnNoRoute = (405, ''Method Not Allowed'')"

definition find_call :: "string \<Rightarrow> 'c server \<Rightarrow> (string \<times> icall) option" where
  "find_call tag s = Option.bind (sv_active s tag) (\<lambda>lid. map_option (\<lambda>c. (lid, load s c)) (sv_calls s lid))"

definition onAck :: "sip_request \<Rightarrow> 'c server \<Rightarrow> 'c server" where
  "onAck req s =
     (case getFromTag req of
        Inl e \<Rightarrow> s
      | Inr tag \<Rightarrow>
          (case find_call tag s of
             None \<Rightarrow> s
           | Some (lid, c) \<Rightarrow> store lid (c\<lparr>ic_leg := AcceptAck (ic_leg c)\<rparr>) s))"

text \<open>\<open>unhandled\<close> is the handler given to \<open>Start\<close>, if any: whether it took the request.\<close>

definition unhandled_answer :: "(sip_request \<Rightarrow> bool) option \<Rightarrow> sip_request \<Rightarrow> (int \<times> string) option" where
  "unhandled_answer unhandled req =
     (let ok = (case unhandled of None \<Rightarrow> False | Some f \<Rightarrow> f req)
      in if ok then None else Some (481, ''Call does not exist''))"

definition bye_reason :: "sip_request \<Rightarrow> ReasonHeader" where
  "bye_reason req =
     (case GetHeader (req_headers req) ''Reason'' of
        None \<Rightarrow> zero_reason
      | Some h \<Rightarrow> fst (ParseReasonHeader h))"

definition onBye ::
  "(sip_request \<Rightarrow> bool) option \<Rightarrow> sip_request \<Rightarrow> 'c server \<Rightarrow> 'c server \<times> (int \<times> string) option" where
  "onBye unhandled req s =
     (case getFromTag req of
        Inl e \<Rightarrow> (s, Some (400, ''''))
      | Inr tag \<Rightarrow>
          (case find_call tag s of
             Some (lid, c) \<Rightarrow>
               (store lid (ic_Bye (bye_reason req) (c\<lparr>ic_leg := AcceptBye (ic_leg c)\<rparr>)) s, None)
           | None \<Rightarrow> (s, unhandled_answer unhandled req)))"

text \<open>
  \<open>onNotify\<close>: the answer to the NOTIFY, and what is offered to a transfer that waits, with the
  call it belongs to.
\<close>

datatype notify_answer = NotifyAnswer int response_text | NotifyText int string | NotifyTaken

definition onNotify ::
  "(sip_request \<Rightarrow> bool) option \<Rightarrow> sip_request \<Rightarrow> 'c server \<Rightarrow> notify_answer \<times> (string \<times> go_error option) option" where
  "onNotify unhandled req s =
     (case getFromTag req of
        Inl e \<Rightarrow> (NotifyText 400 '''', None)
      | Inr tag \<Rightarrow>
          (case find_call tag s of
             Some (lid, c) \<Rightarrow>
               (let (err, offer) = leg_handleNotify req (sl_refer_cseq (ic_leg c));
                    (code, msg) = sipCodeAndMessageFromError err
                in (NotifyAnswer code msg, map_option (Pair lid) offer))
           | None \<Rightarrow>
               (case unhandled_answer unhandled req of
                  None \<Rightarrow> (NotifyTaken, None)
                | Some (code, text) \<Rightarrow> (NotifyText code text, None))))"

text \<open>\<open>Stop\<close>; \<open>calls\<close> are the values of the table in the order they are visited.\<close>

definition server_Stop :: "string list \<Rightarrow> 'c server \<Rightarrow> 'c server" where
  "server_Stop calls s =
     (let s = s\<lparr>sv_active := Map.empty\<rparr>
      in s\<lparr>sv_calls := fold (\<lambda>lid m. case m lid of None \<Rightarrow> m | Some c \<Rightarrow> m(lid \<mapsto> ic_Close c)) calls (sv_calls s)\<rparr>)"

section \<open>The server as a state machine\<close>

text \<open>
  INVITEs, the other requests, steps of the calls, and stopping; only a new identifier is given
  to a call, and what a call sees of the others is what is in the tables of the server.
\<close>

datatype 'c server_event =
    SInvite "'c invite_env" sip_request
  | SCall string call_env call_event
  | SAck sip_request
  | SBye "(sip_request \<Rightarrow> bool) option" sip_request
  | SStop "string list"

fun of_other_call :: "call_event \<Rightarrow> bool" where
  "of_other_call (Outside e) = other_call e"
| "of_other_call (Handler e) = False"

fun server_step :: "'c server_event \<Rightarrow> 'c server \<Rightarrow> 'c server outcome" where
  "server_step (SInvite pe req) s =
     (if pe_call_id pe \<in> dom (sv_calls s) then Blocked
      else bind_outcome (processInvite pe req s) (\<lambda>(s, r). Returns s))"
| "server_step (SCall lid env e) s = (if of_other_call e then Blocked else server_call lid (env, e) s)"
| "server_step (SAck req) s = Returns (onAck req s)"
| "server_step (SBye unhandled req) s = Returns (fst (onBye unhandled req s))"
| "server_step (SStop calls) s = Returns (server_Stop calls s)"

fun server_event_ok :: "'c server_event \<Rightarrow> bool" where
  "server_event_ok (SCall lid env e) = call_event_ok (env, e)"
| "server_event_ok _ = True"

section \<open>The tables\<close>

definition live :: "'c server \<Rightarrow> string \<Rightarrow> bool" where
  "live s lid \<longleftrightarrow> (\<exists>c. sv_calls s lid = Some c \<and> \<not> ic_done c)"

definition server_inv :: "'c server \<Rightarrow> bool" where
  "server_inv s \<longleftrightarrow>
     (\<forall>lid c. sv_calls s lid = Some c \<longrightarrow> sl_id (ic_leg c) = lid \<and> (\<exists>c0. life_inv c0 (load s c)))
   \<and> (\<forall>tag lid. sv_active s tag = Some lid \<longrightarrow> live s lid \<and> map_option (\<lambda>c. sl_tag (ic_leg c)) (sv_calls s lid) = Some tag)
   \<and> (\<forall>lid. sv_by_local s lid = (if live s lid then Some lid else None))"

lemma load_frame [simp]:
  "ic_leg (load s c) = ic_leg c" "ic_done (load s c) = ic_done c" "ic_pc (load s c) = ic_pc c"
  "ic_active (load s c) = sv_active s" "ic_by_local (load s c) = sv_by_local s" "ic_monitor (load s c) = sv_monitor s"
  "ic_state (load s c) = ic_state c" "ic_log (load s c) = ic_log c" "ic_cmon (load s c) = ic_cmon c"
  by (simp_all add: load_def)

lemma load_load [simp]: "load s (load t c) = load s c"
  by (simp add: load_def)

lemma store_frame [simp]:
  "sv_calls (store lid c s) = (sv_calls s)(lid \<mapsto> c)" "sv_active (store lid c s) = ic_active c"
  "sv_by_local (store lid c s) = ic_by_local c" "sv_monitor (store lid c s) = ic_monitor c"
  by (simp_all add: store_def)

lemma load_store_same [simp]: "load (store lid c s) c = c"
  by (simp add: load_def)

lemma life_load:
  assumes "life_inv c0 c" and "ic_done c \<Longrightarrow> sv_by_local s (sl_id (ic_leg c)) = None"
  shows "life_inv c0 (load s c)"
proof -
  have "shut_call c \<Longrightarrow> shut_call (load s c)"
    using assms(2) unfolding shut_call_def load_def by simp
  moreover have "open_call (load s c) = open_call c" "ended_call (load s c) = ended_call c"
    by (simp_all add: open_call_def ended_call_def)
  ultimately show ?thesis
    using assms(1) unfolding life_inv_def load_frame by (cases "ic_pc c") auto
qed

lemma live_store: "live (store lid c s) l \<longleftrightarrow> (if l = lid then \<not> ic_done c else live s l)"
  by (simp add: live_def)

text \<open>A call is put back: it kept the tables, or it was closed, or it is new.\<close>

lemma stored_inv:
  assumes inv: "server_inv s" and c: "sl_id (ic_leg c) = lid" "life_inv c0 c"
    and active: "\<And>tag l. ic_active c tag = Some l \<Longrightarrow>
          (if l = lid then \<not> ic_done c \<and> sl_tag (ic_leg c) = tag else sv_active s tag = Some l)"
    and by_local: "ic_by_local c = (sv_by_local s)(lid := if ic_done c then None else Some lid)"
  shows "server_inv (store lid c s)"
proof -
  have "life_inv c0 (load (store lid c s) d)"
    if d: "sv_calls s l = Some d" "life_inv c0 (load s d)" "sl_id (ic_leg d) = l" "l \<noteq> lid" for l d c0
    using life_load [OF d(2), of "store lid c s"] inv d by_local by (simp add: server_inv_def live_def)
  then have "\<exists>c0. life_inv c0 (load (store lid c s) d)" if "sv_calls (store lid c s) l = Some d" for l d
    using inv that c unfolding server_inv_def by (metis fun_upd_apply load_store_same option.inject store_frame(1))
  moreover have "live (store lid c s) l \<and> map_option (\<lambda>c. sl_tag (ic_leg c)) (sv_calls (store lid c s) l) = Some tag"
    if "ic_active c tag = Some l" for tag l
    using active [OF that] inv by (simp add: live_store server_inv_def split: if_splits)
  moreover have "sv_by_local (store lid c s) l = (if live (store lid c s) l then Some l else None)" for l
    using inv by (simp add: by_local live_store server_inv_def)
  ultimately show ?thesis
    using inv c(1) by (simp add: server_inv_def)
qed

lemma server_inv_call:
  assumes "server_inv s" and "sv_calls s lid = Some c"
  shows "sl_id (ic_leg c) = lid" and "\<exists>c0. life_inv c0 (load s c)"
  using assms unfolding server_inv_def by blast+

lemma server_inv_active:
  assumes "server_inv s" and "sv_active s tag = Some lid"
  shows "\<exists>c. sv_calls s lid = Some c \<and> \<not> ic_done c \<and> sl_tag (ic_leg c) = tag"
proof -
  from assms have "live s lid" "map_option (\<lambda>c. sl_tag (ic_leg c)) (sv_calls s lid) = Some tag"
    unfolding server_inv_def by blast+
  then show ?thesis by (auto simp: live_def)
qed

lemma server_inv_by_local: "server_inv s \<Longrightarrow> sv_by_local s lid = (if live s lid then Some lid else None)"
  unfolding server_inv_def by blast

lemma server_call_inv:
  assumes inv: "server_inv s" and ok: "call_event_ok e" and own: "\<not> of_other_call (snd e)"
    and step: "server_call lid e s = Returns s'"
  shows "server_inv s'"
proof -
  from step obtain c c' where c: "sv_calls s lid = Some c" and c': "call_step e (load s c) = Returns c'"
    and s': "s' = store lid c' s"
    by (auto simp: server_call_def bind_outcome_Returns split: option.splits)
  note lid = server_inv_call(1) [OF inv c]
  from server_inv_call(2) [OF inv c] obtain c0 where life: "life_inv c0 (load s c)" by blast
  have "\<not> other_call o'" if "snd e = Outside o'" for o' using own that by simp
  with call_step_tables [OF life ok c'] have
    tab: "same_tables (load s c) c' \<and> ic_done c' = ic_done c \<or> unregistered (load s c) c'" by simp
  have ids: "sl_id (ic_leg c') = lid" "sl_tag (ic_leg c') = sl_tag (ic_leg c)"
    using leg_reach_ids [OF call_step_reach [OF life ok c']] lid by simp_all
  have act: "sv_active s tag = Some lid \<Longrightarrow> \<not> ic_done c \<and> sl_tag (ic_leg c) = tag" for tag
    using server_inv_active [OF inv] c by fastforce
  show ?thesis unfolding s'
  proof (rule stored_inv [OF inv ids(1) call_step_life [OF life ok c']])
    fix tag l assume "ic_active c' tag = Some l"
    with tab act [of tag] ids show "if l = lid then \<not> ic_done c' \<and> sl_tag (ic_leg c') = tag else sv_active s tag = Some l"
      by (cases "l = lid") (auto simp: unregistered_def split: if_splits)
  next
    show "ic_by_local c' = (sv_by_local s)(lid := if ic_done c' then None else Some lid)"
      using tab server_inv_by_local [OF inv, of lid] c lid by (auto simp: unregistered_def live_def fun_eq_iff)
  qed
qed

text \<open>Requests that find a call are events of that call.\<close>

lemma find_call_cases:
  assumes "find_call tag s = Some (lid, c)"
  shows "\<exists>d. sv_active s tag = Some lid \<and> sv_calls s lid = Some d \<and> c = load s d"
  using assms by (auto simp: find_call_def split: Option.bind_splits)

lemma found_routed:
  assumes "server_inv s" and "find_call tag s = Some (lid, c)"
  shows "routed c \<and> (\<exists>d. sv_calls s lid = Some d \<and> c = load s d)"
proof -
  from find_call_cases [OF assms(2)] obtain d where d: "sv_active s tag = Some lid" "sv_calls s lid = Some d" "c = load s d"
    by blast
  then have "sl_id (ic_leg d) = lid" "sl_tag (ic_leg d) = tag"
    using server_inv_call(1) [OF assms(1)] server_inv_active [OF assms(1)] by fastforce+
  with d show ?thesis by (auto simp: routed_def)
qed

lemma found_ack:
  assumes "server_inv s" and "find_call tag s = Some (lid, c)"
  shows "server_call lid (env, Outside XAck) s = Returns (store lid (c\<lparr>ic_leg := AcceptAck (ic_leg c)\<rparr>) s)"
  using found_routed [OF assms] by (auto simp: server_call_def)

lemma found_bye:
  assumes "server_inv s" and "find_call tag s = Some (lid, c)"
  shows "server_call lid (env, Outside (XBye reason)) s
       = Returns (store lid (ic_Bye reason (c\<lparr>ic_leg := AcceptBye (ic_leg c)\<rparr>)) s)"
  using found_routed [OF assms] by (auto simp: server_call_def)

lemma onAck_inv:
  assumes "server_inv s"
  shows "server_inv (onAck req s)"
proof (cases "getFromTag req")
  case (Inr tag)
  show ?thesis
  proof (cases "find_call tag s")
    case (Some p)
    obtain lid c where p: "p = (lid, c)" by (cases p)
    from server_call_inv [OF assms _ _ found_ack [OF assms Some [unfolded p]]]
    show ?thesis using Inr Some p by (simp add: onAck_def)
  qed (use assms Inr in \<open>simp add: onAck_def\<close>)
qed (use assms in \<open>simp add: onAck_def\<close>)

lemma onBye_inv:
  assumes "server_inv s"
  shows "server_inv (fst (onBye unhandled req s))"
proof (cases "getFromTag req")
  case (Inr tag)
  show ?thesis
  proof (cases "find_call tag s")
    case (Some p)
    obtain lid c where p: "p = (lid, c)" by (cases p)
    from server_call_inv [OF assms _ _ found_bye [OF assms Some [unfolded p]]]
    show ?thesis using Inr Some p by (simp add: onBye_def)
  qed (use assms Inr in \<open>simp add: onBye_def\<close>)
qed (use assms in \<open>simp add: onBye_def\<close>)

section \<open>What screening does\<close>

text \<open>What a rejection leaves alone: the calls and the tables.\<close>

definition only_accounts :: "'c server \<Rightarrow> 'c server \<Rightarrow> bool" where
  "only_accounts s s' \<longleftrightarrow> sv_calls s' = sv_calls s \<and> sv_active s' = sv_active s \<and> sv_by_local s' = sv_by_local s"

definition screened_leg :: "'c invite_env \<Rightarrow> sip_request \<Rightarrow> sip_inbound" where
  "screened_leg pe req = newInbound (pe_call_id pe) (pe_contact pe (legTransportFromReq req)) req"

lemma only_accounts_refl [simp]: "only_accounts s s"
  by (simp add: only_accounts_def)

lemma only_accounts_upd [simp]:
  "only_accounts s (t\<lparr>sv_monitor := m\<rparr>) = only_accounts s t" "only_accounts s (t\<lparr>sv_auth := a\<rparr>) = only_accounts s t"
  by (simp_all add: only_accounts_def)

lemma only_accounts_inv:
  assumes "only_accounts s s'"
  shows "server_inv s' = server_inv s"
proof -
  have "live s' = live s" using assms by (auto simp: live_def only_accounts_def)
  moreover have "life_inv c0 (load s' c) = life_inv c0 (load s c)" for c0 c
  proof -
    have "load s' c = (load s c)\<lparr>ic_monitor := sv_monitor s'\<rparr>"
      using assms by (simp add: load_def only_accounts_def)
    then show ?thesis
      by (simp add: life_inv_def open_call_def shut_call_def ended_call_def split: call_pc.split)
  qed
  ultimately show ?thesis using assms by (simp add: server_inv_def only_accounts_def)
qed

text \<open>The status codes of the final responses a leg sent.\<close>

fun final_status :: "leg_out \<Rightarrow> int option" where
  "final_status (LegRespond r st why b hs) = (if 200 \<le> st then Some st else None)"
| "final_status _ = None"

definition finals :: "sip_inbound \<Rightarrow> int list" where
  "finals l = List.map_filter final_status (sl_out l)"

definition reply_finals :: "auth_reply list \<Rightarrow> int list" where
  "reply_finals rs = filter (\<lambda>st. 200 \<le> st) (map reply_status rs)"

lemma finals_emit [simp]: "finals (emit m l) = finals l @ (case final_status m of None \<Rightarrow> [] | Some st \<Rightarrow> [st])"
  by (simp add: finals_def emit_def List.map_filter_def split: option.split)

lemma emit_frame [simp]:
  "sl_invite_tx (emit m l) = sl_invite_tx l" "sl_invite (emit m l) = sl_invite l" "sl_id (emit m l) = sl_id l"
  "sl_tag (emit m l) = sl_tag l" "leg_From (emit m l) = leg_From l" "leg_To (emit m l) = leg_To l"
  "leg_Address (emit m l) = leg_Address l" "ValidateInvite (emit m l) = ValidateInvite l"
  by (simp_all add: emit_def leg_From_def leg_To_def leg_Address_def ValidateInvite_def)

lemma finals_frame [simp]:
  "finals (stopRinging l) = finals l" "finals (drop_leg l) = finals l"
  by (simp_all add: finals_def stopRinging_def drop_leg_def emit_def List.map_filter_def Let_def split: option.split)

definition fresh_leg :: "sip_inbound \<Rightarrow> bool" where
  "fresh_leg l \<longleftrightarrow> sl_invite_tx l \<and> sl_invite l \<noteq> None \<and> finals l = []"

lemma screened_leg_fresh [simp]: "fresh_leg (screened_leg pe req)"
  by (simp add: fresh_leg_def screened_leg_def newInbound_def finals_def List.map_filter_def)

lemma Processing_fresh:
  "fresh_leg l \<Longrightarrow> \<exists>m. Processing env l = Returns (emit m l) \<and> fresh_leg (emit m l)"
  by (auto simp: Processing_def respond_def fresh_leg_def)

lemma RespondAndDrop_fresh:
  "fresh_leg l \<Longrightarrow> 200 \<le> st \<Longrightarrow> \<exists>d. RespondAndDrop env st why l = Returns d \<and> finals d = [st]"
  by (auto simp: RespondAndDrop_def respond_def fresh_leg_def stopRinging_def finals_def List.map_filter_def
      split: option.splits)

text \<open>
  The verdict on an INVITE: to make a call of it, or to refuse it with at most one final answer.
\<close>

datatype verdict = Admit | Refuse "int option"

definition auth_verdict :: "'c invite_env \<Rightarrow> sip_request \<Rightarrow> AuthInfo \<Rightarrow> 'c auth_state \<Rightarrow> verdict" where
  "auth_verdict pe req r auth =
     (case ai_result r of
        AuthDrop \<Rightarrow> Refuse None
      | AuthNotFound \<Rightarrow> Refuse (Some 404)
      | AuthAccept \<Rightarrow> Admit
      | AuthPassword \<Rightarrow>
          if ao_ok (snd (handleInviteAuth (pe_get pe) (pe_add pe) (pe_credentials pe) (pe_digest pe)
                           (cf_hide_inbound_port (pe_conf pe)) (pe_now_us pe) req (ai_username r) (ai_password r) auth))
          then Admit
          else Refuse (Some (if GetHeader (req_headers req) ''Proxy-Authorization'' = None then 407 else 401)))"

definition invite_verdict :: "'c invite_env \<Rightarrow> sip_request \<Rightarrow> 'c server \<Rightarrow> verdict" where
  "invite_verdict pe req s =
     (case pe_parse_source pe (req_source req) of
        Inl e \<Rightarrow> Refuse None
      | Inr (ip, src) \<Rightarrow>
          if ValidateInvite (screened_leg pe req) \<noteq> None
          then Refuse (if cf_hide_inbound_port (pe_conf pe) then None else Some 400)
          else
            (case GetAuthCredentials (pe_rpc pe) (invite_call pe ip req (screened_leg pe req)) of
               Inl e \<Rightarrow> Refuse (Some 503)
             | Inr r \<Rightarrow> auth_verdict pe req r (sv_auth s)))"

definition refused :: "'c server \<Rightarrow> int option \<Rightarrow> 'c server \<Rightarrow> screening \<Rightarrow> bool" where
  "refused s st s' r \<longleftrightarrow>
     (\<exists>rj. r = Rejected rj \<and> only_accounts s s'
        \<and> (case rj_leg rj of None \<Rightarrow> [] | Some l \<Rightarrow> finals l) @ reply_finals (rj_replies rj)
            = (case st of None \<Rightarrow> [] | Some x \<Rightarrow> [x])
        \<and> (case rj_state rj of None \<Rightarrow> True | Some cs \<Rightarrow>
             ci_status (cs_info cs) = SCS_ERROR \<and> ci_error (cs_info cs) = Some (rj_error rj)))"

definition admitted :: "'c invite_env \<Rightarrow> sip_request \<Rightarrow> 'c server \<Rightarrow> 'c server \<Rightarrow> screening \<Rightarrow> bool" where
  "admitted pe req s s' r \<longleftrightarrow>
     (\<exists>c replies t leg cmon call st trunk.
        r = Taken c replies \<and> only_accounts s t \<and> s' = store (pe_call_id pe) c t
      \<and> fresh_leg leg \<and> leg_reach False (screened_leg pe req) leg \<and> reply_finals replies = []
      \<and> c = newInboundCall (pe_call pe)
              (SelectValueBool (cf_enable_jitter_buffer (pe_conf pe)) (cf_enable_jitter_buffer_prob (pe_conf pe)) (pe_draw pe))
              cmon (sv_monitor t) leg call st req trunk (sv_active t) (sv_by_local t))"

lemma reply_finals_Nil [simp]: "reply_finals [] = []"
  by (simp add: reply_finals_def)

lemma handleInviteAuth_finals:
  "reply_finals (ao_replies (snd (handleInviteAuth get add creds dig hide now req u p a))) =
     (if ao_ok (snd (handleInviteAuth get add creds dig hide now req u p a)) then []
      else [if GetHeader (req_headers req) ''Proxy-Authorization'' = None then 407 else 401])"
proof (cases "u = '''' \<or> p = ''''")
  case True
  then show ?thesis by (auto simp: handleInviteAuth_def)
next
  case False
  obtain infos ci where infos: "getCallInfo get add (case req_call_id req of None \<Rightarrow> '''' | Some v \<Rightarrow> v) (as_infos a) = (infos, ci)"
    by fastforce
  obtain invites i where inv: "getInvite (case req_call_id req of None \<Rightarrow> '''' | Some v \<Rightarrow> v) (as_invites a) = (invites, i)"
    by fastforce
  show ?thesis
    using False by (cases "GetHeader (req_headers req) ''Proxy-Authorization''"; cases hide)
      (auto simp: handleInviteAuth_def infos inv reply_finals_def Let_def split: sum.split)
qed

lemma reject_refused:
  assumes "only_accounts s s'"
    and "(case leg of None \<Rightarrow> [] | Some l \<Rightarrow> finals l) @ reply_finals replies = (case code of None \<Rightarrow> [] | Some x \<Rightarrow> [x])"
    and "\<And>x. st = Some x \<Longrightarrow> ci_error (cs_info x) = None"
  shows "refused s code s' (reject pe leg st replies e)"
  using assms by (cases st) (auto simp: refused_def reject_def ended_info_def Let_def)

lemma admittedI:
  assumes "only_accounts s t" and "fresh_leg leg" and "leg_reach False (screened_leg pe req) leg"
    and "reply_finals replies = []"
    and "c = newInboundCall (pe_call pe)
              (SelectValueBool (cf_enable_jitter_buffer (pe_conf pe)) (cf_enable_jitter_buffer_prob (pe_conf pe)) (pe_draw pe))
              cmon (sv_monitor t) leg call st req trunk (sv_active t) (sv_by_local t)"
  shows "admitted pe req s (store (pe_call_id pe) c t) (Taken c replies)"
  unfolding admitted_def using assms by blast

lemma screen_auth_verdict:
  assumes leg: "fresh_leg leg" "leg_reach False (screened_leg pe req) leg" "sl_id leg = pe_call_id pe"
    and st: "ci_error (cs_info st) = None" and acc: "only_accounts s0 s" "sv_auth s = sv_auth s0"
  shows "\<exists>s' r'. screen_auth pe req call cmon r st leg s = Returns (s', r') \<and>
     (case auth_verdict pe req r (sv_auth s0) of
        Admit \<Rightarrow> admitted pe req s0 s' r'
      | Refuse code \<Rightarrow> refused s0 code s' r')"
proof (cases "ai_result r")
  case AuthDrop
  with leg st acc show ?thesis
    by (auto simp: auth_verdict_def screen_auth_def fresh_leg_def intro!: reject_refused)
next
  case AuthNotFound
  from RespondAndDrop_fresh [OF leg(1), of 404] obtain d where
    "RespondAndDrop (ce_leg (pe_call pe)) 404 ''Does not match any SIP Trunks'' leg = Returns d" "finals d = [404]"
    by fastforce
  with AuthNotFound st acc show ?thesis
    by (auto simp: auth_verdict_def screen_auth_def intro!: reject_refused)
next
  case AuthAccept
  with leg acc show ?thesis
    by (auto simp: auth_verdict_def screen_auth_def Let_def intro!: admittedI)
next
  case AuthPassword
  let ?lenv = "ce_leg (pe_call pe)" and ?hide = "cf_hide_inbound_port (pe_conf pe)"
  define auth where "auth = handleInviteAuth (pe_get pe) (pe_add pe) (pe_credentials pe) (pe_digest pe)
     ?hide (pe_now_us pe) req (ai_username r) (ai_password r) (sv_auth s0)"
  note fin = handleInviteAuth_finals [of "pe_get pe" "pe_add pe" "pe_credentials pe" "pe_digest pe" ?hide
      "pe_now_us pe" req "ai_username r" "ai_password r" "sv_auth s0", folded auth_def]
  obtain leg' where leg': "(if ?hide then Processing ?lenv leg else Returns leg) = Returns leg'"
    "fresh_leg leg'" "leg_reach False (screened_leg pe req) leg'" "sl_id leg' = pe_call_id pe"
  proof (cases ?hide)
    case True
    from Processing_fresh [OF leg(1)] obtain m where m: "Processing ?lenv leg = Returns (emit m leg)" "fresh_leg (emit m leg)"
      by blast
    have "leg_reach False leg (emit m leg)"
      by (rule leg_reach_step [where e = "(?lenv, EvProcessing)"]) (use m in simp_all)
    with True m leg show ?thesis
      using leg_reach_trans [OF leg(2)] by (intro that [of "emit m leg"]) simp_all
  qed (use leg that in simp)
  obtain a res where ar: "auth = (a, res)" by (cases auth)
  show ?thesis
  proof (cases "ao_ok res")
    case True
    with AuthPassword leg' acc ar fin show ?thesis
      by (auto simp: auth_verdict_def screen_auth_def Let_def auth_def [symmetric] acc(2) intro!: admittedI)
  next
    case False
    with AuthPassword leg' acc st ar fin show ?thesis
      by (auto simp: auth_verdict_def screen_auth_def Let_def auth_def [symmetric] acc(2) fresh_leg_def intro!: reject_refused)
  qed
qed

lemma invite_call_emit [simp]: "invite_call pe ip req (emit m l) = invite_call pe ip req l"
  by (simp add: invite_call_def)

lemma new_state_error [simp]: "ci_error (cs_info (Flush ok (NewCallState cl (Some (invite_info pe src req r leg))))) = None"
  by (simp add: Flush_def NewCallState_def invite_info_def empty_call_info_def)

lemma screened_leg_id [simp]: "sl_id (screened_leg pe req) = pe_call_id pe"
  by (simp add: screened_leg_def newInbound_def)

lemma processInvite_verdict:
  "\<exists>s' r. processInvite pe req s = Returns (s', r) \<and>
     (case invite_verdict pe req s of
        Admit \<Rightarrow> admitted pe req s s' r
      | Refuse code \<Rightarrow> refused s code s' r)"
proof (cases "pe_parse_source pe (req_source req)")
  case (Inl e)
  then show ?thesis
    by (auto simp: processInvite_def invite_verdict_def Let_def intro!: reject_refused)
next
  case (Inr p)
  obtain ip src where p: "pe_parse_source pe (req_source req) = Inr (ip, src)" using Inr by (cases p) simp
  let ?lenv = "ce_leg (pe_call pe)" and ?leg = "screened_leg pe req" and ?hide = "cf_hide_inbound_port (pe_conf pe)"
  show ?thesis
  proof (cases "ValidateInvite ?leg")
    case (Some e)
    from RespondAndDrop_fresh [OF screened_leg_fresh, of 400] obtain d where
      d: "RespondAndDrop ?lenv 400 ''Bad request'' ?leg = Returns d" "finals d = [400]" by fastforce
    have "finals ?leg = []" using screened_leg_fresh [of pe req] by (simp add: fresh_leg_def)
    with Some p d show ?thesis
      by (auto simp: processInvite_def invite_verdict_def Let_def screened_leg_def [symmetric] intro!: reject_refused)
  next
    case None
    obtain leg where leg: "(if ?hide then Returns ?leg else Processing ?lenv ?leg) = Returns leg"
      "fresh_leg leg" "leg_reach False ?leg leg" "sl_id leg = pe_call_id pe"
      "invite_call pe ip req leg = invite_call pe ip req ?leg"
    proof (cases ?hide)
      case False
      from Processing_fresh [OF screened_leg_fresh] obtain m where
        m: "Processing ?lenv ?leg = Returns (emit m ?leg)" "fresh_leg (emit m ?leg)" by blast
      have "leg_reach False ?leg (emit m ?leg)"
        by (rule leg_reach_step [where e = "(?lenv, EvProcessing)"]) (use m in simp_all)
      with False m show ?thesis by (intro that [of "emit m ?leg"]) simp_all
    qed (use that [of ?leg] in simp_all)
    define s1 where "s1 = (s\<lparr>sv_monitor := InviteReqRaw (sv_monitor s)\<rparr>)
      \<lparr>sv_monitor := InviteReq (NewCall Inbound (uri_host (leg_From ?leg)) (uri_host (leg_To ?leg)))
          (InviteReqRaw (sv_monitor s))\<rparr>"
    have s1: "only_accounts s s1" "sv_auth s1 = sv_auth s" by (simp_all add: s1_def)
    show ?thesis
    proof (cases "GetAuthCredentials (pe_rpc pe) (invite_call pe ip req ?leg)")
      case (Inl e)
      from RespondAndDrop_fresh [OF leg(2), of 503] obtain d where
        d: "RespondAndDrop ?lenv 503 ''Try again later'' leg = Returns d" "finals d = [503]" by fastforce
      show ?thesis
        using Inl p d None leg s1
        by (auto simp: processInvite_def invite_verdict_def Let_def screened_leg_def [symmetric] s1_def
            intro!: reject_refused)
    next
      case (Inr r)
      have run: "processInvite pe req s = screen_auth pe req (invite_call pe ip req leg)
          (NewCall Inbound (uri_host (leg_From ?leg)) (uri_host (leg_To ?leg))) r
          (Flush (ce_flush_ok (pe_call pe)) (NewCallState (pe_io_client pe (ai_project_id r)) (Some (invite_info pe src req r leg))))
          leg s1"
        using Inr p None leg
        by (simp add: processInvite_def Let_def screened_leg_def [symmetric] s1_def)
      show ?thesis
        unfolding run using screen_auth_verdict [OF leg(2-4) new_state_error s1] Inr p None
        by (simp add: invite_verdict_def)
    qed
  qed
qed

section \<open>The tables stay right\<close>

lemma admitted_taken:
  assumes "admitted pe req s s' (Taken c replies)"
  shows "leg_reach False (screened_leg pe req) (ic_leg c) \<and> finals (ic_leg c) = []
     \<and> reply_finals replies = [] \<and> ic_pc c = PStart \<and> \<not> ic_done c \<and> ic_log c = [] \<and> ic_req c = req
     \<and> sv_calls s' = (sv_calls s)(pe_call_id pe \<mapsto> c)
     \<and> sv_active s' = (sv_active s)(sl_tag (ic_leg c) \<mapsto> pe_call_id pe)
     \<and> sv_by_local s' = (sv_by_local s)(pe_call_id pe \<mapsto> pe_call_id pe)"
proof -
  from assms obtain t leg env jitter cmon call st trunk where t: "only_accounts s t" "s' = store (pe_call_id pe) c t"
    and leg: "fresh_leg leg" "leg_reach False (screened_leg pe req) leg" "reply_finals replies = []"
    and c: "c = newInboundCall env jitter cmon (sv_monitor t) leg call st req trunk (sv_active t) (sv_by_local t)"
    unfolding admitted_def by blast
  have "sl_id leg = pe_call_id pe" using leg_reach_ids [OF leg(2)] by simp
  with t leg c show ?thesis by (simp add: newInboundCall_def only_accounts_def fresh_leg_def)
qed

lemma admitted_inv:
  assumes inv: "server_inv s" and adm: "admitted pe req s s' r" and new: "pe_call_id pe \<notin> dom (sv_calls s)"
  shows "server_inv s'"
proof -
  from adm obtain t leg env jitter cmon call st trunk c where t: "only_accounts s t" "s' = store (pe_call_id pe) c t"
    and leg: "fresh_leg leg" "leg_reach False (screened_leg pe req) leg"
    and c: "c = newInboundCall env jitter cmon (sv_monitor t) leg call st req trunk (sv_active t) (sv_by_local t)"
    unfolding admitted_def by blast
  have invt: "server_inv t" using only_accounts_inv [OF t(1)] inv by simp
  have id: "sl_id leg = pe_call_id pe" using leg_reach_ids [OF leg(2)] by simp
  have "leg_inv (first_cseq req) leg"
    by (rule leg_reach_inv [OF leg(2)]) (simp add: screened_leg_def first_cseq_def newInbound_inv)
  then have life: "life_inv (first_cseq req) c" unfolding c by (rule newInboundCall_life)
  have old: "sv_active t tag \<noteq> Some (pe_call_id pe)" for tag
    using server_inv_active [OF invt, of tag "pe_call_id pe"] new t(1) by (auto simp: only_accounts_def)
  have "sl_id (ic_leg c) = pe_call_id pe" using id by (simp add: c newInboundCall_def)
  then show ?thesis unfolding t(2)
    by (rule stored_inv [OF invt _ life]) (use id old in \<open>auto simp: c newInboundCall_def split: if_splits\<close>)
qed

lemma stop_calls:
  "fold (\<lambda>lid m. case m lid of None \<Rightarrow> m | Some c \<Rightarrow> m(lid \<mapsto> ic_Close c)) ids m l
     = (if l \<in> set ids then map_option ic_Close (m l) else m l)"
proof (induction ids arbitrary: m)
  case (Cons x ids)
  have "ic_Close (ic_Close c) = ic_Close c" for c by (simp add: ic_Close_def cancel_def)
  with Cons show ?case by (cases "m l"; cases "m x") (auto simp: option.map_comp o_def)
qed simp

lemma Stop_frame:
  "sv_calls (server_Stop ids s) l = (if l \<in> set ids then map_option ic_Close (sv_calls s l) else sv_calls s l)"
  "sv_active (server_Stop ids s) = Map.empty" "sv_by_local (server_Stop ids s) = sv_by_local s"
  by (simp_all add: server_Stop_def Let_def stop_calls)

lemma server_Stop_inv:
  assumes inv: "server_inv s"
  shows "server_inv (server_Stop ids s)"
proof -
  let ?s = "server_Stop ids s"
  have close: "ic_leg (ic_Close c) = ic_leg c" "ic_done (ic_Close c) = ic_done c" for c
    by (simp_all add: ic_Close_def)
  have live: "live ?s = live s"
    using close by (auto simp: live_def Stop_frame fun_eq_iff split: if_splits)
  have life: "sl_id (ic_leg d) = l \<and> (\<exists>c0. life_inv c0 (load ?s d))" if d: "sv_calls ?s l = Some d" for l d
  proof -
    from d obtain c where c: "sv_calls s l = Some c" "d = c \<or> d = ic_Close c"
      by (auto simp: Stop_frame split: if_splits)
    from server_inv_call [OF inv c(1)] obtain c0 where lc: "sl_id (ic_leg c) = l" "life_inv c0 (load s c)" by blast
    have "call_step (undefined, Outside XClose) (load s c) = Returns (ic_Close (load s c))" by simp
    moreover have "ic_Close (load s c) = load s (ic_Close c)" by (simp add: ic_Close_def cancel_def load_def)
    ultimately have "life_inv c0 (load s (ic_Close c))"
      using call_step_life [OF lc(2), of "(undefined, Outside XClose)"] by simp
    with lc(2) c(2) have "life_inv c0 (load s d)" by blast
    moreover have "load ?s (load s d) = load ?s d" by simp
    moreover have "sv_by_local ?s l = None" if "ic_done d"
      using server_inv_by_local [OF inv, of l] that c close by (auto simp: Stop_frame live_def)
    ultimately have "life_inv c0 (load ?s d)"
      using life_load [of c0 "load s d" ?s] lc c close by auto
    with lc c close show ?thesis by auto
  qed
  then show ?thesis
    using server_inv_by_local [OF inv] by (simp add: server_inv_def Stop_frame live)
qed

lemma NewServer_inv: "server_inv (NewServer cache mon)"
  by (simp add: server_inv_def NewServer_def live_def)

lemma server_step_inv:
  assumes inv: "server_inv s" and ok: "server_event_ok e" and step: "server_step e s = Returns s'"
  shows "server_inv s'"
proof (cases e)
  case (SInvite pe req)
  from step SInvite have new: "pe_call_id pe \<notin> dom (sv_calls s)" by (auto split: if_splits)
  obtain t r where run: "processInvite pe req s = Returns (t, r)"
    and v: "case invite_verdict pe req s of Admit \<Rightarrow> admitted pe req s t r | Refuse code \<Rightarrow> refused s code t r"
    using processInvite_verdict by blast
  with step SInvite new have t: "s' = t" by simp
  show ?thesis
  proof (cases "invite_verdict pe req s")
    case Admit
    with v t admitted_inv [OF inv _ new] show ?thesis by simp
  next
    case (Refuse code)
    with v t only_accounts_inv inv show ?thesis by (auto simp: refused_def)
  qed
next
  case (SCall lid env ev)
  with step ok server_call_inv [OF inv, of "(env, ev)" lid s'] show ?thesis by (auto split: if_splits)
qed (use step inv onAck_inv onBye_inv server_Stop_inv in auto)

interpretation inbound_server: outcome_system server_step server_inv server_event_ok
  by unfold_locales (rule server_step_inv)

section \<open>Properties\<close>

text \<open>
  C3. However INVITEs, requests, steps of the calls and stopping follow each other, as long as
  sending a 200 again does not fail (\<open>server_event_ok\<close>): the tag
  table of the server only names calls that are open and have that tag, the identifier table
  names exactly the open calls, and a call whose handler has returned is in neither.
\<close>

theorem server_registry:
  assumes "runs server_step (NewServer cache mon) es s" and "\<forall>e\<in>set es. server_event_ok e"
  shows "(\<forall>tag lid. sv_active s tag = Some lid \<longrightarrow>
            (\<exists>c. sv_calls s lid = Some c \<and> \<not> ic_done c \<and> sl_tag (ic_leg c) = tag))
     \<and> (\<forall>lid. (sv_by_local s lid = None) = (\<not> live s lid) \<and> sv_by_local s lid \<in> {None, Some lid})
     \<and> (\<forall>lid c err. sv_calls s lid = Some c \<and> ic_pc c = PExit err \<longrightarrow>
            sv_by_local s lid = None \<and> (\<forall>tag. sv_active s tag \<noteq> Some lid) \<and> leg_closed (ic_leg c))"
proof -
  have inv: "server_inv s"
    by (rule inbound_server.runs_inv [OF assms(1) NewServer_inv]) (use assms(2) in simp)
  have shut: "ic_done c \<and> leg_closed (ic_leg c)" if c: "sv_calls s lid = Some c" "ic_pc c = PExit err" for lid c err
    using server_inv_call(2) [OF inv c(1)] c(2) by (auto simp: life_inv_def shut_call_def)
  have "sv_by_local s lid = None \<and> (\<forall>tag. sv_active s tag \<noteq> Some lid) \<and> leg_closed (ic_leg c)"
    if c: "sv_calls s lid = Some c" "ic_pc c = PExit err" for lid c err
  proof -
    have "\<not> live s lid" using c shut [OF c] by (simp add: live_def)
    then show ?thesis using server_inv_by_local [OF inv, of lid] server_inv_active [OF inv, of _ lid] shut [OF c]
      by (auto simp: live_def)
  qed
  moreover have "(sv_by_local s lid = None) = (\<not> live s lid) \<and> sv_by_local s lid \<in> {None, Some lid}" for lid
    using server_inv_by_local [OF inv, of lid] by simp
  ultimately show ?thesis
    using server_inv_active [OF inv] by blast
qed

text \<open>
  C4. Screening an INVITE always comes to an end, without blocking or panicking, as the verdict
  on it says. If the verdict is to admit it (the source can be read, the INVITE is valid, and
  the backend accepts it or its credentials are good), a call is made whose leg has sent
  nothing final and which is in both tables. If not, no call is made and the tables stay as
  they are, exactly the final answer of the verdict was sent, or none where the verdict is to
  be silent, and the state, if there is one already, reports the error.
\<close>

theorem invite_screening:
  "\<exists>s' r. processInvite pe req s = Returns (s', r) \<and>
     (case invite_verdict pe req s of
        Admit \<Rightarrow> (\<exists>c replies. r = Taken c replies \<and> ic_pc c = PStart \<and> \<not> ic_done c \<and> ic_req c = req
          \<and> finals (ic_leg c) = [] \<and> reply_finals replies = []
          \<and> sv_calls s' = (sv_calls s)(pe_call_id pe \<mapsto> c)
          \<and> sv_active s' = (sv_active s)(sl_tag (ic_leg c) \<mapsto> pe_call_id pe)
          \<and> sv_by_local s' = (sv_by_local s)(pe_call_id pe \<mapsto> pe_call_id pe))
      | Refuse code \<Rightarrow> (\<exists>rj. r = Rejected rj
          \<and> sv_calls s' = sv_calls s \<and> sv_active s' = sv_active s \<and> sv_by_local s' = sv_by_local s
          \<and> (case rj_leg rj of None \<Rightarrow> [] | Some l \<Rightarrow> finals l) @ reply_finals (rj_replies rj)
              = (case code of None \<Rightarrow> [] | Some x \<Rightarrow> [x])
          \<and> (case rj_state rj of None \<Rightarrow> True | Some cs \<Rightarrow>
               ci_status (cs_info cs) = SCS_ERROR \<and> ci_error (cs_info cs) = Some (rj_error rj))))"
proof -
  obtain s' r where run: "processInvite pe req s = Returns (s', r)"
    and v: "case invite_verdict pe req s of Admit \<Rightarrow> admitted pe req s s' r | Refuse code \<Rightarrow> refused s code s' r"
    using processInvite_verdict by blast
  show ?thesis
  proof (cases "invite_verdict pe req s")
    case Admit
    with v have adm: "admitted pe req s s' r" by simp
    then obtain c replies where r: "r = Taken c replies" unfolding admitted_def by blast
    from admitted_taken [OF adm [unfolded r]] run r Admit show ?thesis by simp
  next
    case (Refuse code)
    with v run show ?thesis by (auto simp: refused_def only_accounts_def)
  qed
qed

text \<open>
  A BYE goes to the call it is for and to no other: in a server that ran in any way, a BYE
  with a tag that is registered is exactly the event of a BYE at the call that has this tag and
  is open, and the server itself answers nothing; with any other tag no call is touched, and the
  answer is 481 unless the other handler takes the request.
\<close>

theorem bye_reaches_its_call:
  assumes "runs server_step (NewServer cache mon) es s" and "\<forall>e\<in>set es. server_event_ok e"
    and "getFromTag req = Inr tag"
  shows "case sv_active s tag of
     Some lid \<Rightarrow>
       live s lid \<and> map_option (\<lambda>c. sl_tag (ic_leg c)) (sv_calls s lid) = Some tag
       \<and> server_call lid (env, Outside (XBye (bye_reason req))) s = Returns (fst (onBye unhandled req s))
       \<and> snd (onBye unhandled req s) = None
   | None \<Rightarrow> onBye unhandled req s = (s, unhandled_answer unhandled req)"
proof -
  have inv: "server_inv s"
    by (rule inbound_server.runs_inv [OF assms(1) NewServer_inv]) (use assms(2) in simp)
  show ?thesis
  proof (cases "sv_active s tag")
    case None
    with assms(3) show ?thesis by (simp add: onBye_def find_call_def)
  next
    case (Some lid)
    from server_inv_active [OF inv Some] obtain c where c: "sv_calls s lid = Some c" "\<not> ic_done c" "sl_tag (ic_leg c) = tag"
      by blast
    with Some have f: "find_call tag s = Some (lid, load s c)" by (simp add: find_call_def)
    from found_bye [OF inv f] Some c f assms(3) show ?thesis by (auto simp: onBye_def live_def)
  qed
qed

text \<open>
  C6. Two open calls whose remotes use the same tag (a second INVITE of a dialog, which is
  screened like a first one, makes such a pair): when one of them closes, the other is left open
  but is no longer found, whichever of the two the tag led to; a BYE for it is answered 481.
\<close>

theorem closing_hides_same_tag:
  assumes "sv_calls s a = Some c" and "sv_calls s b = Some d" and "a \<noteq> b"
    and "sl_tag (ic_leg c) = sl_tag (ic_leg d)" and "\<not> ic_done d"
    and "life_inv c0 (load s c)" and "call_event_ok (env, ev)" and "\<not> of_other_call ev" and "\<not> ic_done c"
    and "server_call a (env, ev) s = Returns s'" and "\<not> live s' a"
    and "getFromTag req = Inr (sl_tag (ic_leg d))"
  shows "sv_calls s' b = Some d \<and> live s' b \<and> find_call (sl_tag (ic_leg d)) s' = None
     \<and> onBye None req s' = (s', Some (481, ''Call does not exist''))"
proof -
  from assms(10,1) obtain c' where c': "call_step (env, ev) (load s c) = Returns c'" "s' = store a c' s"
    by (auto simp: server_call_def bind_outcome_Returns)
  have "\<not> other_call o'" if "snd (env, ev) = Outside o'" for o' using assms(8) that by simp
  from call_step_tables [OF assms(6,7) c'(1) this] assms(9,11) c'(2) have "unregistered (load s c) c'"
    by (auto simp: live_def)
  with assms(4) c'(2) have "sv_active s' (sl_tag (ic_leg d)) = None" by (simp add: unregistered_def)
  with assms c'(2) show ?thesis
    by (simp add: live_def find_call_def onBye_def unhandled_answer_def)
qed

text \<open>A server that admits an INVITE of a trunk without credentials.\<close>

definition example_invite_env :: "nat invite_env" where
  "example_invite_env =
     \<lparr>pe_call = example_call_env, pe_parse_source = (\<lambda>src. Inr (''10.0.0.2'', ''10.0.0.2:5060'')), pe_call_id = ''SCL_1'',
      pe_contact = getContactURI zero_config None, pe_via = (\<lambda>req. []),
      pe_rpc = (\<lambda>q. Inr \<lparr>ar_drop = False, ar_username = '''', ar_password = '''', ar_project_id = '''',
                          ar_sip_trunk_id = ''ST_1''\<rparr>),
      pe_io_client = (\<lambda>p. True), pe_region = '''', pe_draw = 0, pe_now_us = 0,
      pe_get = (\<lambda>c k. None), pe_add = (\<lambda>c k n. c), pe_credentials = (\<lambda>v. Inl (PlainErr ''bad'')),
      pe_digest = (\<lambda>ch opt. Inr '''')\<rparr>"

lemma example_admitted:
  "\<exists>s c. runs server_step (NewServer 0 mon) [SInvite example_invite_env example_invite] s
     \<and> sv_calls s ''SCL_1'' = Some c \<and> ic_pc c = PStart \<and> sv_active s ''t1'' = Some ''SCL_1''"
proof -
  have leg: "ValidateInvite (screened_leg example_invite_env example_invite) = None"
    "sl_tag (screened_leg example_invite_env example_invite) = ''t1''"
    by (simp_all add: screened_leg_def newInbound_def ValidateInvite_def example_invite_def bare_request_def getTagFrom_def)
  have v: "invite_verdict example_invite_env example_invite (NewServer 0 mon) = Admit"
    using leg by (simp add: invite_verdict_def auth_verdict_def GetAuthCredentials_def example_invite_env_def zero_auth_info_def)
  obtain s r where run: "processInvite example_invite_env example_invite (NewServer 0 mon) = Returns (s, r)"
    and adm: "admitted example_invite_env example_invite (NewServer 0 mon) s r"
    using processInvite_verdict [of example_invite_env example_invite "NewServer 0 mon"] v by auto
  from adm obtain c replies where r: "r = Taken c replies" unfolding admitted_def by blast
  have id: "pe_call_id example_invite_env = ''SCL_1''" by (simp add: example_invite_env_def)
  note t = admitted_taken [OF adm [unfolded r]]
  have "sl_tag (ic_leg c) = ''t1''" using leg_reach_ids t leg(2) by metis
  moreover have "server_step (SInvite example_invite_env example_invite) (NewServer 0 mon) = Returns s"
    using run by (simp add: NewServer_def)
  then have "runs server_step (NewServer 0 mon) [SInvite example_invite_env example_invite] s"
    by (rule runs_one)
  ultimately show ?thesis
    using t by (intro exI [of _ s] exI [of _ c]) (simp add: id)
qed

theorem server_registry_witness:
  "\<forall>mon. \<exists>s. runs server_step (NewServer (0::nat) mon) [SInvite example_invite_env example_invite] s
     \<and> (\<exists>c. sv_calls s ''SCL_1'' = Some c \<and> \<not> ic_done c \<and> sl_tag (ic_leg c) = ''t1'')"
proof
  fix mon
  obtain s where s: "runs server_step (NewServer 0 mon) [SInvite example_invite_env example_invite] s"
    "sv_active s ''t1'' = Some ''SCL_1''"
    using example_admitted by blast
  from server_registry [OF s(1)] s show "\<exists>s. runs server_step (NewServer 0 mon) [SInvite example_invite_env example_invite] s
     \<and> (\<exists>c. sv_calls s ''SCL_1'' = Some c \<and> \<not> ic_done c \<and> sl_tag (ic_leg c) = ''t1'')"
    by auto
qed

theorem bye_reaches_its_call_witness:
  "\<forall>mon. \<exists>s. runs server_step (NewServer (0::nat) mon) [SInvite example_invite_env example_invite] s
     \<and> snd (onBye None (example_invite\<lparr>req_method := ''BYE''\<rparr>) s) = None"
proof
  fix mon
  let ?req = "example_invite\<lparr>req_method := ''BYE''\<rparr>"
  obtain s where s: "runs server_step (NewServer 0 mon) [SInvite example_invite_env example_invite] s"
    "sv_active s ''t1'' = Some ''SCL_1''"
    using example_admitted by blast
  have tag: "getFromTag ?req = Inr ''t1''"
    by (simp add: getFromTag_def example_invite_def bare_request_def getTagFrom_def)
  from bye_reaches_its_call [OF s(1) _ tag, where unhandled = None] s
  show "\<exists>s. runs server_step (NewServer 0 mon) [SInvite example_invite_env example_invite] s
     \<and> snd (onBye None ?req s) = None"
    by auto
qed

theorem closing_hides_same_tag_witness:
  "\<forall>mon. \<exists>(s :: nat server) s' d. sv_active s ''t1'' = Some ''SCL_2'' \<and> sv_calls s ''SCL_2'' = Some d
     \<and> server_call ''SCL_1'' (example_call_env, Handler (HDispatch no_rule)) s = Returns s'
     \<and> live s' ''SCL_2'' \<and> snd (onBye None example_invite s') = Some (481, ''Call does not exist'')"
proof
  fix mon
  define c where "c = (example_call mon)\<lparr>ic_pc := PDispatch, ic_cmon := (NewCall Inbound ''a'' ''b'')\<lparr>cm_started := True\<rparr>\<rparr>"
  define d where "d = (example_call mon)\<lparr>ic_leg := (ic_leg (example_call mon))\<lparr>sl_id := ''SCL_2''\<rparr>\<rparr>"
  define s where "s = (NewServer (0::nat) mon)\<lparr>sv_calls := [''SCL_1'' \<mapsto> c, ''SCL_2'' \<mapsto> d], sv_active := [''t1'' \<mapsto> ''SCL_2'']\<rparr>"
  have calls: "sv_calls s ''SCL_1'' = Some c" "sv_calls s ''SCL_2'' = Some d" by (simp_all add: s_def)
  have nd: "\<not> ic_done c" "\<not> ic_done d" "sl_invite_ok (ic_leg (load s c)) = None"
    by (simp_all add: c_def d_def new_call_def newInboundCall_def newInbound_def)
  have tag: "sl_tag (ic_leg c) = ''t1''" "sl_tag (ic_leg d) = ''t1''"
    by (simp_all add: c_def d_def newInbound_def example_invite_def bare_request_def getTagFrom_def)
  have "life_inv (first_cseq example_invite) c"
    using new_call_life [of example_invite example_call_env False "NewCall Inbound ''a'' ''b''" mon]
    by (auto simp: life_inv_def c_def new_call_def newInboundCall_def open_call_def)
  then have life: "life_inv (first_cseq example_invite) (load s c)"
    using life_load nd(1) by blast
  have pc: "ic_pc (load s c) = PDispatch" by (simp add: c_def)
  have "cd_result no_rule = DispatchNoRuleDrop" by (simp add: no_rule_def)
  from drop_dispatch [OF pc nd(3) _ this] nd(1) obtain c' where
    c': "call_step (example_call_env, Handler (HDispatch no_rule)) (load s c) = Returns c'" "ic_done c'" by auto
  then have step: "server_call ''SCL_1'' (example_call_env, Handler (HDispatch no_rule)) s = Returns (store ''SCL_1'' c' s)"
    by (simp add: server_call_def calls)
  have dead: "\<not> live (store ''SCL_1'' c' s) ''SCL_1''" using c'(2) by (simp add: live_def)
  have req: "getFromTag example_invite = Inr (sl_tag (ic_leg d))"
    unfolding tag by (simp add: getFromTag_def example_invite_def bare_request_def getTagFrom_def)
  have res: "sv_calls (store ''SCL_1'' c' s) ''SCL_2'' = Some d \<and> live (store ''SCL_1'' c' s) ''SCL_2''
     \<and> find_call (sl_tag (ic_leg d)) (store ''SCL_1'' c' s) = None
     \<and> onBye None example_invite (store ''SCL_1'' c' s) = (store ''SCL_1'' c' s, Some (481, ''Call does not exist''))"
    by (rule closing_hides_same_tag [OF calls _ _ nd(2) life _ _ nd(1) step dead req]) (simp_all add: tag)
  have "sv_active s ''t1'' = Some ''SCL_2''" by (simp add: s_def)
  with calls(2) step res show "\<exists>(s :: nat server) s' d. sv_active s ''t1'' = Some ''SCL_2'' \<and> sv_calls s ''SCL_2'' = Some d
     \<and> server_call ''SCL_1'' (example_call_env, Handler (HDispatch no_rule)) s = Returns s'
     \<and> live s' ''SCL_2'' \<and> snd (onBye None example_invite s') = Some (481, ''Call does not exist'')"
    by (intro exI [of _ s] exI [of _ "store ''SCL_1'' c' s"] exI [of _ d]) simp
qed

end
