(* ===== verification/Outbound_Client.thy ===== *)
theory Outbound_Client
  imports Outbound_Conduct Inbound_Server
begin

text \<open>
  The client of outbound calls (\<open>Client\<close> in \<open>pkg/sip/client.go\<close>): the request that makes a
  call (its checks, and then the making of the call), the requests of a dialog the server did not
  handle, and stopping. The calls are the
  machines of \<open>Outbound_Call\<close>, which share the tables and metrics of the client.
\<close>

section \<open>State\<close>

text \<open>A request to make a call.\<close>

record create_request =
  cr_call_to :: string
  cr_address :: string
  cr_number :: string
  cr_room_name :: string
  cr_hostname :: string
  cr_transport :: sip_transport
  cr_username :: string
  cr_password :: string
  cr_dtmf :: string
  cr_play_dialtone :: bool
  cr_headers :: "(string \<times> string) list"
  cr_include_headers :: header_options
  cr_headers_to_attributes :: "(string \<times> string) list"
  cr_attributes_to_headers :: "(string \<times> string) list"
  cr_ringing_timeout :: duration
  cr_max_call_duration :: duration
  cr_features :: "string list"
  cr_media_encryption :: sip_media_encryption
  cr_display_name :: "string option"
  cr_project_id :: string
  cr_sip_trunk_id :: string
  cr_sip_call_id :: string
  cr_ws_url :: string
  cr_token :: string
  cr_identity :: string
  cr_name :: string
  cr_metadata :: string
  cr_attributes :: "(string \<rightharpoonup> string) option"
  cr_wait_until_answered :: bool

text \<open>
  Every call made so far by its identifier, ended ones too; the requests that passed the checks
  and whose call is not in the tables yet, as its media port is opened and its room is joined.
\<close>

record client =
  cl_creating :: "(create_request \<times> sdp_encryption) list"
  cl_calls :: "string \<rightharpoonup> ocall"
  cl_active :: "string \<rightharpoonup> string"
  cl_by_remote :: "string \<rightharpoonup> string"
  cl_monitor :: monitor
  cl_closing :: bool

definition NewClient :: "monitor \<Rightarrow> client" where
  "NewClient mon =
     \<lparr>cl_creating = [], cl_calls = Map.empty, cl_active = Map.empty, cl_by_remote = Map.empty, cl_monitor = mon, cl_closing = False\<rparr>"

text \<open>A call works on the tables and metrics of the client.\<close>

definition oload :: "client \<Rightarrow> ocall \<Rightarrow> ocall" where
  "oload s c = c\<lparr>oc_active := cl_active s, oc_by_remote := cl_by_remote s, oc_monitor := cl_monitor s\<rparr>"

definition ostore :: "string \<Rightarrow> ocall \<Rightarrow> client \<Rightarrow> client" where
  "ostore lid c s =
     s\<lparr>cl_calls := (cl_calls s)(lid \<mapsto> c), cl_active := oc_active c, cl_by_remote := oc_by_remote c,
       cl_monitor := oc_monitor c\<rparr>"

definition client_call :: "string \<Rightarrow> ocall_env \<times> ocall_event \<Rightarrow> client \<Rightarrow> client outcome" where
  "client_call lid e s =
     (case cl_calls s lid of
        None \<Rightarrow> Blocked
      | Some c \<Rightarrow> bind_outcome (ocall_step e (oload s c)) (\<lambda>c. Returns (ostore lid c s)))"

section \<open>Making a call\<close>

record create_response =
  cp_participant_id :: string
  cp_participant_identity :: string
  cp_sip_call_id :: string

text \<open>
  What making a call needs: the surroundings of a call (the configuration is theirs), the
  health of the node, the region, our signaling address, whether a project has a client for
  state reports, the random draw, and the answers of the media port and the room.
\<close>

record create_env =
  ke_call :: ocall_env
  ke_health :: health_status
  ke_region :: string
  ke_signaling_ip :: ip_addr
  ke_io_client :: "string \<Rightarrow> bool"
  ke_draw :: real
  ke_listen :: "go_error option"
  ke_join :: join_answers

definition ContactURI :: "create_env \<Rightarrow> transport \<Rightarrow> URI" where
  "ContactURI ke tr = getContactURI (oe_conf (ke_call ke)) (ke_signaling_ip ke) tr"

definition ErrUnavailable :: go_error where
  "ErrUnavailable = PsrpcErr Unavailable ''cpu exhausted'' None"

definition invalid_argument :: "string \<Rightarrow> go_error" where
  "invalid_argument msg = PsrpcErr InvalidArgument msg None"

text \<open>The checks, in their order; what passes them has its encryption.\<close>

definition check_create :: "health_status \<Rightarrow> create_request \<Rightarrow> go_error + sdp_encryption" where
  "check_create health req =
     (if health \<noteq> HealthOK then Inl ErrUnavailable
      else if cr_call_to req = '''' then Inl (invalid_argument ''call-to number must be set'')
      else if cr_address req = '''' then Inl (invalid_argument ''trunk adresss must be set'')
      else if cr_number req = '''' then Inl (invalid_argument ''trunk outbound number must be set'')
      else if cr_room_name req = '''' then Inl (invalid_argument ''room name must be set'')
      else if str_contains (cr_call_to req) ''@''
      then Inl (invalid_argument ''call_to should be a phone number or SIP user, not a full SIP URI'')
      else if prefix ''sip:'' (cr_address req) \<or> prefix ''sips:'' (cr_address req)
      then Inl (invalid_argument ''address must be a hostname without 'sip:' prefix'')
      else if str_contains (cr_address req) ''transport=''
      then Inl (invalid_argument ''address must not contain parameters; use transport field'')
      else if contains_any (cr_address req) '';=''
      then Inl (invalid_argument ''address must not contain parameters'')
      else case sdpEncryption (cr_media_encryption req) of
             (enc, Some e) \<Rightarrow> Inl e
           | (enc, None) \<Rightarrow> Inr enc)"

definition createSIPCallInfo :: "create_env \<Rightarrow> create_request \<Rightarrow> sip_call_info" where
  "createSIPCallInfo ke req =
     (let toUri = CreateURIFromUserAndAddress (cr_call_to req) (cr_address req) (TransportFrom (cr_transport req));
          fromiUri = \<lparr>User = cr_number req, Host = cr_hostname req, Addr = ke_signaling_ip ke,
                      Port = word_of_int (cf_sip_port (oe_conf (ke_call ke))), Transport = ''''\<rparr>
      in empty_call_info\<lparr>
           ci_call_id := cr_sip_call_id req, ci_region := ke_region ke, ci_trunk_id := cr_sip_trunk_id req,
           ci_room_name := cr_room_name req, ci_participant_identity := cr_identity req,
           ci_participant_attributes := (case cr_attributes req of None \<Rightarrow> Map.empty | Some m \<Rightarrow> m),
           ci_direction := SCD_OUTBOUND, ci_to_uri := Some (URI_ToSIPUri toUri),
           ci_from_uri := Some (URI_ToSIPUri fromiUri), ci_created_at := oe_now (ke_call ke)\<rparr>)"

definition create_room :: "create_request \<Rightarrow> room_config" where
  "create_room req =
     \<lparr>rc_ws_url = cr_ws_url req, rc_token = cr_token req, rc_room_name = cr_room_name req,
      rc_participant = \<lparr>pc_identity = cr_identity req, pc_name = cr_name req, pc_metadata = cr_metadata req,
                        pc_attributes = cr_attributes req\<rparr>,
      rc_room_preset = '''', rc_room_config = None, rc_jitter_buf = False\<rparr>"

definition create_conf :: "sdp_encryption \<Rightarrow> create_request \<Rightarrow> out_conf" where
  "create_conf enc req =
     \<lparr>of_address = cr_address req, of_transport = cr_transport req, of_host = cr_hostname req, of_from = cr_number req,
      of_to = cr_call_to req, of_user = cr_username req, of_pass = cr_password req, of_dtmf = cr_dtmf req,
      of_dialtone = cr_play_dialtone req, of_headers = cr_headers req, of_include_headers = cr_include_headers req,
      of_headers_to_attrs = cr_headers_to_attributes req, of_attrs_to_headers = cr_attributes_to_headers req,
      of_ringing_timeout = cr_ringing_timeout req, of_max_call_duration = cr_max_call_duration req,
      of_features = cr_features req, of_encryption = enc, of_display_name = cr_display_name req\<rparr>"

text \<open>
  The request up to dialling: the error and what is reported with it, or the response, which is
  returned at once, or once the call was answered where the request waits for that.
\<close>

datatype create_result = CreateFailed go_error "CallState option" | CreateDials create_response

text \<open>What follows the checks.\<close>

definition make_call ::
  "create_env \<Rightarrow> sdp_encryption \<Rightarrow> create_request \<Rightarrow> client \<Rightarrow> (client \<times> create_result) outcome" where
  "make_call ke enc req s =
     (let st = NewCallState (ke_io_client ke (cr_project_id req)) (Some (createSIPCallInfo ke req));
          c = bare_call (ke_call ke) (ContactURI ke) (ke_draw ke) (cl_monitor s) (cr_sip_call_id req)
                (create_conf enc req) st (cr_project_id req) (cr_wait_until_answered req)
                (cl_active s) (cl_by_remote s)
      in bind_outcome (newCall (ke_call ke) (ke_listen ke) (ke_join ke) (create_room req) c) (\<lambda>(c, err).
           case err of
             Some e \<Rightarrow>
               Returns (s\<lparr>cl_active := oc_active c, cl_by_remote := oc_by_remote c, cl_monitor := oc_monitor c\<rparr>,
                        CreateFailed e
                          (Some (Update (oe_flush_ok (ke_call ke)) (reply_info (Some e)) (oc_state c))))
           | None \<Rightarrow>
               (let p = (case oc_room c of None \<Rightarrow> no_participant | Some r \<Rightarrow> rm_p r)
                in Returns (ostore (cr_sip_call_id req) c s,
                     CreateDials \<lparr>cp_participant_id = pi_id p, cp_participant_identity = pi_identity p,
                                  cp_sip_call_id = cr_sip_call_id req\<rparr>))))"

definition createSIPParticipant ::
  "create_env \<Rightarrow> create_request \<Rightarrow> client \<Rightarrow> (client \<times> create_result) outcome" where
  "createSIPParticipant ke req s =
     (case check_create (ke_health ke) req of
        Inl e \<Rightarrow> Returns (s, CreateFailed e None)
      | Inr enc \<Rightarrow> make_call ke enc req s)"

section \<open>Requests of a dialog\<close>

text \<open>\<open>getFromTag\<close> with its error ignored: an empty tag.\<close>

definition from_tag :: "sip_request \<Rightarrow> string" where
  "from_tag req = (case getFromTag req of Inl e \<Rightarrow> '''' | Inr tag \<Rightarrow> tag)"

definition find_ocall :: "string \<Rightarrow> client \<Rightarrow> (string \<times> ocall) option" where
  "find_ocall tag s = Option.bind (cl_by_remote s tag) (\<lambda>lid. map_option (\<lambda>c. (lid, oload s c)) (cl_calls s lid))"

text \<open>The client, the response it sends itself, and whether it took the request.\<close>

definition client_onBye :: "sip_request \<Rightarrow> client \<Rightarrow> client \<times> (int \<times> string) option \<times> bool" where
  "client_onBye req s =
     (case find_ocall (from_tag req) s of
        None \<Rightarrow> (s, Some (481, ''Call does not exist''), False)
      | Some (lid, c) \<Rightarrow>
          (ostore lid (c\<lparr>oc_leg := out_AcceptBye (oc_leg c), oc_closers := oc_closers c @ [CByBye]\<rparr>) s, None, True))"

definition client_onNotify ::
  "sip_request \<Rightarrow> client \<Rightarrow> (int \<times> response_text) option \<times> (string \<times> go_error option) option \<times> bool" where
  "client_onNotify req s =
     (case find_ocall (from_tag req) s of
        None \<Rightarrow> (None, None, False)
      | Some (lid, c) \<Rightarrow>
          (let (err, offer) = out_handleNotify req (so_refer_cseq (oc_leg c))
           in (Some (sipCodeAndMessageFromError err), map_option (Pair lid) offer, True)))"

datatype client_answer = ClientSilent | ClientText int string | ClientResponse int response_text

definition OnRequest :: "sip_request \<Rightarrow> client \<Rightarrow> client \<times> client_answer \<times> bool" where
  "OnRequest req s =
     (if req_method req = ''BYE''
      then (case client_onBye req s of
              (s, None, ok) \<Rightarrow> (s, ClientSilent, ok)
            | (s, Some (code, text), ok) \<Rightarrow> (s, ClientText code text, ok))
      else if req_method req = ''NOTIFY''
      then (case client_onNotify req s of
              (None, offer, ok) \<Rightarrow> (s, ClientSilent, ok)
            | (Some (code, msg), offer, ok) \<Rightarrow> (s, ClientResponse code msg, ok))
      else (s, ClientSilent, False))"

definition client_Stop :: "client \<Rightarrow> client" where
  "client_Stop s =
     s\<lparr>cl_closing := True, cl_active := Map.empty, cl_by_remote := Map.empty,
       cl_calls := (\<lambda>lid. map_option (\<lambda>c. if cl_active s lid \<noteq> None then c\<lparr>oc_closers := oc_closers c @ [CByStop]\<rparr> else c)
                            (cl_calls s lid))\<rparr>"

section \<open>The client as a state machine\<close>

text \<open>
  The checks of a request that makes a call, which see the health of the node at that moment;
  what follows them for the \<open>n\<close>-th request that passed them; steps of the calls, which see
  whether the client is closing; requests of a dialog; stopping. What a call sees of the others is
  what is in the tables.

  After the checks the code opens the media port and joins the room, which takes time, and only then
  enters the call into the table. These are one step, \<open>CMake\<close>, taken when the call is entered:
  until then the call is known to its own request only, and the port and the room act on nothing
  else. The identifier of a call is new: the backend that sends the requests draws it for the
  call. (The code does not look, and a second call of the same identifier would take the entry
  of the first.)
\<close>

datatype client_event =
    CCheck health_status create_request
  | CMake create_env nat
  | CCall string ocall_env ocall_event
  | CRequest sip_request
  | CStop

definition without :: "nat \<Rightarrow> 'a list \<Rightarrow> 'a list" where
  "without n xs = take n xs @ drop (Suc n) xs"

fun of_client :: "ocall_event \<Rightarrow> bool" where
  "of_client (Around YStop) = True"
| "of_client (Around YBye) = True"
| "of_client (Around (YOtherCall tag lid)) = True"
| "of_client (Around (YOtherGone tag lid)) = True"
| "of_client _ = False"

fun client_step :: "client_event \<Rightarrow> client \<Rightarrow> client outcome" where
  "client_step (CCheck health req) s =
     (case check_create health req of
        Inl e \<Rightarrow> Returns s
      | Inr enc \<Rightarrow> Returns (s\<lparr>cl_creating := cl_creating s @ [(req, enc)]\<rparr>))"
| "client_step (CMake ke n) s =
     (if length (cl_creating s) \<le> n then Blocked
      else let (req, enc) = cl_creating s ! n
           in if cr_sip_call_id req \<in> dom (cl_calls s) then Blocked
              else bind_outcome (make_call ke enc req (s\<lparr>cl_creating := without n (cl_creating s)\<rparr>)) (\<lambda>(s, r). Returns s))"
| "client_step (CCall lid env e) s =
     (if of_client e \<or> oe_closing (oe_leg env) \<noteq> cl_closing s then Blocked else client_call lid (env, e) s)"
| "client_step (CRequest req) s = Returns (fst (OnRequest req s))"
| "client_step CStop s = Returns (client_Stop s)"

section \<open>The tables\<close>

text \<open>What a step of a call does to the entries of the others, and to its own.\<close>

definition own_tables :: "string \<Rightarrow> ocall \<Rightarrow> ocall \<Rightarrow> bool" where
  "own_tables lid c c' \<longleftrightarrow>
     (\<forall>l. l \<noteq> lid \<longrightarrow> oc_active c' l = oc_active c l)
     \<and> (\<forall>t l. l \<noteq> lid \<longrightarrow> oc_by_remote c' t = Some l \<longrightarrow> oc_by_remote c t = Some l)
     \<and> (\<not> oc_stopped c' \<longrightarrow> oc_active c' lid = oc_active c lid)"

lemma own_tables_same: "oc_active c' = oc_active c \<Longrightarrow> oc_by_remote c' = oc_by_remote c \<Longrightarrow> own_tables lid c c'"
  by (simp add: own_tables_def)

lemma own_tables_closed: "oclosed_by env c c' \<Longrightarrow> so_id (oc_leg c) = lid \<Longrightarrow> own_tables lid c c'"
  by (auto simp: own_tables_def oclosed_by_def split: if_splits)

lemma oc_transfer_finish_tables:
  assumes "oc_transfer_finish env tid swapped retErr s = Returns s'"
  shows "oc_active s' = oc_active s \<and> oc_by_remote s' = oc_by_remote s"
proof -
  define t where "t = (if retErr = None
     then (olog OHangupAfterTransfer s)\<lparr>oc_closers := oc_closers s @ [CByTransfer]\<rparr> else s)"
  from assms obtain u st where u: "oc_transfer_restore swapped retErr t = Returns u"
    and s': "s' = u\<lparr>oc_state := st, oc_pending := filter (\<lambda>p. fst p \<noteq> tid) (oc_pending u)\<rparr>"
    by (auto simp: oc_transfer_finish_def Let_def bind_outcome_Returns t_def)
  have "oc_active u = oc_active t \<and> oc_by_remote u = oc_by_remote t"
    using u by (auto simp: oc_transfer_restore_def split: option.splits if_splits)
  then show ?thesis by (simp add: s' t_def)
qed

lemma oc_transfer_begin_tables:
  assumes "oc_transfer_begin env tid to headers dialtone tx_err s = Returns s'"
  shows "oc_active s' = oc_active s \<and> oc_by_remote s' = oc_by_remote s"
proof -
  from assms obtain st tid' where run:
    "oc_transfer_refer env tid' to headers tx_err (oc_transfer_mute env dialtone (s\<lparr>oc_state := st\<rparr>)) = Returns s'"
    by (auto simp: oc_transfer_begin_def bind_outcome_Returns)
  obtain t swapped where t: "oc_transfer_mute env dialtone (s\<lparr>oc_state := st\<rparr>) = (t, swapped)" by fastforce
  then have tt: "oc_active t = oc_active s \<and> oc_by_remote t = oc_by_remote s"
    by (auto simp: oc_transfer_mute_def split: if_splits)
  from run t obtain leg err where
    rest: "(case err of Some e \<Rightarrow> oc_transfer_finish env tid' swapped (Some e) (t\<lparr>oc_leg := leg\<rparr>)
       | None \<Rightarrow> Returns (t\<lparr>oc_leg := leg, oc_pending := oc_pending t @ [(tid', swapped)]\<rparr>)) = Returns s'"
    by (auto simp: oc_transfer_refer_def bind_outcome_Returns Let_def)
  show ?thesis
  proof (cases err)
    case None
    with rest tt show ?thesis by auto
  next
    case (Some e)
    with rest oc_transfer_finish_tables [of env tid' swapped "Some e"] tt show ?thesis by fastforce
  qed
qed

lemma around_tables:
  assumes "around_step env e s = Returns s'" and "\<not> of_client (Around e)" and "so_id (oc_leg s) = lid"
  shows "own_tables lid s s'"
  using assms(1)
proof (cases rule: around_step_cases)
  case (Closes c)
  define t where "t = s\<lparr>oc_closers := remove1 c (oc_closers s)\<rparr>"
  from Closes(4) [folded t_def] show ?thesis
  proof (cases rule: close_for_cases)
    case Already
    then show ?thesis by (intro own_tables_same) (simp_all add: t_def)
  next
    case Closed
    then have "own_tables lid t s'" by (rule own_tables_closed) (simp add: t_def assms(3))
    then show ?thesis by (simp add: own_tables_def t_def)
  qed
next
  case Keeps
  show ?thesis
  proof (cases e)
    case (YDtmf tone)
    with assms(1) show ?thesis
      by (intro own_tables_same) (auto simp: oc_handleDTMF_def bind_outcome_Returns split: option.splits if_splits)
  next
    case (YTransfer tid to headers dialtone tx_err)
    with assms(1) oc_transfer_begin_tables show ?thesis by (intro own_tables_same) (auto split: if_splits)
  next
    case (YTransferResult tid result)
    with assms(1) oc_transfer_finish_tables show ?thesis by (intro own_tables_same) (auto split: option.splits)
  next
    case (YCloser c)
    with assms(1) obtain "close_for env c (s\<lparr>oc_closers := remove1 c (oc_closers s)\<rparr>) = Returns s'"
      by (auto simp: run_closer_def split: if_splits)
    then show ?thesis
    proof (cases rule: close_for_cases)
      case Closed
      then have "own_tables lid (s\<lparr>oc_closers := remove1 c (oc_closers s)\<rparr>) s'"
        by (rule own_tables_closed) (simp add: assms(3))
      then show ?thesis by (simp add: own_tables_def)
    qed (simp add: own_tables_def)
  qed (use assms in \<open>auto intro!: own_tables_same split: option.splits if_splits\<close>)
qed

lemma dial_tables:
  assumes "dial_step env e (oc_pc s) s = Returns s'" and "so_id (oc_leg s) = lid"
  shows "own_tables lid s s'"
proof (cases "oc_pc s")
  case ODial
  with assms(1) have "dial_start s = Returns s'" by (auto split: dial_event.splits)
  then show ?thesis by (cases rule: dial_start_cases) (auto intro!: own_tables_same)
next
  case OInvite
  with assms(1) obtain sg where "signal_invite env sg s = Returns s'" by (auto split: dial_event.splits)
  then show ?thesis
  proof (cases rule: signal_invite_cases)
    case (Sent leg seen r t pc to offer)
    with chats_fields(5,6) [OF Sent(2)] show ?thesis by (intro own_tables_same) simp_all
  qed (auto intro!: own_tables_same)
next
  case (ORefused err)
  with assms(1) have "signal_refused env err s = Returns s'" by (auto split: dial_event.splits)
  then show ?thesis by (cases rule: signal_refused_cases) (auto intro!: own_tables_same)
next
  case (OAnswer o' a)
  with assms(1) obtain sg where "signal_answer env sg o' a s = Returns s'" by (auto split: dial_event.splits)
  then show ?thesis
    by (cases rule: signal_answer_cases) (use assms(2) in \<open>auto simp: own_tables_def split: if_splits\<close>)
next
  case (OConfirm codec)
  with assms(1) obtain w where "signal_confirm w codec s = Returns s'" by (auto split: dial_event.splits)
  then show ?thesis by (cases rule: signal_confirm_cases) (auto intro!: own_tables_same)
next
  case (OAnswered codec)
  with assms(1) obtain ts err old rs where "dial_answered env ts err old rs codec s = Returns s'"
    by (auto split: dial_event.splits)
  then show ?thesis
  proof (cases rule: dial_answered_cases)
    case (Failed t e u)
    with chats_fields(5,6) [OF Failed(1)] chats_fields(5,6) [OF Failed(2)] show ?thesis by (intro own_tables_same) auto
  next
    case (Active t u v x m m' r)
    with chats_fields(5,6) [OF Active(1)] chats_fields(5,6) [OF Active(2)] chats_fields(5,6) [OF Active(4)] show ?thesis
      by (intro own_tables_same) auto
  qed
next
  case (OFail err)
  with assms(1) have "dial_failed env err s = Returns s'" by (auto split: dial_event.splits)
  then show ?thesis
  proof (cases rule: dial_failed_cases)
    case (Closed t)
    from own_tables_closed [OF Closed(1) assms(2)] Closed(2) show ?thesis by (simp add: own_tables_def)
  qed (auto intro!: own_tables_same)
next
  case OActive
  with assms(1) have "dial_active env s = Returns s'" by (auto split: dial_event.splits)
  then show ?thesis by (cases rule: dial_active_cases) (auto intro!: own_tables_same)
next
  case (ODone err)
  with assms(1) have "dial_done env err s = Returns s'" by (auto split: dial_event.splits)
  from dial_done_shape [OF this] show ?thesis by (auto intro!: own_tables_same simp: ensureClosed_def)
next
  case OWait
  with assms(1) obtain ev where "wait_close env ev s = Returns s'" by (auto split: dial_event.splits)
  then show ?thesis
  proof (cases rule: wait_close_cases)
    case (Leaves err st t)
    from Leaves(2) show ?thesis
    proof
      assume "oclosed_by env s t"
      from own_tables_closed [OF this assms(2)] Leaves(1) show ?thesis by (simp add: own_tables_def)
    qed (use Leaves(1) in \<open>simp add: own_tables_def\<close>)
  qed (auto intro!: own_tables_same)
next
  case (OLeave err)
  with assms(1) show ?thesis
    by (auto intro!: own_tables_same simp: wait_leave_def ensureClosed_def split: dial_event.splits)
qed (use assms(1) in simp)

lemma ocall_tables:
  assumes "ocall_step (env, e) s = Returns s'" and "\<not> of_client e" and "so_id (oc_leg s) = lid"
  shows "own_tables lid s s'"
proof (cases e)
  case (Dialer d)
  with assms dial_tables show ?thesis by simp
next
  case (Around a)
  with assms(1) have "around_step env a s = Returns s'" by simp
  from around_tables [OF this _ assms(3)] assms(2) Around show ?thesis by simp
qed

text \<open>A call that is stopped stays so.\<close>

lemma ocall_step_stopped:
  assumes "ocall_step (env, e) s = Returns s'" and "oc_stopped s"
  shows "oc_stopped s'"
proof (cases e)
  case (Around a)
  with assms(1) have "around_step env a s = Returns s'" by simp
  then show ?thesis
  proof (cases rule: around_step_cases)
    case (Closes c)
    from Closes(4) show ?thesis by (cases rule: close_for_cases) (use assms(2) in \<open>auto simp: oclosed_by_def\<close>)
  qed (use assms(2) in \<open>simp add: same_ocore_def\<close>)
next
  case (Dialer d)
  with assms(1) have step: "dial_step env d (oc_pc s) s = Returns s'" by simp
  show ?thesis
  proof (cases "oc_pc s")
    case ODial
    with step have "dial_start s = Returns s'" by (auto split: dial_event.splits)
    then show ?thesis by (cases rule: dial_start_cases) (use assms(2) in auto)
  next
    case OInvite
    with step obtain sg where "signal_invite env sg s = Returns s'" by (auto split: dial_event.splits)
    then show ?thesis
    proof (cases rule: signal_invite_cases)
      case (Sent leg seen r t pc to offer)
      with chats_fields(7) [OF Sent(2)] assms(2) show ?thesis by simp
    qed (use assms(2) in simp)
  next
    case (ORefused err)
    with step have "signal_refused env err s = Returns s'" by (auto split: dial_event.splits)
    then show ?thesis by (cases rule: signal_refused_cases) (use assms(2) in auto)
  next
    case (OAnswer o' a)
    with step obtain sg where "signal_answer env sg o' a s = Returns s'" by (auto split: dial_event.splits)
    then show ?thesis by (cases rule: signal_answer_cases) (use assms(2) in auto)
  next
    case (OConfirm codec)
    with step obtain w where "signal_confirm w codec s = Returns s'" by (auto split: dial_event.splits)
    then show ?thesis by (cases rule: signal_confirm_cases) (use assms(2) in auto)
  next
    case (OAnswered codec)
    with step obtain ts err old rs where "dial_answered env ts err old rs codec s = Returns s'"
      by (auto split: dial_event.splits)
    then show ?thesis
    proof (cases rule: dial_answered_cases)
      case (Failed t e u)
      with chats_fields(7) [OF Failed(1)] chats_fields(7) [OF Failed(2)] assms(2) show ?thesis by auto
    next
      case (Active t u v x m m' r)
      with chats_fields(7) [OF Active(1)] chats_fields(7) [OF Active(2)] chats_fields(7) [OF Active(4)] assms(2)
      show ?thesis by auto
    qed
  next
    case (OFail err)
    with step have "dial_failed env err s = Returns s'" by (auto split: dial_event.splits)
    then show ?thesis by (cases rule: dial_failed_cases) (use assms(2) in \<open>auto simp: oclosed_by_def\<close>)
  next
    case OActive
    with step have "dial_active env s = Returns s'" by (auto split: dial_event.splits)
    then show ?thesis by (cases rule: dial_active_cases) (use assms(2) in auto)
  next
    case (ODone err)
    with step have "dial_done env err s = Returns s'" by (auto split: dial_event.splits)
    from dial_done_shape [OF this] assms(2) show ?thesis by (auto simp: ensureClosed_def)
  next
    case OWait
    with step obtain ev where "wait_close env ev s = Returns s'" by (auto split: dial_event.splits)
    then show ?thesis by (cases rule: wait_close_cases) (use assms(2) in \<open>auto simp: oclosed_by_def\<close>)
  next
    case (OLeave err)
    with step assms(2) show ?thesis by (auto simp: wait_leave_def ensureClosed_def split: dial_event.splits)
  qed (use step in simp)
qed

definition client_inv :: "client \<Rightarrow> bool" where
  "client_inv s \<longleftrightarrow>
     (\<forall>lid c. cl_calls s lid = Some c \<longrightarrow> olife lid (oload s c))
   \<and> (\<forall>lid. cl_active s lid \<noteq> None \<longrightarrow> (\<exists>c. cl_calls s lid = Some c \<and> \<not> oc_stopped c))
   \<and> (\<forall>t lid. cl_by_remote s t = Some lid \<longrightarrow>
        (\<exists>c. cl_calls s lid = Some c \<and> so_tag (oc_leg c) = t \<and> \<not> pc_unanswered (oc_pc c) \<and> (t \<noteq> '''' \<longrightarrow> \<not> oc_stopped c)))
   \<and> (\<not> cl_closing s \<longrightarrow> (\<forall>lid c. cl_calls s lid = Some c \<longrightarrow> \<not> oc_stopped c \<longrightarrow> cl_active s lid \<noteq> None))"

lemma oload_frame [simp]:
  "oc_leg (oload s c) = oc_leg c" "oc_stopped (oload s c) = oc_stopped c" "oc_pc (oload s c) = oc_pc c"
  "oc_active (oload s c) = cl_active s" "oc_by_remote (oload s c) = cl_by_remote s" "oc_media (oload s c) = oc_media c"
  "oc_room (oload s c) = oc_room c" "oc_log (oload s c) = oc_log c" "oc_cmon (oload s c) = oc_cmon c"
  "oc_room_in (oload s c) = oc_room_in c" "oc_closers (oload s c) = oc_closers c" "oc_monitor (oload s c) = cl_monitor s"
  by (simp_all add: oload_def)

lemma oload_oload [simp]: "oload s (oload t c) = oload s c"
  by (simp add: oload_def)

lemma ostore_frame [simp]:
  "cl_calls (ostore lid c s) = (cl_calls s)(lid \<mapsto> c)" "cl_active (ostore lid c s) = oc_active c"
  "cl_by_remote (ostore lid c s) = oc_by_remote c" "cl_closing (ostore lid c s) = cl_closing s"
  by (simp_all add: ostore_def)

lemma oload_ostore_same [simp]: "oload (ostore lid c s) c = c"
  by (simp add: oload_def ostore_def)

lemma olife_oload:
  assumes "olife l (oload s d)" and "cl_active s l = None \<Longrightarrow> cl_active s' l = None"
    and "\<And>t. cl_by_remote s' t = Some l \<Longrightarrow> cl_by_remote s t = Some l"
  shows "olife l (oload s' d)"
proof -
  have "ocore l (oload s' d)"
    by (rule ocore_cong [of l "oload s d"]) (use assms in \<open>simp_all add: olife_def\<close>)
  with assms show ?thesis by (auto simp: olife_def)
qed

lemma ostore_inv:
  assumes inv: "client_inv s" and life: "olife lid c"
    and active: "\<And>l. l \<noteq> lid \<Longrightarrow> oc_active c l = cl_active s l"
    and by_remote: "\<And>t l. l \<noteq> lid \<Longrightarrow> oc_by_remote c t = Some l \<Longrightarrow> cl_by_remote s t = Some l"
    and kept: "\<not> cl_closing s \<Longrightarrow> \<not> oc_stopped c \<Longrightarrow> oc_active c lid \<noteq> None"
  shows "client_inv (ostore lid c s)"
proof -
  have 1: "olife l (oload (ostore lid c s) d)" if "cl_calls (ostore lid c s) l = Some d" for l d
  proof (cases "l = lid")
    case True
    with that life show ?thesis by simp
  next
    case False
    with that inv have "olife l (oload s d)" by (simp add: client_inv_def)
    then show ?thesis by (rule olife_oload) (use active [OF False] by_remote [OF False] in auto)
  qed
  have 2: "\<exists>d. cl_calls (ostore lid c s) l = Some d \<and> \<not> oc_stopped d" if "cl_active (ostore lid c s) l \<noteq> None" for l
  proof (cases "l = lid")
    case True
    with that life show ?thesis by (auto simp: olife_def ocore_def split: if_splits)
  next
    case False
    with that active [OF False] inv show ?thesis by (auto simp: client_inv_def)
  qed
  have 3: "\<exists>d. cl_calls (ostore lid c s) l = Some d \<and> so_tag (oc_leg d) = t \<and> \<not> pc_unanswered (oc_pc d)
      \<and> (t \<noteq> '''' \<longrightarrow> \<not> oc_stopped d)" if "cl_by_remote (ostore lid c s) t = Some l" for t l
  proof (cases "l = lid")
    case True
    with that life show ?thesis by (auto simp: olife_def ocore_def split: if_splits)
  next
    case False
    with that by_remote [OF False] have "cl_by_remote s t = Some l" by simp
    with inv False show ?thesis by (simp add: client_inv_def)
  qed
  have 4: "cl_active (ostore lid c s) l \<noteq> None"
    if "\<not> cl_closing s" "cl_calls (ostore lid c s) l = Some d" "\<not> oc_stopped d" for l d
  proof (cases "l = lid")
    case True
    with that kept show ?thesis by simp
  next
    case False
    with that active [OF False] inv show ?thesis by (simp add: client_inv_def)
  qed
  from 1 2 3 4 show ?thesis unfolding client_inv_def by simp
qed

lemma client_call_inv:
  assumes inv: "client_inv s" and own: "\<not> of_client e" and step: "client_call lid (env, e) s = Returns s'"
  shows "client_inv s'"
proof -
  from step obtain c c' where c: "cl_calls s lid = Some c" and c': "ocall_step (env, e) (oload s c) = Returns c'"
    and s': "s' = ostore lid c' s"
    by (auto simp: client_call_def bind_outcome_Returns split: option.splits)
  from inv c have life: "olife lid (oload s c)" by (simp add: client_inv_def)
  then have lid: "so_id (oc_leg (oload s c)) = lid" by (simp add: olife_def ocore_def)
  from ocall_tables [OF c' own lid] have tab: "own_tables lid (oload s c) c'" .
  show ?thesis unfolding s'
  proof (rule ostore_inv [OF inv ocall_step_life [OF life c']])
    show "oc_active c' lid \<noteq> None" if "\<not> cl_closing s" "\<not> oc_stopped c'"
    proof -
      from that(2) ocall_step_stopped [OF c'] have "\<not> oc_stopped c" by auto
      with inv c that have "cl_active s lid \<noteq> None" by (auto simp: client_inv_def)
      with tab that show ?thesis by (auto simp: own_tables_def)
    qed
  qed (use tab in \<open>auto simp: own_tables_def\<close>)
qed

text \<open>Making a call.\<close>

lemma bind_outcome_pairE:
  "bind_outcome m (\<lambda>(a, b). f a b) = Returns r \<Longrightarrow> (\<And>a b. m = Returns (a, b) \<Longrightarrow> f a b = Returns r \<Longrightarrow> thesis) \<Longrightarrow> thesis"
  by (cases m) auto

lemma connectToRoom_frame:
  assumes "connectToRoom env ja room s = Returns (s', e)"
  obtains xs r i where "s' = s\<lparr>oc_log := xs, oc_room := r, oc_room_in := i\<rparr>"
proof -
  define k where "k = (case room_attrs (rc_participant room) (oe_call_id_attr env) of None \<Rightarrow> '''' | Some v \<Rightarrow> v)"
  define t where "t = (if k \<noteq> '''' then olog (ORegisterTransfer k) s else s)"
  define rc where "rc = room\<lparr>rc_participant := (rc_participant room)\<lparr>pc_attributes :=
     Some ((room_attrs (rc_participant room))(oe_status_attr env \<mapsto> Attribute CallDialing))\<rparr>\<rparr>"
  obtain r1 e1 where c: "Connect (oe_keys env) (oe_conf env) (ja_sign ja) (ja_join ja) rc NewRoom = (r1, e1)" by fastforce
  have t: "\<exists>xs. t = s\<lparr>oc_log := xs\<rparr>" by (cases s) (simp add: t_def olog_def)
  have same: "\<exists>xs r i. s\<lparr>oc_log := ys\<rparr> = s\<lparr>oc_log := xs, oc_room := r, oc_room_in := i\<rparr>" for ys by (cases s) simp
  from assms c have "s' = t \<or> (\<exists>r. s' = t\<lparr>oc_room := Some r, oc_room_in := True\<rparr>)"
    unfolding connectToRoom_def Let_def k_def [symmetric] t_def [symmetric] rc_def [symmetric]
    by (auto simp: bind_outcome_Returns split: option.splits)
  with t same that show thesis by auto
qed

text \<open>With a media port, making a call comes back; without one it panics.\<close>

lemma connectToRoom_returns: "\<exists>r. connectToRoom env ja room s = Returns r"
proof -
  have joined: "rm_joined r" if "Connect keys conf sign join rc r0 = (r, None)" for keys conf sign join rc r0 r
    using that by (auto simp: Connect_def Let_def room_act_def split: sum.splits prod.splits)
  have "\<exists>x. NewParticipantTrack env r = Returns x" if "rm_joined r" for env r
    using that by (cases "te_track env"; cases "te_publish env") (simp_all add: NewParticipantTrack_def)
  then have track: "rm_joined r \<Longrightarrow> (\<And>x e. NewParticipantTrack env r = Returns (x, e) \<Longrightarrow> thesis) \<Longrightarrow> thesis" for env r thesis
    by (metis surj_pair)
  define rc where "rc = room\<lparr>rc_participant := (rc_participant room)\<lparr>pc_attributes :=
     Some ((room_attrs (rc_participant room))(oe_status_attr env \<mapsto> Attribute CallDialing))\<rparr>\<rparr>"
  obtain r1 e1 where c: "Connect (oe_keys env) (oe_conf env) (ja_sign ja) (ja_join ja) rc NewRoom = (r1, e1)" by fastforce
  show ?thesis
  proof (cases e1)
    case None
    with c joined have "rm_joined r1" by blast
    then obtain x e where "NewParticipantTrack (ja_track ja) r1 = Returns (x, e)" by (rule track)
    with c None show ?thesis by (cases e) (simp_all add: connectToRoom_def Let_def rc_def)
  next
    case (Some e)
    with c show ?thesis by (simp add: connectToRoom_def Let_def rc_def)
  qed
qed

lemma newCall_returns:
  "\<exists>c err. newCall env None ja room (bare_call env contact draw mon lid conf st pid sync active by_remote) = Returns (c, err)"
proof -
  define s0 where "s0 = bare_call env contact draw mon lid conf st pid sync active by_remote"
  have "so_invite_ok (oc_leg s0) = None" by (simp add: s0_def bare_call_def Let_def newOutbound_def)
  define rm where "rm = room\<lparr>rc_jitter_buf := oc_jitter s0\<rparr>"
  have "\<exists>t. oc_media t \<noteq> None \<and> so_invite_ok (oc_leg t) = None \<and> newCall env None ja room s0 =
      bind_outcome (connectToRoom env ja rm t) (\<lambda>(s, err).
                 case err of
                   Some e \<Rightarrow>
                     bind_outcome (oc_close env (Some (WrapErr ''room join failed'' e)) callDropped ''join-failed'' UNKNOWN_REASON s)
                       (\<lambda>s. Returns (s, Some (WrapErr ''update room failed'' e)))
                 | None \<Rightarrow>
                     Returns (s\<lparr>oc_active := (oc_active s)(so_id (oc_leg s) \<mapsto> so_id (oc_leg s))\<rparr>, None))"
    by (rule exI, intro conjI, rule_tac [3] trans, rule_tac [3] newCall_def)
      (simp_all add: Let_def NewMediaPort_def rm_def s0_def bare_call_def newOutbound_def)
  then obtain t where t: "oc_media t \<noteq> None" "so_invite_ok (oc_leg t) = None"
    and call: "newCall env None ja room s0 =
      bind_outcome (connectToRoom env ja rm t) (\<lambda>(s, err).
                 case err of
                   Some e \<Rightarrow>
                     bind_outcome (oc_close env (Some (WrapErr ''room join failed'' e)) callDropped ''join-failed'' UNKNOWN_REASON s)
                       (\<lambda>s. Returns (s, Some (WrapErr ''update room failed'' e)))
                 | None \<Rightarrow>
                     Returns (s\<lparr>oc_active := (oc_active s)(so_id (oc_leg s) \<mapsto> so_id (oc_leg s))\<rparr>, None))" by blast
  obtain u e where u: "connectToRoom env ja rm t = Returns (u, e)" using connectToRoom_returns by fastforce
  have "oc_media u \<noteq> None" "so_invite_ok (oc_leg u) = None" by (rule connectToRoom_frame [OF u]; use t in simp)+
  note closes = oc_close_returns [OF this]
  show ?thesis unfolding s0_def [symmetric]
  proof (cases e)
    case None
    with call u show "\<exists>c err. newCall env None ja room s0 = Returns (c, err)" by simp
  next
    case (Some x)
    from closes obtain v where "oc_close env (Some (WrapErr ''room join failed'' x)) callDropped ''join-failed'' UNKNOWN_REASON u
      = Returns v" by blast
    with call u Some show "\<exists>c err. newCall env None ja room s0 = Returns (c, err)" by simp
  qed
qed

lemma newCall_tables:
  assumes "newCall env listen ja room (bare_call env contact draw mon lid conf st pid sync active by_remote) = Returns (s, err)"
  shows "oc_by_remote s = by_remote" and "err = None \<Longrightarrow> oc_active s = active(lid \<mapsto> lid)"
    and "err \<noteq> None \<Longrightarrow> oc_active s = active(lid := None)"
proof -
  define s0 where "s0 = bare_call env contact draw mon lid conf st pid sync active by_remote"
  have f: "so_id (oc_leg s0) = lid" "so_tag (oc_leg s0) = ''''" "oc_by_remote s0 = by_remote" "oc_active s0 = active"
    "\<not> oc_stopped s0" "oc_media s0 = None"
    by (simp_all add: s0_def bare_call_def Let_def newOutbound_def)
  note step = assms [folded s0_def]
  have no_media: False if "oc_close env e callDropped d reason s0 = Returns s1" for e d reason s1
    using that f(5,6) by (auto simp: oc_close_def oc_setStatus_def Let_def split: if_splits option.splits)
  define joined where "joined mt = bind_outcome (connectToRoom env ja (room\<lparr>rc_jitter_buf := oc_jitter s0\<rparr>)
         (s0\<lparr>oc_media := Some (DisableOut (SetDTMFAudio (cf_audio_dtmf (oe_conf env)) (new_media_port (oc_jitter s0)))),
             oc_timeout := EnableTimeout (oe_now env) False mt\<rparr>)) (\<lambda>(s, err).
                 case err of
                   Some e \<Rightarrow>
                     bind_outcome (oc_close env (Some (WrapErr ''room join failed'' e)) callDropped ''join-failed'' UNKNOWN_REASON s)
                       (\<lambda>s. Returns (s, Some (WrapErr ''update room failed'' e)))
                 | None \<Rightarrow>
                     Returns (s\<lparr>oc_active := (oc_active s)(so_id (oc_leg s) \<mapsto> so_id (oc_leg s))\<rparr>, None))" for mt
  have "\<exists>mt. newCall env listen ja room s0 = joined mt"
  proof (cases listen)
    case None
    then show ?thesis by (auto simp: newCall_def Let_def NewMediaPort_def joined_def)
  next
    case (Some e)
    with step show ?thesis by (auto simp: newCall_def Let_def NewMediaPort_def bind_outcome_Returns dest: no_media)
  qed
  with step obtain mt where "joined mt = Returns (s, err)" by auto
  from this [unfolded joined_def]
  obtain s1 e where conn: "connectToRoom env ja (room\<lparr>rc_jitter_buf := oc_jitter s0\<rparr>)
         (s0\<lparr>oc_media := Some (DisableOut (SetDTMFAudio (cf_audio_dtmf (oe_conf env)) (new_media_port (oc_jitter s0)))),
             oc_timeout := EnableTimeout (oe_now env) False mt\<rparr>) = Returns (s1, e)"
    and rest: "(case e of
                   Some e \<Rightarrow>
                     bind_outcome (oc_close env (Some (WrapErr ''room join failed'' e)) callDropped ''join-failed'' UNKNOWN_REASON s1)
                       (\<lambda>s. Returns (s, Some (WrapErr ''update room failed'' e)))
                 | None \<Rightarrow>
                     Returns (s1\<lparr>oc_active := (oc_active s1)(so_id (oc_leg s1) \<mapsto> so_id (oc_leg s1))\<rparr>, None)) = Returns (s, err)"
    by (rule bind_outcome_pairE)
  have g: "so_id (oc_leg s1) = lid \<and> so_tag (oc_leg s1) = '''' \<and> oc_by_remote s1 = by_remote \<and> oc_active s1 = active
    \<and> \<not> oc_stopped s1"
    by (rule connectToRoom_frame [OF conn]) (simp add: f)
  have "oc_by_remote s = by_remote \<and> oc_active s = (if err = None then active(lid \<mapsto> lid) else active(lid := None))"
  proof (cases e)
    case None
    with rest g show ?thesis by auto
  next
    case (Some e')
    with rest obtain s2 where c: "oc_close env (Some (WrapErr ''room join failed'' e')) callDropped ''join-failed'' UNKNOWN_REASON s1
        = Returns s2" and s: "s = s2" "err \<noteq> None"
      by (auto simp: bind_outcome_Returns)
    from c show ?thesis
      by (rule oc_close_cases) (use g s in \<open>auto simp: oclosed_by_def\<close>)
  qed
  then show "oc_by_remote s = by_remote" "err = None \<Longrightarrow> oc_active s = active(lid \<mapsto> lid)"
    "err \<noteq> None \<Longrightarrow> oc_active s = active(lid := None)"
    by auto
qed

lemma client_inv_by_remote:
  assumes "client_inv s" and "cl_by_remote s t = Some lid"
  obtains c where "cl_calls s lid = Some c" and "so_tag (oc_leg c) = t" and "\<not> pc_unanswered (oc_pc c)"
    and "t \<noteq> '''' \<Longrightarrow> \<not> oc_stopped c"
  using assms unfolding client_inv_def by metis

lemma client_inv_active:
  assumes "client_inv s" and "cl_active s lid \<noteq> None"
  obtains c where "cl_calls s lid = Some c" and "\<not> oc_stopped c"
  using assms unfolding client_inv_def by metis

lemma client_inv_monitor: "client_inv (s\<lparr>cl_monitor := m\<rparr>) \<longleftrightarrow> client_inv s"
proof -
  have "olife l (oload (s\<lparr>cl_monitor := m\<rparr>) d) \<longleftrightarrow> olife l (oload s d)" for l d
    by (intro iffI; erule olife_oload) simp_all
  then show ?thesis by (simp add: client_inv_def)
qed

lemma client_inv_creating [simp]: "client_inv (s\<lparr>cl_creating := xs\<rparr>) \<longleftrightarrow> client_inv s"
proof -
  have "oload (s\<lparr>cl_creating := xs\<rparr>) d = oload s d" for d by (simp add: oload_def)
  then show ?thesis by (simp add: client_inv_def)
qed

lemma make_call_panics: "ke_listen ke = Some e \<Longrightarrow> make_call ke enc req s = Panics"
  by (simp add: make_call_def Let_def no_media_port_panics)

lemma make_call_returns:
  assumes "ke_listen ke = None"
  shows "\<exists>s' r. make_call ke enc req s = Returns (s', r)"
proof -
  define lid where "lid = cr_sip_call_id req"
  define st where "st = NewCallState (ke_io_client ke (cr_project_id req)) (Some (createSIPCallInfo ke req))"
  obtain c err where "newCall (ke_call ke) None (ke_join ke) (create_room req)
      (bare_call (ke_call ke) (ContactURI ke) (ke_draw ke) (cl_monitor s) lid
                (create_conf enc req) st (cr_project_id req) (cr_wait_until_answered req)
                (cl_active s) (cl_by_remote s)) = Returns (c, err)" using newCall_returns by blast
  then show ?thesis unfolding make_call_def Let_def lid_def st_def assms by (cases err) simp_all
qed

text \<open>What a request that passed the checks comes to, case by case.\<close>

lemma make_call_cases:
  assumes "make_call ke enc req s = Returns (s', r)" and "client_inv s" and "cl_calls s (cr_sip_call_id req) = None"
  obtains (Failed) e and c :: ocall where "s' = s\<lparr>cl_monitor := oc_monitor c\<rparr>"
      and "r = CreateFailed e (Some (Update (oe_flush_ok (ke_call ke)) (reply_info (Some e)) (oc_state c)))"
  | (Dials) c p where "s' = ostore (cr_sip_call_id req) c s"
      and "r = CreateDials p" and "cp_sip_call_id p = cr_sip_call_id req" and "ready_call (cr_sip_call_id req) c"
      and "oc_active c = (cl_active s)(cr_sip_call_id req \<mapsto> cr_sip_call_id req)" and "oc_by_remote c = cl_by_remote s"
      and "oc_sync c = cr_wait_until_answered req"
proof -
  define lid where "lid = cr_sip_call_id req"
  define c0 where "c0 = bare_call (ke_call ke) (ContactURI ke) (ke_draw ke) (cl_monitor s) lid (create_conf enc req)
    (NewCallState (ke_io_client ke (cr_project_id req)) (Some (createSIPCallInfo ke req))) (cr_project_id req)
    (cr_wait_until_answered req) (cl_active s) (cl_by_remote s)"
  from assms(1) [unfolded make_call_def Let_def lid_def [symmetric], folded c0_def]
  obtain c err where call: "newCall (ke_call ke) (ke_listen ke) (ke_join ke) (create_room req) c0 = Returns (c, err)"
    and rest: "(case err of
                  Some e \<Rightarrow>
                    Returns (s\<lparr>cl_active := oc_active c, cl_by_remote := oc_by_remote c, cl_monitor := oc_monitor c\<rparr>,
                             CreateFailed e
                               (Some (Update (oe_flush_ok (ke_call ke)) (reply_info (Some e)) (oc_state c))))
                | None \<Rightarrow>
                    Returns (ostore lid c s,
                          CreateDials \<lparr>cp_participant_id = pi_id (case oc_room c of None \<Rightarrow> no_participant | Some r \<Rightarrow> rm_p r),
                             cp_participant_identity = pi_identity (case oc_room c of None \<Rightarrow> no_participant | Some r \<Rightarrow> rm_p r),
                             cp_sip_call_id = lid\<rparr>)) = Returns (s', r)"
    by (rule bind_outcome_pairE)
  note tab = newCall_tables [OF call [unfolded c0_def]]
  have free: "\<forall>t. cl_by_remote s t \<noteq> Some lid" "cl_active s lid = None"
    using assms(3) client_inv_by_remote [OF assms(2)] client_inv_active [OF assms(2)]
    by (metis lid_def option.distinct(1))+
  show thesis
  proof (cases err)
    case None
    note made = newCall_ready [OF call [unfolded c0_def None] free(1)]
    show thesis
      by (rule Dials) (use rest made tab None in \<open>auto simp: lid_def\<close>)
  next
    case (Some e)
    have "(cl_active s)(lid := None) = cl_active s" using free by auto
    with tab Some rest show thesis by (intro Failed [of c]) auto
  qed
qed

lemma make_call_inv:
  assumes inv: "client_inv s" and new: "cl_calls s (cr_sip_call_id req) = None"
    and made: "make_call ke enc req s = Returns (s', r)"
  shows "client_inv s'"
  using made inv new
proof (cases rule: make_call_cases)
  case (Dials c p)
  then have life: "olife (cr_sip_call_id req) c" by (simp add: ready_call_def)
  show ?thesis unfolding Dials(1) by (rule ostore_inv [OF inv life]) (use Dials in auto)
next
  case (Failed e c)
  show ?thesis unfolding Failed(1) using inv by (simp only: client_inv_monitor)
qed

lemma step_make_cases:
  assumes "client_step (CMake ke n) s = Returns s'"
  obtains req enc r where "n < length (cl_creating s)" and "cl_creating s ! n = (req, enc)" and "cl_calls s (cr_sip_call_id req) = None"
    and "make_call ke enc req (s\<lparr>cl_creating := without n (cl_creating s)\<rparr>) = Returns (s', r)"
proof -
  obtain req enc where p: "cl_creating s ! n = (req, enc)" by fastforce
  with assms that show thesis by (auto simp: bind_outcome_Returns split: if_splits)
qed

lemma step_check_cases:
  assumes "client_step (CCheck health req) s = Returns s'"
  obtains (Rejected) e where "check_create health req = Inl e" and "s' = s"
  | (Checked) enc where "check_create health req = Inr enc" and "s' = s\<lparr>cl_creating := cl_creating s @ [(req, enc)]\<rparr>"
  using assms by (auto split: sum.splits)

lemma find_ocall_Some: "find_ocall tag s = Some (lid, c) \<longleftrightarrow>
    cl_by_remote s tag = Some lid \<and> (\<exists>d. cl_calls s lid = Some d \<and> c = oload s d)"
  by (auto simp: find_ocall_def bind_eq_Some_conv)

lemma client_onBye_inv:
  assumes inv: "client_inv s"
  shows "client_inv (fst (client_onBye req s))"
proof (cases "find_ocall (from_tag req) s")
  case None
  with inv show ?thesis by (simp add: client_onBye_def)
next
  case (Some lc)
  then obtain lid d where f: "find_ocall (from_tag req) s = Some (lid, oload s d)" "cl_calls s lid = Some d"
    by (cases lc) (auto simp: find_ocall_Some)
  define c where "c = (oload s d)\<lparr>oc_leg := out_AcceptBye (oc_leg d), oc_closers := oc_closers d @ [CByBye]\<rparr>"
  from inv f have life: "olife lid (oload s d)" by (simp add: client_inv_def)
  from f have by_remote: "cl_by_remote s (from_tag req) = Some lid" by (simp add: find_ocall_Some)
  moreover have "so_tag (oc_leg d) = from_tag req" by (rule client_inv_by_remote [OF inv by_remote]) (use f in simp)
  moreover from life have "so_id (oc_leg d) = lid" by (simp add: olife_def ocore_def)
  ultimately have "out_routed (oload s d)" by (simp add: out_routed_def)
  then have "around_step env YBye (oload s d) = Returns c" for env by (simp add: c_def)
  with life ocall_step_life [of lid "oload s d" "(example_oenv, Around YBye)" c] have "olife lid c" by simp
  then have "client_inv (ostore lid c s)"
    by (rule ostore_inv [OF inv]) (use inv f in \<open>auto simp: c_def client_inv_def\<close>)
  then show ?thesis by (simp add: client_onBye_def f c_def)
qed

lemma OnRequest_inv: "client_inv s \<Longrightarrow> client_inv (fst (OnRequest req s))"
  using client_onBye_inv [of s req] by (auto simp: OnRequest_def split: prod.splits option.splits)

lemma client_Stop_inv:
  assumes inv: "client_inv s"
  shows "client_inv (client_Stop s)"
proof -
  have life: "olife lid (oload (client_Stop s) (d\<lparr>oc_closers := xs\<rparr>))" if d: "cl_calls s lid = Some d" for lid d xs
  proof -
    from inv d have "olife lid (oload s d)" by (simp add: client_inv_def)
    then have "olife lid (oload (client_Stop s) d)" by (rule olife_oload) (simp_all add: client_Stop_def)
    moreover have "ocore lid (oload (client_Stop s) d) \<Longrightarrow> ocore lid (oload (client_Stop s) (d\<lparr>oc_closers := xs\<rparr>))"
      by (erule ocore_cong) simp_all
    ultimately show ?thesis by (auto simp: olife_def)
  qed
  have same: "d = d\<lparr>oc_closers := oc_closers d\<rparr>" for d :: ocall by (cases d) simp
  have "olife lid (oload (client_Stop s) c)" if "cl_calls (client_Stop s) lid = Some c" for lid c
  proof -
    from that obtain d where d: "cl_calls s lid = Some d"
      and c: "c = (if cl_active s lid \<noteq> None then d\<lparr>oc_closers := oc_closers d @ [CByStop]\<rparr> else d)"
      by (auto simp: client_Stop_def)
    have "\<exists>xs. c = d\<lparr>oc_closers := xs\<rparr>"
    proof (cases "cl_active s lid")
      case None
      with c same [of d] have "c = d\<lparr>oc_closers := oc_closers d\<rparr>" by (simp only: simp_thms if_False)
      then show ?thesis by blast
    qed (use c in auto)
    with life [OF d] show ?thesis by auto
  qed
  then show ?thesis by (auto simp: client_inv_def client_Stop_def)
qed

lemma client_step_inv:
  assumes "client_inv s" and "client_step e s = Returns s'"
  shows "client_inv s'"
proof (cases e)
  case (CCheck health req)
  with assms(2) have "client_step (CCheck health req) s = Returns s'" by simp
  then show ?thesis by (cases rule: step_check_cases) (use assms(1) in simp_all)
next
  case (CMake ke n)
  with assms(2) have "client_step (CMake ke n) s = Returns s'" by simp
  then show ?thesis by (cases rule: step_make_cases) (use assms(1) in \<open>auto intro: make_call_inv [rotated 2]\<close>)
next
  case (CCall lid env ev)
  with assms show ?thesis by (auto split: if_splits intro: client_call_inv)
next
  case (CRequest req)
  with assms OnRequest_inv [OF assms(1), of req] show ?thesis by simp
next
  case CStop
  with assms client_Stop_inv [of s] show ?thesis by auto
qed

interpretation outbound_client: outcome_system client_step client_inv "\<lambda>_. True"
  by unfold_locales (rule client_step_inv)

text \<open>An entry of the client's table leads to the call of that name.\<close>

definition self_active :: "client \<Rightarrow> bool" where
  "self_active s \<longleftrightarrow> (\<forall>lid. cl_active s lid \<in> {None, Some lid})"

lemma OnRequest_active: "cl_active (fst (OnRequest req s)) = cl_active s"
  by (auto simp: OnRequest_def client_onBye_def find_ocall_Some split: prod.splits option.splits)

lemma client_step_self:
  assumes inv: "client_inv s" and self: "self_active s" and step: "client_step e s = Returns s'"
  shows "self_active s'"
proof (cases e)
  case (CCheck health req)
  with step have "client_step (CCheck health req) s = Returns s'" by simp
  then show ?thesis by (cases rule: step_check_cases) (use self in \<open>simp_all add: self_active_def\<close>)
next
  case (CMake ke n)
  with step have "client_step (CMake ke n) s = Returns s'" by simp
  then obtain req enc r where new: "cl_calls s (cr_sip_call_id req) = None"
    and made: "make_call ke enc req (s\<lparr>cl_creating := without n (cl_creating s)\<rparr>) = Returns (s', r)"
    by (rule step_make_cases)
  from made show ?thesis
    by (cases rule: make_call_cases) (use inv new self in \<open>auto simp: self_active_def\<close>)
next
  case (CCall lid env ev)
  with step have own: "\<not> of_client ev" and c: "client_call lid (env, ev) s = Returns s'" by (auto split: if_splits)
  from c obtain c c' where c: "cl_calls s lid = Some c" and c': "ocall_step (env, ev) (oload s c) = Returns c'"
    and s': "s' = ostore lid c' s"
    by (auto simp: client_call_def bind_outcome_Returns split: option.splits)
  from inv c have life: "olife lid (oload s c)" by (simp add: client_inv_def)
  then have lid: "so_id (oc_leg (oload s c)) = lid" by (simp add: olife_def ocore_def)
  from ocall_tables [OF c' own lid] have tab: "own_tables lid (oload s c) c'" .
  from ocall_step_life [OF life c'] have "oc_stopped c' \<Longrightarrow> oc_active c' lid = None"
    by (auto simp: olife_def ocore_def split: if_splits)
  with tab self show ?thesis unfolding s' self_active_def own_tables_def by (metis insertCI oload_frame(4) ostore_frame(2))
next
  case (CRequest req)
  with OnRequest_active [of req s] step self show ?thesis by (auto simp: self_active_def)
next
  case CStop
  with step show ?thesis by (auto simp: client_Stop_def self_active_def)
qed

section \<open>Properties\<close>

lemma client_new_inv: "client_inv (NewClient mon)"
  by (simp add: client_inv_def NewClient_def)

lemma client_runs_inv: "runs client_step (NewClient mon) es s \<Longrightarrow> client_inv s"
  using outbound_client.runs_inv [OF _ client_new_inv] by simp

lemma client_inv_exit:
  assumes "client_inv s" and "cl_calls s lid = Some c" and "oc_pc c = OExit err"
  shows "oc_stopped c \<and> cl_active s lid = None \<and> (\<forall>t. t \<noteq> '''' \<longrightarrow> cl_by_remote s t \<noteq> Some lid)
    \<and> (\<exists>m r. oc_media c = Some m \<and> mp_closed m \<and> oc_room c = Some r \<and> unjoined_closed r) \<and> \<not> cm_started (oc_cmon c)"
proof -
  from assms(1,2) have "olife lid (oload s c)" by (simp add: client_inv_def)
  with assms(3) show ?thesis by (auto simp: olife_def ocore_def split: if_splits)
qed

text \<open>
  C11. The client's tables match its calls. Whatever requests make calls, whatever the calls, their
  remotes and the room do, in any interleaving, also while the client is stopping: what
  \<open>activeCalls\<close> holds is a call that is not stopped, and until the client is stopped every such call
  is there; what \<open>byRemote\<close> holds under a tag is a call with that tag that is not stopped; a
  call whose goroutine is over is closed with its media and its room and is in neither.
\<close>

theorem client_registry:
  assumes "runs client_step (NewClient mon) es s"
  shows "(\<forall>lid. cl_active s lid \<noteq> None \<longrightarrow> (\<exists>c. cl_calls s lid = Some c \<and> \<not> oc_stopped c))
     \<and> (\<not> cl_closing s \<longrightarrow> (\<forall>lid c. cl_calls s lid = Some c \<and> \<not> oc_stopped c \<longrightarrow> cl_active s lid \<noteq> None))
     \<and> (\<forall>t lid. t \<noteq> '''' \<and> cl_by_remote s t = Some lid \<longrightarrow>
          (\<exists>c. cl_calls s lid = Some c \<and> so_tag (oc_leg c) = t \<and> \<not> oc_stopped c))
     \<and> (\<forall>lid c err. cl_calls s lid = Some c \<and> oc_pc c = OExit err \<longrightarrow>
          oc_stopped c \<and> cl_active s lid = None \<and> (\<forall>t. t \<noteq> '''' \<longrightarrow> cl_by_remote s t \<noteq> Some lid)
          \<and> (\<exists>m r. oc_media c = Some m \<and> mp_closed m \<and> oc_room c = Some r \<and> unjoined_closed r)
          \<and> \<not> cm_started (oc_cmon c))"
proof -
  from assms have inv: "client_inv s" by (rule client_runs_inv)
  show ?thesis
  proof (intro conjI)
    show "\<forall>lid. cl_active s lid \<noteq> None \<longrightarrow> (\<exists>c. cl_calls s lid = Some c \<and> \<not> oc_stopped c)"
      using client_inv_active [OF inv] by metis
    show "\<not> cl_closing s \<longrightarrow> (\<forall>lid c. cl_calls s lid = Some c \<and> \<not> oc_stopped c \<longrightarrow> cl_active s lid \<noteq> None)"
      using inv by (simp add: client_inv_def)
    show "\<forall>t lid. t \<noteq> '''' \<and> cl_by_remote s t = Some lid \<longrightarrow>
        (\<exists>c. cl_calls s lid = Some c \<and> so_tag (oc_leg c) = t \<and> \<not> oc_stopped c)"
      using client_inv_by_remote [OF inv] by metis
    show "\<forall>lid c err. cl_calls s lid = Some c \<and> oc_pc c = OExit err \<longrightarrow>
          oc_stopped c \<and> cl_active s lid = None \<and> (\<forall>t. t \<noteq> '''' \<longrightarrow> cl_by_remote s t \<noteq> Some lid)
          \<and> (\<exists>m r. oc_media c = Some m \<and> mp_closed m \<and> oc_room c = Some r \<and> unjoined_closed r)
          \<and> \<not> cm_started (oc_cmon c)"
      using client_inv_exit [OF inv] by blast
  qed
qed

definition example_create_env :: create_env where
  "example_create_env =
     \<lparr>ke_call = example_oenv, ke_health = HealthOK, ke_region = '''', ke_signaling_ip = None,
      ke_io_client = (\<lambda>p. True), ke_draw = 0, ke_listen = None, ke_join = example_join\<rparr>"

definition example_create :: create_request where
  "example_create =
     \<lparr>cr_call_to = ''200'', cr_address = ''example.com'', cr_number = ''100'', cr_room_name = ''room'', cr_hostname = ''a'',
      cr_transport = SIP_TRANSPORT_AUTO, cr_username = '''', cr_password = '''', cr_dtmf = '''', cr_play_dialtone = False,
      cr_headers = [], cr_include_headers = SIP_NO_HEADERS, cr_headers_to_attributes = [],
      cr_attributes_to_headers = [], cr_ringing_timeout = 0, cr_max_call_duration = 0, cr_features = [],
      cr_media_encryption = SIP_MEDIA_ENCRYPT_DISABLE, cr_display_name = None, cr_project_id = '''', cr_sip_trunk_id = '''',
      cr_sip_call_id = ''SCL_1'', cr_ws_url = '''', cr_token = '''', cr_identity = ''sip'', cr_name = '''', cr_metadata = '''',
      cr_attributes = None, cr_wait_until_answered = True\<rparr>"

lemma example_check: "check_create HealthOK example_create = Inr EncryptionNone"
  by code_simp

lemma example_create_dials:
  obtains s r where "createSIPParticipant example_create_env example_create (NewClient mon) = Returns (s, CreateDials r)"
proof -
  define c0 where "c0 = bare_call example_oenv (ContactURI example_create_env) 0 mon ''SCL_1''
      (create_conf EncryptionNone example_create) (NewCallState True (Some (createSIPCallInfo example_create_env example_create)))
      '''' True Map.empty Map.empty"
  have "\<exists>c. newCall example_oenv None example_join (create_room example_create) c0 = Returns (c, None)"
    by (simp add: newCall_def Let_def NewMediaPort_def connectToRoom_def example_join_def example_oenv_def Connect_def
        NewParticipantTrack_def room_act_def create_room_def example_create_def room_attrs_def)
  then obtain c where "newCall example_oenv None example_join (create_room example_create) c0 = Returns (c, None)" ..
  then have "createSIPParticipant example_create_env example_create (NewClient mon) =
      Returns (ostore ''SCL_1'' c (NewClient mon),
        CreateDials \<lparr>cp_participant_id = pi_id (case oc_room c of None \<Rightarrow> no_participant | Some r \<Rightarrow> rm_p r),
          cp_participant_identity = pi_identity (case oc_room c of None \<Rightarrow> no_participant | Some r \<Rightarrow> rm_p r),
          cp_sip_call_id = ''SCL_1''\<rparr>)"
    using example_check
    by (simp add: createSIPParticipant_def make_call_def Let_def c0_def example_create_env_def NewClient_def)
      (simp add: example_create_def)
  then show thesis by (rule that)
qed

text \<open>A request is the two steps of the client, one after the other, where nothing comes between.\<close>

lemma without_last: "without (length xs) (xs @ [x]) = xs"
  by (simp add: without_def)

lemma create_in_two_steps:
  assumes made: "createSIPParticipant ke req s = Returns (s', r)" and "check_create (ke_health ke) req = Inr enc"
    and "cl_calls s (cr_sip_call_id req) = None"
  shows "runs client_step s [CCheck (ke_health ke) req, CMake ke (length (cl_creating s))] s'"
proof -
  define t where "t = s\<lparr>cl_creating := cl_creating s @ [(req, enc)]\<rparr>"
  have "client_step (CCheck (ke_health ke) req) s = Returns t" using assms(2) by (simp add: t_def)
  moreover have "t\<lparr>cl_creating := cl_creating s\<rparr> = s" by (simp add: t_def)
  then have "client_step (CMake ke (length (cl_creating s))) t = Returns s'"
    using assms by (simp add: t_def without_last createSIPParticipant_def domIff)
  ultimately show ?thesis by (rule runs_Cons [OF _ runs_one])
qed

lemma client_registry_witness:
  "\<forall>mon. \<exists>s. runs client_step (NewClient mon) [CCheck HealthOK example_create, CMake example_create_env 0, CStop] s
     \<and> cl_closing s \<and> (\<forall>lid. cl_active s lid \<noteq> None \<longrightarrow> (\<exists>c. cl_calls s lid = Some c \<and> \<not> oc_stopped c))"
proof
  fix mon
  obtain s r where made: "createSIPParticipant example_create_env example_create (NewClient mon) = Returns (s, CreateDials r)"
    by (rule example_create_dials)
  have "runs client_step (NewClient mon) [CCheck HealthOK example_create, CMake example_create_env 0] s"
    using create_in_two_steps [OF made] example_check by (simp add: example_create_env_def NewClient_def)
  moreover have "client_step CStop s = Returns (client_Stop s)" by simp
  ultimately have run: "runs client_step (NewClient mon) [CCheck HealthOK example_create, CMake example_create_env 0, CStop]
      (client_Stop s)"
    using runs_append [OF _ runs_one] by fastforce
  moreover have "cl_closing (client_Stop s)" by (simp add: client_Stop_def)
  ultimately show "\<exists>s. runs client_step (NewClient mon) [CCheck HealthOK example_create, CMake example_create_env 0, CStop] s
     \<and> cl_closing s \<and> (\<forall>lid. cl_active s lid \<noteq> None \<longrightarrow> (\<exists>c. cl_calls s lid = Some c \<and> \<not> oc_stopped c))"
    using client_registry [OF run] by blast
qed

lemma check_create_Inr:
  assumes "check_create health req = Inr enc"
  shows "health = HealthOK \<and> cr_call_to req \<noteq> '''' \<and> cr_address req \<noteq> '''' \<and> cr_number req \<noteq> '''' \<and> cr_room_name req \<noteq> ''''
     \<and> \<not> str_contains (cr_call_to req) ''@'' \<and> \<not> contains_any (cr_address req) '';=''
     \<and> sdpEncryption (cr_media_encryption req) = (enc, None)"
  using assms by (auto simp: check_create_def split: if_splits prod.splits option.splits)

text \<open>
  C17. Making a call, under a new identifier, is all or nothing, if the media port opens. The call is
  only made where the node is healthy and the request is complete and of the right form; a
  request that is rejected changes nothing and reports nothing; one that fails to join the room
  leaves no call and no entry behind, and the error is in the reported state; one that succeeds
  has a call of the requested identifier in \<open>activeCalls\<close>, in its room and not dialled yet, nothing
  sent, and waits for the answer only where it was asked to. Where a request that passed the checks
  gets no media port it neither fails nor succeeds: the call is closed before it has one, which panics.
\<close>

theorem create_all_or_nothing:
  assumes "runs client_step (NewClient mon) es s" and "cl_calls s (cr_sip_call_id req) = None"
  shows "case createSIPParticipant ke req s of
      Returns (s', CreateFailed e None) \<Rightarrow> check_create (ke_health ke) req = Inl e \<and> s' = s
    | Returns (s', CreateFailed e (Some st)) \<Rightarrow>
        (\<exists>enc. check_create (ke_health ke) req = Inr enc) \<and> ke_listen ke = None
        \<and> cl_calls s' = cl_calls s \<and> cl_active s' = cl_active s \<and> cl_by_remote s' = cl_by_remote s
        \<and> ci_status (cs_info st) = SCS_ERROR \<and> ci_error (cs_info st) = Some e
    | Returns (s', CreateDials p) \<Rightarrow>
        ke_health ke = HealthOK \<and> cr_call_to req \<noteq> '''' \<and> cr_address req \<noteq> '''' \<and> cr_number req \<noteq> '''' \<and> cr_room_name req \<noteq> ''''
        \<and> \<not> str_contains (cr_call_to req) ''@'' \<and> \<not> contains_any (cr_address req) '';=''
        \<and> ke_listen ke = None
        \<and> cp_sip_call_id p = cr_sip_call_id req
        \<and> cl_active s' = (cl_active s)(cr_sip_call_id req \<mapsto> cr_sip_call_id req) \<and> cl_by_remote s' = cl_by_remote s
        \<and> (\<exists>c. cl_calls s' = (cl_calls s)(cr_sip_call_id req \<mapsto> c) \<and> oc_pc c = ODial \<and> \<not> oc_stopped c
              \<and> oc_room_in c \<and> so_out (oc_leg c) = [] \<and> oc_sync c = cr_wait_until_answered req)
    | Panics \<Rightarrow> (\<exists>enc. check_create (ke_health ke) req = Inr enc) \<and> ke_listen ke \<noteq> None
    | Blocked \<Rightarrow> False"
proof (cases "check_create (ke_health ke) req")
  case (Inl e)
  then show ?thesis by (simp add: createSIPParticipant_def)
next
  case (Inr enc)
  then have create: "createSIPParticipant ke req s = make_call ke enc req s" by (simp add: createSIPParticipant_def)
  show ?thesis
  proof (cases "ke_listen ke")
    case (Some e)
    with Inr show ?thesis by (simp add: create make_call_panics)
  next
    case None
    from make_call_returns [OF this] obtain s' r where made: "make_call ke enc req s = Returns (s', r)" by blast
    from made client_runs_inv [OF assms(1)] assms(2) show ?thesis
    proof (cases rule: make_call_cases)
      case (Failed e c)
      with Inr None made show ?thesis by (simp add: create reply_info_def)
    next
      case (Dials c p)
      from Dials(4) have "oc_room_in c" "so_out (oc_leg c) = []" "oc_pc c = ODial" "\<not> oc_stopped c"
        by (auto simp: ready_call_def olife_def ocore_def newOutbound_def Let_def)
      with Dials check_create_Inr [OF Inr] made None show ?thesis by (simp add: create) blast
    qed
  qed
qed

lemma create_all_or_nothing_witness:
  "\<forall>mon. \<exists>s p. createSIPParticipant example_create_env example_create (NewClient mon) = Returns (s, CreateDials p)
     \<and> cp_sip_call_id p = ''SCL_1'' \<and> cl_active s = [''SCL_1'' \<mapsto> ''SCL_1'']"
proof
  fix mon
  obtain s p where made: "createSIPParticipant example_create_env example_create (NewClient mon) = Returns (s, CreateDials p)"
    by (rule example_create_dials)
  have "runs client_step (NewClient mon) [] (NewClient mon)" by simp
  from create_all_or_nothing [OF this, of example_create example_create_env]
  have "cp_sip_call_id p = ''SCL_1''" "cl_active s = [''SCL_1'' \<mapsto> ''SCL_1'']"
    using made by (simp_all add: NewClient_def example_create_def)
  with made show "\<exists>s p. createSIPParticipant example_create_env example_create (NewClient mon) = Returns (s, CreateDials p)
     \<and> cp_sip_call_id p = ''SCL_1'' \<and> cl_active s = [''SCL_1'' \<mapsto> ''SCL_1'']" by blast
qed

end
