(* ===== verification/Sip_Service.thy ===== *)
theory Sip_Service
  imports Outbound_Client Inbound_Server
begin

text \<open>
  The SIP service (\<open>Service\<close> in \<open>pkg/sip/service.go\<close>): its settings, the client of outbound
  calls and the server of inbound calls behind one interface, requests that end up at one of
  the two, the transfers that are under way, the count of active calls, and stopping.
\<close>

section \<open>Settings\<close>

text \<open>\<open>strings.ReplaceAll\<close> for a text to replace that is not empty.\<close>

function replace_all :: "string \<Rightarrow> string \<Rightarrow> string \<Rightarrow> string" where
  "replace_all old new s =
     (case s of
        [] \<Rightarrow> []
      | c # cs \<Rightarrow>
          if old \<noteq> [] \<and> prefix old s then new @ replace_all old new (drop (length old) s)
          else c # replace_all old new cs)"
  by pat_completeness auto

termination replace_all
  by (relation "measure (\<lambda>(old, new, s). length s)") (auto simp: prefix_def)

declare replace_all.simps [simp del]

text \<open>The replacer of the address: dots and colons to dashes, no brackets.\<close>

definition host_char :: "char \<Rightarrow> string" where
  "host_char c =
     (if c = CHR ''.'' then ''-'' else if c = CHR ''['' \<or> c = CHR '']'' then '''' else if c = CHR '':'' then ''-'' else [c])"

definition host_of_ip :: "string \<Rightarrow> string" where
  "host_of_ip s = concat (map host_char s)"

definition ip_placeholder :: string where
  "ip_placeholder = ''${IP}''"

definition node_hostname :: "ip_addr \<Rightarrow> string \<Rightarrow> string" where
  "node_hostname ip host =
     (if str_contains host ip_placeholder then replace_all ip_placeholder (host_of_ip (addr_string ip)) host else host)"

definition bad_host_chars :: string where
  "bad_host_chars = ''$%{}[]:/| ''"

definition ringing_interval :: "duration \<Rightarrow> duration" where
  "ringing_interval d = (if d < 1 * Second \<or> 60 * Second < d then 1 * Second else d)"

text \<open>
  \<open>NewService\<close>: \<open>sconf\<close> is the answer of \<open>GetServiceConfig\<close>, \<open>quote\<close> Go's \<open>%q\<close>. Resolving the
  new host name is only logged.
\<close>

definition service_settings ::
  "(string \<Rightarrow> string) \<Rightarrow> go_error + service_config \<Rightarrow> config \<Rightarrow> go_error + (config \<times> service_config)" where
  "service_settings quote sconf conf =
     (case sconf of
        Inl e \<Rightarrow> Inl e
      | Inr sc \<Rightarrow>
          (let host = node_hostname (sc_signaling_ip sc) (cf_sip_hostname conf)
           in if contains_any host bad_host_chars then Inl (PlainErr (''invalid hostname: '' @ quote host))
              else Inr (conf\<lparr>cf_sip_hostname := host,
                             cf_sip_ringing_interval := ringing_interval (cf_sip_ringing_interval conf)\<rparr>, sc)))"

section \<open>Active calls\<close>

record active_calls =
  ac_inbound :: int
  ac_outbound :: int
  ac_samples :: "string list"

definition ac_total :: "active_calls \<Rightarrow> int" where
  "ac_total st = ac_outbound st + ac_inbound st"

text \<open>A map is visited in some order: \<open>vs\<close> are its values in that order.\<close>

fun sample_loop :: "int \<Rightarrow> 'v list \<Rightarrow> ('v \<Rightarrow> string) \<Rightarrow> string list" where
  "sample_loop limit [] sample = []"
| "sample_loop limit (v # vs) sample =
     (if sample v \<noteq> '''' then [sample v] else [])
     @ (if limit - 1 \<le> 0 then [] else sample_loop (limit - 1) vs sample)"

definition sampleMap :: "int \<Rightarrow> 'v list \<Rightarrow> ('v \<Rightarrow> string) \<Rightarrow> string list \<times> int" where
  "sampleMap limit vs sample = (sample_loop limit vs sample, int (length vs))"

definition ActiveCalls :: "string list \<Rightarrow> string list \<Rightarrow> active_calls" where
  "ActiveCalls out_ids in_ids =
     (let (samples_out, total_out) = sampleMap 5 out_ids (\<lambda>lid. lid);
          (samples_in, total_in) = sampleMap 5 in_ids (\<lambda>lid. lid)
      in \<lparr>ac_inbound = total_in, ac_outbound = total_out, ac_samples = samples_out @ samples_in\<rparr>)"

section \<open>State\<close>

text \<open>
  A request for a transfer; the run of the goroutine that does the transfer, which only the
  request that found no other under way has; the channel it waits on is named by the request
  that made it.
\<close>

record transfer_key =
  tk_call_id :: string
  tk_transfer_to :: string

datatype transfer_run =
    RunNone | RunStarted | RunOut string | RunIn string | RunOutWait string string | RunInWait string string
  | RunStored | RunClosed | RunGone

record transfer_request =
  tq_key :: transfer_key
  tq_headers :: "(string \<times> string) list"
  tq_dialtone :: bool
  tq_timeout :: duration
  tq_done :: nat
  tq_run :: transfer_run
  tq_result :: "go_error option option"
  tq_answer :: "go_error option option"

record 'c sip_service =
  ss_cli :: client
  ss_srv :: "'c server"
  ss_mon :: monitor
  ss_pending :: "transfer_key \<rightharpoonup> nat"
  ss_requests :: "nat \<rightharpoonup> transfer_request"

definition new_service :: "'c \<Rightarrow> monitor \<Rightarrow> 'c sip_service" where
  "new_service cache mon =
     \<lparr>ss_cli = NewClient mon, ss_srv = NewServer cache mon, ss_mon = mon,
      ss_pending = Map.empty, ss_requests = Map.empty\<rparr>"

text \<open>Client and server count on the same metrics.\<close>

definition at_client :: "(client \<Rightarrow> client outcome) \<Rightarrow> 'c sip_service \<Rightarrow> 'c sip_service outcome" where
  "at_client f s =
     bind_outcome (f ((ss_cli s)\<lparr>cl_monitor := ss_mon s\<rparr>)) (\<lambda>c. Returns (s\<lparr>ss_cli := c, ss_mon := cl_monitor c\<rparr>))"

definition at_server :: "('c server \<Rightarrow> 'c server outcome) \<Rightarrow> 'c sip_service \<Rightarrow> 'c sip_service outcome" where
  "at_server f s =
     bind_outcome (f ((ss_srv s)\<lparr>sv_monitor := ss_mon s\<rparr>)) (\<lambda>c. Returns (s\<lparr>ss_srv := c, ss_mon := sv_monitor c\<rparr>))"

section \<open>A BYE\<close>

text \<open>
  The server answers all transactions; one it does not know is first offered to the client. The
  answers sent are listed in their order.
\<close>

definition service_onBye :: "sip_request \<Rightarrow> 'c sip_service \<Rightarrow> 'c sip_service \<times> (int \<times> string) list" where
  "service_onBye req s =
     (let unknown = (case getFromTag req of Inl e \<Rightarrow> False | Inr tag \<Rightarrow> find_call tag (ss_srv s) = None);
          (cli, cli_answer, ok) = OnRequest req (ss_cli s);
          (srv, srv_answer) = onBye (Some (\<lambda>r. ok)) req (ss_srv s)
      in (s\<lparr>ss_srv := srv, ss_cli := (if unknown then cli else ss_cli s)\<rparr>,
          (if unknown then (case cli_answer of ClientText code text \<Rightarrow> [(code, text)] | _ \<Rightarrow> []) else [])
          @ (case srv_answer of None \<Rightarrow> [] | Some a \<Rightarrow> [a])))"

section \<open>Transfers\<close>

definition transfer_timeout :: "duration \<Rightarrow> duration" where
  "transfer_timeout d = (if d \<le> 0 then 80 * Second else d)"

text \<open>The first part of \<open>TransferSIPParticipant\<close>: the request waits for one under way, or starts.\<close>

definition TransferSIPParticipant ::
  "nat \<Rightarrow> transfer_key \<Rightarrow> (string \<times> string) list \<Rightarrow> bool \<Rightarrow> duration \<Rightarrow> 'c sip_service \<Rightarrow> 'c sip_service" where
  "TransferSIPParticipant n k headers dialtone ringing s =
     (let req = \<lparr>tq_key = k, tq_headers = headers, tq_dialtone = dialtone, tq_timeout = transfer_timeout ringing,
                 tq_done = n, tq_run = RunNone, tq_result = None, tq_answer = None\<rparr>
      in case ss_pending s k of
           None \<Rightarrow> s\<lparr>ss_pending := (ss_pending s)(k \<mapsto> n), ss_requests := (ss_requests s)(n \<mapsto> req\<lparr>tq_run := RunStarted\<rparr>)\<rparr>
         | Some ch \<Rightarrow> s\<lparr>ss_requests := (ss_requests s)(n \<mapsto> req\<lparr>tq_done := ch\<rparr>)\<rparr>)"

text \<open>\<open>processParticipantTransfer\<close>: looking for the call, first among the outbound ones.\<close>

definition find_transfer :: "string \<Rightarrow> 'c sip_service \<Rightarrow> transfer_run option" where
  "find_transfer callID s =
     (case cl_active (ss_cli s) callID of
        Some lid \<Rightarrow> Some (RunOut lid)
      | None \<Rightarrow> map_option RunIn (sv_by_local (ss_srv s) callID))"

definition unknown_call :: go_error where
  "unknown_call = PsrpcErr NotFound ''unknown call'' None"

definition set_request :: "nat \<Rightarrow> transfer_request \<Rightarrow> 'c sip_service \<Rightarrow> 'c sip_service" where
  "set_request n r s = s\<lparr>ss_requests := (ss_requests s)(n \<mapsto> r)\<rparr>"

text \<open>The goroutine has the result of the transfer.\<close>

definition stored :: "go_error option \<Rightarrow> transfer_request \<Rightarrow> transfer_request" where
  "stored err r = r\<lparr>tq_run := RunStored, tq_result := Some err\<rparr>"

definition transfer_find :: "nat \<Rightarrow> transfer_request \<Rightarrow> 'c sip_service \<Rightarrow> 'c sip_service outcome" where
  "transfer_find n r s =
     (if tq_run r \<noteq> RunStarted then Blocked
      else Returns (set_request n
             (case find_transfer (tk_call_id (tq_key r)) s of
                None \<Rightarrow> stored (Some unknown_call) r
              | Some run \<Rightarrow> r\<lparr>tq_run := run\<rparr>) s))"

text \<open>
  The call begins the transfer: it waits for the outcome under its transfer identifier, or the
  REFER failed at once, with the error that is then the result.
\<close>

definition out_waits :: "string \<Rightarrow> string \<Rightarrow> 'c sip_service \<Rightarrow> bool" where
  "out_waits lid tid s \<longleftrightarrow> (case cl_calls (ss_cli s) lid of None \<Rightarrow> False | Some c \<Rightarrow> tid \<in> fst ` set (oc_pending c))"

definition in_waits :: "string \<Rightarrow> string \<Rightarrow> 'c sip_service \<Rightarrow> bool" where
  "in_waits lid tid s \<longleftrightarrow> (case sv_calls (ss_srv s) lid of None \<Rightarrow> False | Some c \<Rightarrow> tid \<in> fst ` set (ic_pending c))"

record transfer_env =
  ve_out :: ocall_env
  ve_in :: call_env
  ve_tid :: string
  ve_tx_err :: "go_error option"
  ve_refer_err :: go_error

definition transfer_call :: "nat \<Rightarrow> transfer_env \<Rightarrow> transfer_request \<Rightarrow> 'c sip_service \<Rightarrow> 'c sip_service outcome" where
  "transfer_call n ve r s =
     (let tid = ve_tid ve; to = tk_transfer_to (tq_key r) in
      case tq_run r of
        RunOut lid \<Rightarrow>
          bind_outcome (at_client (client_step (CCall lid (ve_out ve)
              (Around (YTransfer tid to (tq_headers r) (tq_dialtone r) (ve_tx_err ve))))) s) (\<lambda>s.
            Returns (set_request n
              (if out_waits lid tid s then r\<lparr>tq_run := RunOutWait lid tid\<rparr> else stored (Some (ve_refer_err ve)) r) s))
      | RunIn lid \<Rightarrow>
          bind_outcome (at_server (server_step (SCall lid (ve_in ve)
              (Outside (XTransfer tid to (tq_headers r) (tq_dialtone r) (ve_tx_err ve))))) s) (\<lambda>s.
            Returns (set_request n
              (if in_waits lid tid s then r\<lparr>tq_run := RunInWait lid tid\<rparr> else stored (Some (ve_refer_err ve)) r) s))
      | _ \<Rightarrow> Blocked)"

definition transfer_result ::
  "nat \<Rightarrow> transfer_env \<Rightarrow> go_error option \<Rightarrow> transfer_request \<Rightarrow> 'c sip_service \<Rightarrow> 'c sip_service outcome" where
  "transfer_result n ve err r s =
     (case tq_run r of
        RunOutWait lid tid \<Rightarrow>
          bind_outcome (at_client (client_step (CCall lid (ve_out ve) (Around (YTransferResult tid err)))) s) (\<lambda>s.
            Returns (set_request n (stored err r) s))
      | RunInWait lid tid \<Rightarrow>
          bind_outcome (at_server (server_step (SCall lid (ve_in ve) (Outside (XTransferResult tid err)))) s) (\<lambda>s.
            Returns (set_request n (stored err r) s))
      | _ \<Rightarrow> Blocked)"

definition transfer_close :: "nat \<Rightarrow> transfer_request \<Rightarrow> 'c sip_service \<Rightarrow> 'c sip_service outcome" where
  "transfer_close n r s =
     (if tq_run r = RunStored then Returns (set_request n (r\<lparr>tq_run := RunClosed\<rparr>) s) else Blocked)"

definition transfer_forget :: "nat \<Rightarrow> transfer_request \<Rightarrow> 'c sip_service \<Rightarrow> 'c sip_service outcome" where
  "transfer_forget n r s =
     (if tq_run r = RunClosed
      then Returns (set_request n (r\<lparr>tq_run := RunGone\<rparr>) (s\<lparr>ss_pending := (ss_pending s)(tq_key r := None)\<rparr>))
      else Blocked)"

definition chan_closed :: "nat \<Rightarrow> 'c sip_service \<Rightarrow> bool" where
  "chan_closed ch s \<longleftrightarrow> (\<exists>r. ss_requests s ch = Some r \<and> tq_run r \<in> {RunClosed, RunGone})"

text \<open>The last part of \<open>TransferSIPParticipant\<close>: the result its own goroutine stored, if any.\<close>

definition transfer_answer :: "nat \<Rightarrow> transfer_request \<Rightarrow> 'c sip_service \<Rightarrow> 'c sip_service outcome" where
  "transfer_answer n r s =
     (if tq_answer r = None \<and> chan_closed (tq_done r) s
      then Returns (set_request n (r\<lparr>tq_answer := Some (case tq_result r of None \<Rightarrow> None | Some err \<Rightarrow> err)\<rparr>) s)
      else Blocked)"

definition transfer_cancel :: "nat \<Rightarrow> go_error \<Rightarrow> transfer_request \<Rightarrow> 'c sip_service \<Rightarrow> 'c sip_service outcome" where
  "transfer_cancel n e r s =
     (if tq_answer r = None
      then Returns (set_request n (r\<lparr>tq_answer := Some (Some (PsrpcErr Canceled '''' (Some e)))\<rparr>) s)
      else Blocked)"

section \<open>The service as a state machine\<close>

text \<open>
  Steps of the client and of the server, but for BYE, stopping and transfers, which come through
  the service; requests for a transfer, under a new number each; and the steps of such a
  request and its goroutine.
\<close>

datatype transfer_event =
    TFind | TCall transfer_env | TResult transfer_env "go_error option" | TClose | TForget | TAnswer | TCancel go_error

datatype 'c service_event =
    VClient client_event
  | VServer "'c server_event"
  | VBye sip_request
  | VStop "string list"
  | VTransfer nat transfer_key "(string \<times> string) list" bool duration
  | VRun nat transfer_event

fun client_through_service :: "client_event \<Rightarrow> bool" where
  "client_through_service (CRequest req) = (req_method req = ''BYE'')"
| "client_through_service CStop = True"
| "client_through_service (CCall lid env (Around (YTransfer tid to headers dialtone tx_err))) = True"
| "client_through_service (CCall lid env (Around (YTransferResult tid err))) = True"
| "client_through_service _ = False"

fun server_through_service :: "'c server_event \<Rightarrow> bool" where
  "server_through_service (SBye unhandled req) = True"
| "server_through_service (SStop calls) = True"
| "server_through_service (SCall lid env (Outside (XTransfer tid to headers dialtone tx_err))) = True"
| "server_through_service (SCall lid env (Outside (XTransferResult tid err))) = True"
| "server_through_service _ = False"

fun transfer_step :: "nat \<Rightarrow> transfer_event \<Rightarrow> transfer_request \<Rightarrow> 'c sip_service \<Rightarrow> 'c sip_service outcome" where
  "transfer_step n TFind r s = transfer_find n r s"
| "transfer_step n (TCall ve) r s = transfer_call n ve r s"
| "transfer_step n (TResult ve err) r s = transfer_result n ve err r s"
| "transfer_step n TClose r s = transfer_close n r s"
| "transfer_step n TForget r s = transfer_forget n r s"
| "transfer_step n TAnswer r s = transfer_answer n r s"
| "transfer_step n (TCancel e) r s = transfer_cancel n e r s"

definition service_Stop :: "string list \<Rightarrow> 'c sip_service \<Rightarrow> 'c sip_service" where
  "service_Stop calls s = s\<lparr>ss_cli := client_Stop (ss_cli s), ss_srv := server_Stop calls (ss_srv s)\<rparr>"

fun service_step :: "'c service_event \<Rightarrow> 'c sip_service \<Rightarrow> 'c sip_service outcome" where
  "service_step (VClient e) s = (if client_through_service e then Blocked else at_client (client_step e) s)"
| "service_step (VServer e) s = (if server_through_service e then Blocked else at_server (server_step e) s)"
| "service_step (VBye req) s = Returns (fst (service_onBye req s))"
| "service_step (VStop calls) s = Returns (service_Stop calls s)"
| "service_step (VTransfer n k headers dialtone ringing) s =
     (if n \<in> dom (ss_requests s) then Blocked else Returns (TransferSIPParticipant n k headers dialtone ringing s))"
| "service_step (VRun n e) s = (case ss_requests s n of None \<Rightarrow> Blocked | Some r \<Rightarrow> transfer_step n e r s)"

fun service_event_ok :: "'c service_event \<Rightarrow> bool" where
  "service_event_ok (VServer e) = server_event_ok e"
| "service_event_ok _ = True"

section \<open>The transfers under way\<close>

definition busy :: "transfer_request \<Rightarrow> bool" where
  "busy r \<longleftrightarrow> tq_run r \<notin> {RunNone, RunGone}"

definition has_result :: "transfer_request \<Rightarrow> bool" where
  "has_result r \<longleftrightarrow> tq_run r \<in> {RunStored, RunClosed, RunGone}"

definition own_result :: "transfer_request \<Rightarrow> go_error option" where
  "own_result r = (case tq_result r of None \<Rightarrow> None | Some err \<Rightarrow> err)"

definition request_ok :: "(nat \<rightharpoonup> transfer_request) \<Rightarrow> nat \<Rightarrow> transfer_request \<Rightarrow> bool" where
  "request_ok q n r \<longleftrightarrow>
     (tq_run r = RunNone \<longleftrightarrow> tq_done r \<noteq> n) \<and> (tq_result r \<noteq> None \<longleftrightarrow> has_result r)
     \<and> (\<exists>d. q (tq_done r) = Some d \<and> tq_done d = tq_done r \<and> tq_key d = tq_key r
          \<and> (\<forall>a. tq_answer r = Some a \<longrightarrow> (\<exists>e. a = Some (PsrpcErr Canceled '''' (Some e)))
                \<or> tq_run d \<in> {RunClosed, RunGone} \<and> a = own_result r))"

definition transfers_ok :: "(transfer_key \<rightharpoonup> nat) \<Rightarrow> (nat \<rightharpoonup> transfer_request) \<Rightarrow> bool" where
  "transfers_ok p q \<longleftrightarrow>
     (\<forall>n r. q n = Some r \<longrightarrow> request_ok q n r \<and> (busy r \<longleftrightarrow> p (tq_key r) = Some n))
   \<and> (\<forall>k n. p k = Some n \<longrightarrow> (\<exists>r. q n = Some r \<and> tq_key r = k))"

lemma transfers_ok_update:
  assumes ok: "transfers_ok p q" and r: "q n = Some r"
    and same: "tq_key r' = tq_key r" "tq_done r' = tq_done r"
    and none: "tq_run r' = RunNone \<longleftrightarrow> tq_run r = RunNone"
    and result: "tq_result r' \<noteq> None \<longleftrightarrow> has_result r'" "has_result r \<Longrightarrow> tq_result r' = tq_result r"
    and closed: "tq_run r \<in> {RunClosed, RunGone} \<Longrightarrow> tq_run r' \<in> {RunClosed, RunGone}"
    and answer: "\<And>a. tq_answer r' = Some a \<Longrightarrow> tq_answer r = Some a \<or> (\<exists>e. a = Some (PsrpcErr Canceled '''' (Some e)))
       \<or> (\<exists>d. q (tq_done r) = Some d \<and> tq_run d \<in> {RunClosed, RunGone}) \<and> a = own_result r'"
    and p': "if busy r' then busy r \<and> p' = p
       else if busy r then p' = p(tq_key r := None) else p' = p"
  shows "transfers_ok p' (q(n \<mapsto> r'))"
proof -
  define q' where "q' = q(n \<mapsto> r')"
  have old: "request_ok q m s" "busy s \<longleftrightarrow> p (tq_key s) = Some m" if "q m = Some s" for m s
    using ok that by (simp_all add: transfers_ok_def)
  have chan: "\<exists>d'. q' m = Some d' \<and> tq_done d' = tq_done d \<and> tq_key d' = tq_key d
      \<and> (tq_run d \<in> {RunClosed, RunGone} \<longrightarrow> tq_run d' \<in> {RunClosed, RunGone})" if "q m = Some d" for m d
    using that r same closed by (auto simp: q'_def)
  have own: "own_result r' = own_result r" if "tq_result r \<noteq> None"
    using that result(2) old(1) [OF r] by (simp add: own_result_def request_ok_def)
  have new: "request_ok q' n r'"
  proof -
    from old(1) [OF r] obtain d where d: "q (tq_done r) = Some d" "tq_done d = tq_done r" "tq_key d = tq_key r"
      and ans: "\<And>a. tq_answer r = Some a \<Longrightarrow> (\<exists>e. a = Some (PsrpcErr Canceled '''' (Some e)))
          \<or> tq_run d \<in> {RunClosed, RunGone} \<and> a = own_result r"
      and none_r: "tq_run r = RunNone \<longleftrightarrow> tq_done r \<noteq> n" and res_r: "tq_result r \<noteq> None \<longleftrightarrow> has_result r"
      by (auto simp: request_ok_def)
    from chan [OF d(1)] obtain d' where d': "q' (tq_done r) = Some d'" "tq_done d' = tq_done d" "tq_key d' = tq_key d"
      "tq_run d \<in> {RunClosed, RunGone} \<Longrightarrow> tq_run d' \<in> {RunClosed, RunGone}" by blast
    have keeps: "own_result r' = own_result r" if "tq_run d \<in> {RunClosed, RunGone}"
    proof (cases "tq_run r = RunNone")
      case True
      with none result(1) res_r show ?thesis by (simp add: own_result_def has_result_def)
    next
      case False
      with none_r d(1) r that res_r have "tq_result r \<noteq> None" by (auto simp: has_result_def)
      then show ?thesis by (rule own)
    qed
    have "(\<exists>e. a = Some (PsrpcErr Canceled '''' (Some e))) \<or> tq_run d' \<in> {RunClosed, RunGone} \<and> a = own_result r'"
      if a: "tq_answer r' = Some a" for a
      using answer [OF a] ans [of a] d(1) d'(4) keeps by auto
    with none none_r result(1) same d d' show ?thesis by (auto simp: request_ok_def)
  qed
  have others: "request_ok q' m s" if "q m = Some s" for m s
  proof -
    from old(1) [OF that] obtain d where d: "q (tq_done s) = Some d" "tq_done d = tq_done s" "tq_key d = tq_key s"
      "\<forall>a. tq_answer s = Some a \<longrightarrow> (\<exists>e. a = Some (PsrpcErr Canceled '''' (Some e)))
          \<or> tq_run d \<in> {RunClosed, RunGone} \<and> a = own_result s"
      by (auto simp: request_ok_def)
    from chan [OF d(1)] old(1) [OF that] d(2-4) show ?thesis unfolding request_ok_def by metis
  qed
  have key: "p (tq_key s) = Some m \<longleftrightarrow> busy s" if "q m = Some s" for m s using old(2) [OF that] by simp
  have busy': "busy s \<longleftrightarrow> p' (tq_key s) = Some m" if "q' m = Some s" for m s
    using that key [of m s] key [OF r] p' same(1) by (auto simp: q'_def split: if_splits)
  have "\<exists>s. q' m = Some s \<and> tq_key s = k" if "p' k = Some m" for k m
  proof -
    have "p k = Some m" using that p' by (auto split: if_splits)
    with ok have "\<exists>s. q m = Some s \<and> tq_key s = k" unfolding transfers_ok_def by blast
    then obtain s where s: "q m = Some s" "tq_key s = k" by blast
    with r same show ?thesis by (auto simp: q'_def)
  qed
  moreover have "request_ok q' m s" if "q' m = Some s" for m s
    using that new others by (auto simp: q'_def split: if_splits)
  ultimately show ?thesis unfolding q'_def [symmetric] transfers_ok_def using busy' by blast
qed

lemma transfers_okI:
  assumes "\<And>n r. q n = Some r \<Longrightarrow> request_ok q n r" and "\<And>n r. q n = Some r \<Longrightarrow> busy r \<longleftrightarrow> p (tq_key r) = Some n"
    and "\<And>k n. p k = Some n \<Longrightarrow> \<exists>r. q n = Some r \<and> tq_key r = k"
  shows "transfers_ok p q"
  using assms unfolding transfers_ok_def by simp

lemma request_ok_extend:
  assumes "request_ok q m s" and "q n = None"
  shows "request_ok (q(n \<mapsto> r)) m s"
proof -
  from assms(1) obtain d where "q (tq_done s) = Some d" by (auto simp: request_ok_def)
  with assms have "tq_done s \<noteq> n" by auto
  with assms(1) show ?thesis by (simp add: request_ok_def)
qed

lemma TransferSIPParticipant_ok:
  assumes ok: "transfers_ok (ss_pending s) (ss_requests s)" and new: "ss_requests s n = None"
  shows "transfers_ok (ss_pending (TransferSIPParticipant n k headers dialtone ringing s))
           (ss_requests (TransferSIPParticipant n k headers dialtone ringing s))"
proof -
  have key: "\<exists>r. ss_requests s m = Some r \<and> tq_key r = k" if "ss_pending s k = Some m" for k m
    using ok that unfolding transfers_ok_def by blast
  have old: "request_ok (ss_requests s) m r" "busy r \<longleftrightarrow> ss_pending s (tq_key r) = Some m"
    if "ss_requests s m = Some r" for m r
    using ok that by (simp_all add: transfers_ok_def)
  have fresh: "ss_pending s k \<noteq> Some n" for k using key [of k n] new by auto
  have others: "request_ok ((ss_requests s)(n \<mapsto> r)) m d" if "ss_requests s m = Some d" for m d r
    using old(1) [OF that] new by (rule request_ok_extend)
  show ?thesis
  proof (cases "ss_pending s k")
    case None
    define r where "r = \<lparr>tq_key = k, tq_headers = headers, tq_dialtone = dialtone, tq_timeout = transfer_timeout ringing,
                 tq_done = n, tq_run = RunStarted, tq_result = None, tq_answer = None\<rparr>"
    have s': "ss_pending (TransferSIPParticipant n k headers dialtone ringing s) = (ss_pending s)(k \<mapsto> n)"
      "ss_requests (TransferSIPParticipant n k headers dialtone ringing s) = (ss_requests s)(n \<mapsto> r)"
      using None by (simp_all add: TransferSIPParticipant_def r_def)
    have r: "request_ok ((ss_requests s)(n \<mapsto> r)) n r" "busy r" "tq_key r = k"
      by (simp_all add: request_ok_def has_result_def busy_def r_def)
    have "\<exists>d. ((ss_requests s)(n \<mapsto> r)) m = Some d \<and> tq_key d = k'" if "((ss_pending s)(k \<mapsto> n)) k' = Some m" for k' m
      using that key [of k' m] new r(3) by (cases "k' = k") auto
    moreover have "busy d \<longleftrightarrow> ((ss_pending s)(k \<mapsto> n)) (tq_key d) = Some m" if "((ss_requests s)(n \<mapsto> r)) m = Some d" for m d
      using that r fresh None old(2) [of m d] by (cases "m = n"; cases "tq_key d = k") auto
    moreover have "request_ok ((ss_requests s)(n \<mapsto> r)) m d" if "((ss_requests s)(n \<mapsto> r)) m = Some d" for m d
      using that r(1) others [of m d r] by (cases "m = n") simp_all
    ultimately show ?thesis unfolding s' by (intro transfers_okI)
  next
    case (Some ch)
    define r where "r = \<lparr>tq_key = k, tq_headers = headers, tq_dialtone = dialtone, tq_timeout = transfer_timeout ringing,
                 tq_done = ch, tq_run = RunNone, tq_result = None, tq_answer = None\<rparr>"
    have s': "ss_pending (TransferSIPParticipant n k headers dialtone ringing s) = ss_pending s"
      "ss_requests (TransferSIPParticipant n k headers dialtone ringing s) = (ss_requests s)(n \<mapsto> r)"
      using Some by (simp_all add: TransferSIPParticipant_def r_def)
    from key [OF Some] obtain d where d: "ss_requests s ch = Some d" "tq_key d = k" by blast
    with old(2) [OF d(1)] Some have "busy d" by simp
    with old(1) [OF d(1)] have "tq_done d = ch" by (auto simp: busy_def request_ok_def)
    moreover have "ch \<noteq> n" using d new by auto
    ultimately have r: "request_ok ((ss_requests s)(n \<mapsto> r)) n r" "\<not> busy r" "tq_key r = k"
      using d by (auto simp: request_ok_def has_result_def busy_def r_def)
    have "\<exists>d. ((ss_requests s)(n \<mapsto> r)) m = Some d \<and> tq_key d = k'" if "ss_pending s k' = Some m" for k' m
      using that key [of k' m] new by auto
    moreover have "busy d \<longleftrightarrow> ss_pending s (tq_key d) = Some m" if "((ss_requests s)(n \<mapsto> r)) m = Some d" for m d
      using that r fresh old(2) [of m d] by (cases "m = n") auto
    moreover have "request_ok ((ss_requests s)(n \<mapsto> r)) m d" if "((ss_requests s)(n \<mapsto> r)) m = Some d" for m d
      using that r(1) others [of m d r] by (cases "m = n") simp_all
    ultimately show ?thesis unfolding s' by (intro transfers_okI)
  qed
qed

text \<open>What the steps of the client and the server leave alone.\<close>

lemma at_client_frame:
  assumes "at_client f s = Returns s'"
  obtains c where "f ((ss_cli s)\<lparr>cl_monitor := ss_mon s\<rparr>) = Returns c" and "s' = s\<lparr>ss_cli := c, ss_mon := cl_monitor c\<rparr>"
  using assms by (auto simp: at_client_def bind_outcome_Returns)

lemma at_server_frame:
  assumes "at_server f s = Returns s'"
  obtains c where "f ((ss_srv s)\<lparr>sv_monitor := ss_mon s\<rparr>) = Returns c" and "s' = s\<lparr>ss_srv := c, ss_mon := sv_monitor c\<rparr>"
  using assms by (auto simp: at_server_def bind_outcome_Returns)

lemma server_inv_monitor: "server_inv s \<Longrightarrow> server_inv (s\<lparr>sv_monitor := m\<rparr>)"
proof -
  assume inv: "server_inv s"
  have "\<exists>c0. life_inv c0 (load (s\<lparr>sv_monitor := m\<rparr>) c)" if c: "sv_calls s lid = Some c" for lid c
  proof -
    from server_inv_call [OF inv c] obtain c0 where "life_inv c0 (load s c)" and id: "sl_id (ic_leg c) = lid" by blast
    from this(1) have "life_inv c0 (load (s\<lparr>sv_monitor := m\<rparr>) (load s c))"
      by (rule life_load) (use server_inv_by_local [OF inv, of lid] c id in \<open>simp add: live_def\<close>)
    then show ?thesis by auto
  qed
  with inv show ?thesis by (simp add: server_inv_def live_def)
qed

definition service_inv :: "'c sip_service \<Rightarrow> bool" where
  "service_inv s \<longleftrightarrow> client_inv (ss_cli s) \<and> self_active (ss_cli s) \<and> server_inv (ss_srv s)
     \<and> transfers_ok (ss_pending s) (ss_requests s)"

lemma at_client_inv:
  assumes inv: "service_inv s" and step: "at_client (client_step e) s = Returns s'"
  shows "service_inv s' \<and> ss_pending s' = ss_pending s \<and> ss_requests s' = ss_requests s"
proof -
  from step obtain c where c: "client_step e ((ss_cli s)\<lparr>cl_monitor := ss_mon s\<rparr>) = Returns c"
    and s': "s' = s\<lparr>ss_cli := c, ss_mon := cl_monitor c\<rparr>" by (rule at_client_frame)
  have pre: "client_inv ((ss_cli s)\<lparr>cl_monitor := ss_mon s\<rparr>)" "self_active ((ss_cli s)\<lparr>cl_monitor := ss_mon s\<rparr>)"
    using inv by (simp_all add: service_inv_def client_inv_monitor self_active_def)
  from client_step_inv [OF pre(1) c] client_step_self [OF pre c] inv s' show ?thesis by (simp add: service_inv_def)
qed

lemma at_server_inv:
  assumes inv: "service_inv s" and ok: "server_event_ok e" and step: "at_server (server_step e) s = Returns s'"
  shows "service_inv s' \<and> ss_pending s' = ss_pending s \<and> ss_requests s' = ss_requests s"
proof -
  from step obtain c where c: "server_step e ((ss_srv s)\<lparr>sv_monitor := ss_mon s\<rparr>) = Returns c"
    and s': "s' = s\<lparr>ss_srv := c, ss_mon := sv_monitor c\<rparr>" by (rule at_server_frame)
  have "server_inv ((ss_srv s)\<lparr>sv_monitor := ss_mon s\<rparr>)"
    using inv by (simp add: service_inv_def server_inv_monitor)
  from server_step_inv [OF this ok c] inv s' show ?thesis by (simp add: service_inv_def)
qed

lemma set_request_inv:
  assumes inv: "service_inv s" and r: "ss_requests s n = Some r"
    and "tq_key r' = tq_key r" "tq_done r' = tq_done r" "tq_run r' = RunNone \<longleftrightarrow> tq_run r = RunNone"
    and "tq_result r' \<noteq> None \<longleftrightarrow> has_result r'" "has_result r \<Longrightarrow> tq_result r' = tq_result r"
    and "tq_run r \<in> {RunClosed, RunGone} \<Longrightarrow> tq_run r' \<in> {RunClosed, RunGone}"
    and "tq_answer r' = tq_answer r" and "busy r" and "busy r'"
  shows "service_inv (set_request n r' s)"
proof -
  have "transfers_ok (ss_pending s) ((ss_requests s)(n \<mapsto> r'))"
    by (rule transfers_ok_update [where q = "ss_requests s" and p = "ss_pending s" and r = r])
      (use assms in \<open>auto simp: service_inv_def\<close>)
  with inv show ?thesis by (simp add: service_inv_def set_request_def)
qed

lemma service_inv_request:
  assumes "service_inv s" and "ss_requests s n = Some r"
  shows "tq_result r \<noteq> None \<longleftrightarrow> has_result r" and "tq_run r = RunNone \<longleftrightarrow> tq_done r \<noteq> n"
    and "busy r \<longleftrightarrow> ss_pending s (tq_key r) = Some n"
    and "\<exists>d. ss_requests s (tq_done r) = Some d \<and> tq_done d = tq_done r \<and> tq_key d = tq_key r"
proof -
  from assms have "request_ok (ss_requests s) n r" "busy r \<longleftrightarrow> ss_pending s (tq_key r) = Some n"
    by (simp_all add: service_inv_def transfers_ok_def)
  then show "tq_result r \<noteq> None \<longleftrightarrow> has_result r" "tq_run r = RunNone \<longleftrightarrow> tq_done r \<noteq> n"
    "busy r \<longleftrightarrow> ss_pending s (tq_key r) = Some n"
    "\<exists>d. ss_requests s (tq_done r) = Some d \<and> tq_done d = tq_done r \<and> tq_key d = tq_key r"
    unfolding request_ok_def by blast+
qed

lemma stored_fields [simp]:
  "tq_key (stored err r) = tq_key r" "tq_done (stored err r) = tq_done r" "tq_run (stored err r) = RunStored"
  "tq_result (stored err r) = Some err" "tq_answer (stored err r) = tq_answer r"
  by (simp_all add: stored_def)

lemma transfer_find_inv:
  assumes inv: "service_inv s" and r: "ss_requests s n = Some r" and step: "transfer_find n r s = Returns s'"
  shows "service_inv s'"
proof -
  have run: "tq_run r = RunStarted" using step by (simp add: transfer_find_def split: if_splits)
  have res: "tq_result r = None" using service_inv_request(1) [OF inv r] run by (simp add: has_result_def)
  define r' where "r' = (case find_transfer (tk_call_id (tq_key r)) s of
                None \<Rightarrow> stored (Some unknown_call) r | Some run \<Rightarrow> r\<lparr>tq_run := run\<rparr>)"
  have s': "s' = set_request n r' s" using step run by (simp add: transfer_find_def r'_def)
  have "tq_key r' = tq_key r \<and> tq_done r' = tq_done r \<and> tq_answer r' = tq_answer r
      \<and> (tq_run r' = RunStored \<and> tq_result r' \<noteq> None \<or> (\<exists>lid. tq_run r' \<in> {RunOut lid, RunIn lid}) \<and> tq_result r' = None)"
    using res by (auto simp: r'_def find_transfer_def split: option.splits)
  then show ?thesis unfolding s'
    by (intro set_request_inv [OF inv r]) (auto simp: has_result_def busy_def run)
qed

lemma transfer_call_inv:
  assumes inv: "service_inv s" and r: "ss_requests s n = Some r" and step: "transfer_call n ve r s = Returns s'"
  shows "service_inv s'"
proof -
  obtain t r' where t: "service_inv t" "ss_requests t n = Some r" and s': "s' = set_request n r' t"
    and run: "\<exists>lid. tq_run r \<in> {RunOut lid, RunIn lid}"
    and r': "tq_key r' = tq_key r \<and> tq_done r' = tq_done r \<and> tq_answer r' = tq_answer r
      \<and> (tq_run r' = RunStored \<and> tq_result r' \<noteq> None
         \<or> (\<exists>lid tid. tq_run r' \<in> {RunOutWait lid tid, RunInWait lid tid}) \<and> tq_result r' = tq_result r)"
  proof (cases "tq_run r")
    case (RunOut lid)
    with step obtain t where "at_client (client_step (CCall lid (ve_out ve) (Around (YTransfer (ve_tid ve)
        (tk_transfer_to (tq_key r)) (tq_headers r) (tq_dialtone r) (ve_tx_err ve))))) s = Returns t"
      and "s' = set_request n (if out_waits lid (ve_tid ve) t then r\<lparr>tq_run := RunOutWait lid (ve_tid ve)\<rparr>
             else stored (Some (ve_refer_err ve)) r) t"
      by (auto simp: transfer_call_def Let_def bind_outcome_Returns)
    with at_client_inv [OF inv this(1)] r RunOut show thesis by (intro that [of t]) auto
  next
    case (RunIn lid)
    with step obtain t where "at_server (server_step (SCall lid (ve_in ve) (Outside (XTransfer (ve_tid ve)
        (tk_transfer_to (tq_key r)) (tq_headers r) (tq_dialtone r) (ve_tx_err ve))))) s = Returns t"
      and "s' = set_request n (if in_waits lid (ve_tid ve) t then r\<lparr>tq_run := RunInWait lid (ve_tid ve)\<rparr>
             else stored (Some (ve_refer_err ve)) r) t"
      by (auto simp: transfer_call_def Let_def bind_outcome_Returns)
    with at_server_inv [OF inv _ this(1)] r RunIn show thesis by (intro that [of t]) auto
  qed (use step in \<open>simp_all add: transfer_call_def Let_def\<close>)
  have res: "tq_result r = None" using service_inv_request(1) [OF inv r] run by (auto simp: has_result_def)
  with r' show ?thesis unfolding s'
    by (intro set_request_inv [OF t]) (use run in \<open>auto simp: has_result_def busy_def\<close>)
qed

lemma transfer_result_inv:
  assumes inv: "service_inv s" and r: "ss_requests s n = Some r" and step: "transfer_result n ve err r s = Returns s'"
  shows "service_inv s'"
proof -
  obtain t where t: "service_inv t" "ss_requests t n = Some r" and s': "s' = set_request n (stored err r) t"
    and run: "\<exists>lid tid. tq_run r \<in> {RunOutWait lid tid, RunInWait lid tid}"
  proof (cases "tq_run r")
    case (RunOutWait lid tid)
    with step obtain t where "at_client (client_step (CCall lid (ve_out ve) (Around (YTransferResult tid err)))) s = Returns t"
      and "s' = set_request n (stored err r) t"
      by (auto simp: transfer_result_def bind_outcome_Returns)
    with at_client_inv [OF inv this(1)] r RunOutWait show thesis by (intro that [of t]) auto
  next
    case (RunInWait lid tid)
    with step obtain t where "at_server (server_step (SCall lid (ve_in ve) (Outside (XTransferResult tid err)))) s = Returns t"
      and "s' = set_request n (stored err r) t"
      by (auto simp: transfer_result_def bind_outcome_Returns)
    with at_server_inv [OF inv _ this(1)] r RunInWait show thesis by (intro that [of t]) auto
  qed (use step in \<open>simp_all add: transfer_result_def\<close>)
  have res: "tq_result r = None" using service_inv_request(1) [OF inv r] run by (auto simp: has_result_def)
  show ?thesis unfolding s'
    by (intro set_request_inv [OF t]) (use run res in \<open>auto simp: has_result_def busy_def\<close>)
qed

lemma transfer_answer_inv:
  assumes inv: "service_inv s" and r: "ss_requests s n = Some r" and none: "tq_answer r = None"
    and a: "a = own_result r \<and> chan_closed (tq_done r) s \<or> (\<exists>e. a = Some (PsrpcErr Canceled '''' (Some e)))"
  shows "service_inv (set_request n (r\<lparr>tq_answer := Some a\<rparr>) s)"
proof -
  have "transfers_ok (ss_pending s) ((ss_requests s)(n \<mapsto> r\<lparr>tq_answer := Some a\<rparr>))"
  proof (rule transfers_ok_update [where q = "ss_requests s" and p = "ss_pending s" and r = r])
    show "tq_result (r\<lparr>tq_answer := Some a\<rparr>) \<noteq> None \<longleftrightarrow> has_result (r\<lparr>tq_answer := Some a\<rparr>)"
      using service_inv_request(1) [OF inv r] by (simp add: has_result_def)
    show "if busy (r\<lparr>tq_answer := Some a\<rparr>) then busy r \<and> ss_pending s = ss_pending s
       else if busy r then ss_pending s = (ss_pending s)(tq_key r := None) else ss_pending s = ss_pending s"
      by (simp add: busy_def)
    show "tq_answer r = Some b \<or> (\<exists>e. b = Some (PsrpcErr Canceled '''' (Some e)))
       \<or> (\<exists>d. ss_requests s (tq_done r) = Some d \<and> tq_run d \<in> {RunClosed, RunGone}) \<and> b = own_result (r\<lparr>tq_answer := Some a\<rparr>)"
      if "tq_answer (r\<lparr>tq_answer := Some a\<rparr>) = Some b" for b
      using that a by (auto simp: chan_closed_def own_result_def)
  qed (use inv r in \<open>simp_all add: service_inv_def\<close>)
  with inv show ?thesis by (simp add: service_inv_def set_request_def)
qed

lemma transfer_forget_inv:
  assumes inv: "service_inv s" and r: "ss_requests s n = Some r" and step: "transfer_forget n r s = Returns s'"
  shows "service_inv s'"
proof -
  from step have run: "tq_run r = RunClosed"
    and s': "s' = set_request n (r\<lparr>tq_run := RunGone\<rparr>) (s\<lparr>ss_pending := (ss_pending s)(tq_key r := None)\<rparr>)"
    by (auto simp: transfer_forget_def split: if_splits)
  have res: "tq_result r \<noteq> None" using service_inv_request(1) [OF inv r] run by (simp add: has_result_def)
  have "transfers_ok ((ss_pending s)(tq_key r := None)) ((ss_requests s)(n \<mapsto> r\<lparr>tq_run := RunGone\<rparr>))"
    by (rule transfers_ok_update [where q = "ss_requests s" and p = "ss_pending s" and r = r])
      (use inv r run res in \<open>auto simp: service_inv_def has_result_def busy_def\<close>)
  with inv s' show ?thesis by (simp add: service_inv_def set_request_def)
qed

lemma transfer_step_inv:
  assumes inv: "service_inv s" and r: "ss_requests s n = Some r" and step: "transfer_step n e r s = Returns s'"
  shows "service_inv s'"
proof (cases e)
  case TFind
  with step show ?thesis by (intro transfer_find_inv [OF inv r]) simp
next
  case (TCall ve)
  with step show ?thesis by (intro transfer_call_inv [OF inv r]) simp
next
  case (TResult ve err)
  with step show ?thesis by (intro transfer_result_inv [OF inv r]) simp
next
  case TClose
  with step have run: "tq_run r = RunStored" and s': "s' = set_request n (r\<lparr>tq_run := RunClosed\<rparr>) s"
    by (auto simp: transfer_close_def split: if_splits)
  have "tq_result r \<noteq> None" using service_inv_request(1) [OF inv r] run by (simp add: has_result_def)
  then show ?thesis unfolding s'
    by (intro set_request_inv [OF inv r]) (use run in \<open>auto simp: has_result_def busy_def\<close>)
next
  case TForget
  with step show ?thesis by (intro transfer_forget_inv [OF inv r]) simp
next
  case TAnswer
  with step have "tq_answer r = None" "chan_closed (tq_done r) s"
    and s': "s' = set_request n (r\<lparr>tq_answer := Some (own_result r)\<rparr>) s"
    by (auto simp: transfer_answer_def own_result_def split: if_splits)
  then show ?thesis unfolding s' by (intro transfer_answer_inv [OF inv r]) simp_all
next
  case (TCancel x)
  with step have "tq_answer r = None"
    and s': "s' = set_request n (r\<lparr>tq_answer := Some (Some (PsrpcErr Canceled '''' (Some x)))\<rparr>) s"
    by (auto simp: transfer_cancel_def split: if_splits)
  then show ?thesis unfolding s' by (intro transfer_answer_inv [OF inv r]) auto
qed

text \<open>A BYE at the service.\<close>

lemma service_onBye_inv:
  assumes "service_inv s"
  shows "service_inv (fst (service_onBye req s))"
proof -
  have cli: "client_inv (fst (OnRequest req (ss_cli s)))"
    using assms by (intro OnRequest_inv) (simp add: service_inv_def)
  have srv: "server_inv (fst (onBye unhandled req (ss_srv s)))" for unhandled
    using assms by (intro onBye_inv) (simp add: service_inv_def)
  obtain c a ok where c: "OnRequest req (ss_cli s) = (c, a, ok)" by (cases "OnRequest req (ss_cli s)")
  obtain t b where t: "onBye (Some (\<lambda>r. ok)) req (ss_srv s) = (t, b)" by fastforce
  show ?thesis
    using assms cli srv [of "Some (\<lambda>r. ok)"] OnRequest_active [of req "ss_cli s"]
    by (simp add: service_onBye_def service_inv_def self_active_def Let_def c t)
qed

lemma service_step_inv:
  assumes inv: "service_inv s" and ok: "service_event_ok e" and step: "service_step e s = Returns s'"
  shows "service_inv s'"
proof (cases e)
  case (VClient c)
  with step show ?thesis using at_client_inv [OF inv] by (auto split: if_splits)
next
  case (VServer c)
  with step ok show ?thesis using at_server_inv [OF inv] by (auto split: if_splits)
next
  case (VBye req)
  with step service_onBye_inv [OF inv, of req] show ?thesis by simp
next
  case (VStop calls)
  with step inv client_Stop_inv [of "ss_cli s"] server_Stop_inv [of "ss_srv s" calls] show ?thesis
    by (auto simp: service_Stop_def service_inv_def self_active_def client_Stop_def)
next
  case (VTransfer n k headers dialtone ringing)
  with step have new: "ss_requests s n = None" and s': "s' = TransferSIPParticipant n k headers dialtone ringing s"
    by (auto split: if_splits)
  have "ss_cli s' = ss_cli s" "ss_srv s' = ss_srv s"
    by (auto simp: s' TransferSIPParticipant_def Let_def split: option.splits)
  with inv TransferSIPParticipant_ok [OF _ new, of k headers dialtone ringing] show ?thesis
    by (simp add: service_inv_def s')
next
  case (VRun n t)
  with step obtain r where "ss_requests s n = Some r" "transfer_step n t r s = Returns s'"
    by (auto split: option.splits)
  with inv show ?thesis by (rule transfer_step_inv)
qed

interpretation sip_service: outcome_system service_step service_inv service_event_ok
  by unfold_locales (rule service_step_inv)

lemma new_service_inv: "service_inv (new_service cache mon)"
proof -
  have "self_active (NewClient mon)" by (simp add: self_active_def NewClient_def)
  then show ?thesis by (simp add: service_inv_def new_service_def client_new_inv NewServer_inv transfers_ok_def)
qed

lemma service_runs_inv:
  assumes "runs service_step (new_service cache mon) es s" and "\<forall>e\<in>set es. service_event_ok e"
  shows "service_inv s"
  by (rule sip_service.runs_inv [OF assms(1) new_service_inv]) (use assms(2) in blast)

text \<open>A request keeps its key and the transfer it waits for.\<close>

definition waits_for :: "nat \<Rightarrow> transfer_key \<Rightarrow> nat \<Rightarrow> 'c sip_service \<Rightarrow> bool" where
  "waits_for n k d s \<longleftrightarrow> (\<exists>r. ss_requests s n = Some r \<and> tq_key r = k \<and> tq_done r = d)"

lemma waits_for_cong: "ss_requests s' = ss_requests s \<Longrightarrow> waits_for n k d s' = waits_for n k d s"
  by (simp add: waits_for_def)

lemma waits_for_set:
  assumes "waits_for n k d s" and "ss_requests s m = Some r" and "tq_key r' = tq_key r \<and> tq_done r' = tq_done r"
  shows "waits_for n k d (set_request m r' s)"
  using assms by (auto simp: waits_for_def set_request_def)

lemma at_client_requests: "at_client f s = Returns s' \<Longrightarrow> ss_requests s' = ss_requests s"
  by (erule at_client_frame) simp

lemma at_server_requests: "at_server f s = Returns s' \<Longrightarrow> ss_requests s' = ss_requests s"
  by (erule at_server_frame) simp

lemmas at_requests = at_client_requests at_server_requests

lemma transfer_step_keeps:
  assumes r: "ss_requests s m = Some r" and step: "transfer_step m e r s = Returns s'"
  obtains t r' where "s' = set_request m r' t" and "ss_requests t = ss_requests s"
    and "tq_key r' = tq_key r \<and> tq_done r' = tq_done r"
proof (cases e)
  case TFind
  with step that [of _ s] show thesis by (auto simp: transfer_find_def split: if_splits option.splits)
next
  case (TCall ve)
  with step have call: "transfer_call m ve r s = Returns s'" by simp
  show thesis
  proof (cases "tq_run r")
    case (RunOut lid)
    with call that show thesis by (auto simp: transfer_call_def bind_outcome_Returns Let_def dest: at_requests)
  next
    case (RunIn lid)
    with call that show thesis by (auto simp: transfer_call_def bind_outcome_Returns Let_def dest: at_requests)
  qed (use call in \<open>simp_all add: transfer_call_def Let_def\<close>)
next
  case (TResult ve err)
  with step have res: "transfer_result m ve err r s = Returns s'" by simp
  show thesis
  proof (cases "tq_run r")
    case (RunOutWait lid tid)
    with res that show thesis by (auto simp: transfer_result_def bind_outcome_Returns dest: at_requests)
  next
    case (RunInWait lid tid)
    with res that show thesis by (auto simp: transfer_result_def bind_outcome_Returns dest: at_requests)
  qed (use res in \<open>simp_all add: transfer_result_def\<close>)
next
  case TForget
  with step that [of _ "s\<lparr>ss_pending := (ss_pending s)(tq_key r := None)\<rparr>"] show thesis
    by (auto simp: transfer_forget_def split: if_splits)
qed (use step that [of _ s] in \<open>auto simp: transfer_close_def transfer_answer_def transfer_cancel_def split: if_splits\<close>)

lemma waits_for_step:
  assumes "waits_for n k d s" and step: "service_step e s = Returns s'"
  shows "waits_for n k d s'"
proof (cases e)
  case (VTransfer m j headers dialtone ringing)
  with step have new: "ss_requests s m = None" and s': "s' = TransferSIPParticipant m j headers dialtone ringing s"
    by (auto split: if_splits)
  with assms(1) show ?thesis
    by (auto simp: waits_for_def TransferSIPParticipant_def Let_def split: option.splits)
next
  case (VRun m t)
  with step obtain r where r: "ss_requests s m = Some r" and t: "transfer_step m t r s = Returns s'" by (auto split: option.splits)
  from t obtain u r' where s': "s' = set_request m r' u" and u: "ss_requests u = ss_requests s"
    and r': "tq_key r' = tq_key r \<and> tq_done r' = tq_done r"
    by (rule transfer_step_keeps [OF r])
  from assms(1) have "waits_for n k d u" using waits_for_cong [OF u] by simp
  with r r' show ?thesis unfolding s' by (auto simp: u intro: waits_for_set)
next
  case (VBye req)
  obtain c a ok where r: "OnRequest req (ss_cli s) = (c, a, ok)" by (cases "OnRequest req (ss_cli s)")
  obtain t b where t: "onBye (Some (\<lambda>r. ok)) req (ss_srv s) = (t, b)" by fastforce
  from step VBye r t have "ss_requests s' = ss_requests s" by (auto simp: service_onBye_def Let_def)
  with assms(1) show ?thesis by (simp add: waits_for_def)
next
  case (VStop calls)
  with step have "ss_requests s' = ss_requests s" by (auto simp: service_Stop_def)
  with assms(1) show ?thesis by (simp add: waits_for_def)
qed (use assms in \<open>auto simp: waits_for_def dest: at_requests split: if_splits\<close>)

interpretation transfer_waits: outcome_system service_step "waits_for n k d" "\<lambda>_. True" for n k d
  by unfold_locales (rule waits_for_step)

lemma request_waits_for:
  assumes "runs service_step s (es1 @ VTransfer n k headers dialtone ringing # es2) s'"
  shows "\<exists>s1. runs service_step s es1 s1 \<and> waits_for n k (case ss_pending s1 k of Some m \<Rightarrow> m | None \<Rightarrow> n) s'"
proof -
  from assms obtain s1 where s1: "runs service_step s es1 s1"
    and rest: "runs service_step s1 ([VTransfer n k headers dialtone ringing] @ es2) s'"
    by (rule runs_split) simp
  from rest obtain s2 where "runs service_step s1 [VTransfer n k headers dialtone ringing] s2" and s': "runs service_step s2 es2 s'"
    by (rule runs_split)
  then have "service_step (VTransfer n k headers dialtone ringing) s1 = Returns s2" by (simp only: runs_single)
  then have "waits_for n k (case ss_pending s1 k of Some m \<Rightarrow> m | None \<Rightarrow> n) s2"
    by (auto simp: waits_for_def TransferSIPParticipant_def Let_def split: if_splits option.splits)
  with s' have "waits_for n k (case ss_pending s1 k of Some m \<Rightarrow> m | None \<Rightarrow> n) s'" by (rule transfer_waits.runs_inv) simp
  with s1 show ?thesis by blast
qed

section \<open>Properties\<close>

text \<open>
  C12. One transfer at a time. However requests for transfers, the calls and the shutdown
  interleave (as long as sending a 200 again does not fail, \<open>service_event_ok\<close>): the table of pending
  transfers names exactly the transfers that are under way; no two are under way for the same
  call and target; a request is only answered when it is cancelled or the transfer it waits for is
  over, which is one of the same call and target; and that transfer is the one that was under way
  when the request came, or the request's own if there was none.
\<close>

theorem one_transfer_at_a_time:
  assumes "runs service_step (new_service cache mon) es s" and "\<forall>e\<in>set es. service_event_ok e"
  shows "(\<forall>k n. ss_pending s k = Some n \<longleftrightarrow> (\<exists>r. ss_requests s n = Some r \<and> tq_key r = k \<and> busy r))
     \<and> (\<forall>n m r t. ss_requests s n = Some r \<and> ss_requests s m = Some t \<and> tq_key r = tq_key t \<and> busy r \<and> busy t \<longrightarrow> n = m)
     \<and> (\<forall>n r. ss_requests s n = Some r \<longrightarrow>
          (\<exists>d. ss_requests s (tq_done r) = Some d \<and> tq_key d = tq_key r \<and> tq_run d \<noteq> RunNone
             \<and> (\<forall>a. tq_answer r = Some a \<longrightarrow> (\<exists>e. a = Some (PsrpcErr Canceled '''' (Some e))) \<or> tq_run d \<in> {RunClosed, RunGone})))
     \<and> (\<forall>es1 n k headers dialtone ringing es2. es = es1 @ VTransfer n k headers dialtone ringing # es2 \<longrightarrow>
          (\<exists>s1 r. runs service_step (new_service cache mon) es1 s1 \<and> ss_requests s n = Some r \<and> tq_key r = k
             \<and> tq_done r = (case ss_pending s1 k of Some m \<Rightarrow> m | None \<Rightarrow> n)))"
proof -
  from assms have inv: "service_inv s" by (rule service_runs_inv)
  then have key: "\<exists>r. ss_requests s n = Some r \<and> tq_key r = k" if "ss_pending s k = Some n" for k n
    using that by (auto simp: service_inv_def transfers_ok_def)
  have pend: "ss_pending s k = Some n \<longleftrightarrow> (\<exists>r. ss_requests s n = Some r \<and> tq_key r = k \<and> busy r)" for k n
    using key [of k n] service_inv_request(3) [OF inv] by auto
  moreover have "n = m" if "ss_requests s n = Some r" "ss_requests s m = Some t" "tq_key r = tq_key t" "busy r" "busy t"
    for n m r t
    using that pend [of "tq_key t" n] pend [of "tq_key t" m] by auto
  moreover have "\<exists>d. ss_requests s (tq_done r) = Some d \<and> tq_key d = tq_key r \<and> tq_run d \<noteq> RunNone
             \<and> (\<forall>a. tq_answer r = Some a \<longrightarrow> (\<exists>e. a = Some (PsrpcErr Canceled '''' (Some e))) \<or> tq_run d \<in> {RunClosed, RunGone})"
    if "ss_requests s n = Some r" for n r
  proof -
    have "request_ok (ss_requests s) n r" using inv that by (simp add: service_inv_def transfers_ok_def)
    then obtain d where d: "ss_requests s (tq_done r) = Some d" "tq_done d = tq_done r" "tq_key d = tq_key r"
      "\<forall>a. tq_answer r = Some a \<longrightarrow> (\<exists>e. a = Some (PsrpcErr Canceled '''' (Some e))) \<or> tq_run d \<in> {RunClosed, RunGone}"
      unfolding request_ok_def by blast
    with service_inv_request(2) [OF inv d(1)] show ?thesis by auto
  qed
  moreover have "\<exists>s1 r. runs service_step (new_service cache mon) es1 s1 \<and> ss_requests s n = Some r \<and> tq_key r = k
      \<and> tq_done r = (case ss_pending s1 k of Some m \<Rightarrow> m | None \<Rightarrow> n)"
    if es: "es = es1 @ VTransfer n k headers dialtone ringing # es2" for es1 n k headers dialtone ringing es2
    using request_waits_for [OF assms(1) [unfolded es]] by (auto simp: waits_for_def)
  ultimately show ?thesis by (intro conjI allI impI) blast+
qed

text \<open>
  C22. What a request for a transfer is told (in a run where sending a 200 again does not fail,
  \<open>service_event_ok\<close>). A request that is not cancelled gets the result of
  the transfer only if it is the one that started it; one that joined a transfer under way is
  told of success whatever came of the transfer.
\<close>

theorem joined_transfer_told_success:
  assumes "runs service_step (new_service cache mon) es s" and "\<forall>e\<in>set es. service_event_ok e"
    and "ss_requests s n = Some r" and "tq_answer r = Some a" and "\<nexists>e. a = Some (PsrpcErr Canceled '''' (Some e))"
  shows "if tq_done r = n then tq_result r = Some a else a = None"
proof -
  from service_runs_inv [OF assms(1,2)] have inv: "service_inv s" .
  with assms(3) have "request_ok (ss_requests s) n r" by (simp add: service_inv_def transfers_ok_def)
  with assms(4,5) obtain d where d: "ss_requests s (tq_done r) = Some d" "tq_run d \<in> {RunClosed, RunGone}"
    and a: "a = own_result r" unfolding request_ok_def by blast
  show ?thesis
  proof (cases "tq_done r = n")
    case True
    with d assms(3) have "has_result r" by (simp add: has_result_def)
    with service_inv_request(1) [OF inv assms(3)] a True show ?thesis by (auto simp: own_result_def)
  next
    case False
    with service_inv_request(1,2) [OF inv assms(3)] a show ?thesis by (auto simp: own_result_def has_result_def)
  qed
qed

text \<open>Two requests to transfer a call there is not.\<close>

definition example_key :: transfer_key where
  "example_key = \<lparr>tk_call_id = ''SCL_9'', tk_transfer_to = ''tel:1''\<rparr>"

definition example_transfer :: "nat \<Rightarrow> transfer_run \<Rightarrow> go_error option option \<Rightarrow> go_error option option \<Rightarrow> transfer_request" where
  "example_transfer ch run res a =
     \<lparr>tq_key = example_key, tq_headers = [], tq_dialtone = False, tq_timeout = 80 * Second, tq_done = ch,
      tq_run = run, tq_result = res, tq_answer = a\<rparr>"

definition example_transfer_events :: "'c service_event list" where
  "example_transfer_events =
     [VTransfer 0 example_key [] False 0, VTransfer 1 example_key [] False 0, VRun 0 TFind, VRun 0 TClose,
      VRun 0 TAnswer, VRun 1 TAnswer]"

definition example_transfer_end :: "'c \<Rightarrow> monitor \<Rightarrow> 'c sip_service" where
  "example_transfer_end cache mon =
     (new_service cache mon)\<lparr>ss_pending := [example_key \<mapsto> 0],
        ss_requests := [0 \<mapsto> example_transfer 0 RunClosed (Some (Some unknown_call)) (Some (Some unknown_call)),
                        1 \<mapsto> example_transfer 0 RunNone None (Some None)]\<rparr>"

lemmas example_transfer_defs = new_service_def TransferSIPParticipant_def transfer_timeout_def transfer_find_def
  find_transfer_def NewClient_def NewServer_def transfer_close_def transfer_answer_def set_request_def stored_def
  chan_closed_def example_transfer_def example_transfer_end_def fun_upd_twist

lemma example_transfer_runs:
  "runs service_step (new_service cache mon) example_transfer_events (example_transfer_end cache mon)"
  unfolding example_transfer_events_def
  by (rule runs_Cons, simp add: example_transfer_defs)+ (simp add: example_transfer_defs)

lemma example_transfer_ok: "\<forall>e\<in>set (example_transfer_events :: nat service_event list). service_event_ok e"
  by (simp add: example_transfer_events_def)

lemma one_transfer_at_a_time_witness:
  "\<forall>mon. \<exists>s. runs service_step (new_service (0::nat) mon) example_transfer_events s
     \<and> ss_pending s example_key = Some 0 \<and> (\<exists>r. ss_requests s 0 = Some r \<and> tq_key r = example_key \<and> busy r)"
proof
  fix mon
  note run = example_transfer_runs [of "0::nat" mon]
  have "ss_pending (example_transfer_end (0::nat) mon) example_key = Some 0" by (simp add: example_transfer_end_def)
  with one_transfer_at_a_time [OF run example_transfer_ok] run
  show "\<exists>s. runs service_step (new_service (0::nat) mon) example_transfer_events s
     \<and> ss_pending s example_key = Some 0 \<and> (\<exists>r. ss_requests s 0 = Some r \<and> tq_key r = example_key \<and> busy r)" by blast
qed

lemma joined_transfer_told_success_witness:
  "\<forall>mon. \<exists>s r t. runs service_step (new_service (0::nat) mon) example_transfer_events s
     \<and> ss_requests s 0 = Some r \<and> tq_answer r = Some (Some unknown_call)
     \<and> ss_requests s 1 = Some t \<and> tq_key t = tq_key r \<and> tq_answer t = Some None"
proof
  fix mon
  define s where "s = example_transfer_end (0::nat) mon"
  define t where "t = example_transfer 0 RunNone None (Some None)"
  have run: "runs service_step (new_service (0::nat) mon) example_transfer_events s"
    unfolding s_def by (rule example_transfer_runs)
  have t: "ss_requests s 1 = Some t" "tq_answer t = Some None" by (simp_all add: s_def t_def example_transfer_defs)
  have "\<nexists>e. None = Some (PsrpcErr Canceled '''' (Some e))" by simp
  from joined_transfer_told_success [OF run example_transfer_ok t this]
  have "tq_done t \<noteq> 1 \<or> tq_result t = Some None" by auto
  then show "\<exists>s r t. runs service_step (new_service (0::nat) mon) example_transfer_events s
     \<and> ss_requests s 0 = Some r \<and> tq_answer r = Some (Some unknown_call)
     \<and> ss_requests s 1 = Some t \<and> tq_key t = tq_key r \<and> tq_answer t = Some None"
    using run t by (intro exI [of _ s] exI [of _ "example_transfer 0 RunClosed (Some (Some unknown_call)) (Some (Some unknown_call))"]
        exI [of _ t]) (simp add: s_def t_def example_transfer_defs)
qed

text \<open>
  C20. A transfer goes to the call it names. In a service that ran in any way (but for a failure
  to send a 200 again, \<open>service_event_ok\<close>), as long as its client is not stopped: the goroutine of a request finds the outbound call of the identifier
  if there is one that is open, else the inbound one if there is one that is open, and fails
  with \<open>NotFound\<close> otherwise; nothing but the request itself is changed.
\<close>

theorem transfer_finds_its_call:
  assumes "runs service_step (new_service cache mon) es s" and "\<forall>e\<in>set es. service_event_ok e"
    and "\<not> cl_closing (ss_cli s)" and "ss_requests s n = Some r" and "tq_run r = RunStarted"
    and "cid = tk_call_id (tq_key r)"
  shows "\<exists>r'. service_step (VRun n TFind) s = Returns (set_request n r' s)
     \<and> (if \<exists>c. cl_calls (ss_cli s) cid = Some c \<and> \<not> oc_stopped c then tq_run r' = RunOut cid
        else if live (ss_srv s) cid then tq_run r' = RunIn cid
        else tq_result r' = Some (Some (PsrpcErr NotFound ''unknown call'' None)))"
proof -
  from service_runs_inv [OF assms(1,2)] have cli: "client_inv (ss_cli s)" "self_active (ss_cli s)"
    and srv: "server_inv (ss_srv s)" by (simp_all add: service_inv_def)
  have out: "cl_active (ss_cli s) cid = (if \<exists>c. cl_calls (ss_cli s) cid = Some c \<and> \<not> oc_stopped c then Some cid else None)"
  proof (cases "cl_active (ss_cli s) cid")
    case None
    have "cl_active (ss_cli s) cid \<noteq> None" if "cl_calls (ss_cli s) cid = Some c" "\<not> oc_stopped c" for c
      using cli(1) assms(3) that by (simp add: client_inv_def)
    with None show ?thesis by auto
  next
    case (Some lid)
    with cli(2) have "lid = cid" unfolding self_active_def by (metis empty_iff insert_iff option.inject option.simps(3))
    with Some show ?thesis using client_inv_active [OF cli(1), of cid] by auto
  qed
  define r' where "r' = (case find_transfer cid s of None \<Rightarrow> stored (Some unknown_call) r | Some run \<Rightarrow> r\<lparr>tq_run := run\<rparr>)"
  have find: "service_step (VRun n TFind) s = Returns (set_request n r' s)"
    using assms(4,5) by (simp add: transfer_find_def r'_def assms(6))
  have upd: "tq_run (r\<lparr>tq_run := x\<rparr>) = x" for x by simp
  have "if \<exists>c. cl_calls (ss_cli s) cid = Some c \<and> \<not> oc_stopped c then tq_run r' = RunOut cid
        else if live (ss_srv s) cid then tq_run r' = RunIn cid
        else tq_result r' = Some (Some (PsrpcErr NotFound ''unknown call'' None))"
    using server_inv_by_local [OF srv, of cid] unfolding r'_def find_transfer_def out unknown_call_def
    by (cases "\<exists>c. cl_calls (ss_cli s) cid = Some c \<and> \<not> oc_stopped c"; cases "live (ss_srv s) cid")
      (simp_all only: if_True if_False option.case option.map stored_fields upd)
  with find show ?thesis by (intro exI [of _ r'] conjI)
qed

lemma transfer_finds_its_call_witness:
  "\<forall>mon. \<exists>s r'. runs service_step (new_service (0::nat) mon) (take 1 example_transfer_events) s
     \<and> service_step (VRun 0 TFind) s = Returns (set_request 0 r' s)
     \<and> tq_result r' = Some (Some (PsrpcErr NotFound ''unknown call'' None))"
proof
  fix mon
  define s where "s = (new_service (0::nat) mon)\<lparr>ss_pending := [example_key \<mapsto> 0],
     ss_requests := [0 \<mapsto> example_transfer 0 RunStarted None None]\<rparr>"
  have run: "runs service_step (new_service (0::nat) mon) (take 1 example_transfer_events) s"
    by (simp add: example_transfer_events_def s_def) (rule runs_one, simp add: example_transfer_defs)
  have ok: "\<forall>e\<in>set (take 1 (example_transfer_events :: nat service_event list)). service_event_ok e"
    by (simp add: example_transfer_events_def)
  have pre: "\<not> cl_closing (ss_cli s)" "ss_requests s 0 = Some (example_transfer 0 RunStarted None None)"
    "tq_run (example_transfer 0 RunStarted None None) = RunStarted"
    "''SCL_9'' = tk_call_id (tq_key (example_transfer 0 RunStarted None None))"
    "\<nexists>c. cl_calls (ss_cli s) ''SCL_9'' = Some c \<and> \<not> oc_stopped c" "\<not> live (ss_srv s) ''SCL_9''"
    by (simp_all add: s_def example_transfer_defs example_key_def live_def)
  from transfer_finds_its_call [OF run ok pre(1-4), unfolded if_not_P [OF pre(5)] if_not_P [OF pre(6)]]
  obtain r' where "service_step (VRun 0 TFind) s = Returns (set_request 0 r' s)"
    "tq_result r' = Some (Some (PsrpcErr NotFound ''unknown call'' None))" by blast
  with run show "\<exists>s r'. runs service_step (new_service (0::nat) mon) (take 1 example_transfer_events) s
     \<and> service_step (VRun 0 TFind) s = Returns (set_request 0 r' s)
     \<and> tq_result r' = Some (Some (PsrpcErr NotFound ''unknown call'' None))" by blast
qed

text \<open>
  C5. A BYE goes to one call. In a service that ran in any way (but for a failure to send a 200
  again, \<open>service_event_ok\<close>): a BYE whose tag the server has is
  the BYE event at that inbound call, and no outbound call is touched; else, whose tag the
  client has, it is the BYE event at that outbound call, which is left to answer it, and no
  inbound call is touched; else nothing is changed, and it is answered 481 by the client and
  then once more by the server.
\<close>

theorem service_bye_routing:
  assumes "runs service_step (new_service cache mon) es s" and "\<forall>e\<in>set es. service_event_ok e"
    and "req_method req = ''BYE''" and "getFromTag req = Inr tag"
  shows "case sv_active (ss_srv s) tag of
       Some lid \<Rightarrow> \<exists>srv. server_call lid (env, Outside (XBye (bye_reason req))) (ss_srv s) = Returns srv
         \<and> service_onBye req s = (s\<lparr>ss_srv := srv\<rparr>, [])
     | None \<Rightarrow>
        (case cl_by_remote (ss_cli s) tag of
           Some lid \<Rightarrow> \<exists>cli. client_call lid (oenv, Around YBye) (ss_cli s) = Returns cli
             \<and> service_onBye req s = (s\<lparr>ss_cli := cli\<rparr>, [])
         | None \<Rightarrow> service_onBye req s = (s, [(481, ''Call does not exist''), (481, ''Call does not exist'')]))"
proof -
  from service_runs_inv [OF assms(1,2)] have cli: "client_inv (ss_cli s)" and srv: "server_inv (ss_srv s)"
    by (simp_all add: service_inv_def)
  obtain c a ok where r: "OnRequest req (ss_cli s) = (c, a, ok)" by (cases "OnRequest req (ss_cli s)")
  have tag: "from_tag req = tag" using assms(4) by (simp add: from_tag_def)
  show ?thesis
  proof (cases "sv_active (ss_srv s) tag")
    case (Some lid)
    from server_inv_active [OF srv Some] obtain d where "sv_calls (ss_srv s) lid = Some d" by blast
    with Some have f: "find_call tag (ss_srv s) = Some (lid, load (ss_srv s) d)" by (simp add: find_call_def)
    from found_bye [OF srv f] Some f r assms(4) show ?thesis
      by (simp add: service_onBye_def onBye_def Let_def)
  next
    case None
    then have f: "find_call tag (ss_srv s) = None" by (simp add: find_call_def)
    show ?thesis
    proof (cases "cl_by_remote (ss_cli s) tag")
      case Gone: None
      then have "client_onBye req (ss_cli s) = (ss_cli s, Some (481, ''Call does not exist''), False)"
        by (simp add: client_onBye_def find_ocall_def tag)
      with f None Gone assms(3,4) show ?thesis
        by (simp add: service_onBye_def OnRequest_def onBye_def unhandled_answer_def)
    next
      case (Some lid)
      from client_inv_by_remote [OF cli Some] obtain d where d: "cl_calls (ss_cli s) lid = Some d" "so_tag (oc_leg d) = tag"
        by blast
      with Some have g: "find_ocall tag (ss_cli s) = Some (lid, oload (ss_cli s) d)" by (simp add: find_ocall_Some)
      from cli d have "so_id (oc_leg d) = lid" by (auto simp: client_inv_def olife_def ocore_def)
      with d Some have "out_routed (oload (ss_cli s) d)" by (simp add: out_routed_def)
      with d g f None Some assms(3,4) show ?thesis
        by (simp add: service_onBye_def OnRequest_def client_onBye_def onBye_def unhandled_answer_def tag client_call_def)
    qed
  qed
qed

lemma service_bye_routing_witness:
  "\<forall>mon. service_onBye (example_invite\<lparr>req_method := ''BYE''\<rparr>) (new_service (0::nat) mon)
     = (new_service 0 mon, [(481, ''Call does not exist''), (481, ''Call does not exist'')])"
proof
  fix mon
  have run: "runs service_step (new_service (0::nat) mon) [] (new_service 0 mon)" by simp
  obtain tag where tag: "getFromTag (example_invite\<lparr>req_method := ''BYE''\<rparr>) = Inr tag"
    by (simp add: getFromTag_def getTagFrom_def example_leg_defs)
  from service_bye_routing [OF run _ _ tag, where env = example_call_env and oenv = example_oenv]
  show "service_onBye (example_invite\<lparr>req_method := ''BYE''\<rparr>) (new_service (0::nat) mon)
     = (new_service 0 mon, [(481, ''Call does not exist''), (481, ''Call does not exist'')])"
    by (simp add: new_service_def NewServer_def NewClient_def)
qed

end
