(* ===== verification/Service_Run.thy ===== *)
theory Service_Run
  imports Sip_Service
begin

text \<open>
  The process around the SIP service: the service of \<open>pkg/service/service.go\<close>, which serves the
  requests from the message bus, runs until it is told to stop and then waits for the calls to
  end, and the main program \<open>cmd/livekit-sip/main.go\<close>, which reads the configuration and
  turns signals into orders to stop. \<open>Run\<close> is a program counter: each look at shared state is a step of
  its own, and all other parts of the node take steps in between.
\<close>

section \<open>The configuration\<close>

text \<open>
  \<open>getConfig\<close>: the two flags, reading a file, and \<open>NewConfig\<close>'s and \<open>Init\<close>'s arguments.
\<close>

definition getConfig ::
  "(string \<Rightarrow> go_error + string) \<Rightarrow> (string \<Rightarrow> string) \<Rightarrow> (string \<Rightarrow> config \<Rightarrow> go_error + config)
   \<Rightarrow> string \<Rightarrow> go_error option \<Rightarrow> string \<Rightarrow> string \<Rightarrow> bool \<Rightarrow> go_error + config" where
  "getConfig read_file getenv unmarshal node_id init_logger configFile configBody initialize =
     (let body = (if configBody = ''''
                  then (if configFile = '''' then Inl (PsrpcErr InvalidArgument ''missing config'' None)
                        else read_file configFile)
                  else Inr configBody)
      in case body of
           Inl e \<Rightarrow> Inl e
         | Inr text \<Rightarrow>
             (case NewConfig getenv unmarshal text of
                Inl e \<Rightarrow> Inl e
              | Inr conf \<Rightarrow>
                  if initialize
                  then (case Init node_id init_logger conf of (conf, None) \<Rightarrow> Inr conf | (conf, Some e) \<Rightarrow> Inl e)
                  else Inr conf))"

section \<open>The service on the message bus\<close>

datatype run_act =
    ActListen string | ActClose string | ActRpcUp | ActRpcDown | ActRegisterCreate string | ActDeregisterCreate string
  | ActSipStop

text \<open>
  Where \<open>Run\<close> is: it serves; it tests whether it was told to kill the calls; it asks for the active
  calls, those of the client first; it has these, sampled and counted, and asks for those of the
  server; it waits for the ticker; it has left the loop and stops the SIP service; it has returned.
\<close>

datatype run_pc =
    RnStart | RnServing | RnTest | RnCount | RnCounted "string list" | RnTicker | RnStopping | RnDone "go_error option"

record runner =
  rn_conf :: config
  rn_listening :: "string list"
  rn_rpc :: bool
  rn_create_topic :: bool
  rn_transfer_topics :: "string list"
  rn_shutdown :: bool
  rn_killed :: bool
  rn_pc :: run_pc
  rn_log :: "run_act list"

definition new_runner :: "config \<Rightarrow> runner" where
  "new_runner conf =
     \<lparr>rn_conf = conf, rn_listening = [], rn_rpc = False, rn_create_topic = False, rn_transfer_topics = [],
      rn_shutdown = False, rn_killed = False, rn_pc = RnStart, rn_log = []\<rparr>"

text \<open>The HTTP servers that \<open>NewService\<close> makes, in the order they are started.\<close>

definition server_addr :: "int \<Rightarrow> string list" where
  "server_addr port = (if 0 < port then [CHR '':'' # itoa port] else [])"

definition http_servers :: "config \<Rightarrow> string list" where
  "http_servers conf = server_addr (cf_prometheus_port conf) @ server_addr (cf_pprof_port conf) @ server_addr (cf_health_port conf)"

definition act_run :: "run_act \<Rightarrow> runner \<Rightarrow> runner" where
  "act_run a r = r\<lparr>rn_log := rn_log r @ [a]\<rparr>"

fun listen_all :: "(string \<Rightarrow> go_error option) \<Rightarrow> string list \<Rightarrow> runner \<Rightarrow> runner \<times> go_error option" where
  "listen_all listen [] r = (r, None)"
| "listen_all listen (a # as) r =
     (case listen a of
        Some e \<Rightarrow> (r, Some e)
      | None \<Rightarrow> listen_all listen as (act_run (ActListen a) (r\<lparr>rn_listening := rn_listening r @ [a]\<rparr>)))"

text \<open>The deferred calls of \<open>Run\<close>, the last one first; \<open>rpc\<close> is whether the RPC server's is among them.\<close>

definition leave_run :: "go_error option \<Rightarrow> runner \<Rightarrow> runner" where
  "leave_run err r =
     r\<lparr>rn_log := rn_log r @ (if rn_rpc r then [ActRpcDown] else []) @ map ActClose (rev (rn_listening r)),
       rn_listening := [], rn_pc := RnDone err\<rparr>"

definition RegisterCreateSIPParticipantTopic :: "go_error option \<Rightarrow> runner \<Rightarrow> runner \<times> go_error option" where
  "RegisterCreateSIPParticipantTopic answer r =
     (if rn_rpc r
      then (act_run (ActRegisterCreate (cf_cluster_id (rn_conf r))) (r\<lparr>rn_create_topic := (answer = None)\<rparr>), answer)
      else (r, None))"

definition DeregisterCreateSIPParticipantTopic :: "runner \<Rightarrow> runner" where
  "DeregisterCreateSIPParticipantTopic r =
     (if rn_rpc r then act_run (ActDeregisterCreate (cf_cluster_id (rn_conf r))) (r\<lparr>rn_create_topic := False\<rparr>) else r)"

definition RegisterTransferSIPParticipantTopic :: "go_error option \<Rightarrow> string \<Rightarrow> runner \<Rightarrow> runner \<times> go_error option" where
  "RegisterTransferSIPParticipantTopic answer cid r =
     (if rn_rpc r
      then (case answer of
              None \<Rightarrow> (r\<lparr>rn_transfer_topics := cid # rn_transfer_topics r\<rparr>, None)
            | Some e \<Rightarrow> (r, Some e))
      else (r, Some (PsrpcErr Internal ''RPC server not started'' None)))"

definition DeregisterTransferSIPParticipantTopic :: "string \<Rightarrow> runner \<Rightarrow> runner" where
  "DeregisterTransferSIPParticipantTopic cid r =
     (if rn_rpc r then r\<lparr>rn_transfer_topics := filter (\<lambda>x. x \<noteq> cid) (rn_transfer_topics r)\<rparr> else r)"

text \<open>\<open>Run\<close> up to its loop: \<open>listen\<close>, \<open>rpc\<close> and \<open>register\<close> are the outcomes of the calls it makes.\<close>

definition run_boot :: "(string \<Rightarrow> go_error option) \<Rightarrow> go_error option \<Rightarrow> go_error option \<Rightarrow> runner \<Rightarrow> runner" where
  "run_boot listen rpc register r =
     (case listen_all listen (http_servers (rn_conf r)) r of
        (r, Some e) \<Rightarrow> leave_run (Some e) r
      | (r, None) \<Rightarrow>
          (case rpc of
             Some e \<Rightarrow> leave_run (Some e) r
           | None \<Rightarrow>
               (case RegisterCreateSIPParticipantTopic register (act_run ActRpcUp (r\<lparr>rn_rpc := True\<rparr>)) of
                  (r, Some e) \<Rightarrow> leave_run (Some e) r
                | (r, None) \<Rightarrow> r\<lparr>rn_pc := RnServing\<rparr>)))"

text \<open>
  The shutdown: the fuse was seen; the test of the inner loop (the one before the ticker is made is the
  first of them); the client's calls were counted; the server's were, which ends the loop if
  there are none of either; a tick; the SIP service was stopped.
\<close>

definition drain_over :: "active_calls \<Rightarrow> bool" where
  "drain_over st \<longleftrightarrow> ac_total st = 0"

definition run_select :: "runner \<Rightarrow> runner" where
  "run_select r = (DeregisterCreateSIPParticipantTopic r)\<lparr>rn_pc := RnTest\<rparr>"

definition run_test :: "runner \<Rightarrow> runner" where
  "run_test r = r\<lparr>rn_pc := (if rn_killed r then RnStopping else RnCount)\<rparr>"

definition run_count :: "string list \<Rightarrow> runner \<Rightarrow> runner" where
  "run_count outs r = r\<lparr>rn_pc := RnCounted outs\<rparr>"

definition run_look :: "active_calls \<Rightarrow> runner \<Rightarrow> runner" where
  "run_look st r = r\<lparr>rn_pc := (if drain_over st then RnStopping else RnTicker)\<rparr>"

definition run_tick :: "runner \<Rightarrow> runner" where
  "run_tick r = r\<lparr>rn_pc := RnTest\<rparr>"

definition run_stop :: "runner \<Rightarrow> runner" where
  "run_stop r = leave_run None (act_run ActSipStop r)"

section \<open>The process\<close>

text \<open>
  The goroutine that waits for signals takes one, of either kind, and calls \<open>Stop\<close>, whose three
  actions other goroutines may see one by one. The fuse of the metrics is kept here.
\<close>

datatype stop_phase = StopWaits | StopMonitor bool | StopBreak bool | StopStore bool | StopOver

record 'c node =
  nd_sip :: "'c sip_service"
  nd_run :: runner
  nd_mon_down :: bool
  nd_stop :: stop_phase

definition new_node :: "config \<Rightarrow> 'c \<Rightarrow> monitor \<Rightarrow> 'c node" where
  "new_node conf cache mon =
     \<lparr>nd_sip = new_service cache mon, nd_run = new_runner conf, nd_mon_down = False, nd_stop = StopWaits\<rparr>"

definition node_health :: "real \<Rightarrow> real \<Rightarrow> 'c node \<Rightarrow> health_status" where
  "node_health idle num_cpu s = Health ((ss_mon (nd_sip s))\<lparr>mn_started := True, mn_shutdown := nd_mon_down s\<rparr>) idle num_cpu"

definition handle_signal :: "bool \<Rightarrow> 'c node \<Rightarrow> 'c node" where
  "handle_signal kill s = (if nd_stop s = StopWaits then s\<lparr>nd_stop := StopMonitor kill\<rparr> else s)"

fun stop_next :: "stop_phase \<Rightarrow> 'c node \<Rightarrow> 'c node outcome" where
  "stop_next (StopMonitor kill) s = Returns (s\<lparr>nd_mon_down := True, nd_stop := StopBreak kill\<rparr>)"
| "stop_next (StopBreak kill) s = Returns (s\<lparr>nd_run := (nd_run s)\<lparr>rn_shutdown := True\<rparr>, nd_stop := StopStore kill\<rparr>)"
| "stop_next (StopStore kill) s = Returns (s\<lparr>nd_run := (nd_run s)\<lparr>rn_killed := kill\<rparr>, nd_stop := StopOver\<rparr>)"
| "stop_next _ s = Blocked"

text \<open>
  Events: signals and the actions of \<open>Stop\<close>; the steps of \<open>Run\<close>, with the identifiers in the table
  it counts in the order they are visited, and with the calls \<open>Stop\<close> visits; and those of the SIP
  service, where the checks of a request for a call see the health of the node. Between
  any two steps of \<open>Run\<close> anything else may happen.
\<close>

datatype run_event = RSelect | RTest | RCount "string list" | RLook "string list" | RTick | RStop "string list"

datatype 'c node_event =
    NSignal bool
  | NStop
  | NBoot "string \<Rightarrow> go_error option" "go_error option" "go_error option"
  | NRun run_event
  | NSip "'c service_event" real real

definition lists_keys :: "string list \<Rightarrow> (string \<rightharpoonup> 'v) \<Rightarrow> bool" where
  "lists_keys ks m \<longleftrightarrow> distinct ks \<and> set ks = dom m"

definition with_run :: "(runner \<Rightarrow> runner) \<Rightarrow> 'c node \<Rightarrow> 'c node" where
  "with_run f s = s\<lparr>nd_run := f (nd_run s)\<rparr>"

definition run_step :: "run_event \<Rightarrow> 'c node \<Rightarrow> 'c node outcome" where
  "run_step e s =
     (case (rn_pc (nd_run s), e) of
        (RnServing, RSelect) \<Rightarrow> if rn_shutdown (nd_run s) then Returns (with_run run_select s) else Blocked
      | (RnTest, RTest) \<Rightarrow> Returns (with_run run_test s)
      | (RnCount, RCount outs) \<Rightarrow>
          if lists_keys outs (cl_active (ss_cli (nd_sip s))) then Returns (with_run (run_count outs) s) else Blocked
      | (RnCounted outs, RLook ins) \<Rightarrow>
          if lists_keys ins (sv_active (ss_srv (nd_sip s)))
          then Returns (with_run (run_look (ActiveCalls outs ins)) s) else Blocked
      | (RnTicker, RTick) \<Rightarrow> Returns (with_run run_tick s)
      | (RnStopping, RStop calls) \<Rightarrow> Returns ((with_run run_stop s)\<lparr>nd_sip := service_Stop calls (nd_sip s)\<rparr>)
      | _ \<Rightarrow> Blocked)"

fun sip_event_ok :: "'c service_event \<Rightarrow> real \<Rightarrow> real \<Rightarrow> 'c node \<Rightarrow> bool" where
  "sip_event_ok (VStop calls) idle num_cpu s = False"
| "sip_event_ok (VClient (CCheck health req)) idle num_cpu s = (health = node_health idle num_cpu s)"
| "sip_event_ok _ idle num_cpu s = True"

fun node_step :: "'c node_event \<Rightarrow> 'c node \<Rightarrow> 'c node outcome" where
  "node_step (NSignal kill) s = Returns (handle_signal kill s)"
| "node_step NStop s = stop_next (nd_stop s) s"
| "node_step (NBoot listen rpc register) s =
     (if rn_pc (nd_run s) = RnStart then Returns (s\<lparr>nd_run := run_boot listen rpc register (nd_run s)\<rparr>) else Blocked)"
| "node_step (NRun e) s = run_step e s"
| "node_step (NSip e idle num_cpu) s =
     (if \<not> sip_event_ok e idle num_cpu s then Blocked
      else bind_outcome (service_step e (nd_sip s)) (\<lambda>v. Returns (s\<lparr>nd_sip := v\<rparr>)))"

fun node_event_ok :: "'c node_event \<Rightarrow> bool" where
  "node_event_ok (NSip e idle num_cpu) = service_event_ok e"
| "node_event_ok _ = True"

section \<open>What the steps leave alone\<close>

lemma OnRequest_client: "fst (OnRequest req s) = (if req_method req = ''BYE'' then fst (client_onBye req s) else s)"
  by (auto simp: OnRequest_def split: prod.splits option.splits)

text \<open>
  What can become of the client where no more requests pass the checks: the requests between
  their checks and their call get fewer, every call that comes to be is of one of them, and a call that
  is stopped stays so.
\<close>

definition begun :: "client \<Rightarrow> string set" where
  "begun s = (cr_sip_call_id \<circ> fst) ` set (cl_creating s)"

definition only_begun :: "client \<Rightarrow> client \<Rightarrow> bool" where
  "only_begun a s \<longleftrightarrow>
     set (cl_creating s) \<subseteq> set (cl_creating a)
   \<and> (\<forall>lid d. cl_calls a lid = Some d \<longrightarrow> (\<exists>c. cl_calls s lid = Some c \<and> (oc_stopped d \<longrightarrow> oc_stopped c)))
   \<and> (\<forall>lid. cl_calls a lid = None \<longrightarrow> cl_calls s lid \<noteq> None \<longrightarrow> lid \<in> begun a)"

lemma only_begun_refl [simp]: "only_begun a a"
  by (simp add: only_begun_def)

lemma only_begun_trans:
  assumes "only_begun a b" and "only_begun b c"
  shows "only_begun a c"
proof -
  have "begun b \<subseteq> begun a" using assms(1) by (auto simp: only_begun_def begun_def)
  moreover have "lid \<in> begun b" if "cl_calls b lid = None" "cl_calls c lid \<noteq> None" for lid
    using assms(2) that by (simp add: only_begun_def)
  moreover have "lid \<in> begun a" if "cl_calls a lid = None" "cl_calls b lid \<noteq> None" for lid
    using assms(1) that by (simp add: only_begun_def)
  moreover have "\<exists>y. cl_calls c lid = Some y \<and> (oc_stopped d \<longrightarrow> oc_stopped y)" if "cl_calls a lid = Some d" for lid d
    using assms that unfolding only_begun_def by metis
  ultimately show ?thesis using assms unfolding only_begun_def by blast
qed

lemma only_begun_same:
  "cl_creating s = cl_creating a \<Longrightarrow> cl_calls s = cl_calls a \<Longrightarrow> only_begun a s"
  by (simp add: only_begun_def)

lemma only_begun_cong:
  "cl_creating a' = cl_creating a \<Longrightarrow> cl_calls a' = cl_calls a \<Longrightarrow> only_begun a' s = only_begun a s"
  by (simp add: only_begun_def begun_def)

lemma only_begun_one:
  assumes "cl_creating s = cl_creating a" and "cl_calls s = (cl_calls a)(lid \<mapsto> c)" and "cl_calls a lid = Some d"
    and "oc_stopped d \<Longrightarrow> oc_stopped c"
  shows "only_begun a s"
  using assms by (auto simp: only_begun_def)

lemma only_begun_dom:
  assumes "only_begun a s"
  shows "dom (cl_calls a) \<subseteq> dom (cl_calls s)" and "dom (cl_calls s) \<subseteq> dom (cl_calls a) \<union> begun a"
  using assms unfolding only_begun_def by fastforce+

lemma make_only_begun:
  assumes "client_step (CMake ke n) s = Returns s'" and "client_inv s"
  shows "only_begun s s' \<and> cl_closing s' = cl_closing s"
  using assms(1)
proof (rule step_make_cases)
  fix req enc r
  assume n: "n < length (cl_creating s)" "cl_creating s ! n = (req, enc)" and new: "cl_calls s (cr_sip_call_id req) = None"
    and made: "make_call ke enc req (s\<lparr>cl_creating := without n (cl_creating s)\<rparr>) = Returns (s', r)"
  define t where "t = s\<lparr>cl_creating := without n (cl_creating s)\<rparr>"
  have less: "set (cl_creating t) \<subseteq> set (cl_creating s)" using set_take_subset set_drop_subset by (fastforce simp: t_def without_def)
  have lid: "cr_sip_call_id req \<in> begun s" using nth_mem [OF n(1)] n(2) by (force simp: begun_def)
  have t: "client_inv t" "cl_calls t (cr_sip_call_id req) = None" "cl_calls t = cl_calls s" "cl_closing t = cl_closing s"
    using assms(2) new by (simp_all add: t_def)
  from made [folded t_def] t(1,2) show ?thesis
  proof (cases rule: make_call_cases)
    case (Failed e c)
    with less t(3,4) show ?thesis by (auto simp: only_begun_def)
  next
    case (Dials c p)
    have "cl_creating s' = cl_creating t" by (simp add: Dials(1) ostore_def)
    with less t(3,4) new lid Dials(1) show ?thesis by (auto simp: only_begun_def)
  qed
qed

lemma bye_only_begun: "only_begun s (fst (client_onBye req s)) \<and> cl_closing (fst (client_onBye req s)) = cl_closing s"
proof (cases "find_ocall (from_tag req) s")
  case None
  then show ?thesis by (simp add: client_onBye_def)
next
  case (Some lc)
  then obtain lid d where f: "find_ocall (from_tag req) s = Some (lid, oload s d)" "cl_calls s lid = Some d"
    by (cases lc) (auto simp: find_ocall_Some)
  then show ?thesis
    by (auto simp: client_onBye_def ostore_def intro: only_begun_one)
qed

lemma Stop_only_begun: "only_begun s (client_Stop s)"
  by (auto simp: only_begun_def client_Stop_def)

text \<open>Every step of the client but stopping leaves it open, and every step is of this kind, but checks that pass.\<close>

lemma client_step_only_begun:
  assumes "client_step e s = Returns s'" and "client_inv s" and "\<And>req. e \<noteq> CCheck HealthOK req"
  shows "only_begun s s'"
proof (cases e)
  case (CCheck health req)
  with assms(3) have "health \<noteq> HealthOK" by auto
  with CCheck assms(1) show ?thesis by (simp add: check_create_def)
next
  case (CMake ke n)
  with assms make_only_begun show ?thesis by blast
next
  case (CCall lid env a)
  with assms(1) have "client_call lid (env, a) s = Returns s'" by (auto split: if_splits)
  then obtain c c' where c: "cl_calls s lid = Some c" "ocall_step (env, a) (oload s c) = Returns c'" and s': "s' = ostore lid c' s"
    by (auto simp: client_call_def bind_outcome_Returns split: option.splits)
  have "oc_stopped c'" if "oc_stopped c" using ocall_step_stopped [OF c(2)] that by simp
  with c(1) show ?thesis by (intro only_begun_one [of s' s lid c' c]) (simp_all add: s' ostore_def)
next
  case (CRequest req)
  with assms(1) have "s' = (if req_method req = ''BYE'' then fst (client_onBye req s) else s)"
    by (simp add: OnRequest_client)
  then show ?thesis using bye_only_begun [of s req] by simp
next
  case CStop
  with assms(1) Stop_only_begun show ?thesis by auto
qed

lemma client_step_closing: "client_step e s = Returns s' \<Longrightarrow> e \<noteq> CStop \<Longrightarrow> client_inv s \<Longrightarrow> cl_closing s' = cl_closing s"
proof (cases e)
  case (CCheck health req)
  assume "client_step e s = Returns s'"
  with CCheck have "client_step (CCheck health req) s = Returns s'" by simp
  then show ?thesis by (cases rule: step_check_cases) simp_all
next
  case (CMake ke n)
  assume "client_step e s = Returns s'" "client_inv s"
  with CMake make_only_begun show ?thesis by blast
next
  case (CRequest req)
  assume "client_step e s = Returns s'"
  with CRequest bye_only_begun [of s req] show ?thesis
    by (cases "req_method req = ''BYE''") (auto simp: OnRequest_client)
qed (auto simp: client_call_def bind_outcome_Returns split: if_splits option.splits)

text \<open>The steps of the service but for stopping, at the client: nothing, or a step of the client.\<close>

lemma service_step_client:
  assumes "service_step e s = Returns s'" and "\<And>calls. e \<noteq> VStop calls"
  obtains (Same) m where "(ss_cli s')\<lparr>cl_monitor := m\<rparr> = (ss_cli s)\<lparr>cl_monitor := m\<rparr>"
  | (Step) c where "c \<noteq> CStop" and "client_step c ((ss_cli s)\<lparr>cl_monitor := ss_mon s\<rparr>) = Returns (ss_cli s')"
      and "\<And>health req. c = CCheck health req \<Longrightarrow> e = VClient c"
  | (Request) req where "client_step (CRequest req) (ss_cli s) = Returns (ss_cli s')"
proof (cases e)
  case (VClient c)
  with assms(1) have "at_client (client_step c) s = Returns s'" "c \<noteq> CStop" by (auto split: if_splits)
  with VClient Step [of c] show thesis by (auto elim!: at_client_frame simp del: client_step.simps)
next
  case (VServer c)
  with assms have "at_server (server_step c) s = Returns s'" by (auto split: if_splits)
  with Same [of "ss_mon s"] show thesis by (auto elim!: at_server_frame)
next
  case (VBye req)
  obtain c a ok where r: "OnRequest req (ss_cli s) = (c, a, ok)" by (cases "OnRequest req (ss_cli s)")
  obtain t b where t: "onBye (Some (\<lambda>r. ok)) req (ss_srv s) = (t, b)" by fastforce
  from assms(1) VBye r t have "ss_cli s' = c \<or> ss_cli s' = ss_cli s"
    by (auto simp: service_onBye_def Let_def)
  with r Request [of req] Same [of "ss_mon s"] show thesis by auto
next
  case (VStop calls)
  with assms(2) [of calls] show thesis by simp
next
  case (VTransfer n k headers dialtone ringing)
  with assms(1) have "ss_cli s' = ss_cli s"
    by (auto simp: TransferSIPParticipant_def Let_def split: if_splits option.splits)
  with Same [of "ss_mon s"] show thesis by simp
next
  case (VRun n t)
  with assms(1) obtain r where step: "transfer_step n t r s = Returns s'" by (auto split: option.splits)
  have at_srv: "ss_cli t = ss_cli s" if "at_server f s = Returns t" for f t
    using that by (auto elim!: at_server_frame)
  have "(\<exists>lid env a u. at_client (client_step (CCall lid env a)) s = Returns u \<and> ss_cli s' = ss_cli u) \<or> ss_cli s' = ss_cli s"
  proof (cases t)
    case (TCall ve)
    with step at_srv show ?thesis
      by (auto simp: transfer_call_def Let_def bind_outcome_Returns set_request_def
          split: transfer_run.splits simp del: client_step.simps server_step.simps) blast
  next
    case (TResult ve err)
    with step at_srv show ?thesis
      by (auto simp: transfer_result_def bind_outcome_Returns set_request_def
          split: transfer_run.splits simp del: client_step.simps server_step.simps) blast
  qed (use step in \<open>auto simp: transfer_find_def transfer_close_def transfer_forget_def
      transfer_answer_def transfer_cancel_def set_request_def split: if_splits\<close>)
  then show thesis
  proof
    assume "ss_cli s' = ss_cli s"
    with Same [of "ss_mon s"] show thesis by simp
  next
    assume "\<exists>lid env a u. at_client (client_step (CCall lid env a)) s = Returns u \<and> ss_cli s' = ss_cli u"
    then obtain lid env a u where u: "at_client (client_step (CCall lid env a)) s = Returns u" "ss_cli s' = ss_cli u" by blast
    from u(1) obtain c where "client_step (CCall lid env a) ((ss_cli s)\<lparr>cl_monitor := ss_mon s\<rparr>) = Returns c"
      "u = s\<lparr>ss_cli := c, ss_mon := cl_monitor c\<rparr>" by (rule at_client_frame)
    with u(2) have "client_step (CCall lid env a) ((ss_cli s)\<lparr>cl_monitor := ss_mon s\<rparr>) = Returns (ss_cli s')" by simp
    then show thesis by (intro Step [of "CCall lid env a"]) simp_all
  qed
qed

lemma service_step_closing:
  assumes "service_step e s = Returns s'" and "\<And>calls. e \<noteq> VStop calls" and inv: "service_inv s"
  shows "cl_closing (ss_cli s') = cl_closing (ss_cli s)"
  using assms(1,2)
proof (cases rule: service_step_client)
  case (Same m)
  have "cl_closing (c\<lparr>cl_monitor := m\<rparr>) = cl_closing c" for c by simp
  with Same show ?thesis by metis
next
  case (Step c)
  from client_step_closing [OF Step(2,1)] inv show ?thesis by (simp add: service_inv_def client_inv_monitor)
next
  case (Request req)
  from client_step_closing [OF Request] inv show ?thesis by (simp add: service_inv_def)
qed

section \<open>The process over time\<close>

text \<open>Until \<open>Run\<close> stops the SIP service, its client is open; what the fuses and the phase of \<open>Stop\<close> say.\<close>

fun shutting_down :: "run_pc \<Rightarrow> bool" where
  "shutting_down RnStart = False"
| "shutting_down RnServing = False"
| "shutting_down (RnDone (Some e)) = False"
| "shutting_down _ = True"

definition node_inv :: "'c node \<Rightarrow> bool" where
  "node_inv s \<longleftrightarrow>
     service_inv (nd_sip s)
   \<and> (rn_pc (nd_run s) \<noteq> RnDone None \<longrightarrow> \<not> cl_closing (ss_cli (nd_sip s)))
   \<and> (shutting_down (rn_pc (nd_run s)) \<longrightarrow> rn_shutdown (nd_run s) \<and> \<not> rn_create_topic (nd_run s))
   \<and> (rn_pc (nd_run s) = RnServing \<longrightarrow> rn_rpc (nd_run s))
   \<and> (rn_shutdown (nd_run s) \<longrightarrow> (\<exists>k. nd_stop s \<in> {StopStore k, StopOver}))
   \<and> ((\<exists>k. nd_stop s \<in> {StopBreak k, StopStore k, StopOver}) \<longrightarrow> nd_mon_down s)
   \<and> (rn_killed (nd_run s) \<longrightarrow> nd_stop s = StopOver)"

lemma listen_all_frame:
  "listen_all listen as r = (r', e) \<Longrightarrow> rn_conf r' = rn_conf r \<and> rn_rpc r' = rn_rpc r \<and> rn_create_topic r' = rn_create_topic r
     \<and> rn_shutdown r' = rn_shutdown r \<and> rn_killed r' = rn_killed r"
  by (induction as arbitrary: r) (force simp: act_run_def split: option.splits)+

lemma leave_run_frame [simp]:
  "rn_shutdown (leave_run e r) = rn_shutdown r" "rn_killed (leave_run e r) = rn_killed r" "rn_pc (leave_run e r) = RnDone e"
  "rn_create_topic (leave_run e r) = rn_create_topic r"
  by (simp_all add: leave_run_def)

lemma act_run_frame [simp]:
  "rn_shutdown (act_run a r) = rn_shutdown r" "rn_killed (act_run a r) = rn_killed r" "rn_pc (act_run a r) = rn_pc r"
  "rn_rpc (act_run a r) = rn_rpc r" "rn_create_topic (act_run a r) = rn_create_topic r" "rn_conf (act_run a r) = rn_conf r"
  "rn_listening (act_run a r) = rn_listening r"
  by (simp_all add: act_run_def)

lemma run_boot_frame:
  "rn_shutdown (run_boot listen rpc register r) = rn_shutdown r \<and> rn_killed (run_boot listen rpc register r) = rn_killed r
   \<and> (rn_pc (run_boot listen rpc register r) = RnServing \<and> rn_rpc (run_boot listen rpc register r)
      \<or> (\<exists>e. rn_pc (run_boot listen rpc register r) = RnDone (Some e)))"
proof -
  obtain t e where l: "listen_all listen (http_servers (rn_conf r)) r = (t, e)" by fastforce
  from listen_all_frame [OF l] show ?thesis
    by (cases e; cases rpc; cases register)
      (simp_all add: run_boot_def l RegisterCreateSIPParticipantTopic_def)
qed

lemma run_select_frame:
  assumes "rn_rpc r"
  shows "rn_shutdown (run_select r) = rn_shutdown r" "rn_killed (run_select r) = rn_killed r"
    "\<not> rn_create_topic (run_select r)" "rn_pc (run_select r) = RnTest"
  using assms by (simp_all add: run_select_def DeregisterCreateSIPParticipantTopic_def)

lemma run_frames [simp]:
  "rn_shutdown (run_test r) = rn_shutdown r" "rn_killed (run_test r) = rn_killed r" "rn_create_topic (run_test r) = rn_create_topic r"
  "rn_shutdown (run_count outs r) = rn_shutdown r" "rn_killed (run_count outs r) = rn_killed r"
  "rn_create_topic (run_count outs r) = rn_create_topic r"
  "rn_shutdown (run_look st r) = rn_shutdown r" "rn_killed (run_look st r) = rn_killed r"
  "rn_create_topic (run_look st r) = rn_create_topic r"
  "rn_shutdown (run_tick r) = rn_shutdown r" "rn_killed (run_tick r) = rn_killed r" "rn_create_topic (run_tick r) = rn_create_topic r"
  "rn_shutdown (run_stop r) = rn_shutdown r" "rn_killed (run_stop r) = rn_killed r" "rn_create_topic (run_stop r) = rn_create_topic r"
  by (simp_all add: run_test_def run_count_def run_look_def run_tick_def run_stop_def)

lemma run_pcs [simp]:
  "rn_pc (run_test r) = (if rn_killed r then RnStopping else RnCount)" "rn_pc (run_count outs r) = RnCounted outs"
  "rn_pc (run_look st r) = (if drain_over st then RnStopping else RnTicker)" "rn_pc (run_tick r) = RnTest"
  "rn_pc (run_stop r) = RnDone None"
  by (simp_all add: run_test_def run_count_def run_look_def run_tick_def run_stop_def)

lemma with_run_frame [simp]:
  "nd_run (with_run f s) = f (nd_run s)" "nd_sip (with_run f s) = nd_sip s" "nd_mon_down (with_run f s) = nd_mon_down s"
  "nd_stop (with_run f s) = nd_stop s"
  by (simp_all add: with_run_def)

lemma service_Stop_inv: "service_inv v \<Longrightarrow> service_inv (service_Stop calls v)"
  using client_Stop_inv [of "ss_cli v"] server_Stop_inv [of "ss_srv v" calls]
  by (simp add: service_Stop_def service_inv_def self_active_def client_Stop_def)

text \<open>A step of \<open>Run\<close>.\<close>

lemma run_step_cases:
  assumes "run_step e s = Returns s'"
  obtains (Select) "rn_pc (nd_run s) = RnServing" "e = RSelect" "rn_shutdown (nd_run s)" "s' = with_run run_select s"
  | (Test) "rn_pc (nd_run s) = RnTest" "e = RTest" "s' = with_run run_test s"
  | (Count) outs where "rn_pc (nd_run s) = RnCount" "e = RCount outs"
      "lists_keys outs (cl_active (ss_cli (nd_sip s)))" "s' = with_run (run_count outs) s"
  | (Look) outs ins where "rn_pc (nd_run s) = RnCounted outs" "e = RLook ins"
      "lists_keys ins (sv_active (ss_srv (nd_sip s)))" "s' = with_run (run_look (ActiveCalls outs ins)) s"
  | (Tick) "rn_pc (nd_run s) = RnTicker" "e = RTick" "s' = with_run run_tick s"
  | (Stop) calls where "rn_pc (nd_run s) = RnStopping" "e = RStop calls"
      "s' = (with_run run_stop s)\<lparr>nd_sip := service_Stop calls (nd_sip s)\<rparr>"
  using assms by (cases "rn_pc (nd_run s)"; cases e) (auto simp: run_step_def split: if_splits)

lemma run_step_inv:
  assumes inv: "node_inv s" and step: "run_step e s = Returns s'"
  shows "node_inv s'"
  using step
proof (cases rule: run_step_cases)
  case Select
  with inv have "rn_rpc (nd_run s)" by (simp add: node_inv_def)
  from run_select_frame [OF this] inv Select show ?thesis by (simp add: node_inv_def)
next
  case (Stop calls)
  with inv show ?thesis by (simp add: node_inv_def service_Stop_inv)
qed (use inv in \<open>simp_all add: node_inv_def\<close>)

text \<open>What a step of \<open>Run\<close> leaves as it is.\<close>

lemma run_step_frame:
  assumes "run_step e s = Returns s'" and "node_inv s"
  shows "nd_mon_down s' = nd_mon_down s \<and> nd_stop s' = nd_stop s \<and> rn_killed (nd_run s') = rn_killed (nd_run s)
     \<and> only_begun (ss_cli (nd_sip s)) (ss_cli (nd_sip s'))"
  using assms(1)
proof (cases rule: run_step_cases)
  case Select
  with assms(2) have "rn_rpc (nd_run s)" by (simp add: node_inv_def)
  with Select show ?thesis by (simp add: run_select_frame)
qed (simp_all add: service_Stop_def Stop_only_begun)

lemma node_step_inv:
  assumes inv: "node_inv s" and ok: "node_event_ok e" and step: "node_step e s = Returns s'"
  shows "node_inv s'"
proof (cases e)
  case (NSignal kill)
  show ?thesis
  proof (cases "nd_stop s = StopWaits")
    case True
    with inv have "\<not> rn_shutdown (nd_run s)" "\<not> rn_killed (nd_run s)" by (auto simp: node_inv_def)
    moreover have "s' = s\<lparr>nd_stop := StopMonitor kill\<rparr>" using step NSignal True by (simp add: handle_signal_def)
    ultimately show ?thesis using inv by (simp add: node_inv_def)
  next
    case False
    with step NSignal inv show ?thesis by (simp add: handle_signal_def)
  qed
next
  case NStop
  with step have "stop_next (nd_stop s) s = Returns s'" by simp
  then show ?thesis
  proof (cases "nd_stop s")
    case (StopMonitor k)
    with inv have "\<not> rn_shutdown (nd_run s)" "\<not> rn_killed (nd_run s)" by (auto simp: node_inv_def)
    moreover have "s' = s\<lparr>nd_mon_down := True, nd_stop := StopBreak k\<rparr>" using step NStop StopMonitor by simp
    ultimately show ?thesis using inv by (simp add: node_inv_def)
  next
    case (StopBreak k)
    with inv have "\<not> rn_killed (nd_run s)" "nd_mon_down s" by (auto simp: node_inv_def)
    moreover have "s' = s\<lparr>nd_run := (nd_run s)\<lparr>rn_shutdown := True\<rparr>, nd_stop := StopStore k\<rparr>" using step NStop StopBreak by simp
    ultimately show ?thesis using inv by (simp add: node_inv_def)
  next
    case (StopStore k)
    with inv have "nd_mon_down s" by (auto simp: node_inv_def)
    moreover have "s' = s\<lparr>nd_run := (nd_run s)\<lparr>rn_killed := k\<rparr>, nd_stop := StopOver\<rparr>" using step NStop StopStore by simp
    ultimately show ?thesis using inv by (simp add: node_inv_def)
  qed simp_all
next
  case (NBoot listen rpc register)
  with step have pc: "rn_pc (nd_run s) = RnStart" and s': "s' = s\<lparr>nd_run := run_boot listen rpc register (nd_run s)\<rparr>"
    by (auto split: if_splits)
  from inv pc run_boot_frame [of listen rpc register "nd_run s"] show ?thesis
    unfolding s' node_inv_def by auto
next
  case (NRun ev)
  with step inv show ?thesis by (auto intro: run_step_inv)
next
  case (NSip v idle num_cpu)
  with step obtain t where ev: "sip_event_ok v idle num_cpu s" and t: "service_step v (nd_sip s) = Returns t"
    and s': "s' = s\<lparr>nd_sip := t\<rparr>" by (auto simp: bind_outcome_Returns split: if_splits)
  have "v \<noteq> VStop calls" for calls using ev by auto
  from service_step_closing [OF t this] service_step_inv [OF _ _ t] inv ok NSip show ?thesis
    by (auto simp: node_inv_def s')
qed

interpretation sip_node: outcome_system node_step node_inv node_event_ok
  by unfold_locales (rule node_step_inv)

lemma node_runs_inv:
  assumes "runs node_step (new_node conf cache mon) es s" and "\<forall>e\<in>set es. node_event_ok e"
  shows "node_inv s"
proof (rule sip_node.runs_inv [OF assms(1)])
  show "node_inv (new_node conf cache mon)"
    by (simp add: node_inv_def new_node_def new_runner_def new_service_inv) (simp add: new_service_def NewClient_def)
qed (use assms(2) in blast)

text \<open>The same of the service and of the node: once the monitor is down no more requests pass the checks.\<close>

lemma service_step_only_begun:
  assumes "service_step e s = Returns s'" and inv: "service_inv s" and "\<And>calls. e \<noteq> VStop calls"
    and health: "\<And>req. e \<noteq> VClient (CCheck HealthOK req)"
  shows "only_begun (ss_cli s) (ss_cli s')"
  using assms(1,3)
proof (cases rule: service_step_client)
  case (Same m)
  have "cl_calls (c\<lparr>cl_monitor := m\<rparr>) = cl_calls c" "cl_creating (c\<lparr>cl_monitor := m\<rparr>) = cl_creating c" for c by simp_all
  with Same show ?thesis by (metis only_begun_same)
next
  case (Step c)
  have "client_inv ((ss_cli s)\<lparr>cl_monitor := ss_mon s\<rparr>)" using inv by (simp add: service_inv_def client_inv_monitor)
  from client_step_only_begun [OF Step(2) this] Step(3) health
  have "only_begun ((ss_cli s)\<lparr>cl_monitor := ss_mon s\<rparr>) (ss_cli s')" by blast
  moreover have "only_begun ((ss_cli s)\<lparr>cl_monitor := ss_mon s\<rparr>) (ss_cli s') = only_begun (ss_cli s) (ss_cli s')"
    by (rule only_begun_cong) simp_all
  ultimately show ?thesis by simp
next
  case (Request req)
  from client_step_only_begun [OF Request] inv show ?thesis by (simp add: service_inv_def)
qed

lemma node_step_only_begun:
  assumes inv: "node_inv s" and step: "node_step e s = Returns s'" and down: "nd_mon_down s"
  shows "nd_mon_down s' \<and> only_begun (ss_cli (nd_sip s)) (ss_cli (nd_sip s'))"
proof (cases e)
  case (NSignal kill)
  with step have "s' = s \<or> s' = s\<lparr>nd_stop := StopMonitor kill\<rparr>" by (auto simp: handle_signal_def)
  with down show ?thesis by (elim disjE) simp_all
next
  case NStop
  with step down show ?thesis by (cases "nd_stop s") auto
next
  case (NBoot listen rpc register)
  with step down show ?thesis by (auto split: if_splits)
next
  case (NRun ev)
  with step have "run_step ev s = Returns s'" by simp
  with run_step_frame [OF this inv] down show ?thesis by simp
next
  case (NSip v idle num_cpu)
  with step obtain t where ev: "sip_event_ok v idle num_cpu s" and t: "service_step v (nd_sip s) = Returns t"
    and s': "s' = s\<lparr>nd_sip := t\<rparr>" by (auto simp: bind_outcome_Returns split: if_splits)
  have "v \<noteq> VStop calls" "v \<noteq> VClient (CCheck HealthOK req)" for calls req
    using ev down by (auto simp: node_health_def Health_def)
  with service_step_only_begun [OF t] inv down show ?thesis by (simp add: s' node_inv_def)
qed

text \<open>Two more invariants: after the shutdown began, and after a signal to finish gracefully.\<close>

definition after_stop :: "client \<Rightarrow> 'c node \<Rightarrow> bool" where
  "after_stop a s \<longleftrightarrow> node_inv s \<and> nd_mon_down s \<and> only_begun a (ss_cli (nd_sip s))"

definition stops_gracefully :: "'c node \<Rightarrow> bool" where
  "stops_gracefully s \<longleftrightarrow> node_inv s \<and> \<not> rn_killed (nd_run s)
     \<and> nd_stop s \<in> {StopMonitor False, StopBreak False, StopStore False, StopOver}"

lemma after_stop_step:
  assumes "after_stop a s" and "node_event_ok e" and step: "node_step e s = Returns s'"
  shows "after_stop a s'"
  using assms node_step_inv [OF _ _ step] node_step_only_begun [OF _ step] only_begun_trans [of a "ss_cli (nd_sip s)"]
  by (simp add: after_stop_def)

lemma stops_gracefully_step:
  assumes "stops_gracefully s" and "node_event_ok e" and step: "node_step e s = Returns s'"
  shows "stops_gracefully s'"
proof -
  from assms have inv: "node_inv s" "\<not> rn_killed (nd_run s)"
    "nd_stop s \<in> {StopMonitor False, StopBreak False, StopStore False, StopOver}" by (simp_all add: stops_gracefully_def)
  have "\<not> rn_killed (nd_run s') \<and> nd_stop s' \<in> {StopMonitor False, StopBreak False, StopStore False, StopOver}"
  proof (cases e)
    case (NSignal kill)
    with step inv show ?thesis by (auto simp: handle_signal_def split: if_splits)
  next
    case NStop
    with step inv show ?thesis by auto
  next
    case (NBoot listen rpc register)
    with step inv run_boot_frame [of listen rpc register "nd_run s"] show ?thesis by (auto split: if_splits)
  next
    case (NRun ev)
    with step have "run_step ev s = Returns s'" by simp
    with run_step_frame [OF this inv(1)] inv show ?thesis by simp
  next
    case (NSip v idle num_cpu)
    with step inv show ?thesis by (auto simp: bind_outcome_Returns split: if_splits)
  qed
  with node_step_inv [OF inv(1) assms(2) step] show ?thesis by (simp add: stops_gracefully_def)
qed

interpretation node_after_stop: outcome_system node_step "after_stop a" node_event_ok for a
  by unfold_locales (rule after_stop_step)

interpretation node_stops_gracefully: outcome_system node_step stops_gracefully node_event_ok
  by unfold_locales (rule stops_gracefully_step)

text \<open>\<open>Run\<close> ends without an error only by stopping the SIP service; the other steps but its own leave it where it is.\<close>

lemma only_stop_ends:
  assumes "node_step e s = Returns s'" and "rn_pc (nd_run s) \<noteq> RnDone None" and "rn_pc (nd_run s') = RnDone None"
  obtains calls where "e = NRun (RStop calls)" and "rn_pc (nd_run s) = RnStopping"
    and "s' = (with_run run_stop s)\<lparr>nd_sip := service_Stop calls (nd_sip s)\<rparr>"
proof (cases e)
  case (NSignal kill)
  with assms show thesis by (auto simp: handle_signal_def split: if_splits)
next
  case NStop
  with assms show thesis by (cases "nd_stop s") auto
next
  case (NBoot listen rpc register)
  with assms(1) have "nd_run s' = run_boot listen rpc register (nd_run s)" by (auto split: if_splits)
  with run_boot_frame [of listen rpc register "nd_run s"] assms(3) NBoot show thesis by auto
next
  case (NRun ev)
  with assms(1) have "run_step ev s = Returns s'" by simp
  then show thesis
    by (cases rule: run_step_cases) (use assms NRun that in \<open>auto simp: run_select_def split: if_splits\<close>)
next
  case (NSip v i c)
  with assms show thesis by (auto simp: bind_outcome_Returns split: if_splits)
qed

lemma other_step_pc:
  assumes "node_step e s = Returns s'" and "node_inv s" and "\<And>ev. e \<noteq> NRun ev"
  shows "rn_pc (nd_run s') = RnServing \<or> (\<exists>err. rn_pc (nd_run s') = RnDone (Some err))
     \<or> rn_pc (nd_run s') = rn_pc (nd_run s) \<and> (rn_killed (nd_run s) \<longrightarrow> rn_killed (nd_run s'))"
proof (cases e)
  case (NSignal kill)
  with assms show ?thesis by (auto simp: handle_signal_def split: if_splits)
next
  case NStop
  with assms(1,2) show ?thesis by (cases "nd_stop s") (auto simp: node_inv_def)
next
  case (NBoot listen rpc register)
  with assms(1) have "nd_run s' = run_boot listen rpc register (nd_run s)" by (auto split: if_splits)
  with run_boot_frame [of listen rpc register "nd_run s"] show ?thesis by auto
next
  case (NRun ev)
  with assms(3) [of ev] show ?thesis by simp
next
  case (NSip v i c)
  with assms show ?thesis by (auto simp: bind_outcome_Returns split: if_splits)
qed

lemma only_begun_open:
  assumes "only_begun a s" and "\<forall>lid c. cl_calls a lid = Some c \<longrightarrow> oc_stopped c"
  shows "\<forall>lid c. cl_calls s lid = Some c \<and> \<not> oc_stopped c \<longrightarrow> lid \<in> begun a"
proof (intro allI impI)
  fix lid c assume c: "cl_calls s lid = Some c \<and> \<not> oc_stopped c"
  with assms have "cl_calls a lid = None" unfolding only_begun_def by (metis not_None_eq option.inject)
  with assms(1) c show "lid \<in> begun a" by (simp add: only_begun_def)
qed

text \<open>From a moment after the shutdown began to one where the SIP service is not stopped.\<close>

lemma closing_stays:
  assumes "runs node_step s es s'" and "node_inv s" and "\<forall>e\<in>set es. node_event_ok e" and "rn_pc (nd_run s) = RnDone None"
  shows "rn_pc (nd_run s') = RnDone None"
  using assms
proof (induction rule: runs.induct)
  case (runs_snoc s es s' e s'')
  then have pc: "rn_pc (nd_run s') = RnDone None" by simp
  show ?case
  proof (cases e)
    case (NRun ev)
    with runs_snoc.hyps(2) pc show ?thesis by (simp add: run_step_def)
  next
    case NStop
    with runs_snoc.hyps(2) pc show ?thesis by (cases "nd_stop s'") auto
  qed (use runs_snoc.hyps(2) pc in \<open>auto simp: handle_signal_def bind_outcome_Returns split: if_splits\<close>)
qed simp

lemma since_shutdown:
  assumes "runs node_step (new_node conf cache mon) es a" and "\<forall>e\<in>set es \<union> set fs. node_event_ok e" and "rn_shutdown (nd_run a)"
    and "runs node_step a fs s" and "rn_pc (nd_run s) \<noteq> RnDone None"
  shows "only_begun (ss_cli (nd_sip a)) (ss_cli (nd_sip s)) \<and> client_inv (ss_cli (nd_sip a)) \<and> \<not> cl_closing (ss_cli (nd_sip a))"
proof -
  from node_runs_inv [OF assms(1)] assms(2) have inv: "node_inv a" by blast
  with assms(3) have "after_stop (ss_cli (nd_sip a)) a" by (auto simp: after_stop_def node_inv_def)
  with assms(2,4) have "after_stop (ss_cli (nd_sip a)) s" by (blast intro: node_after_stop.runs_inv)
  moreover have "rn_pc (nd_run a) \<noteq> RnDone None" using closing_stays [OF assms(4) inv] assms(2,5) by blast
  ultimately show ?thesis using inv by (simp add: after_stop_def node_inv_def service_inv_def)
qed

section \<open>What Run saw\<close>

text \<open>
  In a run \<open>es\<close> from \<open>s0\<close> to \<open>s\<close>: at some moment after the shutdown began, the client's table had
  the entries \<open>outs\<close>; at some moment after it began, the client's table was empty, and at some later one the
  server's.
\<close>

definition counted :: "'c node \<Rightarrow> 'c node_event list \<Rightarrow> string list \<Rightarrow> 'c node \<Rightarrow> bool" where
  "counted s0 es outs s \<longleftrightarrow>
     (\<exists>es1 es2 a. es = es1 @ es2 \<and> runs node_step s0 es1 a \<and> runs node_step a es2 s
        \<and> rn_shutdown (nd_run a) \<and> lists_keys outs (cl_active (ss_cli (nd_sip a))))"

definition saw_none :: "'c node \<Rightarrow> 'c node_event list \<Rightarrow> 'c node \<Rightarrow> bool" where
  "saw_none s0 es s \<longleftrightarrow>
     (\<exists>es1 es2 es3 a b. es = es1 @ es2 @ es3 \<and> runs node_step s0 es1 a \<and> runs node_step a es2 b \<and> runs node_step b es3 s
        \<and> rn_shutdown (nd_run a) \<and> cl_active (ss_cli (nd_sip a)) = Map.empty \<and> sv_active (ss_srv (nd_sip b)) = Map.empty)"

lemma counted_here:
  assumes "runs node_step s0 es s" and "node_step e s = Returns s'" and "rn_shutdown (nd_run s)"
    and "lists_keys outs (cl_active (ss_cli (nd_sip s)))"
  shows "counted s0 (es @ [e]) outs s'"
  unfolding counted_def using assms runs_one [where step = node_step, OF assms(2)] by blast

lemma counted_snoc:
  assumes "counted s0 es outs s" and "node_step e s = Returns s'"
  shows "counted s0 (es @ [e]) outs s'"
proof -
  from assms(1) obtain es1 es2 a where h: "es = es1 @ es2" "runs node_step s0 es1 a" "runs node_step a es2 s"
    "rn_shutdown (nd_run a)" "lists_keys outs (cl_active (ss_cli (nd_sip a)))" unfolding counted_def by blast
  from runs_snoc [OF h(3) assms(2)] h show ?thesis
    unfolding counted_def by (intro exI [of _ es1] exI [of _ "es2 @ [e]"] exI [of _ a]) simp
qed

lemma saw_none_snoc:
  assumes "saw_none s0 es s" and "node_step e s = Returns s'"
  shows "saw_none s0 (es @ [e]) s'"
proof -
  from assms(1) obtain es1 es2 es3 a b where h: "es = es1 @ es2 @ es3" "runs node_step s0 es1 a" "runs node_step a es2 b"
    "runs node_step b es3 s" "rn_shutdown (nd_run a)" "cl_active (ss_cli (nd_sip a)) = Map.empty"
    "sv_active (ss_srv (nd_sip b)) = Map.empty" unfolding saw_none_def by blast
  from runs_snoc [OF h(4) assms(2)] h show ?thesis
    unfolding saw_none_def
    by (intro exI [of _ es1] exI [of _ es2] exI [of _ "es3 @ [e]"] exI [of _ a] exI [of _ b]) simp
qed

lemma lists_keys_empty: "lists_keys [] m \<longleftrightarrow> m = Map.empty"
  by (auto simp: lists_keys_def)

lemma drain_over_none: "drain_over (ActiveCalls outs ins) \<longleftrightarrow> outs = [] \<and> ins = []"
proof -
  have "drain_over (ActiveCalls outs ins) \<longleftrightarrow> int (length outs) + int (length ins) = 0"
    by (simp add: drain_over_def ac_total_def ActiveCalls_def sampleMap_def)
  also have "\<dots> \<longleftrightarrow> length outs + length ins = 0" by linarith
  finally show ?thesis by simp
qed

lemma saw_none_here:
  assumes "counted s0 es outs s" and "node_step e s = Returns s'"
    and "lists_keys ins (sv_active (ss_srv (nd_sip s)))" and "drain_over (ActiveCalls outs ins)"
  shows "saw_none s0 (es @ [e]) s'"
proof -
  from assms(1) obtain es1 es2 a where h: "es = es1 @ es2" "runs node_step s0 es1 a" "runs node_step a es2 s"
    "rn_shutdown (nd_run a)" "lists_keys outs (cl_active (ss_cli (nd_sip a)))" unfolding counted_def by blast
  from assms(3,4) h(5) have "cl_active (ss_cli (nd_sip a)) = Map.empty" "sv_active (ss_srv (nd_sip s)) = Map.empty"
    by (simp_all add: drain_over_none lists_keys_empty)
  with h runs_one [where step = node_step, OF assms(2)] show ?thesis
    unfolding saw_none_def by (intro exI [of _ es1] exI [of _ es2] exI [of _ "[e]"] exI [of _ a] exI [of _ s]) simp
qed

text \<open>What \<open>Run\<close> knows where it is.\<close>

definition run_knows :: "'c node \<Rightarrow> 'c node_event list \<Rightarrow> 'c node \<Rightarrow> bool" where
  "run_knows s0 es s \<longleftrightarrow>
     (case rn_pc (nd_run s) of
        RnCounted outs \<Rightarrow> counted s0 es outs s
      | RnStopping \<Rightarrow> rn_killed (nd_run s) \<or> saw_none s0 es s
      | _ \<Rightarrow> True)"

lemma run_knows_run:
  assumes run: "runs node_step s0 es s" and inv: "node_inv s" and knows: "run_knows s0 es s"
    and step: "node_step (NRun ev) s = Returns s'"
  shows "run_knows s0 (es @ [NRun ev]) s'"
proof -
  from step have "run_step ev s = Returns s'" by simp
  then show ?thesis
  proof (cases rule: run_step_cases)
    case (Count outs)
    have "rn_shutdown (nd_run s)" using inv Count(1) by (simp add: node_inv_def)
    from counted_here [OF run step this Count(3)] show ?thesis by (simp add: run_knows_def Count(4))
  next
    case (Look outs ins)
    have "counted s0 es outs s" using knows Look(1) by (simp add: run_knows_def)
    from saw_none_here [OF this step Look(3)] show ?thesis by (simp add: run_knows_def Look(4))
  qed (simp_all add: run_knows_def run_select_def)
qed

lemma run_knows_other:
  assumes "node_inv s" and knows: "run_knows s0 es s" and step: "node_step e s = Returns s'" and "\<And>ev. e \<noteq> NRun ev"
  shows "run_knows s0 (es @ [e]) s'"
  using other_step_pc [OF step assms(1,4)] knows counted_snoc [OF _ step] saw_none_snoc [OF _ step]
  by (auto simp: run_knows_def split: run_pc.splits)

lemma runs_run_knows:
  assumes "runs node_step s0 es s" and "s0 = new_node conf cache mon" and "\<forall>e\<in>set es. node_event_ok e"
  shows "run_knows s0 es s"
  using assms
proof (induction rule: runs.induct)
  case (runs_Nil s)
  then show ?case by (simp add: run_knows_def new_node_def new_runner_def)
next
  case (runs_snoc s es s' e s'')
  then have inv: "node_inv s'" and knows: "run_knows s es s'" using node_runs_inv [of conf cache mon es s'] by simp_all
  show ?case
  proof (cases "\<exists>ev. e = NRun ev")
    case True
    with run_knows_run [OF runs_snoc.hyps(1) inv knows] runs_snoc.hyps(2) show ?thesis by blast
  next
    case False
    with run_knows_other [OF inv knows runs_snoc.hyps(2)] show ?thesis by blast
  qed
qed

section \<open>Properties\<close>

text \<open>
  C13. Shutdown waits for the calls. However signals, the calls and the ticker interleave (as long
  as sending a 200 again does not fail, \<open>node_event_ok\<close>): when \<open>Run\<close> stops the SIP service, it was told
  to, and the node no longer offers to make calls, neither by its topic nor by its health. Unless it was
  told to kill the calls, there were after that two moments, one after the other: in the first every outbound call
  was over; in the second no inbound call was registered. Calls that came between these
  moments and the stop are not waited for; of outbound calls these are only such whose
  request had passed the checks before the first moment and was still joining its room. Every
  outbound call that is still open when the service is stopped is then told to close.
\<close>

theorem graceful_shutdown:
  assumes "runs node_step (new_node conf cache mon) es s" and "\<forall>e\<in>set es. node_event_ok e"
    and "node_step e s = Returns s'" and "rn_pc (nd_run s) \<noteq> RnDone None" and "rn_pc (nd_run s') = RnDone None"
  shows "rn_shutdown (nd_run s) \<and> nd_mon_down s \<and> \<not> rn_create_topic (nd_run s) \<and> node_health idle num_cpu s = HealthStopped
     \<and> (rn_killed (nd_run s) \<or>
        (\<exists>es1 es2 es3 a b. es = es1 @ es2 @ es3 \<and> runs node_step (new_node conf cache mon) es1 a
           \<and> runs node_step a es2 b \<and> runs node_step b es3 s \<and> rn_shutdown (nd_run a)
           \<and> (\<forall>lid c. cl_calls (ss_cli (nd_sip a)) lid = Some c \<longrightarrow> oc_stopped c)
           \<and> sv_active (ss_srv (nd_sip b)) = Map.empty
           \<and> (\<forall>lid c. cl_calls (ss_cli (nd_sip s)) lid = Some c \<and> \<not> oc_stopped c \<longrightarrow>
                lid \<in> (cr_sip_call_id \<circ> fst) ` set (cl_creating (ss_cli (nd_sip a))))))
     \<and> (\<forall>lid c. cl_calls (ss_cli (nd_sip s)) lid = Some c \<and> \<not> oc_stopped c \<longrightarrow>
          (\<exists>c'. cl_calls (ss_cli (nd_sip s')) lid = Some c' \<and> CByStop \<in> set (oc_closers c')))"
proof -
  from node_runs_inv [OF assms(1,2)] have inv: "node_inv s" .
  from assms(3-5) obtain calls where pc: "rn_pc (nd_run s) = RnStopping"
    and s': "s' = (with_run run_stop s)\<lparr>nd_sip := service_Stop calls (nd_sip s)\<rparr>" by (rule only_stop_ends)
  have cli: "client_inv (ss_cli (nd_sip s))" "\<not> cl_closing (ss_cli (nd_sip s))"
    using inv pc by (simp_all add: node_inv_def service_inv_def)
  have state: "rn_shutdown (nd_run s)" "\<not> rn_create_topic (nd_run s)" "nd_mon_down s" using inv pc by (auto simp: node_inv_def)
  have told: "\<exists>c'. cl_calls (ss_cli (nd_sip s')) lid = Some c' \<and> CByStop \<in> set (oc_closers c')"
    if "cl_calls (ss_cli (nd_sip s)) lid = Some c" "\<not> oc_stopped c" for lid c
    using cli that by (auto simp: s' service_Stop_def client_Stop_def client_inv_def)
  have saw: "\<exists>es1 es2 es3 a b. es = es1 @ es2 @ es3 \<and> runs node_step (new_node conf cache mon) es1 a
           \<and> runs node_step a es2 b \<and> runs node_step b es3 s \<and> rn_shutdown (nd_run a)
           \<and> (\<forall>lid c. cl_calls (ss_cli (nd_sip a)) lid = Some c \<longrightarrow> oc_stopped c)
           \<and> sv_active (ss_srv (nd_sip b)) = Map.empty
           \<and> (\<forall>lid c. cl_calls (ss_cli (nd_sip s)) lid = Some c \<and> \<not> oc_stopped c \<longrightarrow>
                lid \<in> (cr_sip_call_id \<circ> fst) ` set (cl_creating (ss_cli (nd_sip a))))" if alive: "\<not> rn_killed (nd_run s)"
  proof -
    from runs_run_knows [OF assms(1) refl assms(2)] pc alive have "saw_none (new_node conf cache mon) es s"
      by (simp add: run_knows_def)
    then obtain es1 es2 es3 a b where h: "es = es1 @ es2 @ es3" "runs node_step (new_node conf cache mon) es1 a"
      "runs node_step a es2 b" "runs node_step b es3 s" "rn_shutdown (nd_run a)" "cl_active (ss_cli (nd_sip a)) = Map.empty"
      "sv_active (ss_srv (nd_sip b)) = Map.empty" unfolding saw_none_def by blast
    from since_shutdown [OF h(2) _ h(5) runs_append [OF h(3,4)]] assms(2) h(1) pc
    have a: "only_begun (ss_cli (nd_sip a)) (ss_cli (nd_sip s))"
      "client_inv (ss_cli (nd_sip a))" "\<not> cl_closing (ss_cli (nd_sip a))" by auto
    then have over: "\<forall>lid c. cl_calls (ss_cli (nd_sip a)) lid = Some c \<longrightarrow> oc_stopped c"
      using h(6) by (simp add: client_inv_def)
    with a(1) have "\<forall>lid c. cl_calls (ss_cli (nd_sip s)) lid = Some c \<and> \<not> oc_stopped c \<longrightarrow>
        lid \<in> (cr_sip_call_id \<circ> fst) ` set (cl_creating (ss_cli (nd_sip a)))"
      unfolding begun_def [symmetric] by (rule only_begun_open)
    with h over show ?thesis by blast
  qed
  have "node_health idle num_cpu s = HealthStopped" using state(3) by (simp add: node_health_def Health_def)
  with state told saw show ?thesis by blast
qed

text \<open>
  C21. No request for an outbound call is taken up after the shutdown began: once the first action
  of \<open>Stop\<close> is done, whatever happens (as long as sending a 200 again does not fail, \<open>node_event_ok\<close>),
  the requests that passed the checks and have no call yet only get fewer, and the only outbound
  calls that come to be are of such requests.
\<close>

theorem no_new_call_after_stop:
  assumes "runs node_step (new_node conf cache mon) es s" and "\<forall>e\<in>set es. node_event_ok e" and "nd_mon_down s"
    and "runs node_step s es' s'" and "\<forall>e\<in>set es'. node_event_ok e"
    and "cli = ss_cli (nd_sip s)" and "cli' = ss_cli (nd_sip s')"
  shows "nd_mon_down s' \<and> set (cl_creating cli') \<subseteq> set (cl_creating cli)
     \<and> dom (cl_calls cli) \<subseteq> dom (cl_calls cli')
     \<and> dom (cl_calls cli') \<subseteq> dom (cl_calls cli) \<union> (cr_sip_call_id \<circ> fst) ` set (cl_creating cli)"
proof -
  from node_runs_inv [OF assms(1,2)] assms(3,6) have "after_stop cli s" by (simp add: after_stop_def)
  with assms(4,5) have "after_stop cli s'" by (blast intro: node_after_stop.runs_inv)
  then have "nd_mon_down s'" "only_begun cli cli'" by (simp_all add: after_stop_def assms(7))
  with only_begun_dom [OF this(2)] show ?thesis by (simp add: only_begun_def begun_def)
qed

text \<open>
  C23. Only the first signal counts. Once a signal to finish gracefully was taken, no later signal
  (in a run where sending a 200 again does not fail, \<open>node_event_ok\<close>) has any effect: whatever happens the process is never told to kill the calls, so that it
  goes on waiting for calls that do not end.
\<close>

theorem later_signal_ignored:
  assumes "runs node_step (new_node conf cache mon) es s" and "\<forall>e\<in>set es. node_event_ok e"
    and "nd_stop s = StopMonitor False" and "runs node_step s es' s'" and "\<forall>e\<in>set es'. node_event_ok e"
  shows "\<not> rn_killed (nd_run s') \<and> node_step (NSignal kill) s' = Returns s'"
proof -
  from node_runs_inv [OF assms(1,2)] assms(3) have "stops_gracefully s" by (auto simp: stops_gracefully_def node_inv_def)
  with assms(4,5) have "stops_gracefully s'" by (blast intro: node_stops_gracefully.runs_inv)
  then show ?thesis by (auto simp: stops_gracefully_def handle_signal_def)
qed

text \<open>A node that starts, takes a signal and stops at once, as there are no calls.\<close>

definition example_stopping :: "run_pc \<Rightarrow> stop_phase \<Rightarrow> bool \<Rightarrow> bool \<Rightarrow> monitor \<Rightarrow> nat node" where
  "example_stopping pc phase down shutdown mon =
     (new_node zero_config 0 mon)\<lparr>
        nd_run := (new_runner zero_config)\<lparr>rn_rpc := True, rn_create_topic := True, rn_shutdown := shutdown, rn_pc := pc,
                                           rn_log := [ActRpcUp, ActRegisterCreate '''']\<rparr>,
        nd_mon_down := down, nd_stop := phase\<rparr>"

lemmas example_stopping_defs = example_stopping_def new_node_def new_runner_def run_boot_def http_servers_def
  server_addr_def zero_config_def RegisterCreateSIPParticipantTopic_def act_run_def handle_signal_def

lemma example_boot:
  "node_step (NBoot (\<lambda>a. None) None None) (new_node zero_config (0::nat) mon) = Returns (example_stopping RnServing StopWaits False False mon)"
  by (simp add: example_stopping_defs)

definition example_stop_events :: "nat node_event list" where
  "example_stop_events = [NBoot (\<lambda>a. None) None None, NSignal False, NStop, NStop, NStop]"

lemma example_stop_runs:
  "runs node_step (new_node zero_config 0 mon) (take 2 example_stop_events) (example_stopping RnServing (StopMonitor False) False False mon)"
  "runs node_step (new_node zero_config 0 mon) (take 3 example_stop_events) (example_stopping RnServing (StopBreak False) True False mon)"
  "runs node_step (new_node zero_config 0 mon) example_stop_events (example_stopping RnServing StopOver True True mon)"
  by (simp_all add: example_stop_events_def del: node_step.simps)
    (rule runs_Cons [where step = node_step, OF example_boot],
      (rule runs_Cons, simp add: example_stopping_def handle_signal_def)+, simp add: example_stopping_def new_runner_def)+

lemma example_stop_ok: "\<forall>e\<in>set (take k example_stop_events). node_event_ok e" "\<forall>e\<in>set example_stop_events. node_event_ok e"
  using set_take_subset [of k example_stop_events] by (auto simp: example_stop_events_def)

definition example_drain_events :: "nat node_event list" where
  "example_drain_events = example_stop_events @ [NRun RSelect, NRun RTest, NRun (RCount []), NRun (RLook [])]"

lemma example_drain_runs:
  "\<exists>s. runs node_step (new_node zero_config 0 mon) example_drain_events s \<and> rn_pc (nd_run s) = RnStopping \<and> \<not> rn_killed (nd_run s)"
proof -
  define s0 where "s0 = example_stopping RnServing StopOver True True mon"
  note run = example_stop_runs(3) [of mon, folded s0_def]
  have s0: "rn_pc (nd_run s0) = RnServing" "rn_shutdown (nd_run s0)" "rn_rpc (nd_run s0)" "\<not> rn_killed (nd_run s0)"
    "lists_keys [] (cl_active (ss_cli (nd_sip s0)))" "lists_keys [] (sv_active (ss_srv (nd_sip s0)))"
    by (simp_all add: s0_def lists_keys_def example_stopping_def new_node_def new_runner_def new_service_def NewClient_def NewServer_def)
  define s1 where "s1 = with_run run_select s0"
  define s2 where "s2 = with_run run_test s1"
  define s3 where "s3 = with_run (run_count []) s2"
  define s4 where "s4 = with_run (run_look (ActiveCalls [] [])) s3"
  have pc: "rn_pc (nd_run s1) = RnTest" "\<not> rn_killed (nd_run s1)" "rn_pc (nd_run s2) = RnCount" "rn_pc (nd_run s3) = RnCounted []"
    using s0 by (simp_all add: s1_def s2_def s3_def run_select_frame)
  have "node_step (NRun RSelect) s0 = Returns s1" "node_step (NRun RTest) s1 = Returns s2"
    "node_step (NRun (RCount [])) s2 = Returns s3" "node_step (NRun (RLook [])) s3 = Returns s4"
    using s0 pc by (simp_all add: run_step_def s1_def s2_def s3_def s4_def)
  then have "runs node_step s0 [NRun RSelect, NRun RTest, NRun (RCount []), NRun (RLook [])] s4"
    by (blast intro: runs_Cons runs_one)
  with run have "runs node_step (new_node zero_config 0 mon) example_drain_events s4"
    unfolding example_drain_events_def by (rule runs_append)
  moreover have "rn_pc (nd_run s4) = RnStopping" "\<not> rn_killed (nd_run s4)"
    using pc(2) by (simp_all add: s4_def s3_def s2_def drain_over_none)
  ultimately show ?thesis by blast
qed

lemma graceful_shutdown_witness:
  "\<forall>mon. \<exists>s s'. runs node_step (new_node zero_config 0 mon) example_drain_events s
     \<and> node_step (NRun (RStop [])) s = Returns s' \<and> rn_pc (nd_run s') = RnDone None
     \<and> \<not> rn_create_topic (nd_run s) \<and> node_health 1 1 s = HealthStopped
     \<and> (\<exists>es1 es2 b. example_drain_events = es1 @ es2 \<and> runs node_step b es2 s \<and> sv_active (ss_srv (nd_sip b)) = Map.empty)"
proof
  fix mon
  obtain s where run: "runs node_step (new_node zero_config 0 mon) example_drain_events s"
    and pc: "rn_pc (nd_run s) = RnStopping" "\<not> rn_killed (nd_run s)" using example_drain_runs by blast
  have ok: "\<forall>e\<in>set example_drain_events. node_event_ok e" by (simp add: example_drain_events_def example_stop_events_def)
  define s' where "s' = (with_run run_stop s)\<lparr>nd_sip := service_Stop [] (nd_sip s)\<rparr>"
  have step: "node_step (NRun (RStop [])) s = Returns s'" using pc by (simp add: run_step_def s'_def)
  have fin: "rn_pc (nd_run s') = RnDone None" by (simp add: s'_def)
  have "rn_pc (nd_run s) \<noteq> RnDone None" using pc by simp
  from graceful_shutdown [OF run ok step this fin, of 1 1] pc(2)
  obtain es1 es2 es3 b where "example_drain_events = (es1 @ es2) @ es3" "runs node_step b es3 s" "sv_active (ss_srv (nd_sip b)) = Map.empty"
    and "\<not> rn_create_topic (nd_run s)" "node_health 1 1 s = HealthStopped" by auto
  with run step fin show "\<exists>s s'. runs node_step (new_node zero_config 0 mon) example_drain_events s
     \<and> node_step (NRun (RStop [])) s = Returns s' \<and> rn_pc (nd_run s') = RnDone None
     \<and> \<not> rn_create_topic (nd_run s) \<and> node_health 1 1 s = HealthStopped
     \<and> (\<exists>es1 es2 b. example_drain_events = es1 @ es2 \<and> runs node_step b es2 s \<and> sv_active (ss_srv (nd_sip b)) = Map.empty)"
    by blast
qed

lemma later_signal_ignored_witness:
  "\<forall>mon. \<exists>s s'. runs node_step (new_node zero_config 0 mon) (take 2 example_stop_events) s
     \<and> runs node_step s [NSignal True, NStop] s' \<and> \<not> rn_killed (nd_run s') \<and> node_step (NSignal True) s' = Returns s'"
proof
  fix mon
  note run = example_stop_runs(1) [of mon]
  have run': "runs node_step (example_stopping RnServing (StopMonitor False) False False mon) [NSignal True, NStop]
      (example_stopping RnServing (StopBreak False) True False mon)"
    by (rule runs_Cons, simp add: example_stopping_def handle_signal_def)+ (simp add: example_stopping_def)
  have "nd_stop (example_stopping RnServing (StopMonitor False) False False mon) = StopMonitor False"
    by (simp add: example_stopping_def)
  from later_signal_ignored [OF run example_stop_ok(1) this run'] run run'
  show "\<exists>s s'. runs node_step (new_node zero_config 0 mon) (take 2 example_stop_events) s
     \<and> runs node_step s [NSignal True, NStop] s' \<and> \<not> rn_killed (nd_run s') \<and> node_step (NSignal True) s' = Returns s'"
    by fastforce
qed

text \<open>
  A request passes the checks; the shutdown begins; then the call is made, and another request is turned
  away.
\<close>

definition example_late_events :: "nat node_event list" where
  "example_late_events =
     [NBoot (\<lambda>a. None) None None, NSip (VClient (CCheck HealthOK example_create)) 1 0, NSignal False, NStop]"

definition example_late :: "monitor \<Rightarrow> nat node" where
  "example_late mon =
     (example_stopping RnServing (StopBreak False) True False mon)
       \<lparr>nd_sip := (new_service 0 mon)\<lparr>ss_cli := (NewClient mon)\<lparr>cl_creating := [(example_create, EncryptionNone)]\<rparr>\<rparr>\<rparr>"

lemma example_late_runs: "runs node_step (new_node zero_config 0 mon) example_late_events (example_late mon)"
proof -
  define sip where "sip = (new_service (0::nat) mon)\<lparr>ss_cli := (NewClient mon)\<lparr>cl_creating := [(example_create, EncryptionNone)]\<rparr>\<rparr>"
  define s where "s = example_stopping RnServing StopWaits False False mon"
  have check: "node_step (NSip (VClient (CCheck HealthOK example_create)) 1 0) s = Returns (s\<lparr>nd_sip := sip\<rparr>)"
    using example_check
    by (simp add: s_def sip_def example_stopping_def new_node_def new_service_def NewClient_def node_health_def Health_def at_client_def)
  have "node_step (NSignal False) (s\<lparr>nd_sip := sip\<rparr>) = Returns (s\<lparr>nd_sip := sip, nd_stop := StopMonitor False\<rparr>)"
    "node_step NStop (s\<lparr>nd_sip := sip, nd_stop := StopMonitor False\<rparr>) = Returns (example_late mon)"
    by (simp_all add: s_def sip_def example_stopping_def handle_signal_def example_late_def new_node_def)
  with example_boot [of mon, folded s_def] check show ?thesis
    unfolding example_late_events_def by (blast intro: runs_Cons runs_one)
qed

lemma example_late_call:
  obtains s' where "node_step (NSip (VClient (CMake example_create_env 0)) 1 0) (example_late mon) = Returns s'"
    and "cl_calls (ss_cli (nd_sip s')) ''SCL_1'' \<noteq> None"
proof -
  obtain c r where made: "createSIPParticipant example_create_env example_create (NewClient mon) = Returns (c, CreateDials r)"
    by (rule example_create_dials)
  then have make: "make_call example_create_env EncryptionNone example_create (NewClient mon) = Returns (c, CreateDials r)"
    using example_check by (simp add: createSIPParticipant_def example_create_env_def)
  define s where "s = example_late mon"
  have id: "cr_sip_call_id example_create = ''SCL_1''" by (simp add: example_create_def)
  have cli: "ss_cli (nd_sip s) = (NewClient mon)\<lparr>cl_creating := [(example_create, EncryptionNone)]\<rparr>" "ss_mon (nd_sip s) = mon"
    by (simp_all add: s_def example_late_def new_service_def)
  have "(ss_cli (nd_sip s))\<lparr>cl_monitor := ss_mon (nd_sip s), cl_creating := []\<rparr> = NewClient mon"
    by (simp add: cli NewClient_def)
  then have "client_step (CMake example_create_env 0) ((ss_cli (nd_sip s))\<lparr>cl_monitor := ss_mon (nd_sip s)\<rparr>) = Returns c"
    using make by (simp add: cli id without_def) (simp add: NewClient_def)
  then have "service_step (VClient (CMake example_create_env 0)) (nd_sip s) = Returns ((nd_sip s)\<lparr>ss_cli := c, ss_mon := cl_monitor c\<rparr>)"
    by (simp add: at_client_def del: client_step.simps)
  moreover define s' where "s' = s\<lparr>nd_sip := (nd_sip s)\<lparr>ss_cli := c, ss_mon := cl_monitor c\<rparr>\<rparr>"
  ultimately have "node_step (NSip (VClient (CMake example_create_env 0)) 1 0) s = Returns s'"
    by (simp del: service_step.simps)
  moreover have "cl_calls c ''SCL_1'' \<noteq> None"
    using make client_new_inv [of mon] by (cases rule: make_call_cases) (simp_all add: NewClient_def id)
  moreover have "ss_cli (nd_sip s') = c" by (simp add: s'_def)
  ultimately show thesis unfolding s_def by (intro that [of s']) (simp_all only: not_False_eq_True)
qed

lemma no_new_call_after_stop_witness:
  "\<forall>mon. \<exists>s s'. runs node_step (new_node zero_config 0 mon) example_late_events s
     \<and> nd_mon_down s \<and> cl_calls (ss_cli (nd_sip s)) = Map.empty
     \<and> runs node_step s [NSip (VClient (CMake example_create_env 0)) 1 0,
                          NSip (VClient (CCheck HealthStopped (example_create\<lparr>cr_sip_call_id := ''SCL_2''\<rparr>))) 1 0] s'
     \<and> dom (cl_calls (ss_cli (nd_sip s'))) = {''SCL_1''}"
proof
  fix mon
  let ?later = "[NSip (VClient (CMake example_create_env 0)) 1 0,
      NSip (VClient (CCheck HealthStopped (example_create\<lparr>cr_sip_call_id := ''SCL_2''\<rparr>))) 1 0] :: nat node_event list"
  define s where "s = example_late mon"
  have run: "runs node_step (new_node zero_config 0 mon) example_late_events s"
    unfolding s_def by (rule example_late_runs)
  have s: "nd_mon_down s" "cl_calls (ss_cli (nd_sip s)) = Map.empty"
    "(cr_sip_call_id \<circ> fst) ` set (cl_creating (ss_cli (nd_sip s))) = {''SCL_1''}"
    by (simp_all add: s_def example_late_def example_stopping_def NewClient_def example_create_def)
  obtain t where t: "node_step (NSip (VClient (CMake example_create_env 0)) 1 0) s = Returns t"
    "cl_calls (ss_cli (nd_sip t)) ''SCL_1'' \<noteq> None" unfolding s_def by (rule example_late_call)
  from t(1) s(1) have "nd_mon_down t" by (auto simp: bind_outcome_Returns split: if_splits simp del: service_step.simps)
  then have health: "node_health 1 0 t = HealthStopped" by (simp add: node_health_def Health_def)
  define s' where "s' = t\<lparr>nd_sip := (nd_sip t)\<lparr>ss_cli := (ss_cli (nd_sip t))\<lparr>cl_monitor := ss_mon (nd_sip t)\<rparr>\<rparr>\<rparr>"
  have "node_step (NSip (VClient (CCheck HealthStopped (example_create\<lparr>cr_sip_call_id := ''SCL_2''\<rparr>))) 1 0) t = Returns s'"
    using health by (simp add: at_client_def check_create_def s'_def)
  with t(1) have later: "runs node_step s ?later s'" by (blast intro: runs_Cons runs_one)
  have ok: "\<forall>e\<in>set example_late_events. node_event_ok e" "\<forall>e\<in>set ?later. node_event_ok e"
    by (simp_all add: example_late_events_def)
  from no_new_call_after_stop [OF run ok(1) s(1) later ok(2) refl refl] s(2,3)
  have "dom (cl_calls (ss_cli (nd_sip s'))) \<subseteq> {''SCL_1''}" by simp
  moreover have "cl_calls (ss_cli (nd_sip s')) ''SCL_1'' \<noteq> None" using t(2) by (simp add: s'_def)
  ultimately have "dom (cl_calls (ss_cli (nd_sip s'))) = {''SCL_1''}" by blast
  with run s later show "\<exists>s s'. runs node_step (new_node zero_config 0 mon) example_late_events s
     \<and> nd_mon_down s \<and> cl_calls (ss_cli (nd_sip s)) = Map.empty \<and> runs node_step s ?later s'
     \<and> dom (cl_calls (ss_cli (nd_sip s'))) = {''SCL_1''}" by blast
qed

end
