(* ===== verification/Service_Start.thy ===== *)
theory Service_Start
  imports Call_Monitor Service_Config "HOL-Library.Word"
begin

text \<open>
  Starting and stopping the parts of the service that hold resources: the listeners of the SIP
  server (\<open>pkg/sip/server.go\<close>), the metrics (\<open>pkg/stats/monitor.go\<close>), the TLS settings
  (\<open>pkg/sip/service.go\<close>, \<open>pkg/sip/tls.go\<close>). What sockets, the registry of metrics and the TLS
  library answer are arguments.
\<close>

section \<open>The listeners of the server\<close>

datatype sip_proto = ProtoUDP | ProtoTCP | ProtoTLS

record sip_listener =
  sl_proto :: sip_proto
  sl_ip :: string
  sl_port :: "16 word"

record listeners =
  ls_open :: "sip_listener list"
  ls_served :: "sip_listener list"
  ls_closed :: "sip_listener list"
  ls_handles :: "string list"

definition no_listeners :: listeners where
  "no_listeners = \<lparr>ls_open = [], ls_served = [], ls_closed = [], ls_handles = []\<rparr>"

definition proto_name :: "sip_proto \<Rightarrow> string" where
  "proto_name p = (case p of ProtoUDP \<Rightarrow> ''UDP'' | ProtoTCP \<Rightarrow> ''TCP'' | ProtoTLS \<Rightarrow> ''TLS'')"

text \<open>\<open>startUDP\<close>, \<open>startTCP\<close> and \<open>startTLS\<close>, which serve the socket in a goroutine of their own.\<close>

definition start_listener ::
  "(sip_listener \<Rightarrow> go_error option) \<Rightarrow> int \<Rightarrow> sip_listener \<Rightarrow> listeners \<Rightarrow> listeners \<times> go_error option" where
  "start_listener listen conf_port l s =
     (case listen l of
        Some e \<Rightarrow>
          (s, Some (WrapErr (''cannot listen on the '' @ proto_name (sl_proto l) @ '' signaling port '' @ itoa conf_port) e))
      | None \<Rightarrow> (s\<lparr>ls_open := ls_open s @ [l], ls_served := ls_served s @ [l]\<rparr>, None))"

text \<open>What the goroutine that serves a socket does when serving ends, with an error or not.\<close>

definition serve_ends :: "sip_proto \<Rightarrow> go_error option \<Rightarrow> unit outcome" where
  "serve_ends p err =
     (case err of
        None \<Rightarrow> Returns ()
      | Some e \<Rightarrow> if p \<noteq> ProtoUDP \<and> err_is e ''ErrClosed'' then Returns () else Panics)"

definition handled_methods :: "string list" where
  "handled_methods = [''OPTIONS'', ''INVITE'', ''ACK'', ''BYE'', ''NOTIFY'', '''']"

fun start_all ::
  "(sip_listener \<Rightarrow> go_error option) \<Rightarrow> int \<Rightarrow> sip_listener list \<Rightarrow> listeners \<Rightarrow> listeners \<times> go_error option" where
  "start_all listen conf_port [] s = (s, None)"
| "start_all listen conf_port (l # ls) s =
     (case start_listener listen conf_port l s of
        (s, Some e) \<Rightarrow> (s, Some e)
      | (s, None) \<Rightarrow> start_all listen conf_port ls s)"

text \<open>What \<open>Start\<close> wants to listen on, at the parsed address.\<close>

definition wanted_listeners :: "config \<Rightarrow> bool \<Rightarrow> string \<Rightarrow> sip_listener list" where
  "wanted_listeners conf tls ip =
     [\<lparr>sl_proto = ProtoUDP, sl_ip = ip, sl_port = word_of_int (cf_sip_port_listen conf)\<rparr>,
      \<lparr>sl_proto = ProtoTCP, sl_ip = ip, sl_port = word_of_int (cf_sip_port_listen conf)\<rparr>]
     @ (case cf_tls conf of
          None \<Rightarrow> []
        | Some t \<Rightarrow> (if tls then [\<lparr>sl_proto = ProtoTLS, sl_ip = ip, sl_port = word_of_int (tls_listen_port t)\<rparr>] else []))"

text \<open>
  \<open>Server.Start\<close>: \<open>new_ua\<close> is the error of making a user agent, which is only done where none is
  given, \<open>new_srv\<close> that of making the SIP server, \<open>parse\<close> parses the address.
\<close>

definition server_Start ::
  "go_error option \<Rightarrow> go_error option \<Rightarrow> (string \<Rightarrow> go_error + string) \<Rightarrow> (sip_listener \<Rightarrow> go_error option)
   \<Rightarrow> config \<Rightarrow> bool \<Rightarrow> bool \<Rightarrow> listeners \<Rightarrow> listeners \<times> go_error option" where
  "server_Start new_ua new_srv parse listen conf agent tls s =
     (case if agent then None else new_ua of
        Some e \<Rightarrow> (s, Some e)
      | None \<Rightarrow>
          (case new_srv of
             Some e \<Rightarrow> (s, Some e)
           | None \<Rightarrow>
               (let s = s\<lparr>ls_handles := handled_methods\<rparr>;
                    listenIP = (if cf_listen_ip conf = '''' then ''0.0.0.0'' else cf_listen_ip conf)
                in case parse listenIP of
                     Inl e \<Rightarrow> (s, Some e)
                   | Inr ip \<Rightarrow> start_all listen (cf_sip_port_listen conf) (wanted_listeners conf tls ip) s)))"

text \<open>The part of \<open>Server.Stop\<close> after the calls were told to close.\<close>

definition close_listeners :: "listeners \<Rightarrow> listeners" where
  "close_listeners s = s\<lparr>ls_closed := ls_closed s @ ls_open s, ls_open := []\<rparr>"

lemma start_all_prefix:
  assumes "start_all listen p ls s = (s', e)"
  shows "\<exists>n. ls_open s' = ls_open s @ take n ls \<and> ls_served s' = ls_served s @ take n ls \<and> ls_closed s' = ls_closed s
     \<and> (e = None \<longleftrightarrow> (\<forall>l\<in>set ls. listen l = None)) \<and> (e = None \<longrightarrow> take n ls = ls)"
  using assms
proof (induction ls arbitrary: s)
  case Nil
  then show ?case by simp
next
  case (Cons l ls)
  show ?case
  proof (cases "listen l")
    case None
    with Cons.prems have "start_all listen p ls (s\<lparr>ls_open := ls_open s @ [l], ls_served := ls_served s @ [l]\<rparr>) = (s', e)"
      by (simp add: start_listener_def)
    from Cons.IH [OF this] None obtain n where
      "ls_open s' = ls_open s @ take (Suc n) (l # ls)" "ls_served s' = ls_served s @ take (Suc n) (l # ls)"
      "ls_closed s' = ls_closed s" "e = None \<longleftrightarrow> (\<forall>l\<in>set (l # ls). listen l = None)" "e = None \<longrightarrow> take (Suc n) (l # ls) = l # ls"
      by auto
    then show ?thesis by blast
  next
    case (Some x)
    with Cons.prems have "s' = s" "e \<noteq> None" by (auto simp: start_listener_def)
    with Some show ?thesis by (intro exI [of _ 0]) simp
  qed
qed

text \<open>
  Whatever fails while starting, stopping closes what was opened and nothing else, and a start
  without an error has all that is wanted open: UDP and TCP, and TLS where it is configured.
\<close>

lemma listeners_closed_on_stop:
  assumes "server_Start new_ua new_srv parse listen conf agent tls no_listeners = (s, e)"
  shows "ls_open (close_listeners s) = [] \<and> ls_closed (close_listeners s) = ls_served s
     \<and> (e = None \<longrightarrow> (\<exists>ip. ls_served s = wanted_listeners conf tls ip) \<and> ls_handles s = handled_methods)"
proof -
  have "ls_open s = ls_served s \<and> ls_closed s = [] \<and> (e = None \<longrightarrow> (\<exists>ip. ls_served s = wanted_listeners conf tls ip))"
    using assms by (auto simp: server_Start_def no_listeners_def Let_def dest!: start_all_prefix split: option.splits sum.splits if_splits)
  moreover have handles: "ls_handles s' = ls_handles t" if "start_all listen p ls t = (s', x)" for p ls t s' x
    using that by (induction ls arbitrary: t) (auto simp: start_listener_def split: option.splits)
  then have "e = None \<longrightarrow> ls_handles s = handled_methods"
    using assms by (auto simp: server_Start_def Let_def split: option.splits sum.splits if_splits)
  ultimately show ?thesis by (simp add: close_listeners_def)
qed

section \<open>TLS\<close>

text \<open>
  \<open>Service.Start\<close>: the certificates of the configuration are loaded in order; the key log, if any,
  is opened and closed when the service stops. The result is the certificates and the files to close.
\<close>

fun load_certs :: "(string \<Rightarrow> string \<Rightarrow> go_error + 'c) \<Rightarrow> (string \<times> string) list \<Rightarrow> go_error + 'c list" where
  "load_certs load_pair [] = Inr []"
| "load_certs load_pair ((cert, key) # cs) =
     (case load_pair cert key of
        Inl e \<Rightarrow> Inl e
      | Inr c \<Rightarrow> (case load_certs load_pair cs of Inl e \<Rightarrow> Inl e | Inr r \<Rightarrow> Inr (c # r)))"

definition tls_setup ::
  "(string \<Rightarrow> string \<Rightarrow> go_error + 'c) \<Rightarrow> (string \<Rightarrow> go_error option) \<Rightarrow> tls_config option
   \<Rightarrow> go_error + ('c list \<times> string list) option" where
  "tls_setup load_pair open_file tconf =
     (case tconf of
        None \<Rightarrow> Inr None
      | Some t \<Rightarrow>
          if tls_certs t = [] then Inl (PlainErr ''TLS certificate required'')
          else case load_certs load_pair (tls_certs t) of
                 Inl e \<Rightarrow> Inl e
               | Inr certs \<Rightarrow>
                   if tls_key_log t = '''' then Inr (Some (certs, []))
                   else (case open_file (tls_key_log t) of
                           Some e \<Rightarrow> Inl e
                         | None \<Rightarrow> Inr (Some (certs, [tls_key_log t]))))"

text \<open>
  The check that \<open>ConfigureTLS\<close> installs: the certificates of the peer are parsed in order and the
  first one is verified against the roots with the others as intermediates, without a name.
  The list is not empty in a TLS handshake; an empty one panics.
\<close>

fun parse_certs :: "('b \<Rightarrow> go_error + 'c) \<Rightarrow> 'b list \<Rightarrow> go_error + 'c list" where
  "parse_certs parse [] = Inr []"
| "parse_certs parse (b # bs) =
     (case parse b of
        Inl e \<Rightarrow> Inl (WrapErr ''failed to parse certificate from server'' e)
      | Inr c \<Rightarrow> (case parse_certs parse bs of Inl e \<Rightarrow> Inl e | Inr r \<Rightarrow> Inr (c # r)))"

definition verify_peer ::
  "('b \<Rightarrow> go_error + 'c) \<Rightarrow> ('c \<Rightarrow> 'c list \<Rightarrow> go_error option) \<Rightarrow> 'b list \<Rightarrow> go_error option outcome" where
  "verify_peer parse verify certificates =
     (case parse_certs parse certificates of
        Inl e \<Rightarrow> Returns (Some e)
      | Inr [] \<Rightarrow> Panics
      | Inr (c # cs) \<Rightarrow> Returns (verify c cs))"

text \<open>A peer is only accepted with a chain that verifies, in the order it sent it.\<close>

lemma verify_peer_accepts:
  assumes "verify_peer parse verify bs = Returns None"
  shows "\<exists>c cs. map parse bs = map Inr (c # cs) \<and> verify c cs = None"
proof -
  have parsed: "map parse bs = map Inr cs" if "parse_certs parse bs = Inr cs" for bs cs
    using that by (induction bs arbitrary: cs) (auto split: sum.splits)
  from assms obtain c cs where "parse_certs parse bs = Inr (c # cs)" "verify c cs = None"
    by (auto simp: verify_peer_def split: sum.splits list.splits)
  with parsed [OF this(1)] show ?thesis by blast
qed

lemma verify_peer_empty_panics: "verify_peer parse verify [] = Panics"
  by (simp add: verify_peer_def)

section \<open>Metrics\<close>

text \<open>A collector, by the options it is made with.\<close>

datatype metric_kind =
    GoCollector | MCounter | MCounterVec "string list" | MGauge | MGaugeVec "string list" | MGaugeFunc
  | MHistogramVec "string list" "real list"

record collector =
  mc_kind :: metric_kind
  mc_namespace :: string
  mc_subsystem :: string
  mc_name :: string
  mc_const :: "(string \<times> string) list"

definition durBucketsOp :: "real list" where
  "durBucketsOp = [1/10, 1/2, 1, 5/2, 5, 10, 20, 30, 60, 3 * 60]"

definition durBucketsLong :: "real list" where
  "durBucketsLong = [1, 10, 60, 10 * 60, 30 * 60, 3600, 6 * 3600, 12 * 3600, 24 * 3600]"

definition sizeBuckets :: "real list" where
  "sizeBuckets = [100, 250, 500, 750, 1000, 1250, 1500]"

definition sip_metric :: "string \<Rightarrow> metric_kind \<Rightarrow> string \<Rightarrow> collector" where
  "sip_metric node kind name =
     \<lparr>mc_kind = kind, mc_namespace = ''livekit'', mc_subsystem = ''sip'', mc_name = name, mc_const = [(''node_id'', node)]\<rparr>"

definition monitor_metrics :: "string \<Rightarrow> collector list" where
  "monitor_metrics node =
     [\<lparr>mc_kind = GoCollector, mc_namespace = '''', mc_subsystem = '''', mc_name = ''go'', mc_const = []\<rparr>,
      sip_metric node MCounter ''invite_requests_raw'',
      sip_metric node (MCounterVec [''dir'']) ''invite_requests'',
      sip_metric node (MCounterVec [''dir'', ''to'']) ''invite_accepted'',
      sip_metric node (MCounterVec [''dir'', ''to'', ''reason'']) ''invite_error'',
      sip_metric node (MGaugeVec [''dir'', ''to'']) ''calls_active'',
      sip_metric node (MCounterVec [''dir'', ''to'', ''reason'']) ''calls_terminated'',
      sip_metric node (MCounterVec [''dir'', ''to'', ''op'', ''payload'']) ''packets_rtp'',
      sip_metric node (MHistogramVec [''dir''] durBucketsLong) ''dur_session_sec'',
      sip_metric node (MHistogramVec [''dir''] durBucketsLong) ''dur_call_sec'',
      sip_metric node (MHistogramVec [''dir''] durBucketsOp) ''dur_check_sec'',
      sip_metric node (MHistogramVec [''dir''] durBucketsOp) ''dur_join_sec'',
      sip_metric node (MHistogramVec [''type''] sizeBuckets) ''sdp_size_bytes'',
      sip_metric node MGaugeFunc ''available'',
      \<lparr>mc_kind = MGauge, mc_namespace = ''livekit'', mc_subsystem = ''node'', mc_name = ''cpu_load'',
       mc_const = [(''node_id'', node), (''node_type'', ''SIP'')]\<rparr>]"

text \<open>
  \<open>NewMonitor\<close>: \<open>cpu\<close> is the error of starting to watch the CPU. Its callback sets the load once
  the metrics are there.
\<close>

definition NewMonitor :: "go_error option \<Rightarrow> config \<Rightarrow> go_error + monitor" where
  "NewMonitor cpu conf =
     (case cpu of
        Some e \<Rightarrow> Inl e
      | None \<Rightarrow>
          Inr \<lparr>mn_node_id = cf_node_id conf, mn_max_utilization = cf_max_cpu conf, mn_started = False, mn_shutdown = False,
               mn_invite_req_raw = 0, mn_invite_req = (\<lambda>_. 0), mn_invite_accept = (\<lambda>_. 0), mn_invite_err = (\<lambda>_. 0),
               mn_calls_active = (\<lambda>_. 0), mn_calls_terminated = (\<lambda>_. 0), mn_packets_rtp = (\<lambda>_. 0)\<rparr>)"

definition cpu_load :: "monitor \<Rightarrow> real \<Rightarrow> real \<Rightarrow> real option" where
  "cpu_load m idle num_cpu = (if mn_started m then Some (1 - idle / num_cpu) else None)"

text \<open>
  The registry of the metrics library is a state with an operation to register, which may find
  the collector registered already or fail otherwise, and one to unregister.
\<close>

datatype register_answer = Registered | AlreadyRegistered | RegisterFails

definition mustRegister ::
  "(collector \<Rightarrow> 'r \<Rightarrow> register_answer \<times> 'r) \<Rightarrow> collector \<Rightarrow> 'r \<times> collector list \<Rightarrow> ('r \<times> collector list) outcome" where
  "mustRegister register c rm = (case rm of (r, metrics) \<Rightarrow>
     case register c r of
       (Registered, r) \<Rightarrow> Returns (r, metrics @ [c])
     | (AlreadyRegistered, r) \<Rightarrow> Returns (r, metrics)
     | (RegisterFails, r) \<Rightarrow> Panics)"

fun register_all ::
  "(collector \<Rightarrow> 'r \<Rightarrow> register_answer \<times> 'r) \<Rightarrow> collector list \<Rightarrow> 'r \<times> collector list \<Rightarrow> ('r \<times> collector list) outcome" where
  "register_all register [] rm = Returns rm"
| "register_all register (c # cs) rm = bind_outcome (mustRegister register c rm) (register_all register cs)"

definition monitor_Start ::
  "(collector \<Rightarrow> 'r \<Rightarrow> register_answer \<times> 'r) \<Rightarrow> (collector \<Rightarrow> 'r \<Rightarrow> 'r) \<Rightarrow> config \<Rightarrow> ('r \<times> collector list) \<times> monitor
   \<Rightarrow> (('r \<times> collector list) \<times> monitor) outcome" where
  "monitor_Start register unregister conf rmm = (case rmm of ((r, metrics), m) \<Rightarrow>
     let cs = monitor_metrics (cf_node_id conf)
     in bind_outcome (register_all register cs (unregister (hd cs) r, metrics)) (\<lambda>rm. Returns (rm, m\<lparr>mn_started := True\<rparr>)))"

definition monitor_Stop :: "(collector \<Rightarrow> 'r \<Rightarrow> 'r) \<Rightarrow> 'r \<times> collector list \<Rightarrow> 'r \<times> collector list" where
  "monitor_Stop unregister rm = (case rm of (r, metrics) \<Rightarrow> (fold unregister metrics r, []))"

text \<open>
  With a registry that is a set of collectors: starting registers all metrics of the node, and
  stopping takes out exactly those that starting put in.
\<close>

definition set_register :: "collector \<Rightarrow> collector list \<Rightarrow> register_answer \<times> collector list" where
  "set_register c r = (if c \<in> set r then (AlreadyRegistered, r) else (Registered, r @ [c]))"

lemma register_all_set:
  "register_all set_register cs (r, ms) = Returns (r', ms') \<Longrightarrow>
     set r' = set r \<union> set cs \<and> (\<exists>new. ms' = ms @ new \<and> set new = set cs - set r)"
proof (induction cs arbitrary: r ms)
  case Nil
  then show ?case by simp
next
  case (Cons c cs)
  show ?case
  proof (cases "c \<in> set r")
    case True
    then have "mustRegister set_register c (r, ms) = Returns (r, ms)" by (simp add: mustRegister_def set_register_def)
    with Cons.prems have "register_all set_register cs (r, ms) = Returns (r', ms')" by simp
    from Cons.IH [OF this] True show ?thesis by auto
  next
    case False
    then have "mustRegister set_register c (r, ms) = Returns (r @ [c], ms @ [c])" by (simp add: mustRegister_def set_register_def)
    with Cons.prems have "register_all set_register cs (r @ [c], ms @ [c]) = Returns (r', ms')" by simp
    from Cons.IH [OF this] obtain new where n: "set r' = set r \<union> set (c # cs)" "ms' = ms @ [c] @ new" "set new = set cs - set (r @ [c])"
      by auto
    with False have "set ([c] @ new) = set (c # cs) - set r" by auto
    with n(1,2) show ?thesis by blast
  qed
qed

lemma fold_removeAll: "set (fold removeAll ms r) = set r - set ms"
  by (induction ms arbitrary: r) auto

lemma monitor_start_stop:
  assumes "monitor_Start set_register removeAll conf ((r, []), m) = Returns ((r', metrics), m')"
  shows "set (monitor_metrics (cf_node_id conf)) \<subseteq> set r' \<and> mn_started m'
     \<and> set (fst (monitor_Stop removeAll (r', metrics))) = set r - {hd (monitor_metrics (cf_node_id conf))}"
proof -
  define cs where "cs = monitor_metrics (cf_node_id conf)"
  have hd: "hd cs \<in> set cs" by (simp add: cs_def monitor_metrics_def)
  from assms have run: "register_all set_register cs (removeAll (hd cs) r, []) = Returns (r', metrics)"
    and m': "m' = m\<lparr>mn_started := True\<rparr>"
    by (auto simp: monitor_Start_def cs_def Let_def bind_outcome_Returns)
  from register_all_set [OF run] have "set r' = set (removeAll (hd cs) r) \<union> set cs"
    "set metrics = set cs - set (removeAll (hd cs) r)" by auto
  with hd m' show ?thesis by (auto simp: monitor_Stop_def fold_removeAll cs_def [symmetric])
qed

section \<open>The start of the service\<close>

text \<open>
  What the libraries answer while the service starts, and what it holds: the registry of the
  metrics, the codecs that were set, the listeners, the files to close and those that were closed.
\<close>

record ('c, 'r) start_answers =
  sa_register :: "collector \<Rightarrow> 'r \<Rightarrow> register_answer \<times> 'r"
  sa_unregister :: "collector \<Rightarrow> 'r \<Rightarrow> 'r"
  sa_load_pair :: "string \<Rightarrow> string \<Rightarrow> go_error + 'c"
  sa_open_file :: "string \<Rightarrow> go_error option"
  sa_new_ua :: "go_error option"
  sa_new_client :: "string \<Rightarrow> go_error option"
  sa_new_srv :: "go_error option"
  sa_parse :: "string \<Rightarrow> go_error + string"
  sa_listen :: "sip_listener \<Rightarrow> go_error option"

record 'r held =
  hl_registry :: "'r \<times> collector list"
  hl_monitor :: monitor
  hl_codecs :: "(string \<times> bool) list"
  hl_listeners :: listeners
  hl_closers :: "string list"
  hl_files_closed :: "string list"

text \<open>\<open>Client.Start\<close> makes the SIP client with the public address, and a user agent where it got none.\<close>

definition client_Start :: "('c, 'r) start_answers \<Rightarrow> bool \<Rightarrow> string \<Rightarrow> go_error option" where
  "client_Start a agent signalingIP =
     (case if agent then None else sa_new_ua a of
        Some e \<Rightarrow> Some e
      | None \<Rightarrow> sa_new_client a signalingIP)"

text \<open>The last part of \<open>Service.Start\<close>: the user agent is made once and shared by the client and the server.\<close>

definition start_sip ::
  "('c, 'r) start_answers \<Rightarrow> config \<Rightarrow> string \<Rightarrow> bool \<Rightarrow> listeners \<Rightarrow> listeners \<times> go_error option" where
  "start_sip a conf signalingIP tls ls =
     (case sa_new_ua a of
        Some e \<Rightarrow> (ls, Some e)
      | None \<Rightarrow>
          (case client_Start a True signalingIP of
             Some e \<Rightarrow> (ls, Some e)
           | None \<Rightarrow> server_Start (sa_new_ua a) (sa_new_srv a) (sa_parse a) (sa_listen a) conf True tls ls))"

definition service_Start ::
  "('c, 'r) start_answers \<Rightarrow> config \<Rightarrow> string \<Rightarrow> 'r held \<Rightarrow> ('r held \<times> go_error option) outcome" where
  "service_Start a conf signalingIP s =
     (let s = s\<lparr>hl_codecs := cf_codecs conf\<rparr>
      in bind_outcome (monitor_Start (sa_register a) (sa_unregister a) conf (hl_registry s, hl_monitor s)) (\<lambda>(rm, m).
         let s = s\<lparr>hl_registry := rm, hl_monitor := m\<rparr>
         in case tls_setup (sa_load_pair a) (sa_open_file a) (cf_tls conf) of
              Inl e \<Rightarrow> Returns (s, Some e)
            | Inr tls \<Rightarrow>
                (let s = s\<lparr>hl_closers := hl_closers s @ (case tls of None \<Rightarrow> [] | Some (certs, files) \<Rightarrow> files)\<rparr>
                 in case start_sip a conf signalingIP (tls \<noteq> None) (hl_listeners s) of
                      (ls, err) \<Rightarrow> Returns (s\<lparr>hl_listeners := ls\<rparr>, err))))"

text \<open>\<open>Service.Stop\<close>, but for the calls: the listeners, the metrics, then the files.\<close>

definition stop_resources :: "('c, 'r) start_answers \<Rightarrow> 'r held \<Rightarrow> 'r held" where
  "stop_resources a s =
     (let s = s\<lparr>hl_listeners := close_listeners (hl_listeners s)\<rparr>;
          s = s\<lparr>hl_registry := monitor_Stop (sa_unregister a) (hl_registry s)\<rparr>
      in s\<lparr>hl_files_closed := hl_files_closed s @ hl_closers s\<rparr>)"

text \<open>
  However far starting got, stopping gives back what was taken: no listener is open, those that
  were served are closed, the key log is closed if it was opened, and no metric of the node is left
  in the registry but those that others had put there.
\<close>

lemma service_start_stop:
  assumes "service_Start a conf ip \<lparr>hl_registry = (r, []), hl_monitor = m, hl_codecs = [], hl_listeners = no_listeners,
             hl_closers = [], hl_files_closed = []\<rparr> = Returns (s, err)"
    and "sa_register a = set_register" and "sa_unregister a = removeAll"
  shows "let t = stop_resources a s in
       ls_open (hl_listeners t) = [] \<and> ls_closed (hl_listeners t) = ls_served (hl_listeners s)
     \<and> hl_files_closed t = hl_closers s
     \<and> set (fst (hl_registry t)) = set r - {hd (monitor_metrics (cf_node_id conf))}
     \<and> mn_started (hl_monitor t)
     \<and> (err = None \<longrightarrow> (\<exists>addr. ls_served (hl_listeners s) = wanted_listeners conf (cf_tls conf \<noteq> None) addr))"
proof -
  from assms obtain reg' ms m' where mon: "monitor_Start set_register removeAll conf ((r, []), m) = Returns ((reg', ms), m')"
    by (auto simp: service_Start_def bind_outcome_Returns)
  have tls: "t \<noteq> None \<longleftrightarrow> tc \<noteq> None" if "tls_setup lp opn tc = Inr t" for lp opn tc and t :: "('a list \<times> string list) option"
    using that by (auto simp: tls_setup_def split: option.splits sum.splits if_splits)
  have "hl_registry s = (reg', ms) \<and> hl_monitor s = m' \<and> hl_files_closed s = []
    \<and> (hl_listeners s = no_listeners \<and> err \<noteq> None \<or>
       start_sip a conf ip (cf_tls conf \<noteq> None) no_listeners = (hl_listeners s, err))"
  proof (cases "tls_setup (sa_load_pair a) (sa_open_file a) (cf_tls conf)")
    case (Inl e)
    with assms mon show ?thesis by (auto simp: service_Start_def)
  next
    case (Inr t)
    with assms mon tls [OF Inr] show ?thesis by (auto simp: service_Start_def split: prod.splits)
  qed
  then have reg: "hl_registry s = (reg', ms)" "hl_monitor s = m'" "hl_files_closed s = []"
    and "hl_listeners s = no_listeners \<and> err \<noteq> None \<or>
       (\<exists>ag. server_Start (sa_new_ua a) (sa_new_srv a) (sa_parse a) (sa_listen a) conf ag (cf_tls conf \<noteq> None) no_listeners
         = (hl_listeners s, err))"
    by (auto simp: start_sip_def split: option.splits)
  then consider "hl_listeners s = no_listeners" "err \<noteq> None" | ag where
    "server_Start (sa_new_ua a) (sa_new_srv a) (sa_parse a) (sa_listen a) conf ag (cf_tls conf \<noteq> None) no_listeners
      = (hl_listeners s, err)" by blast
  then have "ls_open (close_listeners (hl_listeners s)) = [] \<and> ls_closed (close_listeners (hl_listeners s)) = ls_served (hl_listeners s)
     \<and> (err = None \<longrightarrow> (\<exists>addr. ls_served (hl_listeners s) = wanted_listeners conf (cf_tls conf \<noteq> None) addr))"
  proof cases
    case 1
    then show ?thesis by (auto simp add: close_listeners_def no_listeners_def)
  next
    case 2
    from listeners_closed_on_stop [OF this] show ?thesis by blast
  qed
  with monitor_start_stop [OF mon] reg assms(3) show ?thesis
    by (auto simp: stop_resources_def Let_def)
qed

end
