(* ===== verification/Rtp_Conn.thy ===== *)
theory Rtp_Conn
  imports Service_Config "HOL-Library.Word"
begin

text \<open>
  The RTP connection of \<open>pkg/media/rtpconn/conn.go\<close>: reading and writing packets on a UDP socket
  and the timeout on silence. The counter of packets is 64 bits wide; the limit of a packet and
  the (un)marshalling are of the RTP library and are arguments.
\<close>

section \<open>State\<close>

record rtp_packet =
  rp_type :: int
  rp_payload :: "8 word list"

record conn_config =
  nc_initial :: duration
  nc_timeout :: duration
  nc_callback :: bool

record conn =
  cn_bound :: bool
  cn_closed :: bool
  cn_packets :: "64 word"
  cn_received :: bool
  cn_start :: "int option"
  cn_initial :: duration
  cn_timeout :: duration
  cn_dest :: "string option"
  cn_handler :: bool
  cn_handled :: "rtp_packet list"
  cn_written :: "(8 word list \<times> string) list"

definition EnableConnTimeout :: "int \<Rightarrow> bool \<Rightarrow> conn \<Rightarrow> conn" where
  "EnableConnTimeout now enabled c = c\<lparr>cn_start := (if enabled then Some now else None)\<rparr>"

definition NewConnWith :: "int \<Rightarrow> bool \<Rightarrow> conn_config option \<Rightarrow> conn" where
  "NewConnWith now bound conf =
     (let conf = (case conf of None \<Rightarrow> \<lparr>nc_initial = 0, nc_timeout = 0, nc_callback = False\<rparr> | Some c \<Rightarrow> c);
          initial = (if nc_initial conf \<le> 0 then 30 * Second else nc_initial conf);
          timeout = (if nc_timeout conf \<le> 0 then 15 * Second else nc_timeout conf);
          c = \<lparr>cn_bound = bound, cn_closed = False, cn_packets = 0, cn_received = False, cn_start = None,
               cn_initial = initial, cn_timeout = timeout, cn_dest = None, cn_handler = False, cn_handled = [],
               cn_written = []\<rparr>
      in if nc_callback conf then EnableConnTimeout now True c else c)"

definition NewConn :: "int \<Rightarrow> conn_config option \<Rightarrow> conn" where
  "NewConn now conf = NewConnWith now False conf"

definition SetDestAddr :: "string option \<Rightarrow> conn \<Rightarrow> conn" where
  "SetDestAddr addr c = c\<lparr>cn_dest := addr\<rparr>"

definition OnRTP :: "bool \<Rightarrow> conn \<Rightarrow> conn" where
  "OnRTP h c = c\<lparr>cn_handler := h\<rparr>"

text \<open>Closing a connection that was never bound dereferences its nil socket.\<close>

definition CloseConn :: "conn \<Rightarrow> conn outcome" where
  "CloseConn c =
     (let c = OnRTP False c
      in if cn_closed c then Returns c
         else if cn_bound c then Returns (c\<lparr>cn_closed := True\<rparr>) else Panics)"

text \<open>\<open>parse\<close> is the error of \<open>netip.ParseAddr\<close>, \<open>listen\<close> the outcome of finding a free port.\<close>

definition ListenConn ::
  "(string \<Rightarrow> go_error option) \<Rightarrow> (int \<Rightarrow> int \<Rightarrow> string \<Rightarrow> go_error option) \<Rightarrow> int \<Rightarrow> int \<Rightarrow> string \<Rightarrow> conn
   \<Rightarrow> conn \<times> go_error option" where
  "ListenConn parse listen portMin portMax listenAddr c =
     (if cn_bound c then (c, None)
      else let addr = (if listenAddr = '''' then ''0.0.0.0'' else listenAddr)
           in case parse addr of
                Some e \<Rightarrow> (c, Some e)
              | None \<Rightarrow>
                  (case listen portMin portMax addr of
                     Some e \<Rightarrow> (c, Some e)
                   | None \<Rightarrow> (c\<lparr>cn_bound := True\<rparr>, None)))"

section \<open>Reading and writing\<close>

text \<open>
  One turn of \<open>readLoop\<close> for a datagram: its sender and bytes. The buffer holds one byte more
  than the limit, to see that a packet is too large. What is left out is the log entry.
\<close>

definition read_datagram ::
  "nat \<Rightarrow> (8 word list \<Rightarrow> rtp_packet option) \<Rightarrow> string \<times> 8 word list \<Rightarrow> conn \<Rightarrow> conn outcome" where
  "read_datagram mtu unmarshal d c = (case d of (src, bytes) \<Rightarrow>
     let buf = take (mtu + 1) bytes;
         c = c\<lparr>cn_dest := Some src\<rparr>
     in if mtu < length buf then Returns c
        else case unmarshal buf of
               None \<Rightarrow> Returns c
             | Some p \<Rightarrow>
                 (let c = c\<lparr>cn_packets := cn_packets c + 1\<rparr>
                  in if cn_packets c = 1 \<and> cn_received c then Panics
                     else let c = (if cn_packets c = 1 then c\<lparr>cn_received := True\<rparr> else c)
                          in Returns (if cn_handler c then c\<lparr>cn_handled := cn_handled c @ [p]\<rparr> else c)))"

text \<open>\<open>None\<close> is a failed read, which ends the loop.\<close>

fun readLoop ::
  "nat \<Rightarrow> (8 word list \<Rightarrow> rtp_packet option) \<Rightarrow> (string \<times> 8 word list) option list \<Rightarrow> conn \<Rightarrow> conn outcome" where
  "readLoop mtu unmarshal [] c = Returns c"
| "readLoop mtu unmarshal (None # rs) c = Returns c"
| "readLoop mtu unmarshal (Some d # rs) c =
     bind_outcome (read_datagram mtu unmarshal d c) (readLoop mtu unmarshal rs)"

definition conn_WriteRTP ::
  "(rtp_packet \<Rightarrow> go_error + 8 word list) \<Rightarrow> (8 word list \<Rightarrow> string \<Rightarrow> go_error + int) \<Rightarrow> rtp_packet \<Rightarrow> conn
   \<Rightarrow> conn \<times> (go_error + int)" where
  "conn_WriteRTP marshal send p c =
     (case cn_dest c of
        None \<Rightarrow> (c, Inr 0)
      | Some addr \<Rightarrow>
          (case marshal p of
             Inl e \<Rightarrow> (c, Inl e)
           | Inr bytes \<Rightarrow> (c\<lparr>cn_written := cn_written c @ [(bytes, addr)]\<rparr>, send bytes addr)))"

definition conn_ReadRTP ::
  "nat \<Rightarrow> (8 word list \<Rightarrow> rtp_packet option) \<Rightarrow> go_error \<Rightarrow> go_error + (string \<times> 8 word list)
   \<Rightarrow> (go_error + rtp_packet) \<times> string option" where
  "conn_ReadRTP mtu unmarshal parse_err read =
     (case read of
        Inl e \<Rightarrow> (Inl e, None)
      | Inr (addr, bytes) \<Rightarrow>
          (case unmarshal (take (mtu + 1) bytes) of
             None \<Rightarrow> (Inl parse_err, Some addr)
           | Some p \<Rightarrow> (Inr p, Some addr)))"

section \<open>The timeout\<close>

datatype conn_watch = Watching "64 word" | WatchOver | WatchFired

text \<open>A tick of the loop of \<open>onTimeout\<close>; \<open>cur\<close> and \<open>start\<close> are what it reads of the connection.\<close>

definition watch_tick :: "int \<Rightarrow> conn \<Rightarrow> conn_watch \<Rightarrow> conn_watch" where
  "watch_tick now c w =
     (case w of
        Watching seen \<Rightarrow>
          if cn_closed c then WatchOver
          else if cn_packets c \<noteq> seen then Watching (cn_packets c)
          else (case cn_start c of
                  None \<Rightarrow> Watching seen
                | Some start \<Rightarrow>
                    if seen = 0 \<and> now - start < cn_initial c then Watching seen else WatchFired)
      | _ \<Rightarrow> w)"

section \<open>What the read loop does\<close>

text \<open>The packets of a series of reads, up to the first failed one.\<close>

fun until_failed :: "(string \<times> 8 word list) option list \<Rightarrow> (string \<times> 8 word list) list" where
  "until_failed [] = []"
| "until_failed (None # rs) = []"
| "until_failed (Some d # rs) = d # until_failed rs"

definition good_packet :: "nat \<Rightarrow> (8 word list \<Rightarrow> rtp_packet option) \<Rightarrow> string \<times> 8 word list \<Rightarrow> rtp_packet option" where
  "good_packet mtu unmarshal d = (if length (snd d) \<le> mtu then unmarshal (snd d) else None)"

definition packets_of :: "nat \<Rightarrow> (8 word list \<Rightarrow> rtp_packet option) \<Rightarrow> (string \<times> 8 word list) list \<Rightarrow> rtp_packet list" where
  "packets_of mtu unmarshal ds = List.map_filter (good_packet mtu unmarshal) ds"

lemma packets_of_simps [simp]:
  "packets_of mtu unmarshal [] = []"
  "packets_of mtu unmarshal (d # ds) =
     (case good_packet mtu unmarshal d of None \<Rightarrow> [] | Some p \<Rightarrow> [p]) @ packets_of mtu unmarshal ds"
  by (simp_all add: packets_of_def List.map_filter_def split: option.splits)

lemma read_datagram_good:
  "read_datagram mtu unmarshal d c =
     (case good_packet mtu unmarshal d of
        None \<Rightarrow> Returns (c\<lparr>cn_dest := Some (fst d)\<rparr>)
      | Some p \<Rightarrow>
          if cn_packets c + 1 = 1 \<and> cn_received c then Panics
          else Returns (c\<lparr>cn_dest := Some (fst d), cn_packets := cn_packets c + 1,
                         cn_received := (cn_received c \<or> cn_packets c + 1 = 1),
                         cn_handled := (if cn_handler c then cn_handled c @ [p] else cn_handled c)\<rparr>))"
proof (cases "length (snd d) \<le> mtu")
  case True
  obtain src bytes where d: "d = (src, bytes)" by (cases d)
  from True d have "take (mtu + 1) bytes = bytes" "\<not> mtu < length bytes" by simp_all
  then show ?thesis by (cases c) (simp add: read_datagram_def good_packet_def Let_def d split: option.splits)
next
  case False
  obtain src bytes where d: "d = (src, bytes)" by (cases d)
  from False d have "mtu < length (take (mtu + 1) bytes)" by simp
  with False show ?thesis by (simp add: read_datagram_def good_packet_def Let_def d)
qed

definition read_effect :: "nat \<Rightarrow> (8 word list \<Rightarrow> rtp_packet option) \<Rightarrow> (string \<times> 8 word list) list \<Rightarrow> nat \<Rightarrow> conn \<Rightarrow> conn" where
  "read_effect mtu unmarshal ds k c =
     (let ps = packets_of mtu unmarshal ds
      in c\<lparr>cn_dest := (if ds = [] then cn_dest c else Some (fst (last ds))), cn_packets := of_nat (k + length ps),
           cn_received := (0 < k + length ps), cn_handled := cn_handled c @ (if cn_handler c then ps else [])\<rparr>)"

lemma readLoop_effect:
  assumes "cn_packets c = of_nat k" and "cn_received c = (0 < k)"
    and "k + length (packets_of mtu unmarshal (until_failed rs)) < 2 ^ 64"
  shows "readLoop mtu unmarshal rs c = Returns (read_effect mtu unmarshal (until_failed rs) k c)"
  using assms
proof (induction mtu unmarshal rs c arbitrary: k rule: readLoop.induct)
  case (1 mtu unmarshal c)
  then show ?case by (cases c) (simp add: read_effect_def)
next
  case (2 mtu unmarshal rs c)
  then show ?case by (cases c) (simp add: read_effect_def)
next
  case (3 mtu unmarshal d rs c)
  show ?case
  proof (cases "good_packet mtu unmarshal d")
    case None
    define c' where "c' = c\<lparr>cn_dest := Some (fst d)\<rparr>"
    from None have step: "read_datagram mtu unmarshal d c = Returns c'" by (simp add: read_datagram_good c'_def)
    have "cn_packets c' = of_nat k" "cn_received c' = (0 < k)" using 3(2,3) by (simp_all add: c'_def)
    from 3(1) [OF this] 3(4) None have "readLoop mtu unmarshal rs c' = Returns (read_effect mtu unmarshal (until_failed rs) k c')" by simp
    with step None show ?thesis by (simp add: read_effect_def c'_def)
  next
    case (Some p)
    define c' where "c' = c\<lparr>cn_dest := Some (fst d), cn_packets := cn_packets c + 1,
       cn_received := (cn_received c \<or> cn_packets c + 1 = 1),
       cn_handled := (if cn_handler c then cn_handled c @ [p] else cn_handled c)\<rparr>"
    have k: "k + 1 < 2 ^ 64" using 3(4) Some by simp
    then have one: "(of_nat k + 1 = (1 :: 64 word)) \<longleftrightarrow> k = 0"
    proof -
      have "of_nat k = (0 :: 64 word) \<longleftrightarrow> 2 ^ 64 dvd k" by (simp add: word_of_nat_eq_0_iff)
      with k show ?thesis by (auto dest: dvd_imp_le)
    qed
    with 3(2,3) Some have step: "read_datagram mtu unmarshal d c = Returns c'"
      by (auto simp: read_datagram_good c'_def)
    have "cn_packets c' = of_nat (k + 1)" "cn_received c' = (0 < k + 1)"
      using 3(2,3) one by (auto simp: c'_def)
    from 3(1) [OF this] 3(4) Some
    have "readLoop mtu unmarshal rs c' = Returns (read_effect mtu unmarshal (until_failed rs) (k + 1) c')" by simp
    with step Some show ?thesis by (simp add: read_effect_def c'_def Let_def ac_simps)
  qed
qed

text \<open>Silence: two ticks without a packet in between end it, where the timeout is on.\<close>

lemma conn_silence_fires:
  assumes "\<not> cn_closed c" and "cn_start c = Some start" and "cn_initial c \<le> now2 - start"
  shows "watch_tick now2 c (watch_tick now1 c (Watching seen)) = WatchFired"
  using assms by (simp add: watch_tick_def)

lemma conn_disabled_never_fires:
  "cn_start c = None \<Longrightarrow> watch_tick now c (Watching seen) \<noteq> WatchFired"
  by (simp add: watch_tick_def)

section \<open>Properties\<close>

text \<open>
  C38. What a connection reads. A new connection that reads any series of datagrams, fewer than
  2^64 of them, never panics (its channel is closed once, at the first packet): it hands exactly
  those that are within the size limit and can be parsed to its handler, in their order, counts
  them, and closes the channel if there was one. Its replies go to the sender of the last
  datagram, be it a packet or not.
\<close>

theorem conn_reads_packets:
  assumes "length rs < 2 ^ 64"
  shows "\<exists>c. readLoop mtu unmarshal rs (OnRTP h (NewConnWith now True conf)) = Returns c
     \<and> cn_handled c = (if h then packets_of mtu unmarshal (until_failed rs) else [])
     \<and> unat (cn_packets c) = length (packets_of mtu unmarshal (until_failed rs))
     \<and> (cn_received c \<longleftrightarrow> packets_of mtu unmarshal (until_failed rs) \<noteq> [])
     \<and> cn_dest c = (if until_failed rs = [] then None else Some (fst (last (until_failed rs))))"
proof -
  have len: "length (packets_of mtu unmarshal ds) \<le> length ds" for ds
    by (induction ds) (auto split: option.splits)
  have "length (until_failed rs) \<le> length rs"
    by (induction rs rule: until_failed.induct) simp_all
  with assms len [of "until_failed rs"] have bound: "length (packets_of mtu unmarshal (until_failed rs)) < 2 ^ 64" by linarith
  define c0 where "c0 = OnRTP h (NewConnWith now True conf)"
  have c0: "cn_packets c0 = of_nat 0" "cn_received c0 = (0 < (0::nat))" "cn_handled c0 = []" "cn_handler c0 = h" "cn_dest c0 = None"
    by (simp_all add: c0_def OnRTP_def NewConnWith_def EnableConnTimeout_def Let_def)
  have "readLoop mtu unmarshal rs c0 = Returns (read_effect mtu unmarshal (until_failed rs) 0 c0)"
    by (rule readLoop_effect [OF c0(1,2)]) (use bound in simp)
  with c0 bound show ?thesis
    unfolding c0_def [symmetric] by (simp add: read_effect_def Let_def unsigned_of_nat take_bit_nat_eq_self_iff)
qed

lemma conn_reads_packets_witness:
  "\<exists>c. readLoop 2 (\<lambda>b. case b of [] \<Rightarrow> None | x # xs \<Rightarrow> Some \<lparr>rp_type = uint x, rp_payload = xs\<rparr>)
        [Some (''a'', [8, 1]), Some (''b'', [8, 1, 2]), Some (''c'', []), None, Some (''d'', [8])]
        (OnRTP True (NewConnWith 0 True None)) = Returns c
     \<and> cn_handled c = [\<lparr>rp_type = 8, rp_payload = [1]\<rparr>] \<and> unat (cn_packets c) = 1 \<and> cn_received c \<and> cn_dest c = Some ''c''"
proof -
  let ?u = "\<lambda>b :: 8 word list. case b of [] \<Rightarrow> None | x # xs \<Rightarrow> Some \<lparr>rp_type = uint x, rp_payload = xs\<rparr>"
  let ?rs = "[Some (''a'', [8, 1]), Some (''b'', [8, 1, 2]), Some (''c'', []), None, Some (''d'', [8 :: 8 word])]"
  have "length ?rs < 2 ^ 64" by simp
  from conn_reads_packets [OF this, of 2 ?u True 0 None] show ?thesis by (simp add: good_packet_def)
qed

end
