(* ===== verification/Media_Stats.thy ===== *)
theory Media_Stats
  imports Call_Monitor "HOL-Library.Word"
begin

text \<open>
  \<open>pkg/sip/media.go\<close>: the counters of the media of a call, which are 64 bits wide, their snapshot,
  and the readers, handlers and writers that count what goes through them. What is wrapped is an
  argument: a function of its own state.
\<close>

section \<open>Counters and their snapshot\<close>

type_synonym counter = "64 word"

record PortStatsSnapshot =
  pss_streams :: counter
  pss_packets :: counter
  pss_packets_ignored :: counter
  pss_packets_input :: counter
  pss_mux_packets :: counter
  pss_mux_bytes :: counter
  pss_audio_packets :: counter
  pss_audio_bytes :: counter
  pss_dtmf_packets :: counter
  pss_dtmf_bytes :: counter

record RoomStatsSnapshot =
  rss_input_packets :: counter
  rss_input_bytes :: counter
  rss_mixer_samples :: counter
  rss_mixer_frames :: counter
  rss_output_samples :: counter
  rss_output_frames :: counter

record MixerStatsSnapshot =
  mss_tracks :: "64 word"
  mss_tracks_total :: counter
  mss_restarts :: counter
  mss_mixes :: counter
  mss_mixes_timed :: counter
  mss_mixes_jump :: counter
  mss_mixes_zero :: counter
  mss_input_samples :: counter
  mss_input_frames :: counter
  mss_mixed_samples :: counter
  mss_mixed_frames :: counter
  mss_output_samples :: counter
  mss_output_frames :: counter

record StatsSnapshot =
  sn_port :: PortStatsSnapshot
  sn_room :: RoomStatsSnapshot
  sn_mixer :: MixerStatsSnapshot

text \<open>The counters themselves, in the code's order of declaration; the room's hold the mixer's.\<close>

record PortCounters =
  pc_streams :: counter
  pc_packets :: counter
  pc_ignored :: counter
  pc_input :: counter
  pc_mux_packets :: counter
  pc_mux_bytes :: counter
  pc_audio_packets :: counter
  pc_audio_bytes :: counter
  pc_dtmf_packets :: counter
  pc_dtmf_bytes :: counter

record RoomCounters =
  rc_input_packets :: counter
  rc_input_bytes :: counter
  rc_mixer_frames :: counter
  rc_mixer_samples :: counter
  rc_mixer :: MixerStatsSnapshot
  rc_output_frames :: counter
  rc_output_samples :: counter

record Stats =
  st_port :: PortCounters
  st_room :: RoomCounters

definition Load :: "Stats \<Rightarrow> StatsSnapshot" where
  "Load s =
     (let p = st_port s; r = st_room s; m = rc_mixer r
      in \<lparr>sn_port =
            \<lparr>pss_streams = pc_streams p, pss_packets = pc_packets p, pss_packets_ignored = pc_ignored p,
             pss_packets_input = pc_input p, pss_mux_packets = pc_mux_packets p, pss_mux_bytes = pc_mux_bytes p,
             pss_audio_packets = pc_audio_packets p, pss_audio_bytes = pc_audio_bytes p,
             pss_dtmf_packets = pc_dtmf_packets p, pss_dtmf_bytes = pc_dtmf_bytes p\<rparr>,
          sn_room =
            \<lparr>rss_input_packets = rc_input_packets r, rss_input_bytes = rc_input_bytes r,
             rss_mixer_samples = rc_mixer_samples r, rss_mixer_frames = rc_mixer_frames r,
             rss_output_samples = rc_output_samples r, rss_output_frames = rc_output_frames r\<rparr>,
          sn_mixer =
            \<lparr>mss_tracks = mss_tracks m, mss_tracks_total = mss_tracks_total m, mss_restarts = mss_restarts m,
             mss_mixes = mss_mixes m, mss_mixes_timed = mss_mixes_timed m, mss_mixes_jump = mss_mixes_jump m,
             mss_mixes_zero = mss_mixes_zero m, mss_input_samples = mss_input_samples m,
             mss_input_frames = mss_input_frames m, mss_mixed_samples = mss_mixed_samples m,
             mss_mixed_frames = mss_mixed_frames m, mss_output_samples = mss_output_samples m,
             mss_output_frames = mss_output_frames m\<rparr>\<rparr>)"

section \<open>Counting wrappers\<close>

text \<open>A wrapper has two counters and the state of what it wraps.\<close>

record 'w counting =
  ct_units :: counter
  ct_size :: counter
  ct_inner :: 'w

definition new_counting :: "'w \<Rightarrow> 'w counting" where
  "new_counting w = \<lparr>ct_units = 0, ct_size = 0, ct_inner = w\<rparr>"

definition count_unit :: "nat \<Rightarrow> 'w counting \<Rightarrow> 'w counting" where
  "count_unit n c = c\<lparr>ct_units := ct_units c + 1, ct_size := ct_size c + of_nat n\<rparr>"

definition mediaWriterCount_WriteSample ::
  "('s list \<Rightarrow> 'w \<Rightarrow> 'w \<times> go_error option) \<Rightarrow> 's list \<Rightarrow> 'w counting \<Rightarrow> 'w counting \<times> go_error option" where
  "mediaWriterCount_WriteSample wr sample c =
     (let c = count_unit (length sample) c; (w, err) = wr sample (ct_inner c) in (c\<lparr>ct_inner := w\<rparr>, err))"

definition rtpHandlerCount_HandleRTP ::
  "('h \<Rightarrow> 's list \<Rightarrow> 'w \<Rightarrow> 'w \<times> go_error option) \<Rightarrow> 'h \<Rightarrow> 's list \<Rightarrow> 'w counting \<Rightarrow> 'w counting \<times> go_error option" where
  "rtpHandlerCount_HandleRTP hn h payload c =
     (let c = count_unit (length payload) c; (w, err) = hn h payload (ct_inner c) in (c\<lparr>ct_inner := w\<rparr>, err))"

text \<open>A read gives a packet (its payload), or none, with an error or not.\<close>

definition rtpReaderCount_ReadRTP ::
  "('w \<Rightarrow> 'w \<times> 's list option \<times> go_error option) \<Rightarrow> 'w counting \<Rightarrow> 'w counting \<times> 's list option \<times> go_error option" where
  "rtpReaderCount_ReadRTP rd c =
     (let (w, p, err) = rd (ct_inner c); c = c\<lparr>ct_inner := w\<rparr>
      in ((case p of None \<Rightarrow> c | Some payload \<Rightarrow> count_unit (length payload) c), p, err))"

section \<open>Metrics of packets\<close>

text \<open>The kind of a packet in the metrics: the handler's own, or the payload type.\<close>

definition packet_kind :: "string \<Rightarrow> int \<Rightarrow> string" where
  "packet_kind typ payload_type = (if typ = '''' then itoa payload_type else typ)"

definition rtpStatsHandler_HandleRTP ::
  "call_monitor option \<Rightarrow> string \<Rightarrow> ('h \<Rightarrow> 's list \<Rightarrow> 'w \<Rightarrow> 'w \<times> go_error option) \<Rightarrow> ('h \<Rightarrow> int)
   \<Rightarrow> 'h \<Rightarrow> 's list \<Rightarrow> 'w \<times> monitor \<Rightarrow> ('w \<times> monitor) \<times> go_error option" where
  "rtpStatsHandler_HandleRTP mon typ hn payload_type h payload wm = (case wm of (w, m) \<Rightarrow>
     let m = (case mon of None \<Rightarrow> m | Some c \<Rightarrow> RTPPacketRecv (packet_kind typ (payload_type h)) c m);
         (w, err) = hn h payload w
     in ((w, m), err))"

definition rtpStatsWriter_WriteRTP ::
  "call_monitor option \<Rightarrow> string \<Rightarrow> ('h \<Rightarrow> 's list \<Rightarrow> 'w \<Rightarrow> 'w \<times> (go_error + int)) \<Rightarrow> ('h \<Rightarrow> int)
   \<Rightarrow> 'h \<Rightarrow> 's list \<Rightarrow> 'w \<times> monitor \<Rightarrow> ('w \<times> monitor) \<times> (go_error + int)" where
  "rtpStatsWriter_WriteRTP mon typ wr payload_type h payload wm = (case wm of (w, m) \<Rightarrow>
     let m = (case mon of None \<Rightarrow> m | Some c \<Rightarrow> RTPPacketSend (packet_kind typ (payload_type h)) c m);
         (w, n) = wr h payload w
     in ((w, m), n))"

section \<open>Wrapping changes nothing but the counters\<close>

text \<open>Doing something for each of a list of inputs, with the answers.\<close>

fun each :: "('x \<Rightarrow> 'w \<Rightarrow> 'w \<times> 'a) \<Rightarrow> 'x list \<Rightarrow> 'w \<Rightarrow> 'w \<times> 'a list" where
  "each f [] w = (w, [])"
| "each f (x # xs) w = (let (w, a) = f x w; (w, as) = each f xs w in (w, a # as))"

lemma each_length: "each f xs w = (w', as) \<Longrightarrow> length as = length xs"
  by (induction xs arbitrary: w as) (auto simp: Let_def split: prod.splits)

text \<open>The sizes a wrapper adds to its counter, of inputs and their answers.\<close>

definition counted_sizes :: "('x \<Rightarrow> 'a \<Rightarrow> nat option) \<Rightarrow> 'x list \<Rightarrow> 'a list \<Rightarrow> nat list" where
  "counted_sizes size_of xs as = List.map_filter (\<lambda>(x, a). size_of x a) (zip xs as)"

lemma counted_sizes_simps [simp]:
  "counted_sizes size_of [] as = []"
  "counted_sizes size_of (x # xs) (a # as) = (case size_of x a of None \<Rightarrow> [] | Some n \<Rightarrow> [n]) @ counted_sizes size_of xs as"
  by (simp_all add: counted_sizes_def List.map_filter_def split: option.splits)

lemma counted_sizes_input:
  "length as = length xs \<Longrightarrow> (\<And>x a. size_of x a = Some (g x)) \<Longrightarrow> counted_sizes size_of xs as = map g xs"
  by (induction as xs rule: list_induct2) simp_all

lemma counted_sizes_answer:
  "length as = length xs \<Longrightarrow> (\<And>x a. size_of x a = h a) \<Longrightarrow> counted_sizes size_of xs as = List.map_filter h as"
  by (induction as xs rule: list_induct2) (simp_all add: List.map_filter_def split: option.splits)

text \<open>
  A wrapper of an operation: it does the same to the state within, gives the same answer, and
  adds to its counters what it makes of the input and the answer.
\<close>

locale counting_wrapper =
  fixes plain :: "'x \<Rightarrow> 'w \<Rightarrow> 'w \<times> 'a"
    and wrapped :: "'x \<Rightarrow> 'w counting \<Rightarrow> 'w counting \<times> 'a"
    and size_of :: "'x \<Rightarrow> 'a \<Rightarrow> nat option"
  assumes wraps: "wrapped x c =
    (let (w, a) = plain x (ct_inner c)
     in ((case size_of x a of None \<Rightarrow> c | Some n \<Rightarrow> count_unit n c)\<lparr>ct_inner := w\<rparr>, a))"
begin

lemma each_wrapped:
  "each wrapped xs c =
     (let (w, as) = each plain xs (ct_inner c); ns = counted_sizes size_of xs as
      in (\<lparr>ct_units = ct_units c + of_nat (length ns), ct_size = ct_size c + of_nat (sum_list ns), ct_inner = w\<rparr>, as))"
proof (induction xs arbitrary: c)
  case Nil
  show ?case by (cases c) simp
next
  case (Cons x xs)
  obtain w a where p: "plain x (ct_inner c) = (w, a)" by fastforce
  obtain w' as where q: "each plain xs w = (w', as)" by fastforce
  define c' where "c' = (case size_of x a of None \<Rightarrow> c | Some n \<Rightarrow> count_unit n c)\<lparr>ct_inner := w\<rparr>"
  have step: "wrapped x c = (c', a)" by (simp add: wraps p c'_def)
  have inner: "ct_inner c' = w" by (simp add: c'_def)
  have "each wrapped (x # xs) c = (case each wrapped xs c' of (c, as) \<Rightarrow> (c, a # as))" by (simp add: step)
  also have "\<dots> = (\<lparr>ct_units = ct_units c' + of_nat (length (counted_sizes size_of xs as)),
      ct_size = ct_size c' + of_nat (sum_list (counted_sizes size_of xs as)), ct_inner = w'\<rparr>, a # as)"
    by (simp add: Cons.IH inner q Let_def)
  finally show ?case
    by (cases "size_of x a") (simp_all add: p q c'_def count_unit_def Let_def ac_simps)
qed

end

interpretation media_writer: counting_wrapper wr "mediaWriterCount_WriteSample wr" "\<lambda>s a. Some (length s)" for wr
  by unfold_locales (auto simp: mediaWriterCount_WriteSample_def count_unit_def Let_def split: prod.splits)

interpretation rtp_handler: counting_wrapper "\<lambda>(h, p). hn h p" "\<lambda>(h, p). rtpHandlerCount_HandleRTP hn h p"
  "\<lambda>(h, p) a. Some (length p)" for hn
  by unfold_locales (auto simp: rtpHandlerCount_HandleRTP_def count_unit_def Let_def split: prod.splits)

interpretation rtp_reader: counting_wrapper "\<lambda>u :: unit. rd" "\<lambda>u. rtpReaderCount_ReadRTP rd"
  "\<lambda>u a. map_option length (fst a)" for rd
  by unfold_locales (auto simp: rtpReaderCount_ReadRTP_def count_unit_def Let_def split: prod.splits option.splits)

section \<open>Properties\<close>

text \<open>
  C39. Counting is transparent. A writer that counts, whatever samples are written through it,
  does to the writer within, and answers, what that one does alone; its counters are the number
  of writes and of the samples in them, up to the width of the counters. The same holds of the
  handler of RTP packets, and of the reader, which only counts the reads that give a packet.
\<close>

theorem counting_is_transparent:
  "each (mediaWriterCount_WriteSample wr) samples (new_counting w) =
       (let (w', errs) = each wr samples w
        in (\<lparr>ct_units = of_nat (length samples), ct_size = of_nat (sum_list (map length samples)), ct_inner = w'\<rparr>, errs))
   \<and> each (\<lambda>(h, p). rtpHandlerCount_HandleRTP hn h p) packets (new_counting v) =
       (let (v', errs) = each (\<lambda>(h, p). hn h p) packets v
        in (\<lparr>ct_units = of_nat (length packets), ct_size = of_nat (sum_list (map (length \<circ> snd) packets)), ct_inner = v'\<rparr>, errs))
   \<and> each (\<lambda>u. rtpReaderCount_ReadRTP rd) turns (new_counting r) =
       (let (r', reads) = each (\<lambda>u :: unit. rd) turns r; got = List.map_filter fst reads
        in (\<lparr>ct_units = of_nat (length got), ct_size = of_nat (sum_list (map length got)), ct_inner = r'\<rparr>, reads))"
proof (intro conjI)
  obtain w' errs where w: "each wr samples w = (w', errs)" by fastforce
  have "counted_sizes (\<lambda>s a. Some (length s)) samples errs = map length samples"
    by (rule counted_sizes_input [OF each_length [OF w]]) simp
  with w show "each (mediaWriterCount_WriteSample wr) samples (new_counting w) =
       (let (w', errs) = each wr samples w
        in (\<lparr>ct_units = of_nat (length samples), ct_size = of_nat (sum_list (map length samples)), ct_inner = w'\<rparr>, errs))"
    by (simp add: media_writer.each_wrapped new_counting_def)
  obtain v' errs where v: "each (\<lambda>(h, p). hn h p) packets v = (v', errs)" by fastforce
  have "counted_sizes (\<lambda>(h, p) a. Some (length p)) packets errs = map (length \<circ> snd) packets"
    by (rule counted_sizes_input [OF each_length [OF v]]) auto
  with v show "each (\<lambda>(h, p). rtpHandlerCount_HandleRTP hn h p) packets (new_counting v) =
       (let (v', errs) = each (\<lambda>(h, p). hn h p) packets v
        in (\<lparr>ct_units = of_nat (length packets), ct_size = of_nat (sum_list (map (length \<circ> snd) packets)), ct_inner = v'\<rparr>, errs))"
    by (simp add: rtp_handler.each_wrapped new_counting_def)
  obtain r' reads where r: "each (\<lambda>u :: unit. rd) turns r = (r', reads)" by fastforce
  have "counted_sizes (\<lambda>u a. map_option length (fst a)) turns reads = List.map_filter (\<lambda>a. map_option length (fst a)) reads"
    by (rule counted_sizes_answer [OF each_length [OF r]]) simp
  also have "\<dots> = map length (List.map_filter fst reads)"
    by (induction reads) (auto simp: List.map_filter_def)
  finally show "each (\<lambda>u. rtpReaderCount_ReadRTP rd) turns (new_counting r) =
       (let (r', reads) = each (\<lambda>u :: unit. rd) turns r; got = List.map_filter fst reads
        in (\<lparr>ct_units = of_nat (length got), ct_size = of_nat (sum_list (map length got)), ct_inner = r'\<rparr>, reads))"
    using r by (simp add: rtp_reader.each_wrapped new_counting_def Let_def)
qed

end
