(* ===== verification/Test_Peer.thy ===== *)
theory Test_Peer
  imports Invite_Auth Rtp_Conn "HOL-Library.Multiset"
begin

unbundle bit_operations_syntax

text \<open>
  The SIP client of the tests (\<open>pkg/siptest/client.go\<close>): it calls a server with an INVITE that may
  be challenged, answers a REFER with a NOTIFY, hangs up with a BYE, and sends and waits for
  audio. The SIP, SDP, digest and codec libraries, the network and the clock are arguments.
\<close>

section \<open>The client and its making\<close>

record peer_config =
  tc_ip :: ip_addr
  tc_port :: "16 word"
  tc_number :: string
  tc_auth_user :: string
  tc_auth_pass :: string
  tc_on_dtmf :: bool
  tc_codec :: string

record codec_info =
  co_sdp_name :: string
  co_rtp_type :: int
  co_static :: bool
  co_clock_rate :: int
  co_sample_rate :: int

text \<open>
  What the client sends. A request of the dialog is kept with the number it carries. Of the
  INVITE that was answered the client keeps the request and the \<open>Route\<close> headers put in front of it.
\<close>

datatype peer_message =
    SentInvite out_request
  | SentAck
  | SentBye out_request "32 word"
  | SentByeAck
  | SentNotify out_request "32 word" string

record test_peer =
  tp_id :: string
  tp_conf :: peer_config
  tp_codec :: codec_info
  tp_audio_type :: int
  tp_conn :: conn
  tp_client_open :: bool
  tp_server_open :: bool
  tp_listening :: bool
  tp_invite :: "(out_request \<times> sip_uri list) option"
  tp_response :: "sip_response option"
  tp_last_cseq :: "32 word"
  tp_closed :: bool
  tp_sent :: "peer_message list"

text \<open>
  The answers of the libraries: the challenge and the digest (with the credentials printed), a URI
  printed, the answer's address and ports, resolving an address, writing the ACK, making a BYE.
\<close>

record sdp_answer =
  sa_connection :: "string option"
  sa_ports :: "int list"

record peer_lib =
  pl_challenge :: "string \<Rightarrow> go_error + challenge"
  pl_digest :: "challenge \<Rightarrow> digest_options \<Rightarrow> go_error + string"
  pl_uri_string :: "sip_uri \<Rightarrow> string"
  pl_sdp :: "string \<Rightarrow> go_error + sdp_answer"
  pl_resolve :: "string \<Rightarrow> go_error + string"
  pl_write_ack :: "go_error option"
  pl_new_bye :: "out_request \<Rightarrow> sip_uri list \<Rightarrow> sip_response \<Rightarrow> out_request"

text \<open>\<open>sendBye\<close>; \<open>tx\<close> is the error of starting the transaction and what ends the wait for its answer.\<close>

datatype bye_event = ByeGotAck | ByeTxDone | ByeAnswered int

definition peer_sendBye ::
  "peer_lib \<Rightarrow> go_error option \<times> bye_event option \<Rightarrow> out_request \<times> sip_uri list \<Rightarrow> sip_response \<Rightarrow> test_peer
   \<Rightarrow> test_peer outcome" where
  "peer_sendBye lib tx invite resp c =
     (let req = pl_new_bye lib (fst invite) (snd invite) resp;
          cseq = tp_last_cseq c + 1;
          c = c\<lparr>tp_last_cseq := cseq\<rparr>
      in if or_cseq req = None then Panics
         else
           let req = req\<lparr>or_ops := or_ops req @ [AppendHeader ''User-Agent'' ''LiveKit'', ChangeCSeq cseq (or_method req)],
                         or_cseq := Some cseq\<rparr>
           in case fst tx of
                Some e \<Rightarrow> Returns c
              | None \<Rightarrow>
                  (let c = c\<lparr>tp_sent := tp_sent c @ [SentBye req cseq]\<rparr>
                   in case snd tx of
                        None \<Rightarrow> Blocked
                      | Some (ByeAnswered status) \<Rightarrow>
                          Returns (if status = 200 then c\<lparr>tp_sent := tp_sent c @ [SentByeAck]\<rparr> else c)
                      | Some _ \<Rightarrow> Returns c))"

text \<open>\<open>Close\<close> acts once; a client that is in a call hangs up.\<close>

definition peer_hangup :: "peer_lib \<Rightarrow> go_error option \<times> bye_event option \<Rightarrow> test_peer \<Rightarrow> test_peer outcome" where
  "peer_hangup lib tx c =
     (case (tp_response c, tp_invite c) of
        (None, _) \<Rightarrow> Returns c
      | (Some resp, None) \<Rightarrow> Panics
      | (Some resp, Some invite) \<Rightarrow>
          bind_outcome (peer_sendBye lib tx invite resp c) (\<lambda>c.
            Returns (c\<lparr>tp_invite := None, tp_response := None\<rparr>)))"

definition peer_Close :: "peer_lib \<Rightarrow> go_error option \<times> bye_event option \<Rightarrow> test_peer \<Rightarrow> test_peer outcome" where
  "peer_Close lib tx c =
     (if tp_closed c then Returns c
      else
        bind_outcome (CloseConn (tp_conn c)) (\<lambda>conn.
        bind_outcome (peer_hangup lib tx (c\<lparr>tp_closed := True, tp_conn := conn\<rparr>)) (\<lambda>c.
          Returns (c\<lparr>tp_client_open := False, tp_server_open := False, tp_listening := False\<rparr>))))"

text \<open>
  \<open>NewClient\<close>: the local address, the draw of a port, the name of the codec used by default and the codec of a name, and the errors of the
  mixer, the media socket, the user agent, the SIP client and server, and the TCP listener.
\<close>

record peer_start =
  ps_local_ip :: "go_error + ip_addr"
  ps_port_draw :: nat
  ps_default_codec :: string
  ps_codec :: "string \<Rightarrow> codec_info option"
  ps_mixer :: "go_error option"
  ps_media :: "go_error option"
  ps_ua :: "go_error option"
  ps_client :: "go_error option"
  ps_server :: "go_error option"
  ps_listen :: "go_error option"

definition peer_defaults :: "peer_start \<Rightarrow> peer_config \<Rightarrow> go_error + peer_config" where
  "peer_defaults ps conf =
     (case if tc_ip conf = None then ps_local_ip ps else Inr (tc_ip conf) of
        Inl e \<Rightarrow> Inl e
      | Inr ip \<Rightarrow>
          Inr (conf\<lparr>tc_ip := ip,
                    tc_port := (if tc_port conf = 0 then 5060 + of_nat (ps_port_draw ps) else tc_port conf),
                    tc_number := (if tc_number conf = '''' then ''1000'' else tc_number conf),
                    tc_codec := (if tc_codec conf = '''' then ps_default_codec ps else tc_codec conf)\<rparr>))"

definition peer_new :: "int \<Rightarrow> string \<Rightarrow> peer_config \<Rightarrow> codec_info \<Rightarrow> test_peer" where
  "peer_new now name conf codec =
     \<lparr>tp_id = name, tp_conf = conf, tp_codec = codec,
      tp_audio_type = (if co_static codec then co_rtp_type codec else 102),
      tp_conn = EnableConnTimeout now False
                  (NewConnWith now False (Some \<lparr>nc_initial = 0, nc_timeout = 0, nc_callback = True\<rparr>)),
      tp_client_open = False, tp_server_open = False, tp_listening = False,
      tp_invite = None, tp_response = None, tp_last_cseq = 0, tp_closed = False, tp_sent = []\<rparr>"

text \<open>A failure closes the client; the error is returned with what is left of it.\<close>

definition peer_abort :: "peer_lib \<Rightarrow> go_error \<Rightarrow> test_peer \<Rightarrow> (test_peer \<times> go_error option) outcome" where
  "peer_abort lib e c = bind_outcome (peer_Close lib (None, None) c) (\<lambda>c. Returns (c, Some e))"

definition peer_open ::
  "peer_lib \<Rightarrow> peer_start \<Rightarrow> test_peer \<Rightarrow> (test_peer \<times> go_error option) outcome" where
  "peer_open lib ps c =
     (case ps_mixer ps of
        Some e \<Rightarrow> peer_abort lib e c
      | None \<Rightarrow>
     let c = c\<lparr>tp_conn := OnRTP True (tp_conn c)\<rparr>
     in case ListenConn (\<lambda>_. None) (\<lambda>_ _ _. ps_media ps) 0 0 ''0.0.0.0'' (tp_conn c) of
        (conn, Some e) \<Rightarrow> peer_abort lib e (c\<lparr>tp_conn := conn\<rparr>)
      | (conn, None) \<Rightarrow>
     let c = c\<lparr>tp_conn := conn\<rparr>
     in case ps_ua ps of
        Some e \<Rightarrow> peer_abort lib e c
      | None \<Rightarrow>
     case ps_client ps of
        Some e \<Rightarrow> peer_abort lib e c
      | None \<Rightarrow>
     let c = c\<lparr>tp_client_open := True\<rparr>
     in case ps_server ps of
        Some e \<Rightarrow> peer_abort lib e c
      | None \<Rightarrow>
     let c = c\<lparr>tp_server_open := True\<rparr>
     in case ps_listen ps of
        Some e \<Rightarrow> peer_abort lib e c
      | None \<Rightarrow> Returns (c\<lparr>tp_listening := True\<rparr>, None))"

definition peer_NewClient ::
  "peer_lib \<Rightarrow> peer_start \<Rightarrow> int \<Rightarrow> string \<Rightarrow> peer_config \<Rightarrow> (test_peer option \<times> go_error option) outcome" where
  "peer_NewClient lib ps now name conf =
     (case peer_defaults ps conf of
        Inl e \<Rightarrow> Returns (None, Some e)
      | Inr conf \<Rightarrow>
          (case ps_codec ps (tc_codec conf) of
             None \<Rightarrow> Panics
           | Some codec \<Rightarrow>
               bind_outcome (peer_open lib ps (peer_new now name conf codec)) (\<lambda>(c, err). Returns (Some c, err))))"

text \<open>
  A client that cannot make its mixer or open its media socket panics while it closes the socket it
  does not have; any later failure leaves nothing open.
\<close>

lemma peer_fails_early_panics:
  assumes "ps_mixer ps \<noteq> None \<or> ps_media ps \<noteq> None"
  shows "peer_open lib ps (peer_new now name conf codec) = Panics"
  using assms
  by (auto simp: peer_open_def peer_abort_def peer_Close_def peer_hangup_def CloseConn_def ListenConn_def peer_new_def NewConnWith_def
      EnableConnTimeout_def OnRTP_def Let_def split: option.splits)

lemma peer_fails_late_closes:
  assumes "peer_open lib ps (peer_new now name conf codec) = Returns (c, err)"
  shows "(err = None \<longrightarrow> tp_listening c \<and> tp_client_open c \<and> tp_server_open c \<and> \<not> tp_closed c)
     \<and> (err \<noteq> None \<longrightarrow> tp_closed c \<and> cn_closed (tp_conn c) \<and> \<not> tp_client_open c \<and> \<not> tp_server_open c \<and> \<not> tp_listening c)
     \<and> tp_sent c = []"
  using assms
  by (auto simp: peer_open_def peer_abort_def peer_Close_def peer_hangup_def CloseConn_def ListenConn_def peer_new_def NewConnWith_def
      EnableConnTimeout_def OnRTP_def Let_def split: option.splits)

text \<open>
  The handlers that are installed on the SIP server. The channel of ACKs holds one, so its state is
  whether it is full; what is done is a list, as the callbacks run before or after the reply.
\<close>

datatype peer_incoming = InBye | InAck | InRefer

datatype peer_action = PeerReplies int string | CallsOnBye | CallsOnRefer

fun peer_handle :: "bool \<Rightarrow> bool \<Rightarrow> peer_incoming \<Rightarrow> bool \<Rightarrow> bool \<times> peer_action list" where
  "peer_handle on_bye on_refer InBye ack = (ack, PeerReplies 200 ''OK'' # (if on_bye then [CallsOnBye] else []))"
| "peer_handle on_bye on_refer InAck ack = (True, [])"
| "peer_handle on_bye on_refer InRefer ack = (ack, (if on_refer then [CallsOnRefer] else []) @ [PeerReplies 202 ''Accepted''])"

section \<open>Calling\<close>

text \<open>What a transaction delivers.\<close>

datatype peer_event = PeerDone | PeerResponse sip_response

definition peer_waits :: "int \<Rightarrow> bool" where
  "peer_waits status \<longleftrightarrow> status \<in> {100, 180, 183}"

fun getResponse :: "nat \<Rightarrow> peer_event list \<Rightarrow> (go_error + sip_response) outcome" where
  "getResponse cnt [] = Blocked"
| "getResponse cnt (PeerDone # es) =
     Returns (Inl (PlainErr (''transaction failed to complete ('' @ itoa (int cnt) @ '' intermediate responses)'')))"
| "getResponse cnt (PeerResponse r # es) =
     (if peer_waits (resp_status r) then getResponse (Suc cnt) es else Returns (Inr r))"

text \<open>
  One attempt: the error of starting the transaction, which is a panic, the \<open>Call-ID\<close> and the
  number the library puts into the request, and what the transaction delivers.
\<close>

record peer_attempt =
  pa_error :: "go_error option"
  pa_call_id :: "string option"
  pa_cseq :: "32 word option"
  pa_events :: "peer_event list"

record peer_dial =
  pd_ip :: string
  pd_host :: string
  pd_number :: string
  pd_headers :: "(string \<times> string) list"

definition ip_text :: "ip_addr \<Rightarrow> string" where
  "ip_text ip = (case ip of None \<Rightarrow> ''invalid IP'' | Some s \<Rightarrow> s)"

definition peer_invite :: "test_peer \<Rightarrow> peer_dial \<Rightarrow> string \<Rightarrow> string \<Rightarrow> peer_attempt \<Rightarrow> out_request" where
  "peer_invite c d authHeader callID a =
     \<lparr>or_method = ''INVITE'',
      or_recipient = \<lparr>uri_user = pd_number d, uri_host = pd_host d, uri_port = 0,
                      uri_params = Some [''transport'' \<mapsto> ''tcp'']\<rparr>,
      or_ops =
        (if callID \<noteq> '''' then [AppendHeader ''Call-ID'' callID] else []) @
        [AppendHeader ''Content-Type'' ''application/sdp'',
         AppendHeader ''Contact'' (''<sip:livekit@'' @ ip_text (tc_ip (tp_conf c)) @ '':'' @ itoa (uint (tc_port (tp_conf c))) @ ''>''),
         AppendHeader ''Allow'' allow_value] @
        (if tp_id c \<noteq> '''' then [AppendHeader ''X-Lk-Test-Id'' (tp_id c)] else []) @
        (if authHeader \<noteq> '''' then [AppendHeader ''Proxy-Authorization'' authHeader] else []) @
        map (\<lambda>(k, v). AppendHeader k v) (pd_headers d),
      or_cseq = pa_cseq a, or_source = '''', or_destination = pd_ip d, or_transport = ''''\<rparr>"

definition attemptPeerInvite ::
  "test_peer \<Rightarrow> peer_dial \<Rightarrow> string \<Rightarrow> string \<Rightarrow> peer_attempt \<Rightarrow> (out_request \<times> (go_error + sip_response)) outcome" where
  "attemptPeerInvite c d authHeader callID a =
     (if pa_error a \<noteq> None then Panics
      else bind_outcome (getResponse 0 (pa_events a)) (\<lambda>r. Returns (peer_invite c d authHeader callID a, r)))"

text \<open>
  The answer to a 407. A response without the challenge is a panic, and so is printing the
  credentials where the digest could not be made, as that error is not looked at.
\<close>

definition peer_auth :: "peer_lib \<Rightarrow> test_peer \<Rightarrow> out_request \<Rightarrow> sip_response \<Rightarrow> (go_error + string) outcome" where
  "peer_auth lib c req resp =
     (if tc_auth_user (tp_conf c) = '''' \<or> tc_auth_pass (tp_conf c) = ''''
      then Returns (Inl (PlainErr ''server responded with 407, but no username or password was provided''))
      else case GetHeader (resp_headers resp) ''Proxy-Authenticate'' of
             None \<Rightarrow> Panics
           | Some value \<Rightarrow>
               (case pl_challenge lib value of
                  Inl e \<Rightarrow> Returns (Inl e)
                | Inr ch \<Rightarrow>
                    (case resp_to resp of
                       None \<Rightarrow> Returns (Inl (PlainErr ''no To header on Request''))
                     | Some to \<Rightarrow>
                         (case pl_digest lib ch
                                 \<lparr>do_method = or_method req, do_uri = pl_uri_string lib (ah_address to),
                                  do_username = tc_auth_user (tp_conf c), do_password = tc_auth_pass (tp_conf c)\<rparr> of
                            Inl e \<Rightarrow> Panics
                          | Inr cred \<Rightarrow> Returns (Inr cred)))))"

text \<open>The loop of \<open>Dial\<close>: the attempts that will be answered are a list; the requests sent are the result's first part.\<close>

fun dial_loop ::
  "peer_lib \<Rightarrow> test_peer \<Rightarrow> peer_dial \<Rightarrow> string \<Rightarrow> string \<Rightarrow> peer_attempt list
   \<Rightarrow> (out_request list \<times> (go_error + out_request \<times> sip_response)) outcome" where
  "dial_loop lib c d auth callID [] = Blocked"
| "dial_loop lib c d auth callID (a # as) =
     bind_outcome (attemptPeerInvite c d auth callID a) (\<lambda>(req, r).
       case r of
         Inl e \<Rightarrow> Returns ([req], Inl e)
       | Inr resp \<Rightarrow>
           let callID = (if callID = '''' then (case pa_call_id a of None \<Rightarrow> '''' | Some v \<Rightarrow> v) else callID)
           in if resp_status resp = 407
              then bind_outcome (peer_auth lib c req resp) (\<lambda>h.
                     case h of
                       Inl e \<Rightarrow> Returns ([req], Inl e)
                     | Inr auth \<Rightarrow>
                         bind_outcome (dial_loop lib c d auth callID as) (\<lambda>(reqs, r). Returns (req # reqs, r)))
              else if resp_status resp \<noteq> 200
              then Returns ([req], Inl (PlainErr (''unexpected status from INVITE response '' @ itoa (resp_status resp))))
              else Returns ([req], Inr (req, resp)))"

definition parseSDPAnswer :: "peer_lib \<Rightarrow> string \<Rightarrow> (go_error + string \<times> int) outcome" where
  "parseSDPAnswer lib body =
     (case pl_sdp lib body of
        Inl e \<Rightarrow> Returns (Inl e)
      | Inr a \<Rightarrow>
          (case (sa_connection a, sa_ports a) of
             (Some addr, p # ps) \<Rightarrow> Returns (Inr (addr, p))
           | _ \<Rightarrow> Panics))"

text \<open>The rest of \<open>Dial\<close>, after a 200: each \<open>Record-Route\<close> header puts a \<open>Route\<close> in front of the others.\<close>

definition dial_accepted ::
  "peer_lib \<Rightarrow> int \<Rightarrow> out_request \<Rightarrow> sip_response \<Rightarrow> test_peer \<Rightarrow> (test_peer \<times> go_error option) outcome" where
  "dial_accepted lib now req resp c =
     (let req = (case resp_contact resp of
                   None \<Rightarrow> req
                 | Some h \<Rightarrow>
                     req\<lparr>or_recipient := (if uri_port (ah_address h) = 0 then (ah_address h)\<lparr>uri_port := 5060\<rparr> else ah_address h)\<rparr>)
      in if None \<in> set (resp_record_routes resp) then Panics
         else
           let routes = rev (List.map_filter (map_option ah_address) (resp_record_routes resp));
               c = c\<lparr>tp_conn := EnableConnTimeout now True (tp_conn c)\<rparr>
           in case pl_write_ack lib of
                Some e \<Rightarrow> Returns (c, Some e)
              | None \<Rightarrow>
                  (let c = c\<lparr>tp_sent := tp_sent c @ [SentAck]\<rparr>
                   in bind_outcome (parseSDPAnswer lib (resp_body resp)) (\<lambda>sdp.
                        case sdp of
                          Inl e \<Rightarrow> Returns (c, Some e)
                        | Inr (ip, port) \<Rightarrow>
                            (case pl_resolve lib (ip @ '':'' @ itoa port) of
                               Inl e \<Rightarrow> Returns (c, Some e)
                             | Inr addr \<Rightarrow>
                                 Returns (c\<lparr>tp_invite := Some (req, routes), tp_response := Some resp,
                                            tp_last_cseq := (case or_cseq req of None \<Rightarrow> tp_last_cseq c | Some n \<Rightarrow> n),
                                            tp_conn := SetDestAddr (Some addr) (tp_conn c)\<rparr>, None)))))"

definition peer_Dial ::
  "peer_lib \<Rightarrow> int \<Rightarrow> go_error option \<Rightarrow> peer_dial \<Rightarrow> peer_attempt list \<Rightarrow> test_peer
   \<Rightarrow> (test_peer \<times> go_error option) outcome" where
  "peer_Dial lib now offer d as c =
     (case offer of
        Some e \<Rightarrow> Returns (c, Some e)
      | None \<Rightarrow>
          bind_outcome (dial_loop lib c d '''' '''' as) (\<lambda>(reqs, r).
            let c = c\<lparr>tp_sent := tp_sent c @ map SentInvite reqs\<rparr>
            in case r of
                 Inl e \<Rightarrow> Returns (c, Some e)
               | Inr (req, resp) \<Rightarrow> dial_accepted lib now req resp c))"

lemma dial_accepted_effect:
  assumes "dial_accepted lib now req resp c = Returns (s, None)"
  shows "tp_last_cseq s = (case or_cseq req of None \<Rightarrow> tp_last_cseq c | Some n \<Rightarrow> n) \<and> tp_sent s = tp_sent c @ [SentAck]
     \<and> tp_response s = Some resp \<and> tp_invite s \<noteq> None"
proof -
  have "or_cseq (case resp_contact resp of None \<Rightarrow> req | Some h \<Rightarrow> req\<lparr>or_recipient := u h\<rparr>) = or_cseq req" for u
    by (simp split: option.split)
  moreover have "pl_write_ack lib = None"
    using assms by (cases "pl_write_ack lib") (auto simp: dial_accepted_def Let_def split: if_splits)
  moreover from this assms obtain ip port where "parseSDPAnswer lib (resp_body resp) = Returns (Inr (ip, port))"
    by (cases "parseSDPAnswer lib (resp_body resp)") (auto simp: dial_accepted_def Let_def split: if_splits sum.splits)
  moreover from this calculation assms obtain addr where "pl_resolve lib (ip @ '':'' @ itoa port) = Inr addr"
    by (cases "pl_resolve lib (ip @ '':'' @ itoa port)") (auto simp: dial_accepted_def Let_def split: if_splits)
  ultimately show ?thesis
    using assms by (cases "or_cseq req") (auto simp: dial_accepted_def Let_def split: if_splits)
qed

text \<open>A response that ends the wait is the first that is no 100, 180 or 183.\<close>

lemma getResponse_first:
  assumes "getResponse n es = Returns (Inr r)"
  shows "\<exists>pre post. es = map PeerResponse pre @ PeerResponse r # post \<and> (\<forall>p\<in>set pre. peer_waits (resp_status p))
     \<and> \<not> peer_waits (resp_status r)"
  using assms
proof (induction n es rule: getResponse.induct)
  case (3 cnt x es)
  show ?case
  proof (cases "peer_waits (resp_status x)")
    case True
    with 3 obtain pre post where "es = map PeerResponse pre @ PeerResponse r # post" "\<forall>p\<in>set pre. peer_waits (resp_status p)"
      "\<not> peer_waits (resp_status r)" by auto
    with True show ?thesis by (intro exI [of _ "x # pre"]) auto
  next
    case False
    with 3(2) show ?thesis by (intro exI [of _ "[]"] exI [of _ es]) auto
  qed
qed simp_all

text \<open>
  A call that is made ends with a 200; every attempt after the first one repeats the \<open>Call-ID\<close> of
  the first and carries the credentials for the challenge before it.
\<close>

lemma dial_loop_sound:
  assumes "dial_loop lib c d auth callID as = Returns (reqs, Inr (req, resp))"
  shows "resp_status resp = 200 \<and> reqs \<noteq> [] \<and> last reqs = req \<and> length reqs \<le> length as
     \<and> (callID \<noteq> '''' \<longrightarrow> (\<forall>r\<in>set reqs. AppendHeader ''Call-ID'' callID \<in> set (or_ops r)))
     \<and> (auth \<noteq> '''' \<longrightarrow> AppendHeader ''Proxy-Authorization'' auth \<in> set (or_ops (hd reqs)))"
  using assms
proof (induction as arbitrary: auth callID reqs)
  case Nil
  then show ?case by simp
next
  case (Cons a as)
  from Cons.prems obtain q r where q: "q = peer_invite c d auth callID a" "getResponse 0 (pa_events a) = Returns r"
    by (auto simp: attemptPeerInvite_def bind_outcome_Returns split: if_splits)
  from Cons.prems q obtain x where x: "r = Inr x"
    by (cases r) (auto simp: attemptPeerInvite_def split: if_splits)
  define cid where "cid = (if callID = '''' then (case pa_call_id a of None \<Rightarrow> '''' | Some v \<Rightarrow> v) else callID)"
  have own: "callID \<noteq> '''' \<longrightarrow> AppendHeader ''Call-ID'' callID \<in> set (or_ops q)"
    "auth \<noteq> '''' \<longrightarrow> AppendHeader ''Proxy-Authorization'' auth \<in> set (or_ops q)"
    by (simp_all add: q(1) peer_invite_def)
  show ?case
  proof (cases "resp_status x = 407")
    case True
    with Cons.prems q x obtain h where h: "(case h of Inl e \<Rightarrow> Returns ([q], Inl e) | Inr auth' \<Rightarrow>
        bind_outcome (dial_loop lib c d auth' cid as) (\<lambda>(reqs, r). Returns (q # reqs, r))) = Returns (reqs, Inr (req, resp))"
      by (auto simp: attemptPeerInvite_def bind_outcome_Returns [of "peer_auth lib c q x" for q x] Let_def cid_def [symmetric] split: if_split_asm)
    then obtain auth' reqs' where "dial_loop lib c d auth' cid as = Returns (reqs', Inr (req, resp))" "reqs = q # reqs'"
      by (cases h) (auto simp: bind_outcome_Returns)
    with Cons.IH [OF this(1)] own show ?thesis by (auto simp: cid_def)
  next
    case False
    with Cons.prems q x own show ?thesis by (auto simp: attemptPeerInvite_def Let_def split: if_splits)
  qed
qed

text \<open>
  Unlike the outbound leg the loop has no limit: a server that goes on challenging keeps it going,
  however many attempts it answers.
\<close>

lemma dial_never_gives_up:
  assumes "\<And>a. a \<in> set as \<Longrightarrow> pa_error a = None \<and> (\<exists>r es. pa_events a = PeerResponse r # es \<and> resp_status r = 407
             \<and> (\<forall>req. \<exists>v. peer_auth lib c req r = Returns (Inr v)))"
  shows "dial_loop lib c d auth callID as = Blocked"
  using assms
proof (induction as arbitrary: auth callID)
  case Nil
  then show ?case by simp
next
  case (Cons a as)
  from Cons.prems [of a] obtain r es where r: "pa_error a = None" "pa_events a = PeerResponse r # es" "resp_status r = 407"
    and auth: "\<forall>req. \<exists>v. peer_auth lib c req r = Returns (Inr v)" by auto
  from auth obtain v where "peer_auth lib c (peer_invite c d auth callID a) r = Returns (Inr v)" by blast
  with r Cons.IH Cons.prems show ?case by (simp add: attemptPeerInvite_def peer_waits_def Let_def)
qed

section \<open>Requests in the dialog\<close>

text \<open>
  \<open>SendNotify\<close> for the REFER \<open>ev\<close>; in the operations \<open>CopyFromInvite\<close> copies from that request. Its
  number is taken before the last check, and the missing response of the INVITE is only noticed
  where there is no \<open>Route\<close> to copy.
\<close>

definition notify_routes :: "sip_request \<Rightarrow> test_peer \<Rightarrow> hdr_op list outcome" where
  "notify_routes ev c =
     (if req_routes ev \<noteq> [] then Returns [CopyFromInvite ''Route'']
      else case tp_response c of
             None \<Rightarrow> Panics
           | Some resp \<Rightarrow>
               Returns (concat (map (\<lambda>h. case h of None \<Rightarrow> [] | Some rr \<Rightarrow> [AppendRecordRoute rr])
                                  (rev (resp_record_routes resp)))))"

definition notify_request ::
  "sip_request \<Rightarrow> addr_header \<Rightarrow> addr_header \<Rightarrow> sip_uri \<Rightarrow> hdr_op list \<Rightarrow> 32 word \<Rightarrow> 32 word \<Rightarrow> out_request" where
  "notify_request ev to from recipient routes cseq evCSeq =
     \<lparr>or_method = ''NOTIFY'', or_recipient = recipient,
      or_ops =
        [CopyFromInvite ''Via''] @ routes @
        [AppendMaxForwards 70, AppendFrom (Some to), AppendTo (Some from)] @
        (case req_call_id ev of None \<Rightarrow> [] | Some v \<Rightarrow> [AppendHeader ''Call-ID'' v]) @
        [AppendHeader ''Content-Type'' ''message/sipfrag'',
         AppendHeader ''CSeq'' (itoa (uint cseq) @ '' NOTIFY''),
         AppendHeader ''Event'' (''refer;id='' @ itoa (uint evCSeq))],
      or_cseq = Some cseq, or_source = req_destination ev, or_destination = req_source ev,
      or_transport = req_transport ev\<rparr>"

definition SendNotify ::
  "go_error option \<Rightarrow> peer_event list \<Rightarrow> sip_request \<Rightarrow> string \<Rightarrow> test_peer \<Rightarrow> (test_peer \<times> go_error option) outcome" where
  "SendNotify tx es ev status c =
     (case (case req_contact ev of Some h \<Rightarrow> Some (ah_address h) | None \<Rightarrow> map_option ah_address (req_from ev)) of
        None \<Rightarrow> Returns (c, Some (PlainErr ''missing destination address''))
      | Some recipient \<Rightarrow>
          bind_outcome (notify_routes ev c) (\<lambda>routes.
            case (req_to ev, req_from ev) of
              (None, _) \<Rightarrow> Returns (c, Some (PlainErr ''missing To header in REFER request''))
            | (Some to, None) \<Rightarrow> Returns (c, Some (PlainErr ''missing From header in REFER request''))
            | (Some to, Some from) \<Rightarrow>
                (let cseq = tp_last_cseq c + 1;
                     c = c\<lparr>tp_last_cseq := cseq\<rparr>
                 in case req_cseq ev of
                      None \<Rightarrow> Returns (c, Some (PlainErr ''missing CSeq header in REFER request''))
                    | Some evCSeq \<Rightarrow>
                        (case tx of
                           Some e \<Rightarrow> Returns (c, Some e)
                         | None \<Rightarrow>
                             (let c = c\<lparr>tp_sent := tp_sent c @
                                    [SentNotify (notify_request ev to from recipient routes cseq evCSeq) cseq status]\<rparr>
                              in bind_outcome (getResponse 0 es) (\<lambda>r.
                                   Returns (c, case r of
                                       Inl e \<Rightarrow> Some e
                                     | Inr resp \<Rightarrow>
                                         if resp_status resp \<noteq> 200
                                         then Some (PlainErr (''NOTIFY failed with status '' @ itoa (resp_status resp)))
                                         else None)))))))"

text \<open>A connected client: its operations on the dialog, in any order.\<close>

datatype peer_op =
    PNotify "go_error option" "peer_event list" sip_request string
  | PClose "go_error option \<times> bye_event option"

fun peer_step :: "peer_lib \<times> peer_op \<Rightarrow> test_peer \<Rightarrow> test_peer outcome" where
  "peer_step (lib, PNotify tx es ev status) c = bind_outcome (SendNotify tx es ev status c) (\<lambda>(c, err). Returns c)"
| "peer_step (lib, PClose tx) c = peer_Close lib tx c"

fun dialog_number :: "peer_message \<Rightarrow> 32 word option" where
  "dialog_number (SentBye req n) = Some n"
| "dialog_number (SentNotify req n status) = Some n"
| "dialog_number _ = None"

definition dialog_numbers :: "peer_message list \<Rightarrow> 32 word list" where
  "dialog_numbers ms = List.map_filter dialog_number ms"

text \<open>The numbers sent are a rising sequence of offsets from the number of the INVITE.\<close>

definition numbered :: "32 word \<Rightarrow> test_peer \<Rightarrow> bool" where
  "numbered base c \<longleftrightarrow>
     (\<exists>ks m. tp_last_cseq c = base + of_nat m \<and> dialog_numbers (tp_sent c) = map (\<lambda>k. base + of_nat k) ks
        \<and> sorted_wrt (<) ks \<and> set ks \<subseteq> {1..m})"

lemma dialog_numbers_append: "dialog_numbers (ms @ ns) = dialog_numbers ms @ dialog_numbers ns"
  by (simp add: dialog_numbers_def map_filter_def)

lemma numbered_skip:
  assumes "numbered base c" and "tp_last_cseq c' = tp_last_cseq c + 1" and "tp_sent c' = tp_sent c"
  shows "numbered base c'"
proof -
  from assms(1) obtain ks m where "tp_last_cseq c = base + of_nat m" "dialog_numbers (tp_sent c) = map (\<lambda>k. base + of_nat k) ks"
    "sorted_wrt (<) ks" "set ks \<subseteq> {1..m}" unfolding numbered_def by blast
  with assms(2,3) show ?thesis unfolding numbered_def
    by (intro exI [of _ ks] exI [of _ "Suc m"]) (auto simp: add.commute add.left_commute)
qed

lemma numbered_send:
  assumes "numbered base c" and "tp_last_cseq c' = tp_last_cseq c + 1" and "tp_sent c' = tp_sent c @ ms"
    and "dialog_numbers ms = [tp_last_cseq c + 1]"
  shows "numbered base c'"
proof -
  from assms(1) obtain ks m where k: "tp_last_cseq c = base + of_nat m" "dialog_numbers (tp_sent c) = map (\<lambda>k. base + of_nat k) ks"
    "sorted_wrt (<) ks" "set ks \<subseteq> {1..m}" unfolding numbered_def by blast
  then have "sorted_wrt (<) (ks @ [Suc m])" "set (ks @ [Suc m]) \<subseteq> {1..Suc m}"
    by (auto simp: sorted_wrt_append)
  with k assms(2-4) show ?thesis unfolding numbered_def
    by (intro exI [of _ "ks @ [Suc m]"] exI [of _ "Suc m"]) (simp add: dialog_numbers_append add.commute add.left_commute)
qed

lemma numbered_cong: "numbered base c \<Longrightarrow> tp_last_cseq c' = tp_last_cseq c \<Longrightarrow> tp_sent c' = tp_sent c \<Longrightarrow> numbered base c'"
  by (simp add: numbered_def)

lemma SendNotify_numbered:
  assumes "numbered base c" and "SendNotify tx es ev status c = Returns (c', err)"
  shows "numbered base c'"
proof -
  have one: "dialog_numbers [SentNotify r n st] = [n]" for r n st by (simp add: dialog_numbers_def map_filter_def)
  from assms(2) have "c' = c \<or> c' = c\<lparr>tp_last_cseq := tp_last_cseq c + 1\<rparr> \<or>
      (\<exists>r. c' = c\<lparr>tp_last_cseq := tp_last_cseq c + 1, tp_sent := tp_sent c @ [SentNotify r (tp_last_cseq c + 1) status]\<rparr>)"
    by (auto simp: SendNotify_def bind_outcome_Returns Let_def split: option.splits)
  with assms(1) show ?thesis
    by (auto intro: numbered_skip numbered_send simp: one)
qed

lemma sendBye_numbered:
  assumes "numbered base c" and "peer_sendBye lib tx invite resp c = Returns c'"
  shows "numbered base c'"
proof (cases "fst tx")
  case None
  with assms(2) obtain r ms where "tp_last_cseq c' = tp_last_cseq c + 1"
    and sent: "tp_sent c' = tp_sent c @ (SentBye r (tp_last_cseq c + 1) # ms)" and ms: "set ms \<subseteq> {SentByeAck}"
    by (auto simp: peer_sendBye_def Let_def split: option.splits if_splits bye_event.splits)
  from ms have "dialog_numbers (SentBye r (tp_last_cseq c + 1) # ms) = [tp_last_cseq c + 1]"
    by (induction ms) (auto simp: dialog_numbers_def map_filter_def)
  with assms(1) \<open>tp_last_cseq c' = _\<close> sent show ?thesis by (rule numbered_send)
next
  case (Some e)
  with assms(2) have "c' = c\<lparr>tp_last_cseq := tp_last_cseq c + 1\<rparr>" by (simp add: peer_sendBye_def Let_def split: if_splits)
  with assms(1) show ?thesis by (auto intro: numbered_skip)
qed

lemma hangup_numbered:
  assumes "numbered base c" and "peer_hangup lib tx c = Returns c'"
  shows "numbered base c'"
proof (cases "tp_response c")
  case None
  with assms show ?thesis by (simp add: peer_hangup_def)
next
  case (Some resp)
  with assms(2) obtain i t where "peer_sendBye lib tx i resp c = Returns t" "c' = t\<lparr>tp_invite := None, tp_response := None\<rparr>"
    by (cases "tp_invite c") (auto simp: peer_hangup_def bind_outcome_Returns)
  with assms(1) sendBye_numbered [of base c lib tx i resp t] show ?thesis by (auto intro: numbered_cong)
qed

lemma peer_Close_numbered:
  assumes "numbered base c" and "peer_Close lib tx c = Returns c'"
  shows "numbered base c'"
proof (cases "tp_closed c")
  case True
  with assms show ?thesis by (simp add: peer_Close_def)
next
  case False
  with assms(2) obtain conn t where "peer_hangup lib tx (c\<lparr>tp_closed := True, tp_conn := conn\<rparr>) = Returns t"
    and c': "tp_last_cseq c' = tp_last_cseq t" "tp_sent c' = tp_sent t"
    by (auto simp: peer_Close_def bind_outcome_Returns)
  moreover from assms(1) have "numbered base (c\<lparr>tp_closed := True, tp_conn := conn\<rparr>)" by (rule numbered_cong) simp_all
  ultimately have "numbered base t" by (blast intro: hangup_numbered)
  then show ?thesis using c' by (rule numbered_cong)
qed

interpretation peer_numbers: outcome_system peer_step "numbered base" "\<lambda>_. True" for base
proof
  fix c c' :: test_peer and e
  assume "numbered base c" "peer_step e c = Returns c'"
  then show "numbered base c'"
    by (cases "(e, c)" rule: peer_step.cases) (auto simp: bind_outcome_Returns intro: SendNotify_numbered peer_Close_numbered)
qed

text \<open>
  After a call was made, whatever NOTIFYs are sent and however it is closed, the numbers in the
  dialog rise from the number of the INVITE, without a repetition.
\<close>

lemma peer_numbers_rise:
  assumes "dial_accepted lib now req resp c = Returns (s, None)" and "or_cseq req = Some base" and "dialog_numbers (tp_sent c) = []"
    and "runs peer_step s es s'"
  shows "numbered base s'"
proof -
  have "dialog_numbers [SentAck] = []" by (simp add: dialog_numbers_def map_filter_def)
  with dial_accepted_effect [OF assms(1)] assms(2,3) have "tp_last_cseq s = base" "dialog_numbers (tp_sent s) = []"
    by (simp_all add: dialog_numbers_append)
  then have "numbered base s" unfolding numbered_def by (intro exI [of _ "[]"] exI [of _ 0]) simp
  with assms(4) show ?thesis by (rule peer_numbers.runs_inv) simp
qed

section \<open>The offer and the audio\<close>

text \<open>\<open>createOffer\<close>: the description that is marshalled; the session identifier is drawn.\<close>

record peer_offer =
  po_session_id :: "64 word"
  po_origin_address :: string
  po_connection_address :: string
  po_name :: string
  po_media :: string
  po_port :: int
  po_protos :: "string list"
  po_formats :: "string list"
  po_attributes :: "(string \<times> string) list"

definition createOffer :: "64 word \<Rightarrow> int \<Rightarrow> string \<Rightarrow> test_peer \<Rightarrow> peer_offer" where
  "createOffer sessionId port dtmfName c =
     \<lparr>po_session_id = sessionId, po_origin_address = ip_text (tc_ip (tp_conf c)),
      po_connection_address = ip_text (tc_ip (tp_conf c)), po_name = ''LiveKit'', po_media = ''audio'', po_port = port,
      po_protos = [''RTP'', ''AVP''], po_formats = [itoa (tp_audio_type c) @ '' 101''],
      po_attributes = [(''rtpmap'', itoa (tp_audio_type c) @ '' '' @ co_sdp_name (tp_codec c)),
                       (''rtpmap'', ''101 '' @ dtmfName)]\<rparr>"

text \<open>
  \<open>setupRTPReceiver\<close>: what is not a DTMF packet leaves its timestamp; a DTMF packet more than a
  second of samples away from the last one left is dropped, and otherwise decoded for the callback.
\<close>

definition dtmf_in_sync :: "int \<Rightarrow> 32 word \<Rightarrow> 32 word \<Rightarrow> bool" where
  "dtmf_in_sync rate prev ts =
     (let diff = (if 0 < prev then uint ts - uint prev else 0)
      in \<not> (rate < diff \<or> diff < - rate))"

definition receive_audio :: "32 word \<Rightarrow> 32 word \<Rightarrow> 32 word" where
  "receive_audio ts prev = ts"

definition receive_dtmf :: "('p \<Rightarrow> 'e option) \<Rightarrow> test_peer \<Rightarrow> 32 word \<Rightarrow> 'p \<Rightarrow> 32 word \<Rightarrow> 'e option" where
  "receive_dtmf decode c ts payload prev =
     (if \<not> dtmf_in_sync (co_clock_rate (tp_codec c)) prev ts then None
      else if \<not> tc_on_dtmf (tp_conf c) then None
      else decode payload)"

text \<open>
  Close to an audio packet a DTMF packet is in sync, but for the moment the timestamps wrap
  around: then it is dropped, as the difference is taken without the width of a timestamp.
\<close>

lemma dtmf_near_audio:
  assumes "0 < n" and "n \<le> rate" and "uint prev + n < 2 ^ 32"
  shows "dtmf_in_sync rate prev (prev + word_of_int n)"
proof -
  have "n < 2 ^ 32" using assms(3) uint_ge_0 [of prev] by linarith
  with assms uint_ge_0 [of prev] have "uint (prev + word_of_int n) = uint prev + n"
    by (simp add: uint_word_ariths uint_word_of_int take_bit_eq_mod)
  with assms show ?thesis by (simp add: dtmf_in_sync_def)
qed

lemma dtmf_dropped_at_wrap:
  assumes "0 < n" and "n < uint prev" and "2 ^ 32 \<le> uint prev + n" and "rate < 2 ^ 32 - n"
  shows "\<not> dtmf_in_sync rate prev (prev + word_of_int n)"
proof -
  have prev: "uint prev < 2 ^ 32" using uint_bounded [of prev] by simp
  then have "uint (prev + word_of_int n) = (uint prev + n) mod 2 ^ 32"
    using assms by (simp add: uint_word_ariths uint_word_of_int take_bit_eq_mod)
  also have "\<dots> = (uint prev + n - 2 ^ 32) mod 2 ^ 32"
    using assms(3) by (intro mod_pos_geq) simp_all
  also have "\<dots> = uint prev + n - 2 ^ 32"
    using prev assms(2,3) by (intro mod_pos_pos_trivial) linarith+
  finally show ?thesis using assms prev by (auto simp: dtmf_in_sync_def word_less_alt)
qed

text \<open>\<open>SendAudio\<close>: a frame is a list of bytes, two for a sample; an odd one panics.\<close>

fun frame_samples :: "8 word list \<Rightarrow> 16 word list outcome" where
  "frame_samples [] = Returns []"
| "frame_samples [b] = Panics"
| "frame_samples (lo # hi # bs) =
     bind_outcome (frame_samples bs) (\<lambda>ss. Returns ((push_bit 8 (ucast hi) OR ucast lo) # ss))"

fun audio_frames :: "8 word list list \<Rightarrow> 16 word list list outcome" where
  "audio_frames [] = Returns []"
| "audio_frames (f # fs) =
     bind_outcome (frame_samples f) (\<lambda>s. bind_outcome (audio_frames fs) (\<lambda>ss. Returns (s # ss)))"

fun write_frames :: "('w \<Rightarrow> 's \<Rightarrow> 'w \<times> go_error option) \<Rightarrow> 's list \<Rightarrow> 'w \<Rightarrow> 'w \<times> go_error option" where
  "write_frames wr [] w = (w, None)"
| "write_frames wr (f # fs) w =
     (case wr w f of
        (w, Some e) \<Rightarrow> (w, Some e)
      | (w, None) \<Rightarrow> write_frames wr fs w)"

text \<open>The result of reading the file is an error of unmarshalling it, or its frames.\<close>

definition SendAudio ::
  "('w \<Rightarrow> 16 word list \<Rightarrow> 'w \<times> go_error option) \<Rightarrow> (go_error + 8 word list list) option \<Rightarrow> 'w
   \<Rightarrow> ('w \<times> go_error option) outcome" where
  "SendAudio wr file w =
     (case file of
        None \<Rightarrow> Panics
      | Some (Inl e) \<Rightarrow> Returns (w, Some e)
      | Some (Inr fs) \<Rightarrow> bind_outcome (audio_frames fs) (\<lambda>ss. Returns (write_frames wr ss w)))"

definition sample_bytes :: "16 word \<Rightarrow> 8 word list" where
  "sample_bytes s = [ucast s, ucast (drop_bit 8 s)]"

text \<open>A frame of samples, low byte first, is read back as the samples.\<close>

lemma frame_samples_bytes: "frame_samples (concat (map sample_bytes ss)) = Returns ss"
proof (induction ss)
  case Nil
  show ?case by simp
next
  case (Cons s ss)
  have "push_bit 8 (ucast (ucast (drop_bit 8 s) :: 8 word)) OR ucast (ucast s :: 8 word) = s"
    by (rule bit_eqI) (auto simp: bit_simps)
  with Cons show ?case by (simp add: sample_bytes_def)
qed

text \<open>
  \<open>SendSignal\<close> and \<open>SendSilence\<close> write the same frame on every tick until the context is done; with
  a number of frames, only so many. An event of the wait is a tick or the end of the context.
\<close>

datatype send_event = SendTick | SendCtxDone go_error

fun SendSignal ::
  "('w \<Rightarrow> 's \<Rightarrow> 'w \<times> go_error option) \<Rightarrow> int \<Rightarrow> 's \<Rightarrow> int \<Rightarrow> send_event list \<Rightarrow> 'w \<Rightarrow> ('w \<times> go_error option) outcome" where
  "SendSignal wr n signal i es w =
     (if 0 < n \<and> n \<le> i then Returns (w, None)
      else case es of
             [] \<Rightarrow> Blocked
           | SendCtxDone e # es \<Rightarrow> Returns (w, if n \<le> 0 then None else Some e)
           | SendTick # es \<Rightarrow>
               (case wr w signal of
                  (w, Some e) \<Rightarrow> Returns (w, Some e)
                | (w, None) \<Rightarrow> SendSignal wr n signal (i + 1) es w))"

fun SendSilence ::
  "('w \<Rightarrow> 's \<Rightarrow> 'w \<times> go_error option) \<Rightarrow> 's \<Rightarrow> send_event list \<Rightarrow> 'w \<Rightarrow> ('w \<times> go_error option) outcome" where
  "SendSilence wr buf [] w = Blocked"
| "SendSilence wr buf (SendCtxDone e # es) w = Returns (w, None)"
| "SendSilence wr buf (SendTick # es) w =
     (case wr w buf of
        (w, Some e) \<Rightarrow> Returns (w, Some e)
      | (w, None) \<Rightarrow> SendSilence wr buf es w)"

declare SendSignal.simps [simp del]

text \<open>With a writer that does not fail and enough ticks, exactly the number of frames asked for is written.\<close>

lemma SendSignal_exact:
  assumes "i \<le> n" and "nat (n - i) \<le> k" and "0 < n"
  shows "SendSignal (\<lambda>w s. (w @ [s], None)) n signal i (replicate k SendTick @ es) w
     = Returns (w @ replicate (nat (n - i)) signal, None)"
  using assms
proof (induction k arbitrary: i w)
  case 0
  then have "n = i" by simp
  with assms(3) show ?case by (simp add: SendSignal.simps)
next
  case (Suc k)
  show ?case
  proof (cases "i = n")
    case True
    with assms(3) show ?thesis by (simp add: SendSignal.simps)
  next
    case False
    with Suc.prems have "nat (n - i) = Suc (nat (n - (i + 1)))" by simp
    moreover have "SendSignal (\<lambda>w s. (w @ [s], None)) n signal i (replicate (Suc k) SendTick @ es) w
        = SendSignal (\<lambda>w s. (w @ [s], None)) n signal (i + 1) (replicate k SendTick @ es) (w @ [signal])"
      using False Suc.prems by (subst SendSignal.simps) simp
    ultimately show ?thesis
      using Suc.IH [of "i + 1" "w @ [signal]"] False Suc.prems by (simp del: replicate_Suc add: replicate_Suc [symmetric])
  qed
qed

section \<open>Waiting for signals\<close>

text \<open>
  A signal is an index and an amplitude. What is found in a frame comes strongest first; the
  order of equal indices does not matter, as every amplitude is held against the same bounds.
\<close>

record wave =
  wv_ind :: int
  wv_amp :: int

definition signalAmp :: int where "signalAmp = 32767 div 4"
definition signalAmpMin :: int where "signalAmpMin = signalAmp - signalAmp div 4"
definition signalAmpMax :: int where "signalAmpMax = signalAmp + signalAmp div 10"

definition signals_match :: "wave list \<Rightarrow> int list \<Rightarrow> bool" where
  "signals_match found vals \<longleftrightarrow>
     length vals \<le> length found \<and>
     list_all2 (\<lambda>w v. wv_ind w = v \<and> signalAmpMin \<le> wv_amp w \<and> wv_amp w \<le> signalAmpMax)
       (sort_key wv_ind (take (length vals) found)) vals"

text \<open>
  \<open>WaitSignals\<close>: the packets of the channel and the end of the context; \<open>decode\<close> is the codec's error
  or the samples, \<open>write\<close> the error of the recording if there is one.
\<close>

datatype hear_event = WaitPacket rtp_packet | WaitCtxDone go_error

fun WaitSignals ::
  "int \<Rightarrow> (rtp_packet \<Rightarrow> go_error + int list) \<Rightarrow> (int list \<Rightarrow> go_error option) option \<Rightarrow> (int list \<Rightarrow> wave list)
   \<Rightarrow> int list \<Rightarrow> hear_event list \<Rightarrow> go_error option outcome" where
  "WaitSignals audioType decode write detect vals [] = Blocked"
| "WaitSignals audioType decode write detect vals (WaitCtxDone e # es) = Returns (Some e)"
| "WaitSignals audioType decode write detect vals (WaitPacket p # es) =
     (if rp_type p \<noteq> audioType then WaitSignals audioType decode write detect vals es
      else case decode p of
             Inl e \<Rightarrow> Returns (Some e)
           | Inr decoded \<Rightarrow>
               (case (case write of None \<Rightarrow> None | Some wr \<Rightarrow> wr decoded) of
                  Some e \<Rightarrow> Returns (Some e)
                | None \<Rightarrow>
                    if \<forall>v\<in>set decoded. v = 0 then WaitSignals audioType decode write detect vals es
                    else if signals_match (detect decoded) vals then Returns None
                    else WaitSignals audioType decode write detect vals es))"

text \<open>
  Success means that a packet of the audio held exactly the signals waited for, in rising order
  of their index and each within the bounds, as its strongest ones.
\<close>

lemma wait_signals_heard:
  assumes "WaitSignals audioType decode write detect vals es = Returns None"
  shows "\<exists>p decoded. WaitPacket p \<in> set es \<and> rp_type p = audioType \<and> decode p = Inr decoded
     \<and> sorted vals \<and> mset (map wv_ind (take (length vals) (detect decoded))) = mset vals
     \<and> (\<forall>w\<in>set (take (length vals) (detect decoded)). signalAmpMin \<le> wv_amp w \<and> wv_amp w \<le> signalAmpMax)"
  using assms
proof (induction es)
  case Nil
  then show ?case by simp
next
  case (Cons e es)
  show ?case
  proof (cases "WaitSignals audioType decode write detect vals es = Returns None")
    case True
    with Cons.IH show ?thesis by auto
  next
    case False
    with Cons.prems obtain p decoded where p: "e = WaitPacket p" "rp_type p = audioType" "decode p = Inr decoded"
      and m: "signals_match (detect decoded) vals"
      by (cases e) (auto split: if_splits sum.splits option.splits)
    define ws where "ws = take (length vals) (detect decoded)"
    from m have l: "list_all2 (\<lambda>w v. wv_ind w = v \<and> signalAmpMin \<le> wv_amp w \<and> wv_amp w \<le> signalAmpMax) (sort_key wv_ind ws) vals"
      by (simp add: signals_match_def ws_def)
    then have "map wv_ind (sort_key wv_ind ws) = vals"
      by (auto simp: list_all2_conv_all_nth intro: nth_equalityI)
    then have "sorted vals" "mset (map wv_ind ws) = mset vals"
      by (metis sorted_sort_key, metis mset_map mset_sort)
    moreover have "\<forall>w\<in>set ws. signalAmpMin \<le> wv_amp w \<and> wv_amp w \<le> signalAmpMax"
    proof
      fix w assume "w \<in> set ws"
      then obtain i where "i < length (sort_key wv_ind ws)" "w = sort_key wv_ind ws ! i" by (metis in_set_conv_nth set_sort)
      with list_all2_nthD [OF l this(1)] show "signalAmpMin \<le> wv_amp w \<and> wv_amp w \<le> signalAmpMax" by simp
    qed
    ultimately show ?thesis using p unfolding ws_def by (intro exI [of _ p] exI [of _ decoded]) simp
  qed
qed

end
